(* ===== verification/Umber_Prelude.thy ===== *)
theory Umber_Prelude
  imports Main "HOL-Library.Signed_Division" "HOL-Library.Word"
begin

text \<open>
  Shared vocabulary of the development.

  \<^item> Rust integers. An \<open>i32\<close>, \<open>i64\<close> or \<open>i128\<close> value is an \<open>int\<close> together with a range
    predicate (\<open>in_i32\<close>, \<open>in_i64\<close>); a \<open>usize\<close> is a \<open>nat\<close>. The checked operations return
    \<open>option\<close>; \<open>wrap32\<close> is the two's-complement wrap-around of an unchecked \<open>i32\<close> operation.
    Rust's \<open>/\<close> and \<open>%\<close> truncate toward zero, which is \<open>sdiv\<close> and \<open>smod\<close> of
    \<open>HOL-Library.Signed_Division\<close>.
  \<^item> Fallible code. \<open>outcome\<close> has one constructor per way a Rust call can end: \<open>Ok\<close>, \<open>Err\<close> and
    \<open>Panic\<close> (a failed \<open>assert!\<close>, \<open>expect\<close> or out-of-range index).
  \<^item> The generic lemmas on truncating division, greatest common divisors, folds and list updates
    that more than one component uses.
\<close>

named_theorems int_range_defs \<open>definitions of the machine-integer ranges\<close>
named_theorems outcome_simps \<open>rules that evaluate a sequence of fallible calls\<close>

section \<open>Machine integers\<close>

definition i32_min :: int where "i32_min = - (2 ^ 31)"
definition i32_max :: int where "i32_max = 2 ^ 31 - 1"
definition i64_min :: int where "i64_min = - (2 ^ 63)"
definition i64_max :: int where "i64_max = 2 ^ 63 - 1"

definition in_i32 :: "int \<Rightarrow> bool" where
  "in_i32 x \<longleftrightarrow> i32_min \<le> x \<and> x \<le> i32_max"

definition in_i64 :: "int \<Rightarrow> bool" where
  "in_i64 x \<longleftrightarrow> i64_min \<le> x \<and> x \<le> i64_max"

lemmas [int_range_defs] = in_i32_def in_i64_def i32_min_def i32_max_def i64_min_def i64_max_def

definition wrap32 :: "int \<Rightarrow> int" where
  "wrap32 x = (x + 2 ^ 31) mod 2 ^ 32 - 2 ^ 31"

definition checked32 :: "int \<Rightarrow> int option" where
  "checked32 x = (if in_i32 x then Some x else None)"

definition checked64 :: "int \<Rightarrow> int option" where
  "checked64 x = (if in_i64 x then Some x else None)"

lemma wrap32_id: "in_i32 x \<Longrightarrow> wrap32 x = x"
  by (simp add: wrap32_def int_range_defs)

lemma in_i32_wrap32: "in_i32 (wrap32 x)"
proof -
  have "0 \<le> (x + 2 ^ 31) mod (2 ^ 32 :: int)" and "(x + 2 ^ 31) mod (2 ^ 32 :: int) < 2 ^ 32"
    by simp_all
  then show ?thesis by (simp add: wrap32_def int_range_defs)
qed

lemma in_i32_iff: "in_i32 x \<longleftrightarrow> -2147483648 \<le> x \<and> x \<le> 2147483647"
  by (simp add: int_range_defs)

lemma in_i64_iff: "in_i64 x \<longleftrightarrow> -9223372036854775808 \<le> x \<and> x \<le> 9223372036854775807"
  by (simp add: int_range_defs)

lemma checked32_eq_Some [simp]: "checked32 x = Some y \<longleftrightarrow> in_i32 x \<and> y = x"
  by (auto simp: checked32_def)

lemma checked32_eq_None [simp]: "checked32 x = None \<longleftrightarrow> \<not> in_i32 x"
  by (simp add: checked32_def)

lemma checked64_eq_Some [simp]: "checked64 x = Some y \<longleftrightarrow> in_i64 x \<and> y = x"
  by (auto simp: checked64_def)

lemma checked64_eq_None [simp]: "checked64 x = None \<longleftrightarrow> \<not> in_i64 x"
  by (simp add: checked64_def)

text \<open>A \<open>u8\<close>.\<close>

type_synonym byte = "8 word"

section \<open>Truncating division\<close>

lemma sdiv_nonneg: "0 \<le> a \<Longrightarrow> 0 < b \<Longrightarrow> (a :: int) sdiv b = a div b"
  by (cases "a = 0") (simp_all add: signed_divide_int_def)

lemma smod_nonneg: "0 \<le> a \<Longrightarrow> 0 < b \<Longrightarrow> (a :: int) smod b = a mod b"
  by (cases "a = 0") (simp_all add: signed_modulo_int_def)

lemma sdiv_neg: "a < 0 \<Longrightarrow> 0 < b \<Longrightarrow> (a :: int) sdiv b = - ((- a) div b)"
  by (simp add: signed_divide_int_def)

lemma sdiv_pos_cases: "0 < b \<Longrightarrow> (a :: int) sdiv b = (if 0 \<le> a then a div b else - ((- a) div b))"
  by (simp add: sdiv_nonneg sdiv_neg)

lemma smod_pos_cases: "0 < b \<Longrightarrow> (a :: int) smod b = (if 0 \<le> a then a mod b else - ((- a) mod b))"
  by (cases "a = 0") (simp_all add: signed_modulo_int_def)

lemmas rust_div_simps = sdiv_nonneg smod_nonneg

lemma smod_abs_less: "n \<noteq> 0 \<Longrightarrow> \<bar>(x :: int) smod n\<bar> < \<bar>n\<bar>"
  using pos_mod_bound [of "\<bar>n\<bar>" "\<bar>x\<bar>"] pos_mod_sign [of "\<bar>n\<bar>" "\<bar>x\<bar>"]
  by (auto simp: signed_modulo_int_def abs_mult sgn_if)

lemma smod_sign: "0 \<le> ((x :: int) smod n) * x"
proof (cases "n = 0")
  case False
  then have "0 \<le> \<bar>x\<bar> mod \<bar>n\<bar>" by simp
  then have "0 \<le> (\<bar>x\<bar> mod \<bar>n\<bar>) * \<bar>x\<bar>" by simp
  then show ?thesis
    by (cases "x = 0") (auto simp: signed_modulo_int_def sgn_if abs_if)
qed simp

lemma sdiv_overflow_iff:
  assumes "in_i32 x" and "in_i32 n"
  shows "\<not> in_i32 (x sdiv n) \<longleftrightarrow> x = i32_min \<and> n = -1"
proof
  assume over: "\<not> in_i32 (x sdiv n)"
  have "n \<noteq> 0" using over by (auto simp: in_i32_iff)
  moreover have "\<bar>n\<bar> < 2"
  proof (rule ccontr)
    assume "\<not> \<bar>n\<bar> < 2"
    then have "\<bar>x\<bar> div \<bar>n\<bar> \<le> \<bar>x\<bar> div 2" by (intro zdiv_mono2) auto
    moreover have "\<bar>x sdiv n\<bar> \<le> \<bar>x\<bar> div \<bar>n\<bar>"
      using \<open>n \<noteq> 0\<close> pos_imp_zdiv_nonneg_iff [of "\<bar>n\<bar>" "\<bar>x\<bar>"]
      by (simp only: signed_divide_int_def abs_mult abs_sgn_eq) auto
    moreover have "\<bar>x\<bar> div 2 \<le> 1073741824" using assms(1) by (auto simp: in_i32_iff)
    ultimately show False using over by (auto simp: in_i32_iff abs_le_iff)
  qed
  ultimately have "n = 1 \<or> n = -1" by arith
  then show "x = i32_min \<and> n = -1" using over assms(1) by (auto simp: int_range_defs)
qed (auto simp: int_range_defs)

lemma le_div_iff_mult_le:
  assumes "0 < (b :: int)"
  shows "x \<le> a div b \<longleftrightarrow> b * x \<le> a"
proof
  assume "x \<le> a div b"
  with assms have "b * x \<le> b * (a div b)" by simp
  also have "\<dots> \<le> a"
    using assms by (metis add_increasing2 mult_div_mod_eq order_refl pos_mod_sign)
  finally show "b * x \<le> a" .
next
  assume "b * x \<le> a"
  with assms have "(b * x) div b \<le> a div b" by (intro zdiv_mono1)
  with assms show "x \<le> a div b" by simp
qed

lemma div_less_iff_less_mult:
  "0 < (b :: int) \<Longrightarrow> a div b < x \<longleftrightarrow> a < b * x"
  using le_div_iff_mult_le [of b x a] by linarith

lemma div_eq_iff_bounds:
  "0 < (b :: int) \<Longrightarrow> a div b = q \<longleftrightarrow> b * q \<le> a \<and> a < b * q + b"
  using le_div_iff_mult_le [of b q a] div_less_iff_less_mult [of b a "q + 1"]
  by (auto simp: algebra_simps)

section \<open>Outcomes of Rust calls\<close>

text \<open>
  \<open>Result\<close>-returning functions end in \<open>Ok\<close> or \<open>Err\<close>; \<open>Panic\<close> is an unwinding call. Functions that
  can panic but return no \<open>Result\<close> have type \<open>'a panicking\<close>.
\<close>

datatype ('e, 'a) outcome = Ok 'a | Err 'e | Panic

text \<open>A call that returns a plain value or panics.\<close>

type_synonym 'a panicking = "(unit, 'a) outcome"

fun obind :: "('e, 'a) outcome \<Rightarrow> ('a \<Rightarrow> ('e, 'b) outcome) \<Rightarrow> ('e, 'b) outcome" where
  "obind (Ok a) f = f a"
| "obind (Err e) f = Err e"
| "obind Panic f = Panic"

fun omap_err :: "('e \<Rightarrow> 'f) \<Rightarrow> ('e, 'a) outcome \<Rightarrow> ('f, 'a) outcome" where
  "omap_err g (Ok a) = Ok a"
| "omap_err g (Err e) = Err (g e)"
| "omap_err g Panic = Panic"

text \<open>\<open>expect\<close> on an \<open>Option\<close>, \<open>ok_or\<close>, and \<open>expect\<close> on a \<open>Result\<close>.\<close>

fun expect_some :: "'a option \<Rightarrow> ('e, 'a) outcome" where
  "expect_some None = Panic"
| "expect_some (Some a) = Ok a"

fun ok_or :: "'e \<Rightarrow> 'a option \<Rightarrow> ('e, 'a) outcome" where
  "ok_or e None = Err e"
| "ok_or e (Some a) = Ok a"

fun expect_ok :: "('e, 'a) outcome \<Rightarrow> ('f, 'a) outcome" where
  "expect_ok (Ok a) = Ok a"
| "expect_ok (Err e) = Panic"
| "expect_ok Panic = Panic"

lemma obind_eq_Ok: "obind m f = Ok b \<longleftrightarrow> (\<exists>a. m = Ok a \<and> f a = Ok b)"
  by (cases m) simp_all

lemma obind_eq_Err: "obind m f = Err e \<longleftrightarrow> m = Err e \<or> (\<exists>a. m = Ok a \<and> f a = Err e)"
  by (cases m) auto

lemma obind_eq_Panic: "obind m f = Panic \<longleftrightarrow> m = Panic \<or> (\<exists>a. m = Ok a \<and> f a = Panic)"
  by (cases m) auto

lemma omap_err_eq_Ok [simp]: "omap_err g m = Ok a \<longleftrightarrow> m = Ok a"
  by (cases m) simp_all

lemma omap_err_eq_Panic [simp]: "omap_err g m = Panic \<longleftrightarrow> m = Panic"
  by (cases m) simp_all

lemma expect_some_eq_Ok [simp]: "expect_some v = Ok a \<longleftrightarrow> v = Some a"
  by (cases v) simp_all

lemma expect_some_eq_Err [simp]: "expect_some v \<noteq> Err e"
  by (cases v) simp_all

lemma expect_some_eq_Panic [simp]: "expect_some v = Panic \<longleftrightarrow> v = None"
  by (cases v) simp_all

lemma ok_or_eq_Ok [simp]: "ok_or e v = Ok a \<longleftrightarrow> v = Some a"
  by (cases v) simp_all

lemma ok_or_eq_Err [simp]: "ok_or e v = Err e' \<longleftrightarrow> v = None \<and> e' = e"
  by (cases v) auto

lemma ok_or_eq_Panic [simp]: "ok_or e v \<noteq> Panic"
  by (cases v) simp_all

lemma expect_ok_eq_Ok [simp]: "expect_ok m = Ok a \<longleftrightarrow> m = Ok a"
  by (cases m) simp_all

lemmas outcome_inverts [outcome_simps] = obind_eq_Ok obind_eq_Err obind_eq_Panic

text \<open>
  What holds after a call: \<open>owp p m Q\<close> says that \<open>m\<close> ends in a value that satisfies \<open>Q\<close>, in an error, or, when \<open>p\<close>
  allows it, in a panic.
\<close>

definition owp :: "bool \<Rightarrow> ('e, 'a) outcome \<Rightarrow> ('a \<Rightarrow> bool) \<Rightarrow> bool" where
  "owp p m Q = (case m of Ok a \<Rightarrow> Q a | Err e \<Rightarrow> True | Panic \<Rightarrow> p)"

lemma owp_simps [simp]: "owp p (Ok a) Q = Q a" "owp p (Err e) Q" "owp p Panic Q = p"
  by (simp_all add: owp_def)

lemma owp_obind [simp]: "owp p (obind m f) Q = owp p m (\<lambda>a. owp p (f a) Q)"
  by (cases m) simp_all

lemma owp_omap_err [simp]: "owp p (omap_err g m) Q = owp p m Q"
  by (cases m) simp_all

lemma owp_ok_or [simp]: "owp p (ok_or e v) Q = (\<forall>a. v = Some a \<longrightarrow> Q a)"
  by (cases v) simp_all

lemma owp_mono: "owp p m Q \<Longrightarrow> (\<And>a. Q a \<Longrightarrow> Q' a) \<Longrightarrow> owp p m Q'"
  by (cases m) simp_all

lemma owp_conj: "owp p m Q \<Longrightarrow> owp p m R \<Longrightarrow> owp p m (\<lambda>x. Q x \<and> R x)"
  by (cases m) auto

lemma owp_Ok: "owp p m Q \<Longrightarrow> m = Ok a \<Longrightarrow> Q a"
  by simp

end
