(* ===== verification/Scaled_Arith.thy ===== *)
theory Scaled_Arith
  imports Umber_Prelude
begin

text \<open>
  The scaled-point arithmetic of \<^verbatim>\<open>crates/tex-arith/src/lib.rs\<close>: the checked, saturating and
  widened operations on \<open>Scaled\<close>, TeX's \<open>half\<close>, \<open>mult_and_add\<close>, \<open>x_over_n\<close> and \<open>xn_over_d\<close>, and the
  two rounding divisions. A \<open>Scaled\<close> is its raw \<open>i32\<close>; intermediate \<open>i64\<close>/\<open>i128\<close> values are exact
  integers, and \<open>wide_product_fits\<close> shows that no widened product leaves \<open>i64\<close>.
\<close>

section \<open>Stored and widened scaled values\<close>

type_synonym scaled = int

definition UNITY :: int where "UNITY = 65536"
definition MAX_DIMEN :: scaled where "MAX_DIMEN = 2 ^ 30 - 1"

datatype DimensionError = TooLarge
datatype ArithmeticError = Overflow | DivisionByZero

definition scaled_checked_add :: "scaled \<Rightarrow> scaled \<Rightarrow> scaled option" where
  "scaled_checked_add a b = checked32 (a + b)"

definition scaled_checked_sub :: "scaled \<Rightarrow> scaled \<Rightarrow> scaled option" where
  "scaled_checked_sub a b = checked32 (a - b)"

definition scaled_checked_neg :: "scaled \<Rightarrow> scaled option" where
  "scaled_checked_neg a = checked32 (- a)"

definition check_dimension :: "scaled \<Rightarrow> (DimensionError, scaled) outcome" where
  "check_dimension a = (if a \<ge> 2 ^ 30 \<or> a \<le> - (2 ^ 30) then Err TooLarge else Ok a)"

text \<open>The operator traits \<open>Add\<close>, \<open>Sub\<close> and \<open>Neg\<close> panic where the checked form fails.\<close>

definition scaled_add :: "scaled \<Rightarrow> scaled \<Rightarrow> scaled panicking" where
  "scaled_add a b = expect_some (scaled_checked_add a b)"

definition scaled_sub :: "scaled \<Rightarrow> scaled \<Rightarrow> scaled panicking" where
  "scaled_sub a b = expect_some (scaled_checked_sub a b)"

definition scaled_neg :: "scaled \<Rightarrow> scaled panicking" where
  "scaled_neg a = expect_some (scaled_checked_neg a)"

definition wide_from_scaled :: "scaled \<Rightarrow> int" where
  "wide_from_scaled a = a"

definition wide_checked_add :: "int \<Rightarrow> int \<Rightarrow> int option" where
  "wide_checked_add a b = checked64 (a + b)"

definition wide_checked_sub :: "int \<Rightarrow> int \<Rightarrow> int option" where
  "wide_checked_sub a b = checked64 (a - b)"

definition wide_to_scaled :: "int \<Rightarrow> scaled option" where
  "wide_to_scaled a = (if a < i32_min \<or> a > i32_max then None else Some a)"

definition scaled_from_widest_saturating :: "int \<Rightarrow> scaled" where
  "scaled_from_widest_saturating v =
     (if v > i32_max then i32_max else if v < i32_min then i32_min else v)"

definition saturating_add :: "scaled \<Rightarrow> scaled \<Rightarrow> scaled" where
  "saturating_add a b = scaled_from_widest_saturating (a + b)"

definition saturating_sub :: "scaled \<Rightarrow> scaled \<Rightarrow> scaled" where
  "saturating_sub a b = scaled_from_widest_saturating (a - b)"

definition saturating_mul :: "int \<Rightarrow> scaled \<Rightarrow> scaled" where
  "saturating_mul f a = scaled_from_widest_saturating (f * a)"

section \<open>TeX's multiplication and division routines\<close>

record XOverN =
  xo_quotient :: scaled
  xo_remainder :: scaled

record XnOverD =
  xn_quotient :: scaled
  xn_remainder :: int

definition half :: "int \<Rightarrow> int" where
  "half x = (if x smod 2 \<noteq> 0 \<and> x > 0 then x sdiv 2 + 1 else x sdiv 2)"

definition mult_and_add :: "int \<Rightarrow> scaled \<Rightarrow> scaled \<Rightarrow> scaled \<Rightarrow> (ArithmeticError, scaled) outcome" where
  "mult_and_add n x y max_answer =
     (let (x, n) = (if n < 0 then (- x, - n) else (x, n))
      in if n = 0 then Ok y
         else if x \<le> (max_answer - y) sdiv n \<and> - x \<le> (max_answer + y) sdiv n
         then (let value = n * x + y in if in_i32 value then Ok value else Err Overflow)
         else Err Overflow)"

definition nx_plus_y :: "int \<Rightarrow> scaled \<Rightarrow> scaled \<Rightarrow> (ArithmeticError, scaled) outcome" where
  "nx_plus_y n x y = mult_and_add n x y MAX_DIMEN"

definition x_over_n :: "scaled \<Rightarrow> int \<Rightarrow> (ArithmeticError, XOverN) outcome" where
  "x_over_n x n =
     (if n = 0 then Err DivisionByZero
      else let negative = (n < 0);
               (x, n) = (if n < 0 then (- x, - n) else (x, n));
               (quotient, remainder) =
                 (if x \<ge> 0 then (x sdiv n, x smod n) else (- ((- x) sdiv n), - ((- x) smod n)));
               remainder = (if negative then - remainder else remainder)
           in if \<not> in_i32 quotient then Err Overflow
              else if \<not> in_i32 remainder then Err Overflow
              else Ok \<lparr>xo_quotient = quotient, xo_remainder = remainder\<rparr>)"

definition XN_OVER_D_RADIX :: int where "XN_OVER_D_RADIX = 32768"

definition xn_over_d :: "scaled \<Rightarrow> int \<Rightarrow> int \<Rightarrow> (DimensionError, XnOverD) outcome" where
  "xn_over_d x n d =
     (if \<not> (0 \<le> n \<and> n \<le> UNITY) then Panic
      else if \<not> (1 \<le> d \<and> d \<le> UNITY) then Panic
      else let positive = (x \<ge> 0);
               x_abs = \<bar>x\<bar>;
               radix = XN_OVER_D_RADIX;
               t = (x_abs smod radix) * n;
               u = (x_abs sdiv radix) * n + t sdiv radix;
               v = (u smod d) * radix + t smod radix
           in if u sdiv d \<ge> radix then Err TooLarge
              else let quotient = radix * (u sdiv d) + v sdiv d;
                       remainder = v smod d;
                       q = (if positive then quotient else - quotient);
                       r = (if positive then remainder else - remainder)
                   in if in_i32 q \<and> in_i32 r
                      then Ok \<lparr>xn_quotient = q, xn_remainder = r\<rparr> else Panic)"

section \<open>Rounding divisions\<close>

text \<open>
  The quotient that \<open>text_accent_delta\<close>, \<open>font_units_to_scaled\<close> and \<open>GlueSetRatio::raw\<close> all compute:
  nearest, with half ties away from zero.
\<close>

definition round_half_away :: "int \<Rightarrow> int \<Rightarrow> int" where
  "round_half_away p d =
     (if p \<ge> 0 then (p + d sdiv 2) sdiv d else - ((- p + d sdiv 2) sdiv d))"

definition text_accent_delta ::
    "scaled \<Rightarrow> scaled \<Rightarrow> scaled \<Rightarrow> scaled \<Rightarrow> scaled \<Rightarrow> scaled \<Rightarrow> scaled" where
  "text_accent_delta base_width accent_width base_height base_slant accent_x_height accent_slant =
     (let numerator = (base_width - accent_width) * UNITY
            + 2 * base_height * base_slant - 2 * accent_x_height * accent_slant;
          denominator = 2 * UNITY
      in scaled_from_widest_saturating (round_half_away numerator denominator))"

definition font_units_to_scaled :: "int \<Rightarrow> scaled \<Rightarrow> int \<Rightarrow> (ArithmeticError, scaled) outcome" where
  "font_units_to_scaled units fsize units_per_em =
     (if units_per_em = 0 then Err DivisionByZero
      else let rounded = round_half_away (units * fsize) units_per_em
           in if in_i32 rounded then Ok rounded else Err Overflow)"

section \<open>Ranges\<close>

lemma wide_product_fits:
  assumes "in_i32 a" and "in_i32 b" and "in_i32 c"
  shows "in_i64 (a * b + c)"
proof -
  have "\<bar>a * b\<bar> \<le> 2147483648 * 2147483648"
    unfolding abs_mult using assms by (intro mult_mono) (auto simp: in_i32_iff)
  with assms(3) show ?thesis by (auto simp: in_i32_iff in_i64_iff abs_le_iff)
qed

lemma in_i32_scaled_from_widest_saturating: "in_i32 (scaled_from_widest_saturating v)"
  by (simp add: scaled_from_widest_saturating_def int_range_defs)

lemma scaled_from_widest_saturating_id: "in_i32 v \<Longrightarrow> scaled_from_widest_saturating v = v"
  by (simp add: scaled_from_widest_saturating_def in_i32_def)

lemma check_dimension_eq_Ok: "check_dimension a = Ok b \<longleftrightarrow> b = a \<and> \<bar>a\<bar> < 2 ^ 30"
  by (auto simp: check_dimension_def abs_less_iff)

lemma half_eq: "half x = (x + 1) div 2"
proof (cases "0 \<le> x")
  case True
  then have "half x = (if x mod 2 \<noteq> 0 \<and> x > 0 then x div 2 + 1 else x div 2)"
    by (simp add: half_def rust_div_simps)
  with True show ?thesis by presburger
next
  case False
  then have "half x = - (- x div 2)" by (simp add: half_def sdiv_neg)
  then show ?thesis by presburger
qed

text \<open>TeX's halving rounds toward plus infinity and never overflows: \<open>half x\<close> is the least
  integer not below \<open>x/2\<close>, for every \<open>i32\<close> including \<open>i32::MAX\<close>.\<close>

lemma half_is_ceiling:
  "2 * half x - 1 \<le> x \<and> x \<le> 2 * half x \<and> (in_i32 x \<longrightarrow> in_i32 (half x))"
  unfolding half_eq in_i32_iff by (intro conjI impI) presburger+

section \<open>Division routines against truncating division\<close>

lemma x_over_n_eq:
  assumes "in_i32 x"
  shows "x_over_n x n =
    (if n = 0 then Err DivisionByZero
     else if \<not> in_i32 (x sdiv n) then Err Overflow
     else Ok \<lparr>xo_quotient = x sdiv n, xo_remainder = x smod n\<rparr>)"
proof (cases "n = 0")
  case True
  then show ?thesis by (simp add: x_over_n_def)
next
  case False
  let ?q = "if n < 0 then (if - x \<ge> 0 then - x sdiv - n else - (x sdiv - n))
            else (if x \<ge> 0 then x sdiv n else - (- x sdiv n))"
  let ?r = "if n < 0 then (if - x \<ge> 0 then - (- x smod - n) else x smod - n)
            else (if x \<ge> 0 then x smod n else - (- x smod n))"
  have q: "?q = x sdiv n" and r: "?r = x smod n"
    using False by (auto simp: signed_divide_int_def signed_modulo_int_def sgn_if)
  have "\<bar>x smod n\<bar> \<le> \<bar>x\<bar>"
    using False by (cases "x = 0") (auto simp: signed_modulo_int_def abs_mult zmod_le_nonneg_dividend)
  moreover have "x < 0 \<Longrightarrow> x smod n \<le> 0"
    using smod_sign [of x n] by (auto simp: zero_le_mult_iff)
  ultimately have "in_i32 (x smod n)"
    using assms unfolding in_i32_iff by linarith
  moreover have "x_over_n x n =
    (if \<not> in_i32 ?q then Err Overflow else if \<not> in_i32 ?r then Err Overflow
     else Ok \<lparr>xo_quotient = ?q, xo_remainder = ?r\<rparr>)"
    using False by (simp add: x_over_n_def Let_def)
  ultimately show ?thesis using False unfolding q r by simp
qed

text \<open>\<open>x_over_n\<close> is exact: for \<open>i32\<close> arguments it fails exactly on a zero divisor and on
  \<open>i32::MIN / -1\<close>, and otherwise returns the quotient rounded toward zero together with the remainder
  that rebuilds \<open>x\<close>, smaller than the divisor and of the sign of \<open>x\<close>.\<close>

lemma x_over_n_exact:
  assumes "in_i32 x" and "in_i32 n"
  shows "(x_over_n x n = Err DivisionByZero \<longleftrightarrow> n = 0)
    \<and> (x_over_n x n = Err Overflow \<longleftrightarrow> x = i32_min \<and> n = -1)
    \<and> (n = 0 \<or> x = i32_min \<and> n = -1
       \<or> (\<exists>r. x_over_n x n = Ok r \<and> xo_quotient r * n + xo_remainder r = x
            \<and> \<bar>xo_remainder r\<bar> < \<bar>n\<bar> \<and> 0 \<le> xo_remainder r * x))"
  using sdiv_overflow_iff [OF assms] assms(1)
  by (auto simp: x_over_n_eq sdiv_mult_smod_eq smod_abs_less smod_sign)

lemma x_over_n_exact_witness:
  "x_over_n (-7) 2 = Ok \<lparr>xo_quotient = -3, xo_remainder = -1\<rparr>
   \<and> x_over_n (-7) 2 \<noteq> Err DivisionByZero"
  using x_over_n_exact [of "-7" 2] by (simp add: x_over_n_def int_range_defs)

lemma xn_over_d_core:
  fixes a n d :: int
  assumes "0 \<le> a" and "0 \<le> n" and "0 < d"
  defines "t \<equiv> (a mod 32768) * n"
  defines "u \<equiv> (a div 32768) * n + t div 32768"
  defines "v \<equiv> (u mod d) * 32768 + t mod 32768"
  shows "32768 * (u div d) + v div d = (a * n) div d"
    and "v mod d = (a * n) mod d"
    and "u div d \<ge> 32768 \<longleftrightarrow> (a * n) div d \<ge> 2 ^ 30"
proof -
  have "32768 * u + t mod 32768 = 32768 * (a div 32768) * n + t"
    unfolding u_def by (simp add: algebra_simps)
  also have "\<dots> = (32768 * (a div 32768) + a mod 32768) * n"
    unfolding t_def by (simp only: distrib_right)
  finally have an: "a * n = 32768 * u + t mod 32768" by simp
  have "32768 * u = 32768 * (d * (u div d) + u mod d)" by simp
  also have "\<dots> = d * (32768 * (u div d)) + u mod d * 32768" by (simp only: algebra_simps)
  finally have anv: "a * n = v + d * (32768 * (u div d))" unfolding v_def an by linarith
  show "32768 * (u div d) + v div d = (a * n) div d" and "v mod d = (a * n) mod d"
    using assms(3) unfolding anv by simp_all
  have u: "(a * n) div 32768 = u" unfolding an by simp
  have "u div d \<ge> 32768 \<longleftrightarrow> (a * n) div (32768 * d) \<ge> 32768"
    using assms(3) by (simp add: zdiv_zmult2_eq u)
  also have "\<dots> \<longleftrightarrow> (a * n) div d \<ge> 2 ^ 30"
    using assms(3) by (simp add: le_div_iff_mult_le algebra_simps)
  finally show "u div d \<ge> 32768 \<longleftrightarrow> (a * n) div d \<ge> 2 ^ 30" .
qed

lemma xn_over_d_eq:
  assumes "0 \<le> n" and "n \<le> UNITY" and "1 \<le> d" and "d \<le> UNITY"
  shows "xn_over_d x n d =
    (if (\<bar>x\<bar> * n) div d \<ge> 2 ^ 30 then Err TooLarge
     else Ok \<lparr>xn_quotient = (x * n) sdiv d, xn_remainder = (x * n) smod d\<rparr>)"
proof -
  let ?q = "(\<bar>x\<bar> * n) div d" and ?r = "(\<bar>x\<bar> * n) mod d"
  define t where "t = (\<bar>x\<bar> mod 32768) * n"
  define u where "u = (\<bar>x\<bar> div 32768) * n + t div 32768"
  define v where "v = (u mod d) * 32768 + t mod 32768"
  have d: "0 < d" using assms by simp
  have core: "32768 * (u div d) + v div d = ?q" "v mod d = ?r" "u div d \<ge> 32768 \<longleftrightarrow> ?q \<ge> 2 ^ 30"
    unfolding v_def u_def t_def using assms(1) d by (intro xn_over_d_core; simp)+
  have t0: "0 \<le> t" using assms(1) by (simp add: t_def)
  then have u0: "0 \<le> u" using assms(1) by (simp add: u_def pos_imp_zdiv_nonneg_iff)
  have v0: "0 \<le> v" using d by (simp add: v_def)
  have sq: "(if 0 \<le> x then ?q else - ?q) = (x * n) sdiv d"
    and sr: "(if 0 \<le> x then ?r else - ?r) = (x * n) smod d"
    using assms(1) d by (auto simp: sdiv_pos_cases smod_pos_cases zero_le_mult_iff)
  have q0: "0 \<le> ?q" using assms(1) d by (simp add: pos_imp_zdiv_nonneg_iff)
  have r0: "0 \<le> ?r" "?r < d" using d by simp_all
  have rng: "?q < 2 ^ 30 \<Longrightarrow> in_i32 ((x * n) sdiv d) \<and> in_i32 ((x * n) smod d)"
    using q0 r0 assms(4) unfolding sq [symmetric] sr [symmetric] by (auto simp: in_i32_iff UNITY_def)
  have x0: "\<bar>x\<bar> smod 32768 = \<bar>x\<bar> mod 32768" "\<bar>x\<bar> sdiv 32768 = \<bar>x\<bar> div 32768"
    by (simp_all add: rust_div_simps)
  have ts: "t sdiv 32768 = t div 32768" "t smod 32768 = t mod 32768"
    using t0 by (simp_all add: rust_div_simps)
  have us: "u sdiv d = u div d" "u smod d = u mod d" and vs: "v sdiv d = v div d" "v smod d = v mod d"
    using u0 v0 d by (simp_all add: rust_div_simps)
  have "xn_over_d x n d =
    (if u div d \<ge> 32768 then Err TooLarge
     else if in_i32 ((x * n) sdiv d) \<and> in_i32 ((x * n) smod d)
     then Ok \<lparr>xn_quotient = (x * n) sdiv d, xn_remainder = (x * n) smod d\<rparr> else Panic)"
    using assms unfolding xn_over_d_def Let_def XN_OVER_D_RADIX_def x0 t_def [symmetric] ts
      u_def [symmetric] us v_def [symmetric] vs core(1,2) sq sr
    by simp
  then show ?thesis unfolding core(3) using rng by auto
qed

text \<open>C26. \<open>xn_over_d\<close>'s one-and-a-half-precision loop computes the exact product quotient: for factors
  in TeX's range it never panics, reports \<open>TooLarge\<close> exactly when \<open>|x|n/d\<close> reaches \<open>2^30\<close>, and
  otherwise returns \<open>xn/d\<close> rounded toward zero with the remainder of that division; outside the range
  of the factors it panics.\<close>

theorem xn_over_d_exact:
  "xn_over_d x n d =
    (if n < 0 \<or> n > UNITY \<or> d < 1 \<or> d > UNITY then Panic
     else if (\<bar>x\<bar> * n) div d \<ge> 2 ^ 30 then Err TooLarge
     else Ok \<lparr>xn_quotient = (x * n) sdiv d, xn_remainder = (x * n) smod d\<rparr>)"
proof (cases "n < 0 \<or> n > UNITY \<or> d < 1 \<or> d > UNITY")
  case True
  then show ?thesis by (auto simp: xn_over_d_def)
next
  case False
  then show ?thesis using xn_over_d_eq [of n d x] by simp
qed

lemma mult_and_add_nonneg:
  assumes "0 < n" and "\<bar>y\<bar> \<le> m" and "m \<le> i32_max"
  shows "x \<le> (m - y) sdiv n \<and> - x \<le> (m + y) sdiv n \<longleftrightarrow> \<bar>n * x + y\<bar> \<le> m"
proof -
  have "(m - y) sdiv n = (m - y) div n" "(m + y) sdiv n = (m + y) div n"
    using assms by (simp_all add: sdiv_nonneg)
  then show ?thesis using assms(1) by (auto simp: le_div_iff_mult_le abs_le_iff)
qed

lemma mult_and_add_eq:
  assumes "\<bar>y\<bar> \<le> max_answer" and "max_answer \<le> i32_max"
  shows "mult_and_add n x y max_answer =
    (if \<bar>n * x + y\<bar> \<le> max_answer then Ok (n * x + y) else Err Overflow)"
proof -
  have rng: "in_i32 v" if "\<bar>v\<bar> \<le> max_answer" for v
    using that assms(2) by (auto simp: int_range_defs abs_le_iff)
  consider "n = 0" | "0 < n" | "n < 0" by linarith
  then show ?thesis
  proof cases
    case 1
    then show ?thesis using assms by (simp add: mult_and_add_def)
  next
    case 2
    then show ?thesis using mult_and_add_nonneg [OF 2 assms, of x] rng
      by (auto simp: mult_and_add_def Let_def)
  next
    case 3
    then have "0 < - n" by simp
    then show ?thesis using mult_and_add_nonneg [OF \<open>0 < - n\<close> assms, of "- x"] rng 3
      by (auto simp: mult_and_add_def Let_def)
  qed
qed

text \<open>\<open>mult_and_add\<close> (and so \<open>nx_plus_y\<close>) computes \<open>n x + y\<close> exactly when the result is within
  the permitted bound and reports overflow exactly when it is not, for every addend within the bound.\<close>

lemma mult_and_add_exact:
  assumes "\<bar>y\<bar> \<le> max_answer" and "max_answer \<le> i32_max"
  shows "mult_and_add n x y max_answer =
    (if \<bar>n * x + y\<bar> \<le> max_answer then Ok (n * x + y) else Err Overflow)"
  by (rule mult_and_add_eq [OF assms])

lemma mult_and_add_exact_witness:
  "nx_plus_y (-3) 100 7 = Ok (-293) \<and> nx_plus_y 2 (2 ^ 29) 0 = Err Overflow"
  using mult_and_add_exact [of 7 MAX_DIMEN "-3" 100] mult_and_add_exact [of 0 MAX_DIMEN 2 "2 ^ 29"]
  by (simp add: nx_plus_y_def MAX_DIMEN_def i32_max_def)

section \<open>The contract of a nearest-integer division\<close>

text \<open>
  What the callers of a rounding division rely on: the result is within half a unit of the exact
  quotient. Exactness on multiples, uniqueness away from ties and monotonicity follow. The locale is
  interpreted on \<open>round_half_away\<close> here and on the half-up rounding of \<open>round_decimal_fraction\<close> in
  the theory of decimal fractions.
\<close>

locale nearest_division =
  fixes rnd :: "int \<Rightarrow> int \<Rightarrow> int"
  assumes nearest: "0 < d \<Longrightarrow> \<bar>2 * (d * rnd p d - p)\<bar> \<le> d"
    and monotone: "0 < d \<Longrightarrow> p \<le> q \<Longrightarrow> rnd p d \<le> rnd q d"
begin

lemma unique_off_ties:
  assumes "0 < d" and "\<bar>2 * (d * k - p)\<bar> < d"
  shows "rnd p d = k"
proof -
  have "\<bar>2 * (d * (rnd p d - k))\<bar> < 2 * d"
    using nearest [OF assms(1), of p] assms(2) by (simp add: algebra_simps abs_less_iff abs_le_iff)
  then have "d * \<bar>rnd p d - k\<bar> < d * 1"
    using assms(1) by (simp add: abs_mult)
  then show ?thesis using assms(1) by (simp only: mult_less_cancel_left_pos)
qed

lemma exact_on_multiples: "0 < d \<Longrightarrow> rnd (d * k) d = k"
  by (rule unique_off_ties) simp_all

lemma below_below:
  assumes "0 < d" and "p \<le> d * k"
  shows "rnd p d \<le> k"
  using monotone [OF assms] exact_on_multiples [OF assms(1)] by simp

end

lemma round_half_away_nonneg: "0 \<le> p \<Longrightarrow> 0 < d \<Longrightarrow> round_half_away p d = (p + d div 2) div d"
  by (simp add: round_half_away_def sdiv_nonneg pos_imp_zdiv_nonneg_iff)

lemma round_half_away_neg: "p < 0 \<Longrightarrow> 0 < d \<Longrightarrow> round_half_away p d = - ((- p + d div 2) div d)"
  by (simp add: round_half_away_def sdiv_nonneg pos_imp_zdiv_nonneg_iff)

lemma half_up_bounds:
  assumes "0 < (d :: int)"
  obtains e where "d * ((p + d div 2) div d) \<le> p + e" and "p + e < d * ((p + d div 2) div d) + d"
    and "2 * e \<le> d" and "d \<le> 2 * e + 1"
proof (rule that [of "d div 2"])
  let ?q = "(p + d div 2) div d"
  show "d * ?q \<le> p + d div 2" and "p + d div 2 < d * ?q + d"
    using assms div_eq_iff_bounds [of d "p + d div 2" ?q] by simp_all
  show "2 * (d div 2) \<le> d" and "d \<le> 2 * (d div 2) + 1" by simp_all
qed

lemma half_up_nearest:
  assumes "0 < (d :: int)"
  shows "\<bar>2 * (d * ((p + d div 2) div d) - p)\<bar> \<le> d"
proof -
  define D where "D = d * ((p + d div 2) div d)"
  obtain e where "D \<le> p + e" and "p + e < D + d" and "2 * e \<le> d" and "d \<le> 2 * e + 1"
    using half_up_bounds [OF assms, of p] unfolding D_def by blast
  then have "\<bar>2 * (D - p)\<bar> \<le> d" by presburger
  then show ?thesis by (simp add: D_def)
qed

lemma half_up_tie_up:
  assumes "0 < (d :: int)" and "\<bar>2 * (d * ((p + d div 2) div d) - p)\<bar> = d"
  shows "p < d * ((p + d div 2) div d)"
proof -
  define D where "D = d * ((p + d div 2) div d)"
  obtain e where "D \<le> p + e" and "p + e < D + d" and "2 * e \<le> d" and "d \<le> 2 * e + 1"
    using half_up_bounds [OF assms(1), of p] unfolding D_def by blast
  moreover have "\<bar>2 * (D - p)\<bar> = d" using assms(2) by (simp add: D_def)
  ultimately have "p < D" using assms(1) by presburger
  then show ?thesis by (simp add: D_def)
qed

lemma round_half_away_nearest: "0 < d \<Longrightarrow> \<bar>2 * (d * round_half_away p d - p)\<bar> \<le> d"
proof (cases "0 \<le> p")
  case True
  assume "0 < d"
  with True half_up_nearest [of d p] show ?thesis by (simp add: round_half_away_nonneg)
next
  case False
  assume "0 < d"
  with False half_up_nearest [of d "- p"] show ?thesis by (simp add: round_half_away_neg)
qed

lemma round_half_away_mono:
  assumes "0 < d" and "p \<le> q"
  shows "round_half_away p d \<le> round_half_away q d"
proof -
  have pos: "0 \<le> round_half_away r d" if "0 \<le> r" for r
    using that assms(1) by (simp add: round_half_away_nonneg pos_imp_zdiv_nonneg_iff)
  have neg: "round_half_away r d \<le> 0" if "r < 0" for r
    using that assms(1) by (simp add: round_half_away_neg pos_imp_zdiv_nonneg_iff)
  consider "0 \<le> p" | "p < 0" "0 \<le> q" | "q < 0" using assms(2) by linarith
  then show ?thesis
  proof cases
    case 1
    with assms show ?thesis by (simp add: round_half_away_nonneg zdiv_mono1)
  next
    case 2
    with pos [of q] neg [of p] show ?thesis by linarith
  next
    case 3
    with assms show ?thesis by (simp add: round_half_away_neg zdiv_mono1)
  qed
qed

interpretation half_away: nearest_division round_half_away
  by unfold_locales (rule round_half_away_nearest, assumption, rule round_half_away_mono)

lemma round_half_away_tie:
  assumes "0 < d" and "\<bar>2 * (d * round_half_away p d - p)\<bar> = d"
  shows "\<bar>p\<bar> < \<bar>d * round_half_away p d\<bar>"
proof (cases "0 \<le> p")
  case True
  then have "p < d * round_half_away p d"
    using assms half_up_tie_up [of d p] by (simp add: round_half_away_nonneg)
  with True show ?thesis by linarith
next
  case False
  then have r: "d * round_half_away p d = - (d * ((- p + d div 2) div d))"
    using assms(1) by (simp add: round_half_away_neg)
  have "\<bar>2 * (d * ((- p + d div 2) div d) - - p)\<bar> = d"
    using assms(2) unfolding r by (simp add: abs_minus_commute)
  then have "- p < d * ((- p + d div 2) div d)" by (rule half_up_tie_up [OF assms(1)])
  with False show ?thesis unfolding r by linarith
qed

text \<open>Font units are scaled to the nearest scaled point, exact halves away from zero: a result
  differs from \<open>units * size / units_per_em\<close> by at most one half, and at exactly one half it is the
  larger in magnitude. The only failures are a zero em and a quotient outside \<open>i32\<close>.\<close>

lemma font_units_to_scaled_nearest:
  assumes "0 < units_per_em"
  shows "case font_units_to_scaled units fsize units_per_em of
      Ok r \<Rightarrow> \<bar>2 * (units_per_em * r - units * fsize)\<bar> \<le> units_per_em
        \<and> (\<bar>2 * (units_per_em * r - units * fsize)\<bar> = units_per_em
             \<longrightarrow> \<bar>units * fsize\<bar> < \<bar>units_per_em * r\<bar>)
    | Err e \<Rightarrow> e = Overflow \<and> \<not> in_i32 (round_half_away (units * fsize) units_per_em)
    | Panic \<Rightarrow> False"
  using assms half_away.nearest [OF assms, of "units * fsize"]
    round_half_away_tie [OF assms, of "units * fsize"]
  by (simp add: font_units_to_scaled_def Let_def)

lemma font_units_to_scaled_nearest_witness:
  "font_units_to_scaled (-1) 3 2 = Ok (-2) \<and> \<bar>(-1) * 3\<bar> < \<bar>2 * (-2 :: int)\<bar>"
proof -
  have "font_units_to_scaled (-1) 3 2 = Ok (-2)"
    by (simp add: font_units_to_scaled_def round_half_away_def in_i32_iff signed_divide_int_def)
  with font_units_to_scaled_nearest [of 2 "-1" 3] show ?thesis by simp
qed

end
