(* ===== verification/Decimal_Scaled.thy ===== *)
theory Decimal_Scaled
  imports Scaled_Arith
begin

text \<open>
  Decimal input and output of dimensions, from \<^verbatim>\<open>crates/tex-arith/src/lib.rs\<close>: the physical units,
  \<open>round_decimal_fraction\<close>, \<open>print_scaled\<close>, \<open>scaled_from_decimal_parts\<close> and the \<open>true\<close>
  magnification step. Digits are the \<open>u8\<close> values \<open>0..9\<close>; plain \<open>i32\<close> operators of the source carry
  an explicit \<open>wrap32\<close>.
\<close>

section \<open>Definitions\<close>

datatype PhysicalUnit = Sp | Pt | In | Pc | Cm | Mm | Bp | Dd | Cc | Nd | Nc

fun point_ratio :: "PhysicalUnit \<Rightarrow> int \<times> int" where
  "point_ratio Sp = (1, UNITY)"
| "point_ratio Pt = (1, 1)"
| "point_ratio In = (7227, 100)"
| "point_ratio Pc = (12, 1)"
| "point_ratio Cm = (7227, 254)"
| "point_ratio Mm = (7227, 2540)"
| "point_ratio Bp = (7227, 7200)"
| "point_ratio Dd = (1238, 1157)"
| "point_ratio Cc = (14856, 1157)"
| "point_ratio Nd = (685, 642)"
| "point_ratio Nc = (1370, 107)"

fun round_decimal_loop :: "nat list \<Rightarrow> int \<Rightarrow> int panicking" where
  "round_decimal_loop [] a = Ok a"
| "round_decimal_loop (digit # digits) a =
     (if digit \<le> 9
      then round_decimal_loop digits (wrap32 (a + wrap32 (wrap32 (int digit * 2) * UNITY)) sdiv 10)
      else Panic)"

definition round_decimal_fraction :: "nat list \<Rightarrow> int panicking" where
  "round_decimal_fraction digits =
     obind (round_decimal_loop (rev (take 17 digits)) 0) (\<lambda>a. Ok (wrap32 (a + 1) sdiv 2))"

text \<open>\<open>to_string\<close> on an unsigned integer.\<close>

fun nat_to_string :: "nat \<Rightarrow> string" where
  "nat_to_string n =
     (if n < 10 then [char_of (48 + n)] else nat_to_string (n div 10) @ [char_of (48 + n mod 10)])"

declare nat_to_string.simps [simp del]

definition digit_char :: "nat \<Rightarrow> char" where
  "digit_char d = char_of (48 + d)"

lemma print_scaled_loop_continues:
  assumes "\<not> s smod UNITY \<le> 10 ^ Suc k"
  shows "k < 5"
proof (rule ccontr)
  assume "\<not> k < 5"
  then have "(10 :: int) ^ 5 \<le> 10 ^ k" by (intro power_increasing) auto
  moreover have "s smod UNITY < UNITY"
    using smod_abs_less [of UNITY s] by (simp add: UNITY_def)
  ultimately show False using assms by (simp add: UNITY_def)
qed

text \<open>
  The digit loop of \<open>print_scaled\<close>. After \<open>k\<close> digits the source's \<open>delta\<close> is \<open>10 ^ (k + 1)\<close>.
\<close>

function print_scaled_loop :: "int \<Rightarrow> nat \<Rightarrow> string \<Rightarrow> string panicking" where
  "print_scaled_loop fraction k text =
     (let delta = 10 ^ Suc k;
          fraction = (if delta > UNITY then fraction + (32768 - 50000) else fraction);
          digit = fraction sdiv UNITY
      in if digit < 0 \<or> digit > 255 then Panic
         else let text = text @ [digit_char (nat digit)];
                  fraction = 10 * (fraction smod UNITY)
              in if fraction \<le> delta * 10 then Ok text else print_scaled_loop fraction (Suc k) text)"
  by pat_completeness auto

termination
  by (relation "measure (\<lambda>(s, k, text). 5 - k)")
     (auto simp: Let_def simp del: power_Suc dest!: print_scaled_loop_continues)

declare print_scaled_loop.simps [simp del]

definition print_scaled :: "scaled \<Rightarrow> string panicking" where
  "print_scaled v =
     (let text = (if v < 0 then ''-'' else '''');
          remainder = (if v < 0 then - v else v);
          text = text @ nat_to_string (nat (remainder sdiv UNITY)) @ ''.'';
          fraction = 10 * (remainder smod UNITY) + 5
      in print_scaled_loop fraction 0 text)"

definition scaled_from_decimal_parts ::
    "int \<Rightarrow> int \<Rightarrow> PhysicalUnit \<Rightarrow> (DimensionError, scaled) outcome" where
  "scaled_from_decimal_parts integer fraction unit =
     (if \<not> integer \<ge> 0 then Panic
      else if \<not> (0 \<le> fraction \<and> fraction \<le> UNITY) then Panic
      else if unit = Sp then check_dimension integer
      else let (num, denom) = point_ratio unit
           in obind (if unit \<noteq> Pt
                     then obind (xn_over_d integer num denom) (\<lambda>converted.
                       let cur = xn_quotient converted;
                           frac = wrap32 (wrap32 (num * fraction)
                                    + wrap32 (UNITY * xn_remainder converted)) sdiv denom;
                           cur = wrap32 (cur + frac sdiv UNITY);
                           frac = frac smod UNITY
                       in Ok (cur, frac))
                     else Ok (integer, fraction))
                (\<lambda>(cur, frac).
                   if cur \<ge> 2 ^ 14 then Err TooLarge
                   else check_dimension (wrap32 (wrap32 (cur * UNITY) + frac))))"

definition scale_true_dimension_parts ::
    "int \<Rightarrow> int \<Rightarrow> int \<Rightarrow> (DimensionError, int \<times> int) outcome" where
  "scale_true_dimension_parts integer fraction mag =
     (if \<not> integer \<ge> 0 then Panic
      else if \<not> (0 \<le> fraction \<and> fraction \<le> UNITY) then Panic
      else if \<not> (1 \<le> mag \<and> mag \<le> 32768) then Panic
      else if mag = 1000 then Ok (integer, fraction)
      else obind (xn_over_d integer 1000 mag) (\<lambda>converted.
        let numerator = wrap32 (1000 * fraction) + UNITY * xn_remainder converted;
            scaled_fraction = numerator sdiv mag;
            scaled_integer = xn_quotient converted + scaled_fraction sdiv UNITY;
            fraction = scaled_fraction smod UNITY
        in if in_i32 scaled_integer \<and> in_i32 fraction then Ok (scaled_integer, fraction) else Panic))"

section \<open>Reading a decimal fraction\<close>

text \<open>The value of a digit string, and the rounding TeX applies to it.\<close>

fun digits_value :: "nat list \<Rightarrow> int" where
  "digits_value [] = 0"
| "digits_value (d # ds) = int d * 10 ^ length ds + digits_value ds"

definition round_half_up :: "int \<Rightarrow> int \<Rightarrow> int" where
  "round_half_up p d = (2 * p + d) div (2 * d)"

interpretation half_up: nearest_division round_half_up
proof unfold_locales
  fix d p :: int
  assume "0 < d"
  then have "2 * d * round_half_up p d \<le> 2 * p + d" and "2 * p + d < 2 * d * round_half_up p d + 2 * d"
    using div_eq_iff_bounds [of "2 * d" "2 * p + d" "round_half_up p d"]
    by (simp_all add: round_half_up_def)
  then show "\<bar>2 * (d * round_half_up p d - p)\<bar> \<le> d"
    by (simp add: abs_le_iff algebra_simps)
next
  fix d p q :: int
  assume "0 < d" and "p \<le> q"
  then show "round_half_up p d \<le> round_half_up q d"
    unfolding round_half_up_def by (intro zdiv_mono1) auto
qed

lemma digits_value_append:
  "digits_value (xs @ ys) = digits_value xs * 10 ^ length ys + digits_value ys"
  by (induction xs) (simp_all add: algebra_simps power_add)

lemma digits_value_bounds:
  "\<forall>d \<in> set ds. d \<le> 9 \<Longrightarrow> 0 \<le> digits_value ds \<and> digits_value ds < 10 ^ length ds"
proof (induction ds)
  case (Cons d ds)
  then have "int d * 10 ^ length ds \<le> 9 * 10 ^ length ds" and "0 \<le> int d * 10 ^ length ds"
    and "0 \<le> digits_value ds" and "digits_value ds < 10 ^ length ds"
    by simp_all
  then show ?case unfolding digits_value.simps length_Cons power_Suc by linarith
qed simp

lemma round_decimal_loop_append:
  "round_decimal_loop (xs @ ys) a = obind (round_decimal_loop xs a) (round_decimal_loop ys)"
  by (induction xs arbitrary: a) auto

lemma round_decimal_loop_value:
  assumes "\<forall>d \<in> set ds. d \<le> 9"
  shows "round_decimal_loop (rev ds) 0 = Ok (131072 * digits_value ds div 10 ^ length ds)"
  using assms
proof (induction ds)
  case (Cons d ds)
  let ?m = "10 ^ length ds :: int" and ?v = "digits_value ds"
  have d: "d \<le> 9" and bounds: "0 \<le> ?v" "?v < ?m" using Cons.prems digits_value_bounds [of ds] by auto
  have a0: "0 \<le> 131072 * ?v div ?m" using bounds by (simp add: pos_imp_zdiv_nonneg_iff)
  have a1: "131072 * ?v div ?m < 131072" using bounds by (simp add: div_less_iff_less_mult)
  have w: "wrap32 (131072 * ?v div ?m + wrap32 (wrap32 (int d * 2) * UNITY))
      = 131072 * ?v div ?m + int d * 131072"
    using a0 a1 d by (simp add: wrap32_id in_i32_iff UNITY_def)
  have "131072 * ?v div ?m + int d * 131072 = (131072 * ?v + (int d * 131072) * ?m) div ?m"
    by (subst div_mult_self1) simp_all
  then have "(131072 * ?v div ?m + int d * 131072) div 10
      = (131072 * ?v + (int d * 131072) * ?m) div (?m * 10)"
    by (simp add: zdiv_zmult2_eq)
  also have "\<dots> = 131072 * digits_value (d # ds) div 10 ^ length (d # ds)"
    by (simp add: algebra_simps)
  finally show ?case
    using Cons a0 d by (simp add: round_decimal_loop_append w sdiv_nonneg)
qed simp

lemma round_decimal_fraction_take:
  assumes "\<forall>d \<in> set ds. d \<le> 9"
  shows "131072 * digits_value (take 17 ds) div 10 ^ length (take 17 ds)
    = 131072 * digits_value ds div 10 ^ length ds"
proof (cases "length ds \<le> 17")
  case False
  define m where "m = length ds - 17"
  have len: "length (drop 17 ds) = m" "length ds = 17 + m" "length (take 17 ds) = 17"
    using False by (simp_all add: m_def)
  let ?a = "digits_value (take 17 ds)" and ?b = "digits_value (drop 17 ds)"
  have v: "digits_value ds = ?a * 10 ^ m + ?b"
    using digits_value_append [of "take 17 ds" "drop 17 ds"] len by simp
  have b: "0 \<le> ?b" "?b < 10 ^ m"
    using digits_value_bounds [of "drop 17 ds"] assms len in_set_dropD by fastforce+
  have five: "131072 * x div (131072 * y) = x div y" for x y :: int by simp
  have "131072 * digits_value ds div 10 ^ length ds = digits_value ds div (10 ^ m * 762939453125)"
    using five [of "digits_value ds" "10 ^ m * 762939453125"] by (simp add: len power_add algebra_simps)
  also have "\<dots> = digits_value ds div 10 ^ m div 762939453125"
    by (simp add: zdiv_zmult2_eq)
  also have "digits_value ds div 10 ^ m = ?a"
    unfolding v using b by simp
  also have "?a div 762939453125 = 131072 * ?a div 10 ^ length (take 17 ds)"
    using five [of ?a 762939453125] by (simp add: len)
  finally show ?thesis by simp
qed simp

lemma round_half_up_floor:
  "0 < m \<Longrightarrow> (131072 * v div m + 1) div 2 = round_half_up (UNITY * v) m"
proof -
  assume m: "0 < m"
  have "131072 * v div m + 1 = (131072 * v + 1 * m) div m"
    using m by (subst div_mult_self1) simp_all
  with m show ?thesis
    by (simp add: round_half_up_def UNITY_def zdiv_zmult2_eq mult.commute)
qed

lemma round_decimal_fraction_eq:
  assumes "\<forall>d \<in> set ds. d \<le> 9"
  shows "round_decimal_fraction ds =
    Ok (round_half_up (UNITY * digits_value ds) (10 ^ length ds))"
proof -
  let ?a = "131072 * digits_value ds div 10 ^ length ds"
  have "\<forall>d \<in> set (take 17 ds). d \<le> 9" using assms in_set_takeD by fastforce
  from round_decimal_loop_value [OF this]
  have loop: "round_decimal_loop (rev (take 17 ds)) 0 = Ok ?a"
    using round_decimal_fraction_take [OF assms] by simp
  have "0 \<le> ?a" and "?a < 131072"
    using digits_value_bounds [OF assms] by (simp_all add: pos_imp_zdiv_nonneg_iff div_less_iff_less_mult)
  then have "wrap32 (?a + 1) sdiv 2 = (?a + 1) div 2"
    by (simp add: wrap32_id in_i32_iff sdiv_nonneg)
  with loop show ?thesis
    by (simp add: round_decimal_fraction_def round_half_up_floor)
qed

text \<open>\<open>round_decimal_fraction\<close> is correctly rounded on digit strings of every length: it returns
  \<open>0.d1d2...dn\<close> in units of \<open>2^-16\<close>, rounded to nearest with ties upward, although it looks at the
  first 17 digits only; a byte above nine among them panics.\<close>

lemma round_decimal_fraction_correct:
  assumes "\<forall>d \<in> set ds. d \<le> 9"
  shows "round_decimal_fraction ds =
    Ok (round_half_up (UNITY * digits_value ds) (10 ^ length ds))"
  using assms by (rule round_decimal_fraction_eq)

lemma round_decimal_fraction_correct_witness:
  "round_decimal_fraction [5, 0, 0, 0, 0, 7] = (Ok 32768 :: int panicking)"
  using round_decimal_fraction_correct [of "[5, 0, 0, 0, 0, 7]"]
  by (simp add: round_half_up_def UNITY_def)

section \<open>Printing and reading back\<close>

text \<open>
  \<open>digits_read_as ds f\<close>: the digit string \<open>ds\<close> rounds to the fraction \<open>f\<close>.
\<close>

definition digits_read_as :: "nat list \<Rightarrow> int \<Rightarrow> bool" where
  "digits_read_as ds f \<longleftrightarrow> (\<forall>d \<in> set ds. d \<le> 9)
     \<and> 2 * f * 10 ^ length ds - 10 ^ length ds \<le> 2 * UNITY * digits_value ds
     \<and> 2 * UNITY * digits_value ds < 2 * f * 10 ^ length ds + 10 ^ length ds"

lemma round_half_up_eq_iff:
  assumes "0 < m"
  shows "round_half_up p m = f \<longleftrightarrow> 2 * f * m - m \<le> 2 * p \<and> 2 * p < 2 * f * m + m"
  using div_eq_iff_bounds [of "2 * m" "2 * p + m" f] assms
  by (simp add: round_half_up_def algebra_simps)

lemma digits_read_as_iff:
  "digits_read_as ds f \<longleftrightarrow> (\<forall>d \<in> set ds. d \<le> 9) \<and>
     round_decimal_fraction ds = Ok f"
proof (cases "\<forall>d \<in> set ds. d \<le> 9")
  case True
  then have "round_decimal_fraction ds = Ok f
      \<longleftrightarrow> round_half_up (UNITY * digits_value ds) (10 ^ length ds) = f"
    by (simp add: round_decimal_fraction_eq)
  with True show ?thesis
    by (simp add: digits_read_as_def round_half_up_eq_iff mult.assoc)
qed (auto simp: digits_read_as_def)

text \<open>
  The loop invariant: with \<open>ds\<close> printed, the working value \<open>s\<close> is \<open>10^(k+1)\<close> times the error of \<open>ds\<close>
  plus one half. The loop then stops with a string that reads back as \<open>f\<close>.
\<close>

definition print_inv :: "int \<Rightarrow> int \<Rightarrow> nat list \<Rightarrow> bool" where
  "print_inv f s ds \<longleftrightarrow> (\<forall>d \<in> set ds. d \<le> 9) \<and> length ds \<le> 4
     \<and> s = 5 * 10 ^ length ds * (2 * f + 1) - 10 * UNITY * digits_value ds
     \<and> 0 \<le> s \<and> s < 10 * UNITY \<and> (ds \<noteq> [] \<longrightarrow> 10 ^ Suc (length ds) < s)"

lemma print_invI:
  assumes "\<forall>d \<in> set ds. d \<le> 9" and "length ds \<le> 4" and "0 \<le> s" and "s < 10 * UNITY"
    and "10 ^ Suc (length ds) < s"
    and "s = 5 * 10 ^ length ds * (2 * f + 1) - 10 * UNITY * digits_value ds"
  shows "print_inv f s ds"
  using assms by (simp add: print_inv_def)

lemma ten_power_not_dvd:
  fixes f x :: int
  assumes "5 * 10 ^ k * (2 * f + 1) = 16 * x"
  shows "3 < k"
proof (rule ccontr)
  assume "\<not> 3 < k"
  then have "k = 0 \<or> k = 1 \<or> k = 2 \<or> k = 3" by linarith
  then have sixteen: "(16 :: int) = 2 ^ k * (2 * 2 ^ (3 - k))" by auto
  have ten: "(10 :: int) ^ k = 2 ^ k * 5 ^ k" by (simp flip: power_mult_distrib)
  have "2 ^ k * (5 * 5 ^ k * (2 * f + 1)) = 2 ^ k * (2 * (2 ^ (3 - k) * x))"
    using assms unfolding ten sixteen by (simp add: mult.assoc mult.left_commute)
  then have "5 * 5 ^ k * (2 * f + 1) = 2 * (2 ^ (3 - k) * x)" by simp
  then have "even (5 * 5 ^ k * (2 * f + 1))" by (metis dvd_triv_left)
  then show False by simp
qed

lemma print_inv_step:
  assumes inv: "print_inv f s ds" and "length ds \<le> 3"
  defines "d \<equiv> nat (s div UNITY)"
  shows "d \<le> 9" and "0 < s mod UNITY"
    and "10 * (s mod UNITY) = 5 * 10 ^ Suc (length ds) * (2 * f + 1)
           - 10 * UNITY * digits_value (ds @ [d])"
proof -
  have s: "0 \<le> s" "s < 10 * UNITY"
    and eq: "s = 5 * 10 ^ length ds * (2 * f + 1) - 10 * UNITY * digits_value ds"
    using inv by (auto simp: print_inv_def)
  have q: "0 \<le> s div UNITY" "s div UNITY < 10"
    using s by (simp_all add: pos_imp_zdiv_nonneg_iff div_less_iff_less_mult UNITY_def)
  then show "d \<le> 9" unfolding d_def by linarith
  have d: "int d = s div UNITY" using q by (simp add: d_def)
  have "10 * (s mod UNITY) = 10 * (s - UNITY * int d)"
    unfolding d by (simp add: minus_mult_div_eq_mod)
  also have "\<dots> = 5 * 10 ^ Suc (length ds) * (2 * f + 1) - 10 * UNITY * digits_value (ds @ [d])"
    by (subst eq) (simp add: digits_value_append algebra_simps)
  finally show "10 * (s mod UNITY) = 5 * 10 ^ Suc (length ds) * (2 * f + 1)
           - 10 * UNITY * digits_value (ds @ [d])" .
  have "s mod UNITY \<noteq> 0"
  proof
    assume "s mod UNITY = 0"
    then obtain j where "s = 65536 * j" by (auto simp: UNITY_def)
    with eq have X: "5 * 10 ^ length ds * (2 * f + 1) = 16 * (4096 * j + 40960 * digits_value ds)"
      by (simp add: UNITY_def)
    from ten_power_not_dvd [OF X] assms(2) show False by linarith
  qed
  moreover have "0 \<le> s mod UNITY" by (simp add: UNITY_def)
  ultimately show "0 < s mod UNITY" by linarith
qed

lemma print_scaled_loop_step:
  assumes inv: "print_inv f s ds" and len: "length ds \<le> 3"
  defines "d \<equiv> nat (s div UNITY)"
  shows "print_scaled_loop s (length ds) out =
    (if 10 * (s mod UNITY) \<le> 10 ^ Suc (Suc (length ds)) then Ok (out @ [digit_char d])
     else print_scaled_loop (10 * (s mod UNITY)) (Suc (length ds)) (out @ [digit_char d]))"
proof -
  have s: "0 \<le> s" "s < 10 * UNITY" using inv by (auto simp: print_inv_def)
  have div: "s sdiv UNITY = s div UNITY" "s smod UNITY = s mod UNITY"
    using s by (simp_all add: rust_div_simps UNITY_def)
  have q: "0 \<le> s div UNITY" "s div UNITY < 10"
    using s by (simp_all add: pos_imp_zdiv_nonneg_iff div_less_iff_less_mult UNITY_def)
  have "(10 :: int) ^ Suc (length ds) \<le> 10 ^ 4" using len by (intro power_increasing) auto
  then have "\<not> (10 :: int) ^ Suc (length ds) > UNITY" by (simp add: UNITY_def)
  then show ?thesis
    using q by (subst print_scaled_loop.simps) (simp add: Let_def div d_def mult.commute)
qed

lemma print_scaled_loop_last:
  assumes inv: "print_inv f s ds" and len: "length ds = 4"
  defines "s' \<equiv> s - 17232"
  defines "d \<equiv> nat (s' div UNITY)"
  shows "print_scaled_loop s (length ds) out = Ok (out @ [digit_char d])"
    and "d \<le> 9" and "digits_read_as (ds @ [d]) f"
proof -
  have s: "100000 < s" "s < 10 * UNITY"
    and eq: "s = 5 * 10 ^ 4 * (2 * f + 1) - 10 * UNITY * digits_value ds"
    using inv len by (auto simp: print_inv_def)
  have s'0: "0 \<le> s'" "s' < 10 * UNITY" using s by (simp_all add: s'_def)
  then have div: "s' sdiv UNITY = s' div UNITY" "s' smod UNITY = s' mod UNITY"
    by (simp_all add: rust_div_simps UNITY_def)
  have q: "0 \<le> s' div UNITY" "s' div UNITY < 10"
    using s'0 by (simp_all add: pos_imp_zdiv_nonneg_iff div_less_iff_less_mult UNITY_def)
  then show d9: "d \<le> 9" unfolding d_def by linarith
  have m: "0 \<le> s' mod UNITY" "s' mod UNITY < UNITY" by (simp_all add: UNITY_def)
  have "10 * (s' mod UNITY) \<le> 10 ^ 6" using m by (simp add: UNITY_def)
  moreover have "UNITY < 100000" by (simp add: UNITY_def)
  ultimately show "print_scaled_loop s (length ds) out = Ok (out @ [digit_char d])"
    using q len by (subst print_scaled_loop.simps)
      (simp add: Let_def div d_def flip: s'_def)
  have d: "int d = s' div UNITY" using q by (simp add: d_def)
  have sm: "s' - UNITY * int d = s' mod UNITY" unfolding d by (simp add: minus_mult_div_eq_mod)
  have v: "digits_value (ds @ [d]) = 10 * digits_value ds + int d"
    by (simp add: digits_value_append)
  have "100000 * f - UNITY * digits_value (ds @ [d]) + 32768 = s' - UNITY * int d"
    unfolding s'_def v by (subst eq) (simp add: algebra_simps)
  then have "0 \<le> 100000 * f - UNITY * digits_value (ds @ [d]) + 32768"
    and "100000 * f - UNITY * digits_value (ds @ [d]) + 32768 < 65536"
    using m sm by (simp_all add: UNITY_def)
  moreover have "\<forall>x \<in> set (ds @ [d]). x \<le> 9" using inv d9 by (auto simp: print_inv_def)
  ultimately show "digits_read_as (ds @ [d]) f"
    unfolding digits_read_as_def using len by simp
qed

lemma print_scaled_loop_reads_back:
  assumes "print_inv f s ds"
  shows "\<exists>more. print_scaled_loop s (length ds) out = Ok (out @ map digit_char more)
    \<and> more \<noteq> [] \<and> length (ds @ more) \<le> 5 \<and> digits_read_as (ds @ more) f"
  using assms
proof (induction "4 - length ds" arbitrary: s ds out)
  case 0
  then have "length ds = 4" by (auto simp: print_inv_def)
  note last = print_scaled_loop_last(1) [OF 0(2) this, of out] print_scaled_loop_last(2,3) [OF 0(2) this]
  with \<open>length ds = 4\<close> show ?case
    by (intro exI [of _ "[nat ((s - 17232) div UNITY)]"]) simp
next
  case (Suc n)
  then have len: "length ds \<le> 3" by linarith
  define d where "d = nat (s div UNITY)"
  note step = print_inv_step [OF Suc.prems len, folded d_def]
  note loop = print_scaled_loop_step [OF Suc.prems len, folded d_def]
  have digits: "\<forall>x \<in> set (ds @ [d]). x \<le> 9" using Suc.prems step(1) by (auto simp: print_inv_def)
  show ?case
  proof (cases "10 * (s mod UNITY) \<le> 10 ^ Suc (Suc (length ds))")
    case True
    have "digits_read_as (ds @ [d]) f"
      unfolding digits_read_as_def using digits True step(2,3) by (simp add: algebra_simps)
    with True loop len show ?thesis by (intro exI [of _ "[d]"]) simp
  next
    case False
    have lt: "10 * (s mod UNITY) < 10 * UNITY" by (simp add: UNITY_def)
    have nonneg: "0 \<le> 10 * (s mod UNITY)" using step(2) by simp
    have gt: "10 ^ Suc (length (ds @ [d])) < 10 * (s mod UNITY)" using False by simp
    have eq: "10 * (s mod UNITY) = 5 * 10 ^ length (ds @ [d]) * (2 * f + 1)
        - 10 * UNITY * digits_value (ds @ [d])"
      using step(3) by simp
    have inv: "print_inv f (10 * (s mod UNITY)) (ds @ [d])"
      by (rule print_invI [OF digits _ nonneg lt gt eq]) (use len in simp)
    have n: "n = 4 - length (ds @ [d])" using Suc.hyps(2) by simp
    obtain more where more: "print_scaled_loop (10 * (s mod UNITY)) (length (ds @ [d]))
          (out @ [digit_char d]) = Ok ((out @ [digit_char d]) @ map digit_char more)"
        "length ((ds @ [d]) @ more) \<le> 5" "digits_read_as ((ds @ [d]) @ more) f"
      using Suc.hyps(1) [OF n inv, of "out @ [digit_char d]"] by blast
    with False loop show ?thesis by (intro exI [of _ "d # more"]) simp
  qed
qed

lemma print_inv_start: "0 \<le> f \<Longrightarrow> f < UNITY \<Longrightarrow> print_inv f (10 * f + 5) []"
  by (simp add: print_inv_def UNITY_def)

lemma print_scaled_text:
  obtains ds where "print_scaled v =
      (Ok ((if v < 0 then ''-'' else '''') @ nat_to_string (nat (\<bar>v\<bar> div UNITY)) @ ''.''
         @ map digit_char ds) :: string panicking)"
    and "ds \<noteq> []" and "length ds \<le> 5" and "digits_read_as ds (\<bar>v\<bar> mod UNITY)"
proof -
  have div: "\<bar>v\<bar> sdiv UNITY = \<bar>v\<bar> div UNITY" "\<bar>v\<bar> smod UNITY = \<bar>v\<bar> mod UNITY"
    by (simp_all add: rust_div_simps UNITY_def)
  let ?pre = "(if v < 0 then ''-'' else '''') @ nat_to_string (nat (\<bar>v\<bar> div UNITY)) @ ''.''"
  have loop: "print_scaled v =
      (print_scaled_loop (10 * (\<bar>v\<bar> mod UNITY) + 5) (length ([] :: nat list)) ?pre :: string panicking)"
    unfolding print_scaled_def Let_def abs_if [symmetric] div by simp
  have inv: "print_inv (\<bar>v\<bar> mod UNITY) (10 * (\<bar>v\<bar> mod UNITY) + 5) []"
    by (rule print_inv_start) (simp_all add: UNITY_def)
  obtain more where "print_scaled_loop (10 * (\<bar>v\<bar> mod UNITY) + 5) (length ([] :: nat list)) ?pre =
        (Ok (?pre @ map digit_char more) :: string panicking)"
      and "more \<noteq> [] \<and> length ([] @ more) \<le> 5 \<and> digits_read_as ([] @ more) (\<bar>v\<bar> mod UNITY)"
    using print_scaled_loop_reads_back [OF inv, of ?pre] by blast
  then show thesis by (intro that [of more]) (simp_all only: loop append_assoc append_Nil simp_thms)
qed

section \<open>Converting decimal parts to scaled points\<close>

lemma point_ratio_range:
  "u \<noteq> Sp \<Longrightarrow> fst (point_ratio u) \<ge> 1 \<and> fst (point_ratio u) \<le> 14856
     \<and> snd (point_ratio u) \<ge> 1 \<and> snd (point_ratio u) \<le> 7200
     \<and> fst (point_ratio u) + snd (point_ratio u) \<le> 32767"
  by (cases u) simp_all

lemma split_quotient:
  fixes i f n d :: int
  assumes "0 < d"
  shows "UNITY * ((i * n) div d) + (n * f + UNITY * ((i * n) mod d)) div d
    = (n * (UNITY * i + f)) div d"
proof -
  have "n * (UNITY * i + f) = n * f + UNITY * (d * ((i * n) div d) + (i * n) mod d)"
    by (simp add: algebra_simps)
  also have "\<dots> = (n * f + UNITY * ((i * n) mod d)) + d * (UNITY * ((i * n) div d))"
    by (simp only: algebra_simps)
  finally show ?thesis using assms by simp
qed

lemma parts_bound: "0 \<le> m \<Longrightarrow> m < UNITY \<Longrightarrow> c < 2 ^ 14 \<longleftrightarrow> UNITY * c + m < 2 ^ 30"
  by (auto simp: UNITY_def)

lemma pack_parts:
  assumes "0 \<le> c" and "c < 2 ^ 14" and "0 \<le> m" and "m \<le> UNITY"
  shows "wrap32 (wrap32 (c * UNITY) + m) = UNITY * c + m"
  using assms by (simp add: wrap32_id in_i32_iff UNITY_def)

lemma scaled_from_decimal_parts_pt:
  assumes "0 \<le> i" and "0 \<le> f" and "f \<le> UNITY"
  shows "scaled_from_decimal_parts i f Pt =
    (if UNITY * i + f < 2 ^ 30 then Ok (UNITY * i + f) else Err TooLarge)"
proof -
  show ?thesis
    using assms pack_parts [of i f] by (auto simp: scaled_from_decimal_parts_def check_dimension_def UNITY_def)
qed

lemma decimal_parts_range:
  fixes n d f r :: int
  assumes "1 \<le> n" and "1 \<le> d" and "n + d \<le> 32767" and "0 \<le> r" and "r < d" and "0 \<le> f" and "f \<le> UNITY"
  shows "wrap32 (wrap32 (n * f) + wrap32 (UNITY * r)) = n * f + UNITY * r"
    and "0 \<le> (n * f + UNITY * r) div d" and "(n * f + UNITY * r) div d < 2147418112"
proof -
  have nf: "0 \<le> n * f" "n * f \<le> n * UNITY" using assms by simp_all
  have nr: "n * UNITY + UNITY * r < 2147418112" "0 \<le> UNITY * r"
    using assms by (simp_all add: UNITY_def)
  with nf have sum: "0 \<le> n * f + UNITY * r" "n * f + UNITY * r < 2147418112" by linarith+
  with nf nr show "wrap32 (wrap32 (n * f) + wrap32 (UNITY * r)) = n * f + UNITY * r"
    by (simp add: wrap32_id in_i32_iff)
  show "0 \<le> (n * f + UNITY * r) div d" using sum assms by (simp add: pos_imp_zdiv_nonneg_iff)
  have "(n * f + UNITY * r) div d \<le> (n * f + UNITY * r) div 1"
    using sum assms by (intro zdiv_mono2) simp_all
  with sum show "(n * f + UNITY * r) div d < 2147418112" by simp
qed

lemma scaled_from_decimal_parts_unit:
  assumes "0 \<le> i" and "0 \<le> f" and "f \<le> UNITY" and "u \<noteq> Sp" and "u \<noteq> Pt"
    and nd: "point_ratio u = (n, d)"
  shows "scaled_from_decimal_parts i f u =
    (let v = (n * (UNITY * i + f)) div d in if v < 2 ^ 30 then Ok v else Err TooLarge)"
proof -
  have n: "1 \<le> n" and d: "1 \<le> d" and ndsum: "n + d \<le> 32767" and le: "n \<le> UNITY" "d \<le> UNITY"
    using point_ratio_range [OF assms(4)] nd by (simp_all add: UNITY_def)
  define q r where "q = (i * n) div d" and "r = (i * n) mod d"
  define fr where "fr = (n * f + UNITY * r) div d"
  have q0: "0 \<le> q" using assms(1) n d by (simp add: q_def pos_imp_zdiv_nonneg_iff)
  have r: "0 \<le> r" "r < d" using d by (simp_all add: r_def)
  note rng = decimal_parts_range [OF n d ndsum r assms(2,3)]
  have fr: "0 \<le> fr" "fr < 2147418112" using rng by (simp_all add: fr_def)
  have frd: "(n * f + UNITY * r) sdiv d = fr"
    unfolding fr_def using n d r assms(2) by (intro sdiv_nonneg) (simp_all add: UNITY_def)
  have "xn_over_d i n d = (if q \<ge> 2 ^ 30 then Err TooLarge
      else Ok \<lparr>xn_quotient = q, xn_remainder = r\<rparr>)"
    using xn_over_d_eq [of n d i] n d le assms(1) by (simp add: q_def r_def rust_div_simps)
  then have run: "scaled_from_decimal_parts i f u =
      (if q \<ge> 2 ^ 30 then Err TooLarge
       else let cur = wrap32 (q + fr sdiv UNITY); frac = fr smod UNITY
            in if cur \<ge> 2 ^ 14 then Err TooLarge else check_dimension (wrap32 (wrap32 (cur * UNITY) + frac)))"
    using assms(1-5) nd by (simp add: scaled_from_decimal_parts_def Let_def rng(1) frd)
  have v: "(n * (UNITY * i + f)) div d = UNITY * q + fr"
    using split_quotient [of d i n f] d by (simp add: q_def r_def fr_def)
  show ?thesis
  proof (cases "q \<ge> 2 ^ 30")
    case True
    then show ?thesis unfolding run v Let_def using fr by (simp add: UNITY_def)
  next
    case False
    have fs: "fr sdiv UNITY = fr div UNITY" "fr smod UNITY = fr mod UNITY"
      using fr by (simp_all add: rust_div_simps UNITY_def)
    have small: "0 \<le> fr div UNITY" "fr div UNITY < 32767"
      using fr by (simp_all add: UNITY_def pos_imp_zdiv_nonneg_iff div_less_iff_less_mult)
    have cur: "wrap32 (q + fr div UNITY) = q + fr div UNITY"
      using False q0 small by (simp add: wrap32_id in_i32_iff)
    have v2: "UNITY * q + fr = UNITY * (q + fr div UNITY) + fr mod UNITY"
      by (simp add: algebra_simps)
    have m: "0 \<le> fr mod UNITY" "fr mod UNITY < UNITY" by (simp_all add: UNITY_def)
    have c0: "0 \<le> q + fr div UNITY" using q0 small by simp
    have pack: "q + fr div UNITY < 2 ^ 14 \<Longrightarrow>
        wrap32 (wrap32 ((q + fr div UNITY) * UNITY) + fr mod UNITY) = UNITY * q + fr"
      using pack_parts [OF c0 _ m(1)] m(2) unfolding v2 by simp
    have "q + fr div UNITY < 2 ^ 14 \<longleftrightarrow> UNITY * q + fr < 2 ^ 30"
      unfolding v2 using m by (rule parts_bound)
    moreover have "0 \<le> UNITY * q + fr" using q0 fr by (simp add: UNITY_def)
    ultimately show ?thesis
      unfolding run v Let_def fs cur using False pack
      by (cases "q + fr div UNITY < 2 ^ 14") (simp_all add: check_dimension_def)
  qed
qed

text \<open>C28. Converting a scanned decimal to scaled points is exact up to one final truncation: with
  \<open>num/denom\<close> the unit's ratio to the point, \<open>i\<close> the integer part and \<open>f\<close> the fraction in units of
  \<open>2^-16\<close>, the result is \<open>num (65536 i + f) / denom\<close> rounded down, and \<open>TooLarge\<close> is reported exactly
  when that value is not below \<open>2^30\<close>. No intermediate 32-bit operation wraps and no assertion fails.\<close>

theorem scaled_from_decimal_parts_exact:
  assumes "0 \<le> i" and "0 \<le> f" and "f \<le> UNITY"
  shows "scaled_from_decimal_parts i f u =
    (let v = (if u = Sp then i else (fst (point_ratio u) * (UNITY * i + f)) div snd (point_ratio u))
     in if v < 2 ^ 30 then Ok v else Err TooLarge)"
proof -
  consider "u = Sp" | "u = Pt" | "u \<noteq> Sp" "u \<noteq> Pt" by blast
  then show ?thesis
  proof cases
    case 1
    with assms show ?thesis by (simp add: scaled_from_decimal_parts_def check_dimension_def)
  next
    case 2
    with assms show ?thesis by (simp add: scaled_from_decimal_parts_pt)
  next
    case 3
    then show ?thesis using scaled_from_decimal_parts_unit [OF assms 3, of "fst (point_ratio u)"] by simp
  qed
qed

theorem scaled_from_decimal_parts_exact_witness:
  "scaled_from_decimal_parts 1 32768 In = Ok 7104430
   \<and> scaled_from_decimal_parts 16384 0 Pt = Err TooLarge"
  using scaled_from_decimal_parts_exact [of 1 32768 In] scaled_from_decimal_parts_exact [of 16384 0 Pt]
  by (simp add: UNITY_def)

lemma scale_true_dimension_parts_eq:
  assumes "0 \<le> i" and "0 \<le> f" and "f \<le> UNITY" and "1 \<le> mag" and "mag \<le> 32768" and "mag \<noteq> 1000"
  defines "v \<equiv> (1000 * (UNITY * i + f)) div mag"
  shows "scale_true_dimension_parts i f mag =
    (if (i * 1000) div mag \<ge> 2 ^ 30 then Err TooLarge else Ok (v div UNITY, v mod UNITY))"
proof -
  define q r where "q = (i * 1000) div mag" and "r = (i * 1000) mod mag"
  define fr where "fr = (1000 * f + UNITY * r) div mag"
  have q0: "0 \<le> q" using assms(1,4) by (simp add: q_def pos_imp_zdiv_nonneg_iff)
  have r: "0 \<le> r" "r < mag" using assms(4) by (simp_all add: r_def)
  have num: "0 \<le> 1000 * f + UNITY * r" "1000 * f + UNITY * r < 1000 * UNITY + UNITY * mag + 1"
    using assms(2,3) r by (simp_all add: UNITY_def)
  have fr0: "0 \<le> fr" using num assms(4) by (simp add: fr_def pos_imp_zdiv_nonneg_iff)
  have "fr < 1001 * UNITY + 1"
    unfolding fr_def using num assms(4) by (simp add: div_less_iff_less_mult UNITY_def)
  then have fr1: "fr div UNITY < 1002" by (simp add: div_less_iff_less_mult UNITY_def)
  have w: "wrap32 (1000 * f) = 1000 * f" using assms(2,3) by (simp add: wrap32_id in_i32_iff UNITY_def)
  have d: "(1000 * f + UNITY * r) sdiv mag = fr" "fr sdiv UNITY = fr div UNITY" "fr smod UNITY = fr mod UNITY"
    using num fr0 assms(4) by (simp_all add: fr_def rust_div_simps UNITY_def)
  have xn: "xn_over_d i 1000 mag =
      (if q \<ge> 2 ^ 30 then Err TooLarge else Ok \<lparr>xn_quotient = q, xn_remainder = r\<rparr>)"
    using xn_over_d_eq [of 1000 mag i] assms(1,4,5) by (simp add: q_def r_def rust_div_simps UNITY_def)
  have v: "v = fr + UNITY * q"
    using split_quotient [of mag i 1000 f] assms(4) by (simp add: v_def q_def r_def fr_def)
  have vd: "v div UNITY = q + fr div UNITY" "v mod UNITY = fr mod UNITY"
    unfolding v by (simp_all add: UNITY_def)
  have "0 \<le> fr mod UNITY" "fr mod UNITY < UNITY" by (simp_all add: UNITY_def)
  then have rng: "in_i32 (fr mod UNITY)" "q < 2 ^ 30 \<Longrightarrow> in_i32 (q + fr div UNITY)"
    unfolding in_i32_iff UNITY_def using q0 fr0 fr1
    by (linarith, simp add: UNITY_def pos_imp_zdiv_nonneg_iff)
  show ?thesis
    unfolding vd q_def [symmetric]
    using assms(1-6) rng by (simp add: scale_true_dimension_parts_def Let_def xn w d)
qed

text \<open>The \<open>true\<close> magnification step divides the whole decimal by \<open>mag/1000\<close>: for a legal
  magnification it either reports \<open>TooLarge\<close> (exactly when the scaled integer part alone reaches
  \<open>2^30\<close>) or returns the integer and fraction of \<open>1000 (65536 i + f) / mag\<close>; it never panics.\<close>

lemma scale_true_dimension_parts_exact:
  assumes "0 \<le> i" and "0 \<le> f" and "f \<le> UNITY" and "1 \<le> mag" and "mag \<le> 32768"
  shows "case scale_true_dimension_parts i f mag of
      Ok (i', f') \<Rightarrow> UNITY * i' + f' = (1000 * (UNITY * i + f)) div mag \<and> 0 \<le> f' \<and> f' \<le> UNITY
    | Err e \<Rightarrow> (i * 1000) div mag \<ge> 2 ^ 30
    | Panic \<Rightarrow> False"
proof (cases "mag = 1000")
  case True
  with assms show ?thesis by (simp add: scale_true_dimension_parts_def)
next
  case False
  then show ?thesis
    using scale_true_dimension_parts_eq [OF assms False] by (simp add: UNITY_def less_imp_le)
qed

lemma scale_true_dimension_parts_exact_witness:
  "scale_true_dimension_parts 3 32768 2000 = Ok (1, 49152)
   \<and> UNITY * 1 + 49152 = (1000 * (UNITY * 3 + 32768)) div 2000"
proof -
  have "scale_true_dimension_parts 3 32768 2000 = Ok (1, 49152)"
    by (simp add: scale_true_dimension_parts_eq UNITY_def)
  with scale_true_dimension_parts_exact [of 3 32768 2000] show ?thesis by (simp add: UNITY_def)
qed

text \<open>C27. Printing a dimension and reading it back is the identity: \<open>print_scaled\<close> never panics, ends
  within five fraction digits, and for every legal dimension the printed integer part and digits are
  converted back to exactly the same magnitude.\<close>

theorem print_scaled_reads_back:
  assumes "\<bar>v\<bar> < 2 ^ 30"
  shows "\<exists>ds fraction. print_scaled v =
        Ok ((if v < 0 then ''-'' else '''') @ nat_to_string (nat (\<bar>v\<bar> div UNITY)) @ ''.''
              @ map digit_char ds)
    \<and> ds \<noteq> [] \<and> length ds \<le> 5 \<and> (\<forall>d \<in> set ds. d \<le> 9)
    \<and> round_decimal_fraction ds = Ok fraction
    \<and> scaled_from_decimal_parts (\<bar>v\<bar> div UNITY) fraction Pt = Ok \<bar>v\<bar>"
proof -
  obtain ds where ds: "print_scaled v =
        Ok ((if v < 0 then ''-'' else '''') @ nat_to_string (nat (\<bar>v\<bar> div UNITY)) @ ''.''
              @ map digit_char ds)" "ds \<noteq> []" "length ds \<le> 5" "digits_read_as ds (\<bar>v\<bar> mod UNITY)"
    by (rule print_scaled_text)
  have m: "0 \<le> \<bar>v\<bar> mod UNITY" "\<bar>v\<bar> mod UNITY \<le> UNITY" by (simp_all add: UNITY_def less_imp_le)
  have "0 \<le> \<bar>v\<bar> div UNITY" by (simp add: pos_imp_zdiv_nonneg_iff UNITY_def)
  from scaled_from_decimal_parts_pt [OF this m] assms
  have "scaled_from_decimal_parts (\<bar>v\<bar> div UNITY) (\<bar>v\<bar> mod UNITY) Pt = Ok \<bar>v\<bar>" by simp
  with ds show ?thesis unfolding digits_read_as_iff by blast
qed

theorem print_scaled_reads_back_witness:
  "print_scaled (-98304) = Ok ''-1.5'' \<and> \<bar>-98304 :: int\<bar> < 2 ^ 30
   \<and> (\<exists>ds. \<exists>fraction. round_decimal_fraction ds = Ok fraction
        \<and> scaled_from_decimal_parts (\<bar>-98304\<bar> div UNITY) fraction Pt = Ok 98304)"
proof -
  have "print_scaled (-98304) = Ok ''-1.5''"
    by code_simp
  with print_scaled_reads_back [of "-98304"] show ?thesis by auto
qed

end
