(* ===== verification/Glue_Ratio.thy ===== *)
theory Glue_Ratio
  imports Scaled_Arith
begin

text \<open>
  The exact glue-set ratio of \<^verbatim>\<open>crates/tex-arith/src/lib.rs\<close>: a signed reduced fraction of two
  \<open>i32\<close> values with a positive denominator, its constructors and its fixed-point projection.
\<close>

section \<open>Definitions\<close>

record GlueSetRatio =
  numerator :: int
  denominator :: int

datatype GlueSetRatioError = NonPositiveDenominator | UnrepresentableNumerator

definition GLUE_SET_RATIO_SCALE :: int where "GLUE_SET_RATIO_SCALE = 1000000"

definition ratio_ZERO :: GlueSetRatio where "ratio_ZERO = \<lparr>numerator = 0, denominator = 1\<rparr>"
definition ratio_UNITY :: GlueSetRatio where "ratio_UNITY = \<lparr>numerator = 1, denominator = 1\<rparr>"

text \<open>\<open>i32::saturating_abs\<close> and \<open>i32::checked_abs\<close>.\<close>

definition saturating_abs :: "int \<Rightarrow> int" where
  "saturating_abs x = (if x = i32_min then i32_max else \<bar>x\<bar>)"

definition checked_abs :: "int \<Rightarrow> int option" where
  "checked_abs x = (if x = i32_min then None else Some \<bar>x\<bar>)"

fun gcd_loop :: "nat \<Rightarrow> nat \<Rightarrow> nat" where
  "gcd_loop left right = (if right = 0 then left else gcd_loop right (left mod right))"

declare gcd_loop.simps [simp del]

definition gcd_i32 :: "int \<Rightarrow> int \<Rightarrow> int" where
  "gcd_i32 left right =
     (let g = gcd_loop (nat \<bar>left\<bar>) (nat \<bar>right\<bar>) in if g = 0 then 1 else wrap32 (int g))"

definition from_ratio_parts :: "int \<Rightarrow> int \<Rightarrow> GlueSetRatio" where
  "from_ratio_parts n d =
     (if n = 0 \<or> d = 0 then ratio_ZERO
      else let negative = ((n < 0) \<noteq> (d < 0));
               n = saturating_abs n;
               d = saturating_abs d;
               divisor = gcd_i32 n d;
               n = n sdiv divisor
           in \<lparr>numerator = (if negative then - n else n), denominator = d sdiv divisor\<rparr>)"

definition ratio_from_raw :: "int \<Rightarrow> GlueSetRatio" where
  "ratio_from_raw raw = from_ratio_parts raw GLUE_SET_RATIO_SCALE"

definition from_scaled_ratio :: "scaled \<Rightarrow> scaled \<Rightarrow> GlueSetRatio" where
  "from_scaled_ratio n d = from_ratio_parts n d"

definition try_from_ratio_parts :: "int \<Rightarrow> int \<Rightarrow> (GlueSetRatioError, GlueSetRatio) outcome" where
  "try_from_ratio_parts n d =
     (if d \<le> 0 then Err NonPositiveDenominator
      else if n = 0 then Ok ratio_ZERO
      else let negative = (n < 0)
           in (case checked_abs n of
                 None \<Rightarrow> Err UnrepresentableNumerator
               | Some n \<Rightarrow>
                   let divisor = gcd_i32 n d;
                       n = n sdiv divisor
                   in Ok \<lparr>numerator = (if negative then - n else n), denominator = d sdiv divisor\<rparr>))"

definition ratio_raw :: "GlueSetRatio \<Rightarrow> int panicking" where
  "ratio_raw r =
     (let scaled = numerator r * GLUE_SET_RATIO_SCALE;
          rounded = round_half_away scaled (denominator r);
          clamped = max i32_min (min i32_max rounded)
      in if in_i32 clamped then Ok clamped else Panic)"

definition ratio_is_zero :: "GlueSetRatio \<Rightarrow> bool" where
  "ratio_is_zero r \<longleftrightarrow> numerator r = 0"

section \<open>Canonical ratios\<close>

definition ratio_wf :: "GlueSetRatio \<Rightarrow> bool" where
  "ratio_wf r \<longleftrightarrow> 0 < denominator r \<and> denominator r \<le> i32_max
     \<and> \<bar>numerator r\<bar> \<le> i32_max \<and> coprime (numerator r) (denominator r)"

lemma gcd_loop_eq: "gcd_loop a b = gcd a b"
proof (induction a b rule: gcd_loop.induct)
  case (1 a b)
  then show ?case
    by (subst gcd_loop.simps) (simp add: gcd_red_nat [of a b])
qed

lemma gcd_i32_eq:
  assumes "\<bar>a\<bar> \<le> i32_max" and "\<bar>b\<bar> \<le> i32_max" and "b \<noteq> 0"
  shows "gcd_i32 a b = gcd a b"
proof -
  have "gcd a b \<le> \<bar>b\<bar>" using assms(3) by (simp add: zdvd_imp_le)
  moreover have pos: "0 < gcd a b" using assms(3) by simp
  moreover have "\<bar>b\<bar> \<le> 2147483647" using assms(2) by (simp add: i32_max_def)
  ultimately have rng: "in_i32 (gcd a b)" unfolding in_i32_iff by linarith
  have g: "int (gcd_loop (nat \<bar>a\<bar>) (nat \<bar>b\<bar>)) = gcd a b" by (simp only: gcd_loop_eq gcd_int_def)
  then have "gcd_loop (nat \<bar>a\<bar>) (nat \<bar>b\<bar>) \<noteq> 0" using pos by linarith
  then show ?thesis by (simp add: gcd_i32_def Let_def g wrap32_id [OF rng])
qed

lemma reduced_parts:
  fixes n d :: int
  assumes "0 < n" and "n \<le> i32_max" and "0 < d" and "d \<le> i32_max"
  shows "n sdiv gcd_i32 n d = n div gcd n d" and "d sdiv gcd_i32 n d = d div gcd n d"
    and "0 < n div gcd n d" and "n div gcd n d \<le> i32_max"
    and "0 < d div gcd n d" and "d div gcd n d \<le> i32_max"
    and "coprime (n div gcd n d) (d div gcd n d)"
    and "(n div gcd n d) * d = n * (d div gcd n d)"
proof -
  have g: "gcd_i32 n d = gcd n d" "0 < gcd n d" using assms by (simp_all add: gcd_i32_eq)
  then show "n sdiv gcd_i32 n d = n div gcd n d" and "d sdiv gcd_i32 n d = d div gcd n d"
    using assms by (simp_all add: sdiv_nonneg)
  have le: "x div gcd n d \<le> x" if "0 < x" for x
  proof -
    have "1 \<le> gcd n d" using g(2) by linarith
    with that zdiv_mono2 [of x 1 "gcd n d"] show ?thesis by simp
  qed
  have pos: "0 < x div gcd n d" if "gcd n d dvd x" "0 < x" for x
    using that g(2) by (metis dvd_div_mult_self zero_less_mult_iff order_less_asym)
  show "0 < n div gcd n d" and "n div gcd n d \<le> i32_max"
    and "0 < d div gcd n d" and "d div gcd n d \<le> i32_max"
    using le [of n] le [of d] pos [of n] pos [of d] assms by simp_all
  show "coprime (n div gcd n d) (d div gcd n d)" using assms by (intro div_gcd_coprime) simp
  show "(n div gcd n d) * d = n * (d div gcd n d)"
    by (metis div_mult_swap dvd_div_mult gcd_dvd1 gcd_dvd2 mult.commute)
qed

lemma from_ratio_parts_cross:
  assumes "in_i32 n" and "in_i32 d" and "n \<noteq> 0" and "d \<noteq> 0"
  defines "r \<equiv> from_ratio_parts n d"
  shows "ratio_wf r" and "numerator r * saturating_abs d * sgn d = saturating_abs n * sgn n * denominator r"
proof -
  let ?n = "saturating_abs n" and ?d = "saturating_abs d"
  have rng: "0 < ?n" "?n \<le> i32_max" "0 < ?d" "?d \<le> i32_max"
    using assms(1-4) by (auto simp: saturating_abs_def int_range_defs)
  note red = reduced_parts [OF rng]
  have r: "numerator r = sgn n * sgn d * (?n div gcd ?n ?d)" "denominator r = ?d div gcd ?n ?d"
    using assms(3,4) by (auto simp: r_def from_ratio_parts_def Let_def red(1,2) sgn_if)
  show "ratio_wf r"
    using red assms(3,4) by (auto simp: ratio_wf_def r sgn_if)
  show "numerator r * ?d * sgn d = ?n * sgn n * denominator r"
    using red(8) assms(3,4) by (auto simp: r sgn_if)
qed

lemma from_ratio_parts_wf: "in_i32 n \<Longrightarrow> in_i32 d \<Longrightarrow> ratio_wf (from_ratio_parts n d)"
  using from_ratio_parts_cross(1) [of n d]
  by (cases "n = 0 \<or> d = 0") (auto simp: from_ratio_parts_def ratio_ZERO_def ratio_wf_def i32_max_def)

lemma from_ratio_parts_value:
  assumes "in_i32 n" and "in_i32 d" and "d \<noteq> 0" and "n \<noteq> i32_min" and "d \<noteq> i32_min"
  shows "numerator (from_ratio_parts n d) * d = n * denominator (from_ratio_parts n d)"
proof (cases "n = 0")
  case True
  then show ?thesis by (simp add: from_ratio_parts_def ratio_ZERO_def)
next
  case False
  with assms from_ratio_parts_cross(2) [of n d] show ?thesis
    by (auto simp: saturating_abs_def sgn_if split: if_splits)
qed

text \<open>A glue-set ratio is always canonical: whatever \<open>i32\<close> parts it is built from, the result has a
  positive denominator, is in lowest terms and fits its fields; and it denotes exactly the quotient
  of the parts whenever the divisor is not zero and neither part is \<open>i32::MIN\<close>.\<close>

lemma from_ratio_parts_canonical:
  assumes "in_i32 n" and "in_i32 d"
  shows "ratio_wf (from_ratio_parts n d)
    \<and> (d \<noteq> 0 \<and> n \<noteq> i32_min \<and> d \<noteq> i32_min \<longrightarrow>
         numerator (from_ratio_parts n d) * d = n * denominator (from_ratio_parts n d))"
  using from_ratio_parts_wf [OF assms] from_ratio_parts_value [OF assms] by blast

lemma from_ratio_parts_canonical_witness:
  "from_ratio_parts 6 (-4) = \<lparr>numerator = -3, denominator = 2\<rparr> \<and> ratio_wf (from_ratio_parts 6 (-4))"
proof
  show "from_ratio_parts 6 (-4) = \<lparr>numerator = -3, denominator = 2\<rparr>" by code_simp
  show "ratio_wf (from_ratio_parts 6 (-4))"
    using from_ratio_parts_canonical [of 6 "-4"] by (simp add: in_i32_iff)
qed

lemma try_from_ratio_parts_wf:
  assumes "ratio_wf r"
  shows "try_from_ratio_parts (numerator r) (denominator r) = Ok r"
proof (cases "numerator r = 0")
  case True
  then have "denominator r = 1" using assms by (auto simp: ratio_wf_def)
  with True show ?thesis
    by (cases r) (simp add: try_from_ratio_parts_def ratio_ZERO_def)
next
  case False
  have wf: "0 < denominator r" "denominator r \<le> i32_max" "\<bar>numerator r\<bar> \<le> i32_max"
      "coprime (numerator r) (denominator r)"
    using assms by (auto simp: ratio_wf_def)
  have g: "gcd_i32 \<bar>numerator r\<bar> (denominator r) = 1"
    using wf by (simp add: gcd_i32_eq coprime_imp_gcd_eq_1)
  have "numerator r \<noteq> i32_min" using wf(3) by (auto simp: i32_min_def i32_max_def)
  with False wf(1) g show ?thesis
    by (cases r) (auto simp: try_from_ratio_parts_def Let_def checked_abs_def)
qed

text \<open>Serialised ratios survive: reading back the numerator and denominator of any canonical ratio
  through the validating constructor used by deserialisation returns that very ratio.\<close>

lemma ratio_roundtrip:
  assumes "ratio_wf r"
  shows "try_from_ratio_parts (numerator r) (denominator r) = Ok r
    \<and> from_ratio_parts (numerator r) (denominator r) = r"
proof -
  have "from_ratio_parts (numerator r) (denominator r) = r"
  proof (cases "numerator r = 0")
    case True
    then have "denominator r = 1" using assms by (auto simp: ratio_wf_def)
    with True show ?thesis by (cases r) (simp add: from_ratio_parts_def ratio_ZERO_def)
  next
    case False
    have wf: "0 < denominator r" "denominator r \<le> i32_max" "\<bar>numerator r\<bar> \<le> i32_max"
      using assms by (auto simp: ratio_wf_def)
    have "gcd_i32 \<bar>numerator r\<bar> (denominator r) = 1"
      using assms wf by (simp add: gcd_i32_eq ratio_wf_def coprime_imp_gcd_eq_1)
    moreover have "numerator r \<noteq> i32_min" "denominator r \<noteq> i32_min"
      using wf by (auto simp: i32_min_def i32_max_def)
    ultimately show ?thesis using False wf(1)
      by (cases r) (auto simp: from_ratio_parts_def Let_def saturating_abs_def)
  qed
  with try_from_ratio_parts_wf [OF assms] show ?thesis by simp
qed

lemma ratio_roundtrip_witness:
  "try_from_ratio_parts (-3) 2 = Ok \<lparr>numerator = -3, denominator = 2\<rparr>"
  using ratio_roundtrip [of "\<lparr>numerator = -3, denominator = 2\<rparr>"]
  by (simp add: ratio_wf_def i32_max_def)

text \<open>The fixed-point compatibility form is lossless on its own range: a ratio built from a raw
  millionths value projects back to exactly that value, for every \<open>i32\<close> but \<open>i32::MIN\<close>, and the
  projection never panics.\<close>

lemma ratio_raw_from_raw:
  assumes "in_i32 raw" and "raw \<noteq> i32_min"
  shows "ratio_raw (ratio_from_raw raw) = Ok raw"
proof -
  let ?r = "ratio_from_raw raw"
  have s: "in_i32 GLUE_SET_RATIO_SCALE" "GLUE_SET_RATIO_SCALE \<noteq> i32_min" "GLUE_SET_RATIO_SCALE \<noteq> 0"
    by (simp_all add: GLUE_SET_RATIO_SCALE_def int_range_defs)
  have wf: "0 < denominator ?r"
    and cross: "numerator ?r * GLUE_SET_RATIO_SCALE = denominator ?r * raw"
  proof -
    have "ratio_wf ?r \<and> numerator ?r * GLUE_SET_RATIO_SCALE = raw * denominator ?r"
    proof (cases "raw = 0")
      case True
      then show ?thesis
        by (simp add: ratio_from_raw_def from_ratio_parts_def ratio_ZERO_def ratio_wf_def i32_max_def)
    next
      case False
      then show ?thesis using from_ratio_parts_cross [OF assms(1) s(1) False s(3)] assms(2) s(2)
        by (auto simp: ratio_from_raw_def saturating_abs_def GLUE_SET_RATIO_SCALE_def sgn_if split: if_splits)
    qed
    then show "0 < denominator ?r" and "numerator ?r * GLUE_SET_RATIO_SCALE = denominator ?r * raw"
      by (simp_all add: ratio_wf_def mult.commute)
  qed
  have "round_half_away (numerator ?r * GLUE_SET_RATIO_SCALE) (denominator ?r) = raw"
    unfolding cross by (rule half_away.exact_on_multiples [OF wf])
  with assms(1) show ?thesis by (simp add: ratio_raw_def Let_def in_i32_def)
qed

end
