(* ===== verification/Tfm_Scale.thy ===== *)
theory Tfm_Scale
  imports Scaled_Arith
begin

text \<open>
  The TFM part of \<^verbatim>\<open>crates/tex-arith/src/lib.rs\<close>: the size rule of a \<open>\font\<close> definition and the
  conversion of the four-byte \<open>fix_word\<close> metrics of a TFM file to scaled points. Bytes are \<open>8 word\<close>.
\<close>

section \<open>Definitions\<close>

type_synonym fix_word = "byte \<times> byte \<times> byte \<times> byte"

datatype TfmConversionError =
  InvalidFixWord | InvalidDesignSize | InvalidAtSize | InvalidScale | ArithmeticOverflow

datatype FontSizeSpec = Design | At scaled | Scale int

definition TFM_STORE_SCALED_LIMIT :: int where "TFM_STORE_SCALED_LIMIT = 2 ^ 23"
definition TFM_FIX_WORD_RADIX :: int where "TFM_FIX_WORD_RADIX = 256"
definition TFM_SIZE_LIMIT :: int where "TFM_SIZE_LIMIT = 2 ^ 27"
definition TFM_MAX_SCALE :: int where "TFM_MAX_SCALE = 32768"

definition validate_tfm_design_size :: "scaled \<Rightarrow> (TfmConversionError, unit) outcome" where
  "validate_tfm_design_size sz =
     (if sz < UNITY \<or> sz \<ge> TFM_SIZE_LIMIT then Err InvalidDesignSize else Ok ())"

definition validate_tfm_metric_size :: "scaled \<Rightarrow> (TfmConversionError, unit) outcome" where
  "validate_tfm_metric_size sz =
     (if sz \<le> 0 \<or> sz \<ge> TFM_SIZE_LIMIT then Err InvalidAtSize else Ok ())"

definition tfm_font_size :: "scaled \<Rightarrow> FontSizeSpec \<Rightarrow> (TfmConversionError, scaled) outcome" where
  "tfm_font_size design_size spec =
     obind (validate_tfm_design_size design_size) (\<lambda>_.
       case spec of
         Design \<Rightarrow> Ok design_size
       | At sz \<Rightarrow> if sz \<le> 0 \<or> sz \<ge> TFM_SIZE_LIMIT then Err InvalidAtSize else Ok sz
       | Scale factor \<Rightarrow>
           if \<not> (1 \<le> factor \<and> factor \<le> TFM_MAX_SCALE) then Err InvalidScale
           else omap_err (\<lambda>_. ArithmeticOverflow)
                  (obind (xn_over_d design_size factor 1000) (\<lambda>value. Ok (xn_quotient value))))"

function tfm_scale_loop :: "int \<Rightarrow> int \<Rightarrow> int \<times> int" where
  "tfm_scale_loop z alpha =
     (if z \<ge> TFM_STORE_SCALED_LIMIT then tfm_scale_loop (z sdiv 2) (wrap32 (alpha + alpha))
      else (z, alpha))"
  by pat_completeness auto
termination
  by (relation "measure (\<lambda>(z, alpha). nat z)") (auto simp: TFM_STORE_SCALED_LIMIT_def sdiv_nonneg)

declare tfm_scale_loop.simps [simp del]

definition tfm_fix_word_to_scaled :: "fix_word \<Rightarrow> scaled \<Rightarrow> (TfmConversionError, scaled) outcome" where
  "tfm_fix_word_to_scaled bytes font_size =
     obind (validate_tfm_metric_size font_size) (\<lambda>_.
       let (a, b, c, d) = bytes;
           (z, alpha) = tfm_scale_loop font_size 16;
           beta = 256 sdiv alpha;
           alpha = wrap32 (alpha * z);
           sw = (((uint d * z) sdiv TFM_FIX_WORD_RADIX + uint c * z) sdiv TFM_FIX_WORD_RADIX
                  + uint b * z) sdiv beta
       in obind (if a = 0 then Ok sw else if a = 255 then Ok (sw - alpha) else Err InvalidFixWord)
            (\<lambda>value. if in_i32 value then Ok value else Err ArithmeticOverflow))"

text \<open>\<open>i32::from_be_bytes\<close> and the arithmetic right shift by four.\<close>

definition i32_from_be_bytes :: "fix_word \<Rightarrow> int" where
  "i32_from_be_bytes bytes =
     (case bytes of (a, b, c, d) \<Rightarrow>
        wrap32 (uint a * 2 ^ 24 + uint b * 2 ^ 16 + uint c * 2 ^ 8 + uint d))"

definition tfm_slant_fix_word_to_scaled_ratio :: "fix_word \<Rightarrow> scaled" where
  "tfm_slant_fix_word_to_scaled_ratio bytes = i32_from_be_bytes bytes div 2 ^ 4"

definition tfm_design_size_from_fix_word :: "fix_word \<Rightarrow> (TfmConversionError, scaled) outcome" where
  "tfm_design_size_from_fix_word bytes =
     (case bytes of (a, b, c, d) \<Rightarrow>
        if a > 127 then Err InvalidDesignSize
        else let z = wrap32 (wrap32 (uint a * TFM_FIX_WORD_RADIX) + uint b);
                 z = wrap32 (wrap32 (z * TFM_FIX_WORD_RADIX) + uint c);
                 z = wrap32 (wrap32 (z * 16) + uint (d div 16))
             in obind (validate_tfm_design_size z) (\<lambda>_. Ok z))"

section \<open>Properties\<close>

lemma uint_byte: "0 \<le> uint (b :: byte)" "uint (b :: byte) \<le> 255"
  using uint_lt2p [of b] by simp_all

lemma tfm_scale_loop_run:
  assumes "0 < z" and "z < 2 ^ (23 + n)" and "n \<le> 4" and "a = 2 ^ (8 - n)"
  shows "\<exists>j \<le> n. tfm_scale_loop z a = (z div 2 ^ j, 2 ^ (8 - n + j))
      \<and> 0 \<le> z div 2 ^ j \<and> z div 2 ^ j < 2 ^ 23 \<and> (0 < j \<longrightarrow> 2 ^ 22 \<le> z div 2 ^ j)"
  using assms
proof (induction n arbitrary: z a)
  case 0
  then show ?case by (subst tfm_scale_loop.simps) (simp add: TFM_STORE_SCALED_LIMIT_def)
next
  case (Suc n)
  show ?case
  proof (cases "z \<ge> 2 ^ 23")
    case False
    with Suc.prems show ?thesis
      by (intro exI [of _ 0]) (subst tfm_scale_loop.simps, simp add: TFM_STORE_SCALED_LIMIT_def)
  next
    case True
    have pow: "a + a = 2 ^ (8 - n)"
      using Suc.prems(3,4) by (simp add: Suc_diff_Suc [symmetric] Suc_diff_le numeral_eq_Suc)
    have "(2 :: int) ^ (8 - n) \<le> 2 ^ 8" by (intro power_increasing) auto
    moreover have "0 < (2 :: int) ^ (8 - n)" by simp
    ultimately have w: "wrap32 (a + a) = 2 ^ (8 - n)"
      unfolding pow by (intro wrap32_id) (simp del: zero_less_power add: in_i32_iff)
    have "z < 2 * 2 ^ (23 + n)" using Suc.prems(2) by (simp flip: power_Suc)
    then have "z div 2 < 2 ^ (23 + n)" by (simp add: div_less_iff_less_mult)
    then obtain j where j: "j \<le> n" "tfm_scale_loop (z div 2) (2 ^ (8 - n)) = (z div 2 div 2 ^ j, 2 ^ (8 - n + j))"
        "0 \<le> z div 2 div 2 ^ j" "z div 2 div 2 ^ j < 2 ^ 23" "0 < j \<longrightarrow> 2 ^ 22 \<le> z div 2 div 2 ^ j"
      using Suc.IH [of "z div 2" "2 ^ (8 - n)"] True Suc.prems(3)
      by (auto simp: pos_imp_zdiv_pos_iff)
    have dd: "z div 2 div 2 ^ j = z div 2 ^ Suc j" by (simp add: zdiv_zmult2_eq)
    have "2 ^ 22 \<le> z div 2 ^ Suc j"
      using j(5) True unfolding dd [symmetric] by (cases "j = 0") (simp_all add: le_div_iff_mult_le)
    moreover have "8 - n + j = 8 - Suc n + Suc j" using Suc.prems(3) by simp
    moreover have "z sdiv 2 = z div 2" using True by (simp add: sdiv_nonneg)
    ultimately show ?thesis using j True w unfolding dd
      by (intro exI [of _ "Suc j"]) (subst tfm_scale_loop.simps, simp add: TFM_STORE_SCALED_LIMIT_def)
  qed
qed

lemma nested_radix_division:
  fixes b c d z :: int
  assumes "0 < beta"
  shows "((d * z div 256 + c * z) div 256 + b * z) div beta
    = ((65536 * b + 256 * c + d) * z) div (65536 * beta)"
proof -
  have "d * z div 256 + c * z = (d * z + c * z * 256) div 256" by simp
  then have "(d * z div 256 + c * z) div 256 = (d * z + c * z * 256) div (256 * 256)"
    by (simp add: zdiv_zmult2_eq)
  then have "(d * z div 256 + c * z) div 256 + b * z = (d * z + c * z * 256 + b * z * 65536) div 65536"
    by simp
  then have "((d * z div 256 + c * z) div 256 + b * z) div beta
      = (d * z + c * z * 256 + b * z * 65536) div (65536 * beta)"
    using assms by (simp only: zdiv_zmult2_eq [of beta] order_less_imp_le)
  then show ?thesis by (simp add: algebra_simps)
qed

lemma tfm_scale_loop_font_size:
  assumes "0 < z" and "z < 2 ^ 27"
  obtains j where "j \<le> 4" and "tfm_scale_loop z 16 = (z div 2 ^ j, 2 ^ (4 + j))"
    and "0 \<le> z div 2 ^ j" and "z div 2 ^ j < 2 ^ 23" and "0 < j \<longrightarrow> 2 ^ 22 \<le> z div 2 ^ j"
proof -
  have "z < 2 ^ (23 + 4)" "(16 :: int) = 2 ^ (8 - 4)" using assms(2) by simp_all
  from tfm_scale_loop_run [OF assms(1) this(1) order_refl this(2)] show ?thesis
    by (auto intro: that)
qed

text \<open>The signed value of a \<open>fix_word\<close> whose first byte is 0 or 255, in units of \<open>2^-20\<close>.\<close>

definition fix_word_value :: "fix_word \<Rightarrow> int" where
  "fix_word_value bytes =
     (case bytes of (a, b, c, d) \<Rightarrow>
        65536 * uint b + 256 * uint c + uint d - (if a = 255 then 2 ^ 24 else 0))"

lemma fix_word_value_bounds: "\<bar>fix_word_value bytes\<bar> \<le> 2 ^ 24"
proof -
  obtain a b c d where "bytes = (a, b, c, d)" by (cases bytes) auto
  moreover have "0 \<le> 65536 * uint b + 256 * uint c + uint d"
    and "65536 * uint b + 256 * uint c + uint d < 16777216"
    using uint_byte [of b] uint_byte [of c] uint_byte [of d] by linarith+
  moreover obtain v where "65536 * uint b + 256 * uint c + uint d = v" by simp
  ultimately show ?thesis by (auto simp: fix_word_value_def)
qed

lemma fix_word_scaling_eq:
  fixes b c d z :: int
  assumes j: "j \<le> 4" and nn: "0 \<le> b" "0 \<le> c" "0 \<le> d" "0 \<le> z"
  shows "((d * z sdiv 256 + c * z) sdiv 256 + b * z) sdiv (256 sdiv 2 ^ (4 + j)) - k * (2 ^ (4 + j) * z)
    = ((65536 * b + 256 * c + d - k * 2 ^ 24) * z) div 2 ^ (20 - j)"
proof -
  have "j = 0 \<or> j = 1 \<or> j = 2 \<or> j = 3 \<or> j = 4" using j by arith
  then have p: "(2 :: int) ^ (4 + j) * 2 ^ (4 - j) = 256" "(65536 :: int) * 2 ^ (4 - j) = 2 ^ (20 - j)"
    "(2 :: int) ^ 24 = 2 ^ (4 + j) * 2 ^ (20 - j)" "(256 :: int) sdiv 2 ^ (4 + j) = 2 ^ (4 - j)"
    by (auto simp: sdiv_nonneg)
  let ?X = "(65536 * b + 256 * c + d) * z"
  have "((d * z sdiv 256 + c * z) sdiv 256 + b * z) sdiv 2 ^ (4 - j) = ?X div 2 ^ (20 - j)"
    using nn by (simp add: sdiv_nonneg pos_imp_zdiv_nonneg_iff nested_radix_division p(2))
  moreover have "(?X - k * (2 ^ (4 + j) * z) * 2 ^ (20 - j)) div 2 ^ (20 - j)
      = ?X div 2 ^ (20 - j) - k * (2 ^ (4 + j) * z)"
    using div_mult_self1 [of "2 ^ (20 - j)" ?X "- (k * (2 ^ (4 + j) * z))"] by simp
  ultimately show ?thesis unfolding p(3,4) by (simp add: algebra_simps)
qed

lemma fix_word_scaling_in_i32:
  fixes v z :: int
  assumes "j \<le> 4" and "0 \<le> z" and "z < 2 ^ 23" and "\<bar>v\<bar> \<le> 2 ^ 24"
  shows "in_i32 ((v * z) div 2 ^ (20 - j))"
proof -
  have "\<bar>v * z\<bar> \<le> 2 ^ 24 * (2 ^ 23 - 1)" unfolding abs_mult using assms by (intro mult_mono) auto
  then have "\<bar>v * z\<bar> < 2 ^ 16 * 2 ^ 31" by simp
  also have "(2 :: int) ^ 16 * 2 ^ 31 \<le> 2 ^ (20 - j) * 2 ^ 31"
    using assms(1) by (intro mult_right_mono power_increasing) auto
  finally have "\<bar>v * z\<bar> < 2 ^ (20 - j) * 2 ^ 31" .
  then have "2 ^ (20 - j) * (- (2 ^ 31)) \<le> v * z" and "v * z < 2 ^ (20 - j) * 2 ^ 31" by auto
  then have "- (2 ^ 31) \<le> (v * z) div 2 ^ (20 - j)" and "(v * z) div 2 ^ (20 - j) < 2 ^ 31"
    by (simp_all only: le_div_iff_mult_le div_less_iff_less_mult zero_less_power zero_less_numeral)
  then show ?thesis by (simp add: in_i32_iff)
qed

lemma tfm_alpha_no_wrap:
  assumes "j \<le> 4" and "0 \<le> z" and "z < 2 ^ 23"
  shows "wrap32 (2 ^ (4 + j) * z) = 2 ^ (4 + j) * z"
proof -
  have "(2 :: int) ^ (4 + j) * z \<le> 2 ^ 8 * (2 ^ 23 - 1)"
    using assms by (intro mult_mono power_increasing) auto
  moreover have "0 \<le> (2 :: int) ^ (4 + j) * z" using assms by simp
  ultimately show ?thesis by (intro wrap32_id) (simp add: in_i32_iff)
qed

text \<open>A TFM metric word is scaled exactly as TeX prescribes: at a legal font size the conversion
  never overflows (no \<open>i32\<close> wrap-around of \<open>alpha\<close> and no range failure of the result), rejects exactly
  the words whose first byte is neither 0 nor 255, and otherwise yields the word's signed value times the
  font size, the latter halved \<open>j \<le> 4\<close> times until it is below \<open>2^23\<close>, divided by \<open>2^(20-j)\<close> rounded
  toward minus infinity. An illegal size is reported as such.\<close>

lemma tfm_fix_word_to_scaled_exact:
  "if 0 < font_size \<and> font_size < 2 ^ 27
   then \<exists>j \<le> 4. font_size div 2 ^ j < 2 ^ 23 \<and> (j = 0 \<or> 2 ^ 22 \<le> font_size div 2 ^ j)
     \<and> tfm_fix_word_to_scaled bytes font_size =
         (if fst bytes = 0 \<or> fst bytes = 255
          then Ok ((fix_word_value bytes * (font_size div 2 ^ j)) div 2 ^ (20 - j))
          else Err InvalidFixWord)
   else tfm_fix_word_to_scaled bytes font_size = Err InvalidAtSize"
proof (cases "0 < font_size \<and> font_size < 2 ^ 27")
  case True
  then obtain j where j: "j \<le> 4" and run: "tfm_scale_loop font_size 16 = (font_size div 2 ^ j, 2 ^ (4 + j))"
    and z: "0 \<le> font_size div 2 ^ j" "font_size div 2 ^ j < 2 ^ 23"
      "0 < j \<longrightarrow> 2 ^ 22 \<le> font_size div 2 ^ j"
    using tfm_scale_loop_font_size by blast
  obtain a b c d where bytes: "bytes = (a, b, c, d)" by (cases bytes) auto
  let ?z = "font_size div 2 ^ j"
  have sw: "((uint d * ?z sdiv 256 + uint c * ?z) sdiv 256 + uint b * ?z) sdiv (256 sdiv 2 ^ (4 + j))
      - k * (2 ^ (4 + j) * ?z) = ((65536 * uint b + 256 * uint c + uint d - k * 2 ^ 24) * ?z) div 2 ^ (20 - j)"
    for k by (rule fix_word_scaling_eq [OF j]) (use z in simp_all)
  have rng: "in_i32 ((fix_word_value bytes * ?z) div 2 ^ (20 - j))"
    by (rule fix_word_scaling_in_i32 [OF j z(1,2) fix_word_value_bounds])
  have valid: "validate_tfm_metric_size font_size = Ok ()"
    using True by (simp add: validate_tfm_metric_size_def TFM_SIZE_LIMIT_def)
  have "tfm_fix_word_to_scaled bytes font_size =
      (if a = 0 \<or> a = 255 then Ok ((fix_word_value bytes * ?z) div 2 ^ (20 - j)) else Err InvalidFixWord)"
    using sw [of 0] sw [of 1] rng unfolding tfm_fix_word_to_scaled_def valid bytes
    by (auto simp: run Let_def tfm_alpha_no_wrap [OF j z(1,2)] TFM_FIX_WORD_RADIX_def fix_word_value_def)
  with True j z bytes show ?thesis by auto
next
  case False
  then show ?thesis
    by (auto simp: tfm_fix_word_to_scaled_def validate_tfm_metric_size_def TFM_SIZE_LIMIT_def)
qed

lemma uint_byte_div_16: "uint (d div 16 :: byte) = uint d div 16"
  by (simp add: uint_div)

lemma be_bytes_digits:
  fixes a b c d :: int
  shows "(((a * 256 + b) * 256 + c) * 16 + d div 16) = (a * 2 ^ 24 + b * 2 ^ 16 + c * 2 ^ 8 + d) div 16"
  by simp

lemma wrap32_high: "2 ^ 31 \<le> x \<Longrightarrow> x < 2 ^ 32 \<Longrightarrow> wrap32 x = x - 2 ^ 32"
  using mod_pos_pos_trivial [of "x - 2 ^ 31" "2 ^ 32"] mod_add_self2 [of "x - 2 ^ 31" "2 ^ 32"]
  by (simp add: wrap32_def add.commute)

lemma be_bytes_bounds:
  fixes a b c d :: byte
  obtains v where "uint a * 2 ^ 24 + uint b * 2 ^ 16 + uint c * 2 ^ 8 + uint d = v"
    and "uint a * 2 ^ 24 \<le> v" and "v < uint a * 2 ^ 24 + 2 ^ 24"
proof (rule that [OF refl])
  obtain B C D where eqs: "uint b = B" "uint c = C" "uint d = D" by simp
  then have "0 \<le> B" "B \<le> 255" "0 \<le> C" "C \<le> 255" "0 \<le> D" "D \<le> 255"
    using uint_byte [of b] uint_byte [of c] uint_byte [of d] by auto
  then show "uint a * 2 ^ 24 \<le> uint a * 2 ^ 24 + uint b * 2 ^ 16 + uint c * 2 ^ 8 + uint d"
    and "uint a * 2 ^ 24 + uint b * 2 ^ 16 + uint c * 2 ^ 8 + uint d < uint a * 2 ^ 24 + 2 ^ 24"
    unfolding eqs by simp_all
qed

lemma i32_from_be_bytes_nonneg:
  assumes "a \<le> 127"
  shows "i32_from_be_bytes (a, b, c, d) = uint a * 2 ^ 24 + uint b * 2 ^ 16 + uint c * 2 ^ 8 + uint d"
proof -
  have a: "0 \<le> uint a" "uint a \<le> 127" using assms by (simp_all add: word_le_def)
  obtain v where v: "uint a * 2 ^ 24 + uint b * 2 ^ 16 + uint c * 2 ^ 8 + uint d = v"
    "uint a * 2 ^ 24 \<le> v" "v < uint a * 2 ^ 24 + 2 ^ 24" by (rule be_bytes_bounds)
  have "0 \<le> uint a * 2 ^ 24" by simp
  with v(2) have "0 \<le> v" by linarith
  moreover have "v < 2147483648" using a v(3) by simp
  ultimately show ?thesis unfolding i32_from_be_bytes_def prod.case v(1) by (simp add: wrap32_id in_i32_iff)
qed

lemma i32_from_be_bytes_neg:
  assumes "128 \<le> uint a"
  shows "i32_from_be_bytes (a, b, c, d) < 0"
proof -
  obtain v where v: "uint a * 2 ^ 24 + uint b * 2 ^ 16 + uint c * 2 ^ 8 + uint d = v"
    "uint a * 2 ^ 24 \<le> v" "v < uint a * 2 ^ 24 + 2 ^ 24" by (rule be_bytes_bounds)
  then have "2 ^ 31 \<le> v" "v < 2 ^ 32" using assms uint_byte [of a] by simp_all
  then show ?thesis unfolding i32_from_be_bytes_def prod.case v(1) by (simp add: wrap32_high)
qed

lemma tfm_design_size_no_wrap:
  assumes "a \<le> (127 :: byte)"
  shows "wrap32 (wrap32 (wrap32 (wrap32 (wrap32 (wrap32 (uint a * 256) + uint b) * 256) + uint c) * 16)
      + uint (d div 16)) = i32_from_be_bytes (a, b, c, d) div 16"
proof -
  obtain A B C D where eqs: "uint a = A" "uint b = B" "uint c = C" "uint d = D" by simp
  have rng: "0 \<le> A" "A \<le> 127" "0 \<le> B" "B \<le> 255" "0 \<le> C" "C \<le> 255" "0 \<le> D div 16" "D div 16 \<le> 15"
    using assms uint_byte [of b] uint_byte [of c] uint_byte [of d] uint_byte [of a]
    by (auto simp: word_le_def eqs)
  then show ?thesis
    unfolding i32_from_be_bytes_nonneg [OF assms] be_bytes_digits [symmetric] uint_byte_div_16 eqs
    by (simp add: wrap32_id in_i32_iff)
qed

text \<open>The design size read from a TFM header is the header word divided by 16, accepted exactly
  when it is between one point and 2048 points; a word with its sign bit set is refused, and the
  accumulation of the bytes never wraps.\<close>

lemma tfm_design_size_from_fix_word_exact:
  "tfm_design_size_from_fix_word bytes =
     (if 2 ^ 16 \<le> i32_from_be_bytes bytes div 16 \<and> i32_from_be_bytes bytes div 16 < 2 ^ 27
      then Ok (i32_from_be_bytes bytes div 16) else Err InvalidDesignSize)"
proof -
  obtain a b c d where bytes: "bytes = (a, b, c, d)" by (cases bytes) auto
  show ?thesis
  proof (cases "a \<le> 127")
    case True
    then show ?thesis
      by (auto simp: bytes tfm_design_size_from_fix_word_def TFM_FIX_WORD_RADIX_def Let_def
        tfm_design_size_no_wrap validate_tfm_design_size_def UNITY_def TFM_SIZE_LIMIT_def)
  next
    case False
    then have "128 \<le> uint a" by (simp add: word_le_def)
    then have "i32_from_be_bytes bytes < 0" by (simp add: bytes i32_from_be_bytes_neg)
    with False show ?thesis by (auto simp: not_le bytes tfm_design_size_from_fix_word_def)
  qed
qed

text \<open>The size rule of a font definition: on a legal design size the requested size is the design
  size, the legal \<open>at\<close> size, or the design size times \<open>scaled/1000\<close> rounded toward zero; a \<open>scaled\<close>
  result is always positive, and every failure names the offending parameter. No branch panics.\<close>

lemma tfm_font_size_exact:
  assumes "2 ^ 16 \<le> design_size" and "design_size < 2 ^ 27"
  shows "tfm_font_size design_size spec =
    (case spec of Design \<Rightarrow> Ok design_size
     | At sz \<Rightarrow> if 0 < sz \<and> sz < 2 ^ 27 then Ok sz else Err InvalidAtSize
     | Scale k \<Rightarrow> if k < 1 \<or> 32768 < k then Err InvalidScale
                 else if (design_size * k) div 1000 < 2 ^ 30 then Ok ((design_size * k) div 1000)
                 else Err ArithmeticOverflow)
    \<and> (\<forall>k \<ge> 1. 0 < (design_size * k) div 1000)"
proof
  have "0 < (design_size * k) div 1000" if "k \<ge> 1" for k
  proof -
    have "2 ^ 16 * 1 \<le> design_size * k" using assms(1) that by (intro mult_mono) auto
    then show ?thesis by (simp add: pos_imp_zdiv_pos_iff)
  qed
  then show "\<forall>k \<ge> 1. 0 < (design_size * k) div 1000" by blast
  have "xn_over_d design_size k 1000 =
      (if (design_size * k) div 1000 \<ge> 2 ^ 30 then Err TooLarge
       else Ok \<lparr>xn_quotient = (design_size * k) sdiv 1000, xn_remainder = (design_size * k) smod 1000\<rparr>)"
    if "1 \<le> k" "k \<le> 32768" for k
    using xn_over_d_eq [of k 1000 design_size] that assms by (simp add: UNITY_def)
  then show "tfm_font_size design_size spec =
    (case spec of Design \<Rightarrow> Ok design_size
     | At sz \<Rightarrow> if 0 < sz \<and> sz < 2 ^ 27 then Ok sz else Err InvalidAtSize
     | Scale k \<Rightarrow> if k < 1 \<or> 32768 < k then Err InvalidScale
                 else if (design_size * k) div 1000 < 2 ^ 30 then Ok ((design_size * k) div 1000)
                 else Err ArithmeticOverflow)"
    using assms by (auto simp: tfm_font_size_def validate_tfm_design_size_def UNITY_def
      TFM_SIZE_LIMIT_def TFM_MAX_SCALE_def sdiv_nonneg split: FontSizeSpec.split)
qed

lemma tfm_font_size_exact_witness:
  "tfm_font_size 655360 (Scale 1200) = Ok 786432"
  using tfm_font_size_exact [of 655360 "Scale 1200"] by simp

end
