(* ===== verification/Pdf_Number.thy ===== *)
theory Pdf_Number
  imports Umber_Prelude
begin

text \<open>
  \<open>parse_pdf_real\<close> of \<^verbatim>\<open>crates/tex-arith/src/lib.rs\<close>: the PDF number token parser with its running
  floating value and its exact \<open>i64\<close> reading. Double-precision arithmetic is a parameter, the record
  \<open>f64_ops\<close> of the operations the parser applies; no statement depends on what they compute.
\<close>

section \<open>Definitions\<close>

record 'f f64_ops =
  f_zero :: 'f
  f_ten :: 'f
  f_tenth :: 'f
  f_of_digit :: "nat \<Rightarrow> 'f"
  f_add :: "'f \<Rightarrow> 'f \<Rightarrow> 'f"
  f_mul :: "'f \<Rightarrow> 'f \<Rightarrow> 'f"
  f_neg :: "'f \<Rightarrow> 'f"

datatype PdfRealParseError = InvalidSyntax

record 'f PdfReal =
  pdf_value :: 'f
  exact_integer :: "int option"

definition is_pdf_space :: "byte \<Rightarrow> bool" where
  "is_pdf_space b \<longleftrightarrow> b = 0 \<or> b = 9 \<or> b = 10 \<or> b = 12 \<or> b = 13 \<or> b = 32"

text \<open>The slice between the first and the last byte that is not white space.\<close>

definition trim_pdf_whitespace :: "byte list \<Rightarrow> byte list" where
  "trim_pdf_whitespace source = rev (dropWhile is_pdf_space (rev (dropWhile is_pdf_space source)))"

definition is_ascii_digit :: "byte \<Rightarrow> bool" where
  "is_ascii_digit b \<longleftrightarrow> 48 \<le> b \<and> b \<le> 57"

definition digit_of :: "byte \<Rightarrow> nat" where
  "digit_of b = unat (b - 48)"

definition checked_u64 :: "nat \<Rightarrow> nat option" where
  "checked_u64 n = (if n < 2 ^ 64 then Some n else None)"

text \<open>The two digit loops consume the bytes from the current index on; the third component of the
  result is the flag that a digit was seen, the last one the rest of the source.\<close>

fun pdf_integer_loop ::
    "'f f64_ops \<Rightarrow> byte list \<Rightarrow> 'f \<Rightarrow> nat option \<Rightarrow> bool \<Rightarrow> 'f \<times> nat option \<times> bool \<times> byte list" where
  "pdf_integer_loop ops (b # rest) val exact_magnitude saw_digit =
     (if is_ascii_digit b
      then pdf_integer_loop ops rest
             (f_add ops (f_mul ops val (f_ten ops)) (f_of_digit ops (digit_of b)))
             (Option.bind (Option.bind exact_magnitude (\<lambda>m. checked_u64 (m * 10)))
                (\<lambda>m. checked_u64 (m + digit_of b)))
             True
      else (val, exact_magnitude, saw_digit, b # rest))"
| "pdf_integer_loop ops [] val exact_magnitude saw_digit = (val, exact_magnitude, saw_digit, [])"

fun pdf_fraction_loop ::
    "'f f64_ops \<Rightarrow> byte list \<Rightarrow> 'f \<Rightarrow> 'f \<Rightarrow> bool \<Rightarrow> 'f \<times> bool \<times> byte list" where
  "pdf_fraction_loop ops (b # rest) val scale saw_digit =
     (if is_ascii_digit b
      then pdf_fraction_loop ops rest (f_add ops val (f_mul ops scale (f_of_digit ops (digit_of b))))
             (f_mul ops scale (f_tenth ops)) True
      else (val, saw_digit, b # rest))"
| "pdf_fraction_loop ops [] val scale saw_digit = (val, saw_digit, [])"

definition i64_try_from :: "nat \<Rightarrow> int option" where
  "i64_try_from n = checked64 (int n)"

definition parse_pdf_real ::
    "'f f64_ops \<Rightarrow> byte list \<Rightarrow> (PdfRealParseError, 'f PdfReal) outcome" where
  "parse_pdf_real ops source =
     (let source = trim_pdf_whitespace source;
          (negative, rest) =
            (case source of
               b # bs \<Rightarrow> if b = 45 then (True, bs) else if b = 43 then (False, bs) else (False, source)
             | [] \<Rightarrow> (False, source));
          (val, exact_magnitude, saw_digit, rest) = pdf_integer_loop ops rest (f_zero ops) (Some 0) False;
          (val, exact_magnitude, saw_digit, rest) =
            (case rest of
               b # bs \<Rightarrow>
                 if b = 46
                 then (let (val, saw_digit, rest) = pdf_fraction_loop ops bs val (f_tenth ops) saw_digit
                       in (val, None, saw_digit, rest))
                 else (val, exact_magnitude, saw_digit, rest)
             | [] \<Rightarrow> (val, exact_magnitude, saw_digit, rest))
      in if \<not> saw_digit \<or> rest \<noteq> [] then Err InvalidSyntax
         else let val = (if negative then f_neg ops val else val);
                  exact = Option.bind exact_magnitude (\<lambda>magnitude.
                    if negative
                    then (if magnitude = 2 ^ 63 then Some i64_min
                          else Option.bind (i64_try_from magnitude) (\<lambda>m. checked64 (- m)))
                    else i64_try_from magnitude)
              in Ok \<lparr>pdf_value = val, exact_integer = exact\<rparr>)"

section \<open>The token grammar\<close>

text \<open>A number token: an optional sign, digits, optionally a period and more digits, at least one
  digit in all.\<close>

definition pdf_sign :: "byte list \<Rightarrow> bool" where
  "pdf_sign s \<longleftrightarrow> s = [] \<or> s = [43] \<or> s = [45]"

definition pdf_number_token :: "byte list \<Rightarrow> bool" where
  "pdf_number_token t \<longleftrightarrow>
     (\<exists>s ds. t = s @ ds \<and> pdf_sign s \<and> (\<forall>b \<in> set ds. is_ascii_digit b) \<and> ds \<noteq> [])
     \<or> (\<exists>s ds fs. t = s @ ds @ 46 # fs \<and> pdf_sign s \<and> (\<forall>b \<in> set ds. is_ascii_digit b)
          \<and> (\<forall>b \<in> set fs. is_ascii_digit b) \<and> ds @ fs \<noteq> [])"

definition pdf_digits_value :: "byte list \<Rightarrow> nat" where
  "pdf_digits_value ds = foldl (\<lambda>m b. m * 10 + digit_of b) 0 ds"

lemma trim_pdf_whitespace_padded:
  assumes "\<forall>b \<in> set pre. is_pdf_space b" and "\<forall>b \<in> set post. is_pdf_space b"
    and "t \<noteq> []" and "\<not> is_pdf_space (hd t)" and "\<not> is_pdf_space (last t)"
  shows "trim_pdf_whitespace (pre @ t @ post) = t"
proof -
  have "dropWhile is_pdf_space (pre @ t @ post) = t @ post"
    using assms(1,3,4) by (cases t) (simp_all add: dropWhile_append2)
  moreover have "dropWhile is_pdf_space (rev (t @ post)) = rev t"
    using assms(2,3,5) dropWhile_append2 [of "rev post" is_pdf_space "rev t"]
    by (cases t rule: rev_cases) simp_all
  ultimately show ?thesis by (simp add: trim_pdf_whitespace_def)
qed

lemma pdf_integer_loop_rest:
  "pdf_integer_loop ops bs v m s =
     (let (v', m', s', r') = pdf_integer_loop ops bs v m s
      in (v', m', s \<or> takeWhile is_ascii_digit bs \<noteq> [], dropWhile is_ascii_digit bs))"
  by (induction ops bs v m s rule: pdf_integer_loop.induct) (auto simp: Let_def split: prod.splits)

lemma pdf_fraction_loop_rest:
  "pdf_fraction_loop ops bs v c s =
     (let (v', s', r') = pdf_fraction_loop ops bs v c s
      in (v', s \<or> takeWhile is_ascii_digit bs \<noteq> [], dropWhile is_ascii_digit bs))"
  by (induction ops bs v c s rule: pdf_fraction_loop.induct) (auto simp: Let_def split: prod.splits)

lemma parse_pdf_real_ok_iff:
  fixes source :: "byte list"
  defines "t \<equiv> trim_pdf_whitespace source"
  defines "rest \<equiv> (if t \<noteq> [] \<and> (hd t = 45 \<or> hd t = 43) then tl t else t)"
  shows "(\<exists>r. parse_pdf_real ops source = Ok r) \<longleftrightarrow>
    (case dropWhile is_ascii_digit rest of
       [] \<Rightarrow> rest \<noteq> []
     | b # fs \<Rightarrow> b = 46 \<and> (\<forall>b \<in> set fs. is_ascii_digit b) \<and> takeWhile is_ascii_digit rest @ fs \<noteq> [])"
proof -
  obtain v m s' r' where il: "pdf_integer_loop ops rest (f_zero ops) (Some 0) False = (v, m, s', r')"
    by (rule prod_cases4)
  have s': "s' \<longleftrightarrow> takeWhile is_ascii_digit rest \<noteq> []" and r': "dropWhile is_ascii_digit rest = r'"
    using pdf_integer_loop_rest [of ops rest "f_zero ops" "Some 0" False] unfolding il by simp_all
  have sgn: "(case t of b # bs \<Rightarrow> if b = 45 then (True, bs) else if b = 43 then (False, bs) else (False, t)
      | [] \<Rightarrow> (False, t)) = (t \<noteq> [] \<and> hd t = 45, rest)"
    unfolding rest_def by (cases t) auto
  have "takeWhile is_ascii_digit rest @ r' = rest" unfolding r' [symmetric] by simp
  then have nil: "r' = [] \<Longrightarrow> takeWhile is_ascii_digit rest = rest" by (simp only: append_Nil2)
  show ?thesis
  proof (cases r')
    case Nil
    then show ?thesis
      unfolding parse_pdf_real_def t_def [symmetric] Let_def sgn prod.case il r' using s' nil by auto
  next
    case (Cons b fs)
    obtain v2 s2 r2 where fl: "pdf_fraction_loop ops fs v (f_tenth ops) s' = (v2, s2, r2)"
      by (rule prod_cases3)
    have tw: "\<forall>x \<in> set fs. is_ascii_digit x \<Longrightarrow> takeWhile is_ascii_digit fs = [] \<longleftrightarrow> fs = []"
      by (cases fs) auto
    have "s2 \<longleftrightarrow> s' \<or> takeWhile is_ascii_digit fs \<noteq> []" "r2 = dropWhile is_ascii_digit fs"
      using pdf_fraction_loop_rest [of ops fs v "f_tenth ops" s'] unfolding fl by simp_all
    then show ?thesis
      unfolding parse_pdf_real_def t_def [symmetric] Let_def sgn prod.case il r'
      using s' fl Cons takeWhile_dropWhile_id [of is_ascii_digit fs] tw by auto
  qed
qed

lemma digit_run_unique:
  assumes "\<forall>b \<in> set ds. is_ascii_digit b" and "\<not> is_ascii_digit c"
  shows "takeWhile is_ascii_digit (ds @ c # fs) = ds \<and> dropWhile is_ascii_digit (ds @ c # fs) = c # fs"
  using assms by (induction ds) auto

lemma not_digits [simp]: "\<not> is_ascii_digit 43" "\<not> is_ascii_digit 45" "\<not> is_ascii_digit 46"
  by (simp_all add: is_ascii_digit_def)

lemma unsigned_token_iff:
  "(case dropWhile is_ascii_digit rest of
       [] \<Rightarrow> rest \<noteq> []
     | b # fs \<Rightarrow> b = 46 \<and> (\<forall>b \<in> set fs. is_ascii_digit b) \<and> takeWhile is_ascii_digit rest @ fs \<noteq> [])
   \<longleftrightarrow> ((\<forall>b \<in> set rest. is_ascii_digit b) \<and> rest \<noteq> [])
     \<or> (\<exists>ds fs. rest = ds @ 46 # fs \<and> (\<forall>b \<in> set ds. is_ascii_digit b)
          \<and> (\<forall>b \<in> set fs. is_ascii_digit b) \<and> ds @ fs \<noteq> [])" (is "?L \<longleftrightarrow> ?I \<or> ?D")
proof -
  have "?L \<Longrightarrow> ?I \<or> ?D"
  proof (cases "dropWhile is_ascii_digit rest")
    case Nil
    then have "\<forall>b \<in> set rest. is_ascii_digit b" by simp
    moreover assume ?L
    ultimately show ?thesis using Nil by simp
  next
    case (Cons b fs)
    assume ?L
    then have "b = 46" "\<forall>b \<in> set fs. is_ascii_digit b" "takeWhile is_ascii_digit rest @ fs \<noteq> []"
      unfolding Cons list.case by blast+
    moreover have "rest = takeWhile is_ascii_digit rest @ b # fs"
      unfolding Cons [symmetric] by (rule takeWhile_dropWhile_id [symmetric])
    moreover have "\<forall>b \<in> set (takeWhile is_ascii_digit rest). is_ascii_digit b"
      by (auto dest: set_takeWhileD)
    ultimately show ?thesis by blast
  qed
  moreover have "?L" if ?I
    using that by (simp flip: dropWhile_eq_Nil_conv)
  moreover have "?L" if dotted: ?D
  proof -
    obtain ds fs where "rest = ds @ 46 # fs" "\<forall>b \<in> set ds. is_ascii_digit b"
      "\<forall>b \<in> set fs. is_ascii_digit b" "ds @ fs \<noteq> []" using dotted by blast
    then show ?L using digit_run_unique [of ds 46 fs] by simp
  qed
  ultimately show ?thesis by blast
qed

lemma pdf_number_token_iff:
  fixes t :: "byte list"
  defines "rest \<equiv> (if t \<noteq> [] \<and> (hd t = 45 \<or> hd t = 43) then tl t else t)"
  shows "pdf_number_token t \<longleftrightarrow> ((\<forall>b \<in> set rest. is_ascii_digit b) \<and> rest \<noteq> [])
     \<or> (\<exists>ds fs. rest = ds @ 46 # fs \<and> (\<forall>b \<in> set ds. is_ascii_digit b)
          \<and> (\<forall>b \<in> set fs. is_ascii_digit b) \<and> ds @ fs \<noteq> [])" (is "_ \<longleftrightarrow> ?R rest")
proof -
  have sgn: "pdf_number_token t \<longleftrightarrow> (\<exists>s r. t = s @ r \<and> pdf_sign s \<and> ?R r)"
    unfolding pdf_number_token_def by blast
  have nosign: "hd r \<noteq> 45 \<and> hd r \<noteq> 43 \<and> r \<noteq> []" if "?R r" for r
    using that by (cases r) (auto simp: Cons_eq_append_conv)
  show ?thesis
  proof
    assume "pdf_number_token t"
    then obtain s r where "t = s @ r" "pdf_sign s" "?R r" using sgn by blast
    moreover from this have "rest = r"
      using nosign [of r] unfolding rest_def pdf_sign_def by auto
    ultimately show "?R rest" by simp
  next
    assume "?R rest"
    moreover have "\<exists>s. t = s @ rest \<and> pdf_sign s"
      unfolding rest_def pdf_sign_def by (cases t) auto
    ultimately show "pdf_number_token t" using sgn by blast
  qed
qed

lemma trim_pdf_whitespace_split:
  obtains pre post where "source = pre @ trim_pdf_whitespace source @ post"
    and "\<forall>b \<in> set pre. is_pdf_space b" and "\<forall>b \<in> set post. is_pdf_space b"
proof
  let ?m = "dropWhile is_pdf_space source"
  have "rev (takeWhile is_pdf_space (rev ?m) @ dropWhile is_pdf_space (rev ?m)) = ?m"
    by (simp only: takeWhile_dropWhile_id rev_rev_ident)
  then have "takeWhile is_pdf_space source @ trim_pdf_whitespace source
      @ rev (takeWhile is_pdf_space (rev ?m)) = takeWhile is_pdf_space source @ ?m"
    by (simp only: trim_pdf_whitespace_def rev_append)
  then show "source = takeWhile is_pdf_space source @ trim_pdf_whitespace source
      @ rev (takeWhile is_pdf_space (rev ?m))"
    by (simp only: takeWhile_dropWhile_id)
  show "\<forall>b \<in> set (takeWhile is_pdf_space source). is_pdf_space b"
    and "\<forall>b \<in> set (rev (takeWhile is_pdf_space (rev ?m))). is_pdf_space b"
    by (auto dest: set_takeWhileD)
qed

lemma token_byte_not_space:
  assumes "pdf_number_token t" and "b \<in> set t"
  shows "\<not> is_pdf_space b"
proof -
  have "\<not> is_pdf_space 43" "\<not> is_pdf_space 45" "\<not> is_pdf_space 46" by (simp_all add: is_pdf_space_def)
  moreover have "\<not> is_pdf_space c" if "is_ascii_digit c" for c
    using that by (auto simp: is_ascii_digit_def is_pdf_space_def)
  ultimately show ?thesis
    using assms by (auto simp: pdf_number_token_def pdf_sign_def)
qed

lemma token_nonempty: "pdf_number_token t \<Longrightarrow> t \<noteq> []"
  by (auto simp: pdf_number_token_def)

lemma trim_pdf_whitespace_token:
  assumes "pdf_number_token t" and "\<forall>b \<in> set pre. is_pdf_space b" and "\<forall>b \<in> set post. is_pdf_space b"
  shows "trim_pdf_whitespace (pre @ t @ post) = t"
  using token_nonempty [OF assms(1)] token_byte_not_space [OF assms(1)] assms(2,3)
  by (simp add: trim_pdf_whitespace_padded)

lemma trim_pdf_whitespace_token_iff:
  "pdf_number_token (trim_pdf_whitespace source) \<longleftrightarrow>
   (\<exists>pre t post. source = pre @ t @ post \<and> pdf_number_token t
      \<and> (\<forall>b \<in> set pre. is_pdf_space b) \<and> (\<forall>b \<in> set post. is_pdf_space b))"
proof
  assume "pdf_number_token (trim_pdf_whitespace source)"
  then show "\<exists>pre t post. source = pre @ t @ post \<and> pdf_number_token t
      \<and> (\<forall>b \<in> set pre. is_pdf_space b) \<and> (\<forall>b \<in> set post. is_pdf_space b)"
    by (metis trim_pdf_whitespace_split)
next
  assume "\<exists>pre t post. source = pre @ t @ post \<and> pdf_number_token t
      \<and> (\<forall>b \<in> set pre. is_pdf_space b) \<and> (\<forall>b \<in> set post. is_pdf_space b)"
  then obtain pre t post where s: "source = pre @ t @ post" "pdf_number_token t"
    "\<forall>b \<in> set pre. is_pdf_space b" "\<forall>b \<in> set post. is_pdf_space b" by blast
  then have "trim_pdf_whitespace source = t" by (simp add: trim_pdf_whitespace_token)
  with s show "pdf_number_token (trim_pdf_whitespace source)" by simp
qed

text \<open>C29. The PDF number parser accepts exactly the tokens of the grammar: up to surrounding white
  space, an optional sign followed by digits with at most one period and at least one digit. Every
  other byte string is \<open>InvalidSyntax\<close>; no input panics.\<close>

theorem parse_pdf_real_accepts_grammar:
  "(if \<exists>pre t post. source = pre @ t @ post \<and> pdf_number_token t
        \<and> list_all is_pdf_space pre \<and> list_all is_pdf_space post
    then \<exists>r. parse_pdf_real ops source = Ok r
    else parse_pdf_real ops source = Err InvalidSyntax)"
proof -
  have ok: "(\<exists>r. parse_pdf_real ops source = Ok r) \<longleftrightarrow> (\<exists>pre t post. source = pre @ t @ post \<and> pdf_number_token t
        \<and> list_all is_pdf_space pre \<and> list_all is_pdf_space post)"
    unfolding parse_pdf_real_ok_iff unsigned_token_iff pdf_number_token_iff [symmetric]
      trim_pdf_whitespace_token_iff list_all_iff by (rule refl)
  have "(\<exists>r. parse_pdf_real ops source = Ok r) \<or> parse_pdf_real ops source = Err InvalidSyntax"
    unfolding parse_pdf_real_def Let_def by (simp split: prod.split)
  with ok show ?thesis by auto
qed

section \<open>The exact integer\<close>

lemma checked_u64_eq_Some [simp]: "checked_u64 n = Some m \<longleftrightarrow> n < 2 ^ 64 \<and> m = n"
  by (auto simp: checked_u64_def)

lemma digit_fold_ge: "m \<le> foldl (\<lambda>m b. m * 10 + digit_of b) m ds"
proof (induction ds arbitrary: m)
  case (Cons b ds)
  have "m \<le> m * 10 + digit_of b" by simp
  also have "\<dots> \<le> foldl (\<lambda>m b. m * 10 + digit_of b) (m * 10 + digit_of b) ds" by (rule Cons.IH)
  finally show ?case by simp
qed simp

lemma pdf_integer_loop_exact:
  assumes "\<forall>b \<in> set ds. is_ascii_digit b"
    and "\<forall>k. m = Some k \<longrightarrow> k = n \<and> n < 2 ^ 64" and "m = None \<Longrightarrow> 2 ^ 64 \<le> n"
  shows "\<exists>v s. pdf_integer_loop ops ds v0 m s0 =
    (v, checked_u64 (foldl (\<lambda>m b. m * 10 + digit_of b) n ds), s, [])"
  using assms
proof (induction ds arbitrary: v0 m s0 n)
  case Nil
  then have "m = checked_u64 n" by (cases m) (simp_all add: checked_u64_def)
  then show ?case by simp
next
  case (Cons b ds)
  let ?m = "Option.bind (Option.bind m (\<lambda>m. checked_u64 (m * 10))) (\<lambda>m. checked_u64 (m + digit_of b))"
  let ?n = "n * 10 + digit_of b"
  have some: "\<forall>k. ?m = Some k \<longrightarrow> k = ?n \<and> ?n < 2 ^ 64"
    using Cons.prems(2) by (auto simp: bind_eq_Some_conv)
  have none: "2 ^ 64 \<le> ?n" if "?m = None"
    using that Cons.prems(2,3) by (cases m) (auto simp: checked_u64_def split: if_splits)
  have "\<forall>b \<in> set ds. is_ascii_digit b" using Cons.prems(1) by simp
  from Cons.IH [OF this some none] show ?case using Cons.prems(1) by simp
qed

text \<open>The exact reading of an integer token is never wrong and never spuriously missing: for every
  run of digits (of any length and with any number of leading zeros) it is the signed decimal value when
  that value is an \<open>i64\<close>, \<open>i64::MIN\<close> included, and absent otherwise. The intermediate \<open>u64\<close> overflow
  check loses no representable value.\<close>

lemma parse_pdf_real_exact_integer:
  assumes "pdf_sign s" and "ds \<noteq> []" and "list_all is_ascii_digit ds"
    and "n = (if s = [45] then - int (pdf_digits_value ds) else int (pdf_digits_value ds))"
  shows "\<exists>v. parse_pdf_real ops (s @ ds) =
    Ok \<lparr>pdf_value = v, exact_integer = (if in_i64 n then Some n else None)\<rparr>"
proof -
  have ds: "\<forall>b \<in> set ds. is_ascii_digit b" using assms(3) by (simp add: list_all_iff)
  have "pdf_number_token (s @ ds)" using assms(1,2) ds by (auto simp: pdf_number_token_def)
  then have trim: "trim_pdf_whitespace (s @ ds) = s @ ds"
    using trim_pdf_whitespace_token [of "s @ ds" "[]" "[]"] by simp
  obtain v sd where il: "pdf_integer_loop ops ds (f_zero ops) (Some 0) False =
      (v, checked_u64 (pdf_digits_value ds), sd, [])"
    using pdf_integer_loop_exact [OF ds, of "Some 0" 0 ops "f_zero ops" False]
    unfolding pdf_digits_value_def by auto
  have "takeWhile is_ascii_digit ds \<noteq> []" using assms(2) ds by (cases ds) auto
  then have sd: sd
    using pdf_integer_loop_rest [of ops ds "f_zero ops" "Some 0" False] unfolding il by simp
  have hd: "hd ds \<noteq> 45 \<and> hd ds \<noteq> 43" using assms(2) ds by (cases ds) auto
  have sgn: "(case s @ ds of b # bs \<Rightarrow> if b = 45 then (True, bs) else if b = 43 then (False, bs) else (False, s @ ds)
      | [] \<Rightarrow> (False, s @ ds)) = (s = [45], ds)"
    using assms(1,2) hd by (cases ds) (auto simp: pdf_sign_def)
  have exact: "Option.bind (checked_u64 (pdf_digits_value ds)) (\<lambda>magnitude.
      if s = [45] then (if magnitude = 2 ^ 63 then Some i64_min
          else Option.bind (i64_try_from magnitude) (\<lambda>m. checked64 (- m)))
      else i64_try_from magnitude) = (if in_i64 n then Some n else None)"
    unfolding assms(4) by (auto simp: checked_u64_def i64_try_from_def checked64_def in_i64_iff i64_min_def)
  show ?thesis
    unfolding parse_pdf_real_def trim Let_def sgn prod.case il list.case
    using sd exact by simp
qed

lemma parse_pdf_real_exact_integer_witness:
  "\<exists>v. parse_pdf_real \<lparr>f_zero = 0, f_ten = 10, f_tenth = 0, f_of_digit = int, f_add = (+), f_mul = (*),
      f_neg = uminus\<rparr> [45, 48, 49, 50] = Ok \<lparr>pdf_value = v, exact_integer = Some (-12)\<rparr>"
  using parse_pdf_real_exact_integer [of "[45]" "[48, 49, 50]" "-12"
    "\<lparr>f_zero = 0, f_ten = 10, f_tenth = 0, f_of_digit = int, f_add = (+), f_mul = (*), f_neg = uminus\<rparr>"]
  by (simp add: pdf_sign_def is_ascii_digit_def pdf_digits_value_def digit_of_def in_i64_iff)

end
