(* ===== verification/Token_Words.thy ===== *)
theory Token_Words
  imports Umber_Prelude
begin

text \<open>
  The packed token representation of \<^verbatim>\<open>crates/tex-state/src/token.rs\<close>: frozen tokens, category codes,
  the 32-bit \<open>TokenWord\<close>, the 32-bit \<open>OriginId\<close> and the 64-bit \<open>TracedTokenWord\<close>. Every one of these is
  a code in the sense of the locale \<open>packed_code\<close>: decoding inverts encoding, and whatever a decoder
  accepts is the code of what it returns, so that equality of words is equality of values. A Rust
  \<open>char\<close> is its scalar value, a \<open>32 word\<close>.
\<close>

unbundle bit_operations_syntax

section \<open>Frozen tokens and category codes\<close>

type_synonym u16 = "16 word"
type_synonym u32 = "32 word"
type_synonym u64 = "64 word"

datatype FrozenToken = FrozenToken u16

fun frozen_raw :: "FrozenToken \<Rightarrow> u16" where
  "frozen_raw (FrozenToken r) = r"

definition END_TEMPLATE :: FrozenToken where "END_TEMPLATE = FrozenToken 0"
definition END_V :: FrozenToken where "END_V = FrozenToken 1"
definition RELAX :: FrozenToken where "RELAX = FrozenToken 60000"
definition UNDEFINED_CONTROL_SEQUENCE :: FrozenToken where
  "UNDEFINED_CONTROL_SEQUENCE = FrozenToken (65535 - 1)"
definition PRIMITIVE_BASE :: u16 where "PRIMITIVE_BASE = 2"
definition SENTINEL_BASE :: u16 where "SENTINEL_BASE = frozen_raw RELAX"

definition frozen_primitive :: "u16 \<Rightarrow> FrozenToken panicking" where
  "frozen_primitive index =
     (if index < SENTINEL_BASE - PRIMITIVE_BASE then Ok (FrozenToken (PRIMITIVE_BASE + index)) else Panic)"

definition primitive_index :: "FrozenToken \<Rightarrow> u16 option" where
  "primitive_index t =
     (if frozen_raw t \<ge> PRIMITIVE_BASE \<and> frozen_raw t < SENTINEL_BASE
      then Some (frozen_raw t - PRIMITIVE_BASE) else None)"

datatype Catcode =
  Escape | BeginGroup | EndGroup | MathShift | AlignmentTab | EndLine | Parameter | Superscript
| Subscript | Ignored | Space | Letter | Other | Active | Comment | Invalid

definition ALL_CATCODES :: "Catcode list" where
  "ALL_CATCODES =
     [Escape, BeginGroup, EndGroup, MathShift, AlignmentTab, EndLine, Parameter, Superscript,
      Subscript, Ignored, Space, Letter, Other, Active, Comment, Invalid]"

text \<open>The discriminant \<open>cat as u32\<close>.\<close>

fun cat_code :: "Catcode \<Rightarrow> nat" where
  "cat_code Escape = 0" | "cat_code BeginGroup = 1" | "cat_code EndGroup = 2"
| "cat_code MathShift = 3" | "cat_code AlignmentTab = 4" | "cat_code EndLine = 5"
| "cat_code Parameter = 6" | "cat_code Superscript = 7" | "cat_code Subscript = 8"
| "cat_code Ignored = 9" | "cat_code Space = 10" | "cat_code Letter = 11" | "cat_code Other = 12"
| "cat_code Active = 13" | "cat_code Comment = 14" | "cat_code Invalid = 15"

definition catcode_from_raw :: "byte \<Rightarrow> Catcode option" where
  "catcode_from_raw raw =
     (if raw = 0 then Some Escape else if raw = 1 then Some BeginGroup else if raw = 2 then Some EndGroup
      else if raw = 3 then Some MathShift else if raw = 4 then Some AlignmentTab
      else if raw = 5 then Some EndLine else if raw = 6 then Some Parameter
      else if raw = 7 then Some Superscript else if raw = 8 then Some Subscript
      else if raw = 9 then Some Ignored else if raw = 10 then Some Space else if raw = 11 then Some Letter
      else if raw = 12 then Some Other else if raw = 13 then Some Active else if raw = 14 then Some Comment
      else if raw = 15 then Some Invalid else None)"

section \<open>Tokens and token words\<close>

type_synonym Symbol = u32

datatype Token = Char u32 Catcode | Cs Symbol | Param byte | Frozen FrozenToken

definition token_param :: "byte \<Rightarrow> Token panicking" where
  "token_param slot = (if slot \<ge> 1 \<and> slot \<le> 9 then Ok (Param slot) else Panic)"

text \<open>\<open>char::from_u32\<close>: the Unicode scalar values.\<close>

definition char_from_u32 :: "u32 \<Rightarrow> u32 option" where
  "char_from_u32 c = (if c < 0x110000 \<and> \<not> (0xD800 \<le> c \<and> c \<le> 0xDFFF) then Some c else None)"

type_synonym TokenWord = u32

definition KIND_SHIFT :: nat where "KIND_SHIFT = 30"
definition TOKEN_PAYLOAD_MASK :: u32 where "TOKEN_PAYLOAD_MASK = push_bit KIND_SHIFT 1 - 1"
definition KIND_CHAR :: u32 where "KIND_CHAR = 0"
definition KIND_CS :: u32 where "KIND_CS = 1"
definition KIND_PARAM :: u32 where "KIND_PARAM = 2"
definition KIND_FROZEN :: u32 where "KIND_FROZEN = 3"
definition CATCODE_BITS :: nat where "CATCODE_BITS = 4"

definition token_word_pack :: "Token \<Rightarrow> TokenWord panicking" where
  "token_word_pack token =
     obind (case token of
         Char ch cat \<Rightarrow> Ok (KIND_CHAR, push_bit CATCODE_BITS ch OR of_nat (cat_code cat))
       | Cs symbol \<Rightarrow> if symbol \<le> TOKEN_PAYLOAD_MASK then Ok (KIND_CS, symbol) else Panic
       | Param slot \<Rightarrow> if 1 \<le> slot \<and> slot \<le> 9 then Ok (KIND_PARAM, ucast slot) else Panic
       | Frozen token \<Rightarrow> Ok (KIND_FROZEN, ucast (frozen_raw token)))
     (\<lambda>(kind, payload). Ok (push_bit KIND_SHIFT kind OR payload))"

definition unpack_char_payload :: "u32 \<Rightarrow> Token option" where
  "unpack_char_payload payload =
     Option.bind (catcode_from_raw (ucast (payload AND 0xF))) (\<lambda>cat.
       let usv = drop_bit CATCODE_BITS payload
       in Option.bind (char_from_u32 usv) (\<lambda>ch. Some (Char ch cat)))"

definition token_word_token :: "TokenWord \<Rightarrow> Token option" where
  "token_word_token w =
     (let kind = drop_bit KIND_SHIFT w;
          payload = w AND TOKEN_PAYLOAD_MASK
      in if kind = KIND_CHAR then unpack_char_payload payload
         else if kind = KIND_CS then Some (Cs payload)
         else if kind = KIND_PARAM
           then (if 1 \<le> payload \<and> payload \<le> 9 then Some (Param (ucast payload)) else None)
         else if kind = KIND_FROZEN \<and> payload \<le> 0xFFFF
           then Some (Frozen (FrozenToken (ucast payload)))
         else None)"

definition token_word_semantic_token :: "TokenWord \<Rightarrow> Token panicking" where
  "token_word_semantic_token w =
     (let kind = drop_bit KIND_SHIFT w;
          payload = w AND TOKEN_PAYLOAD_MASK
      in if kind = KIND_CHAR
         then let raw_cat = unat (payload AND 0xF)
              in obind (expect_some (char_from_u32 (drop_bit CATCODE_BITS payload))) (\<lambda>ch.
                   if raw_cat < length ALL_CATCODES then Ok (Char ch (ALL_CATCODES ! raw_cat)) else Panic)
         else if kind = KIND_CS then Ok (Cs payload)
         else if kind = KIND_PARAM then Ok (Param (ucast payload))
         else if kind = KIND_FROZEN then Ok (Frozen (FrozenToken (ucast payload)))
         else Panic)"

definition out_parameter_slot :: "TokenWord \<Rightarrow> byte option" where
  "out_parameter_slot w =
     (if drop_bit KIND_SHIFT w = KIND_PARAM then Some (ucast (w AND TOKEN_PAYLOAD_MASK)) else None)"

definition literal_catcode :: "TokenWord \<Rightarrow> Catcode option" where
  "literal_catcode w =
     (if drop_bit KIND_SHIFT w = KIND_CHAR then catcode_from_raw (ucast (w AND 0xF)) else None)"

definition literal_char :: "TokenWord \<Rightarrow> u32 option" where
  "literal_char w =
     (if drop_bit KIND_SHIFT w = KIND_CHAR
      then char_from_u32 (drop_bit CATCODE_BITS (w AND TOKEN_PAYLOAD_MASK)) else None)"

definition is_control_sequence :: "TokenWord \<Rightarrow> bool" where
  "is_control_sequence w \<longleftrightarrow> drop_bit KIND_SHIFT w = KIND_CS"

section \<open>Origins and traced words\<close>

type_synonym SourcePos = u64
type_synonym OriginId = u32

datatype OriginEncoding = Unknown | NoExpandFallback | DirectSource SourcePos | Arena u32

definition ARENA_TAG :: u32 where "ARENA_TAG = push_bit 31 1"
definition ORIGIN_PAYLOAD_MASK :: u32 where "ORIGIN_PAYLOAD_MASK = ARENA_TAG - 1"
definition ORIGIN_UNKNOWN :: OriginId where "ORIGIN_UNKNOWN = 0"
definition NOEXPAND_FALLBACK :: OriginId where "NOEXPAND_FALLBACK = - 1"

definition origin_direct_source :: "SourcePos \<Rightarrow> OriginId option" where
  "origin_direct_source position =
     (if position = - 1 then None
      else let raw = position + 1
           in if raw \<le> ucast ORIGIN_PAYLOAD_MASK then Some (ucast raw) else None)"

definition origin_arena :: "u32 \<Rightarrow> OriginId option" where
  "origin_arena index =
     (if index < ORIGIN_PAYLOAD_MASK then Some (ARENA_TAG OR index) else None)"

definition origin_decode :: "OriginId \<Rightarrow> OriginEncoding" where
  "origin_decode w =
     (if w = NOEXPAND_FALLBACK then NoExpandFallback
      else if w = 0 then Unknown
      else if w AND ARENA_TAG = 0 then DirectSource (ucast (w - 1))
      else Arena (w AND ORIGIN_PAYLOAD_MASK))"

type_synonym TracedTokenWord = u64

definition TRACED_PAYLOAD_SHIFT :: nat where "TRACED_PAYLOAD_SHIFT = 32"

definition traced_from_parts :: "TokenWord \<Rightarrow> OriginId \<Rightarrow> TracedTokenWord" where
  "traced_from_parts token origin = push_bit TRACED_PAYLOAD_SHIFT (ucast token) OR ucast origin"

definition traced_pack :: "Token \<Rightarrow> OriginId \<Rightarrow> TracedTokenWord panicking" where
  "traced_pack token origin = obind (token_word_pack token) (\<lambda>w. Ok (traced_from_parts w origin))"

definition traced_origin :: "TracedTokenWord \<Rightarrow> OriginId" where
  "traced_origin w = ucast w"

definition traced_token_word :: "TracedTokenWord \<Rightarrow> TokenWord" where
  "traced_token_word w = ucast (drop_bit TRACED_PAYLOAD_SHIFT w)"

definition traced_token :: "TracedTokenWord \<Rightarrow> Token option" where
  "traced_token w = token_word_token (traced_token_word w)"

definition traced_semantic_token :: "TracedTokenWord \<Rightarrow> Token panicking" where
  "traced_semantic_token w = token_word_semantic_token (traced_token_word w)"

definition traced_unpack :: "TracedTokenWord \<Rightarrow> (Token \<times> OriginId) option" where
  "traced_unpack w = Option.bind (traced_token w) (\<lambda>t. Some (t, traced_origin w))"

section \<open>Splitting and joining bit fields\<close>

lemma field_join: "push_bit n (drop_bit n w) OR take_bit n w = (w :: 'a :: len word)"
  by (rule bit_word_eqI) (auto simp: bit_simps)

lemma field_low: "take_bit n p = p \<Longrightarrow> take_bit n (push_bit n k OR p) = (p :: 'a :: len word)"
  by (simp add: take_bit_push_bit)

lemma drop_bit_small: "take_bit n p = p \<Longrightarrow> drop_bit n p = (0 :: 'a :: len word)"
  by (metis drop_bit_take_bit diff_self_eq_0 take_bit_0)

lemma field_high:
  assumes "take_bit n p = p" and "n \<le> LENGTH('a)"
  shows "drop_bit n (push_bit n k OR p) = take_bit (LENGTH('a) - n) (k :: 'a :: len word)"
proof -
  have "drop_bit n (push_bit n k) = take_bit (LENGTH('a) - n) k"
    using assms(2) by (intro bit_word_eqI) (auto simp: bit_simps)
  then show ?thesis using drop_bit_small [OF assms(1)] by simp
qed

lemma take_bit_eq_self_word: "take_bit n (w :: 'a :: len word) = w \<longleftrightarrow> unat w < 2 ^ n"
  by (simp add: word_unat_eq_iff unsigned_take_bit_eq take_bit_nat_eq_self_iff)

lemma and_token_payload_mask: "w AND TOKEN_PAYLOAD_MASK = take_bit 30 w"
  by (simp add: TOKEN_PAYLOAD_MASK_def KIND_SHIFT_def take_bit_eq_mask mask_eq_decr_exp)

lemma le_token_payload_mask: "w \<le> TOKEN_PAYLOAD_MASK \<longleftrightarrow> take_bit 30 w = w"
  by (simp add: TOKEN_PAYLOAD_MASK_def KIND_SHIFT_def take_bit_eq_self_word word_le_nat_alt) linarith

lemma kind_exhaust: "drop_bit 30 (w :: u32) \<in> {0, 1, 2, 3}"
proof -
  have "unat w < 2 ^ LENGTH(32)" by (rule unsigned_less)
  then have w: "unat w < 2 ^ 32" by simp
  then have "unat (drop_bit 30 w) = unat w div 2 ^ 30"
    by (simp only: unsigned_drop_bit_eq) (simp add: drop_bit_eq_div take_bit_nat_eq_self)
  with w have "unat (drop_bit 30 w) < 4" by (simp add: less_mult_imp_div_less)
  then have "unat (drop_bit 30 w) \<in> {0, 1, 2, 3}" by auto
  then show ?thesis by (auto simp: word_unat_eq_iff)
qed

lemmas token_kind_defs = KIND_SHIFT_def KIND_CHAR_def KIND_CS_def KIND_PARAM_def KIND_FROZEN_def CATCODE_BITS_def

section \<open>The contract of a packed code\<close>

text \<open>
  What storage, hashing and comparison of packed words rely on: every valid value has a code, the
  decoder recovers it, and a word that decodes is the only code of its value. Under these laws
  encoding is injective, decoding is injective on the words it accepts, and a value has a code exactly
  when it is valid.
\<close>

locale packed_code =
  fixes enc :: "'a \<Rightarrow> 'w panicking" and dec :: "'w \<Rightarrow> 'a option" and valid :: "'a \<Rightarrow> bool"
  assumes encodes: "valid a \<Longrightarrow> \<exists>w. enc a = Ok w"
    and dec_enc: "enc a = Ok w \<Longrightarrow> valid a \<Longrightarrow> dec w = Some a"
    and enc_dec: "dec w = Some a \<Longrightarrow> enc a = Ok w \<and> valid a"
begin

lemma dec_iff: "dec w = Some a \<longleftrightarrow> enc a = Ok w \<and> valid a"
  using dec_enc enc_dec by blast

lemma enc_injective: "valid a \<Longrightarrow> valid b \<Longrightarrow> enc a = enc b \<Longrightarrow> a = b"
  using encodes [of a] dec_enc [of a] dec_enc [of b] by auto

lemma dec_injective: "dec w = Some a \<Longrightarrow> dec w' = Some a \<Longrightarrow> w = w'"
  using enc_dec [of w a] enc_dec [of w' a] by simp

lemma image_eq: "{w. dec w \<noteq> None} = {w. \<exists>a. valid a \<and> enc a = Ok w}"
  by (auto simp: dec_iff dest: enc_dec)

end

text \<open>Category codes as bytes.\<close>

lemma cat_code_less: "cat_code c < 16"
  by (cases c) simp_all

lemma catcode_from_raw_cat_code [simp]: "catcode_from_raw (of_nat (cat_code c)) = Some c"
  by (cases c) (simp_all add: catcode_from_raw_def)

lemma catcode_from_raw_SomeD: "catcode_from_raw raw = Some c \<Longrightarrow> raw = of_nat (cat_code c)"
  by (auto simp: catcode_from_raw_def split: if_splits)

interpretation catcode_code: packed_code "\<lambda>c. Ok (of_nat (cat_code c))" catcode_from_raw "\<lambda>_. True"
  by unfold_locales (auto dest: catcode_from_raw_SomeD)

lemma catcode_from_raw_eq: "catcode_from_raw raw = (if raw < 16 then Some (ALL_CATCODES ! unat raw) else None)"
proof (cases "raw < 16")
  case True
  then have "unat raw < 16" by (simp add: word_less_nat_alt)
  then have "unat raw \<in> {0, 1, 2, 3, 4, 5, 6, 7, 8, 9, 10, 11, 12, 13, 14, 15}"
    unfolding insert_iff empty_iff by presburger
  then have "raw \<in> {0, 1, 2, 3, 4, 5, 6, 7, 8, 9, 10, 11, 12, 13, 14, 15}"
    by (auto simp: word_unat_eq_iff)
  then show ?thesis by (auto simp: catcode_from_raw_def ALL_CATCODES_def)
next
  case False
  then show ?thesis by (auto simp: catcode_from_raw_def)
qed

text \<open>Primitive indices as frozen tokens.\<close>

interpretation primitive_code: packed_code frozen_primitive primitive_index "\<lambda>i. i < 59998"
proof
  fix i :: u16 and t
  show "i < 59998 \<Longrightarrow> \<exists>w. frozen_primitive i = Ok w"
    by (simp add: frozen_primitive_def SENTINEL_BASE_def PRIMITIVE_BASE_def RELAX_def)
  show "primitive_index t = Some i" if "frozen_primitive i = Ok t" "i < 59998"
  proof -
    have "unat i < 59998" using that(2) by (simp add: word_less_nat_alt)
    then have "unat (2 + i) = 2 + unat i" by (subst unat_add_lem [THEN iffD1]) simp_all
    with \<open>unat i < 59998\<close> have "2 \<le> 2 + i" "2 + i < 60000" by (simp_all add: word_le_nat_alt word_less_nat_alt)
    with that show ?thesis
      by (auto simp: frozen_primitive_def primitive_index_def SENTINEL_BASE_def PRIMITIVE_BASE_def RELAX_def)
  qed
  show "frozen_primitive i = Ok t \<and> i < 59998" if "primitive_index t = Some i"
  proof -
    obtain r where t: "t = FrozenToken r" by (cases t)
    have r: "2 \<le> r" "r < 60000" and i: "i = r - 2"
      using that by (auto simp: t primitive_index_def SENTINEL_BASE_def PRIMITIVE_BASE_def RELAX_def split: if_splits)
    then have "unat i = unat r - 2" by (simp add: unat_sub)
    with r have "i < 59998" by (simp add: word_less_nat_alt word_le_nat_alt)
    with i show ?thesis
      by (simp add: t frozen_primitive_def SENTINEL_BASE_def PRIMITIVE_BASE_def RELAX_def)
  qed
qed

section \<open>Token words\<close>

definition valid_token :: "Token \<Rightarrow> bool" where
  "valid_token token =
     (case token of
        Char ch cat \<Rightarrow> char_from_u32 ch = Some ch
      | Cs symbol \<Rightarrow> symbol \<le> TOKEN_PAYLOAD_MASK
      | Param slot \<Rightarrow> 1 \<le> slot \<and> slot \<le> 9
      | Frozen token \<Rightarrow> True)"

lemma ucast_down_up: "ucast (ucast (b :: byte) :: u32) = b" "ucast (ucast (h :: u16) :: u32) = h"
  by (rule bit_word_eqI, simp add: bit_simps)+

lemma unat_ucast_up:
  assumes "LENGTH('a) \<le> LENGTH('b)"
  shows "unat (ucast (b :: 'a :: len word) :: 'b :: len word) = unat b"
proof -
  have "unat b < 2 ^ LENGTH('a)" by (rule unsigned_less)
  also have "(2 :: nat) ^ LENGTH('a) \<le> 2 ^ LENGTH('b)" using assms by (intro power_increasing) simp_all
  finally show ?thesis by (simp add: unsigned_ucast_eq take_bit_nat_eq_self)
qed

lemma take_bit_ucast: "take_bit 30 (ucast (b :: byte) :: u32) = ucast b" "take_bit 30 (ucast (h :: u16) :: u32) = ucast h"
  by (rule bit_word_eqI, auto simp: bit_simps dest: bit_imp_le_length)+

lemma char_field:
  fixes cat :: Catcode and ch p :: u32
  assumes "char_from_u32 ch = Some ch"
  defines "p \<equiv> push_bit 4 ch OR of_nat (cat_code cat)"
  shows "take_bit 30 p = p" and "drop_bit 4 p = ch" and "p AND 0xF = of_nat (cat_code cat)"
proof -
  have c: "take_bit 4 (of_nat (cat_code cat) :: u32) = of_nat (cat_code cat)"
    by (cases cat) simp_all
  have ch: "unat ch < 0x110000" using assms(1) by (simp add: char_from_u32_def word_less_nat_alt split: if_splits)
  then have t: "take_bit m ch = ch" if "21 \<le> m" for m
    using that power_increasing [of 21 m "2 :: nat"] by (simp add: take_bit_eq_self_word)
  have "take_bit 30 (of_nat (cat_code cat) :: u32) = of_nat (cat_code cat)" by (cases cat) simp_all
  then show "take_bit 30 p = p" unfolding p_def by (simp add: take_bit_push_bit t)
  show "drop_bit 4 p = ch" unfolding p_def by (subst field_high [OF c]) (simp_all add: t)
  have "(0xF :: u32) = mask 4" by (simp add: mask_eq_decr_exp)
  then show "p AND 0xF = of_nat (cat_code cat)"
    unfolding p_def by (simp only: field_low [OF c] flip: take_bit_eq_mask)
qed

lemma token_word_fields:
  assumes "take_bit 30 p = p"
  shows "drop_bit 30 (push_bit 30 k OR p) = take_bit 2 (k :: u32)"
    and "(push_bit 30 k OR p) AND TOKEN_PAYLOAD_MASK = p"
proof -
  show "drop_bit 30 (push_bit 30 k OR p) = take_bit 2 k" by (subst field_high [OF assms]) simp_all
  show "(push_bit 30 k OR p) AND TOKEN_PAYLOAD_MASK = p"
    unfolding and_token_payload_mask by (rule field_low [OF assms])
qed

text \<open>The kind and payload fields of a token.\<close>

definition token_fields :: "Token \<Rightarrow> u32 \<times> u32" where
  "token_fields t =
     (case t of
        Char ch cat \<Rightarrow> (0, push_bit 4 ch OR of_nat (cat_code cat))
      | Cs symbol \<Rightarrow> (1, symbol)
      | Param slot \<Rightarrow> (2, ucast slot)
      | Frozen token \<Rightarrow> (3, ucast (frozen_raw token)))"

definition join_fields :: "u32 \<times> u32 \<Rightarrow> u32" where
  "join_fields f = push_bit 30 (fst f) OR snd f"

lemma token_word_pack_eq:
  "token_word_pack t = (case t of Cs s \<Rightarrow> if s \<le> TOKEN_PAYLOAD_MASK then Ok (join_fields (token_fields t)) else Panic
     | Param s \<Rightarrow> if 1 \<le> s \<and> s \<le> 9 then Ok (join_fields (token_fields t)) else Panic
     | _ \<Rightarrow> Ok (join_fields (token_fields t)))"
  unfolding token_word_pack_def token_fields_def join_fields_def token_kind_defs by (cases t) simp_all

lemma token_fields_bounds:
  assumes "valid_token t" and "token_fields t = (k, p)"
  shows "take_bit 30 p = p" and "take_bit 2 k = k"
proof -
  show "take_bit 2 k = k" using assms(2) by (cases t) (auto simp: token_fields_def)
  show "take_bit 30 p = p"
  proof (cases t)
    case (Char ch cat)
    then show ?thesis using assms char_field(1) [of ch cat] by (simp add: token_fields_def valid_token_def)
  qed (use assms in \<open>auto simp: token_fields_def valid_token_def take_bit_ucast le_token_payload_mask\<close>)
qed

lemma token_word_token_join:
  assumes "take_bit 30 p = p" and "take_bit 2 k = k"
  shows "token_word_token (join_fields (k, p)) =
    (if k = 0 then unpack_char_payload p else if k = 1 then Some (Cs p)
     else if k = 2 then (if 1 \<le> p \<and> p \<le> 9 then Some (Param (ucast p)) else None)
     else if k = 3 \<and> p \<le> 0xFFFF then Some (Frozen (FrozenToken (ucast p))) else None)"
  unfolding token_word_token_def join_fields_def fst_conv snd_conv token_kind_defs
    token_word_fields [OF assms(1)] assms(2) Let_def by (rule refl)

lemma unpack_char_payload_field:
  assumes "char_from_u32 ch = Some ch"
  shows "unpack_char_payload (push_bit 4 ch OR of_nat (cat_code cat)) = Some (Char ch cat)"
proof -
  have "ucast (of_nat (cat_code cat) :: u32) = (of_nat (cat_code cat) :: byte)" by (cases cat) simp_all
  then show ?thesis
    unfolding unpack_char_payload_def CATCODE_BITS_def char_field [OF assms] Let_def using assms by simp
qed

lemma token_word_token_pack:
  assumes "valid_token t"
  shows "token_word_token (join_fields (token_fields t)) = Some t"
proof -
  obtain k p where f: "token_fields t = (k, p)" by (cases "token_fields t")
  note join = token_word_token_join [OF token_fields_bounds [OF assms f]]
  show ?thesis
  proof (cases t)
    case (Char ch cat)
    then show ?thesis unfolding f join using f assms
      by (auto simp: token_fields_def valid_token_def unpack_char_payload_field)
  next
    case (Frozen fr)
    have "unat (frozen_raw fr) < 2 ^ LENGTH(16)" by (rule unsigned_less)
    then show ?thesis unfolding f join using f Frozen
      by (cases fr) (auto simp: token_fields_def ucast_down_up word_le_nat_alt unat_ucast_up)
  qed (unfold f join, use f assms in
    \<open>auto simp: token_fields_def valid_token_def ucast_down_up word_le_nat_alt unat_ucast_up\<close>)
qed

lemma token_word_rejoin: "push_bit 30 (drop_bit 30 w) OR (w AND TOKEN_PAYLOAD_MASK) = (w :: u32)"
  unfolding and_token_payload_mask by (rule field_join)

lemma char_from_u32_SomeD: "char_from_u32 c = Some d \<Longrightarrow> d = c"
  by (simp add: char_from_u32_def split: if_splits)

lemma unpack_char_payload_SomeD:
  assumes "unpack_char_payload p = Some t"
  obtains ch cat where "t = Char ch cat" and "char_from_u32 ch = Some ch"
    and "p = push_bit 4 ch OR of_nat (cat_code cat)"
proof -
  from assms obtain cat where cat: "catcode_from_raw (ucast (p AND 0xF)) = Some cat"
    and ch: "char_from_u32 (drop_bit 4 p) = Some (drop_bit 4 p)" and t: "t = Char (drop_bit 4 p) cat"
    by (auto simp: unpack_char_payload_def CATCODE_BITS_def bind_eq_Some_conv Let_def dest: char_from_u32_SomeD)
  have "(0xF :: u32) = mask 4" by (simp add: mask_eq_decr_exp)
  then have low: "p AND 0xF = take_bit 4 p" by (simp only: take_bit_eq_mask)
  have "ucast (take_bit 4 p) = (of_nat (cat_code cat) :: byte)"
    using catcode_from_raw_SomeD [OF cat] low by simp
  then have "ucast (ucast (take_bit 4 p) :: byte) = (of_nat (cat_code cat) :: u32)"
    by (cases cat) simp_all
  moreover have "ucast (ucast (take_bit 4 p) :: byte) = take_bit 4 p"
    by (rule bit_word_eqI) (auto simp: bit_simps)
  ultimately have "p = push_bit 4 (drop_bit 4 p) OR of_nat (cat_code cat)"
    using field_join [of 4 p] by simp
  with t ch show ?thesis by (intro that) auto
qed

lemma ucast_down_small:
  assumes "unat (p :: 'a :: len word) < 2 ^ LENGTH('b)"
  shows "ucast (ucast p :: 'b :: len word) = p" and "unat (ucast p :: 'b :: len word) = unat p"
proof -
  show "unat (ucast p :: 'b word) = unat p" using assms by (simp add: unsigned_ucast_eq take_bit_nat_eq_self)
  have "take_bit LENGTH('b) p = p" using assms by (simp add: take_bit_eq_self_word)
  then have "bit p n \<Longrightarrow> n < LENGTH('b)" for n by (metis bit_take_bit_iff)
  then show "ucast (ucast p :: 'b word) = p" by (intro bit_word_eqI) (auto simp: bit_simps)
qed

lemma token_word_pack_token:
  assumes "token_word_token w = Some t"
  shows "join_fields (token_fields t) = w \<and> valid_token t"
proof -
  obtain k p where w: "w = join_fields (k, p)" and p: "take_bit 30 p = p" and k: "take_bit 2 k = k"
    and kk: "k \<in> {0, 1, 2, 3}"
    using kind_exhaust [of w] token_word_rejoin [of w]
    by (intro that [of "drop_bit 30 w" "w AND TOKEN_PAYLOAD_MASK"])
      (auto simp: join_fields_def and_token_payload_mask)
  note dec = assms [unfolded w token_word_token_join [OF p k]]
  consider "k = 0" "unpack_char_payload p = Some t" | "k = 1" "t = Cs p"
    | "k = 2" "t = Param (ucast p)" "1 \<le> p" "p \<le> 9" | "k = 3" "t = Frozen (FrozenToken (ucast p))" "p \<le> 0xFFFF"
    using kk dec by (auto split: if_splits)
  then show ?thesis
  proof cases
    case 1
    then obtain ch cat where "t = Char ch cat" "char_from_u32 ch = Some ch"
      "p = push_bit 4 ch OR of_nat (cat_code cat)" by (elim unpack_char_payload_SomeD)
    with 1 w show ?thesis by (simp add: token_fields_def valid_token_def)
  next
    case 2
    with w p show ?thesis by (simp add: token_fields_def valid_token_def le_token_payload_mask)
  next
    case 3
    then have "unat p < 2 ^ LENGTH(8)" by (simp add: word_le_nat_alt)
    from ucast_down_small [OF this] 3 w show ?thesis
      by (simp add: token_fields_def valid_token_def word_le_nat_alt)
  next
    case 4
    then have "unat p < 2 ^ LENGTH(16)" by (simp add: word_le_nat_alt)
    from ucast_down_small [OF this] 4 w show ?thesis
      by (simp add: token_fields_def valid_token_def)
  qed
qed

lemma token_word_pack_valid: "valid_token t \<Longrightarrow> token_word_pack t = Ok (join_fields (token_fields t))"
  by (cases t) (simp_all add: token_word_pack_eq valid_token_def)

interpretation token_code: packed_code token_word_pack token_word_token valid_token
  by unfold_locales (auto simp: token_word_pack_valid token_word_token_pack dest: token_word_pack_token)

text \<open>C12. The 32-bit token word is a faithful token representation: \<open>TokenWord::pack\<close> panics exactly on
  a token outside the representable domain among the ones it checks, every valid token is recovered by
  \<open>token\<close>, and a word decodes only if it is the packed form of the token it yields. Comparing packed words
  is therefore comparing tokens.\<close>

theorem token_word_roundtrip:
  "(token_word_token w = Some t) = (token_word_pack t = Ok w \<and> valid_token t)
   \<and> (valid_token t \<longrightarrow> (\<exists>w. token_word_pack t = Ok w \<and> token_word_token w = Some t))
   \<and> (valid_token t \<and> valid_token t' \<and> token_word_pack t = token_word_pack t' \<longrightarrow> t = t')"
  using token_code.dec_iff token_code.encodes token_code.enc_injective by blast

theorem token_word_roundtrip_witness:
  "valid_token (Char 65 Letter) \<and> (\<exists>w. token_word_pack (Char 65 Letter) = Ok w \<and> token_word_token w = Some (Char 65 Letter))"
proof -
  have "valid_token (Char 65 Letter)" by (simp add: valid_token_def char_from_u32_def)
  with token_word_roundtrip [of 0 "Char 65 Letter" "Char 65 Letter"] show ?thesis by blast
qed

section \<open>The unvalidated projections\<close>

lemma semantic_token_join:
  assumes "take_bit 30 p = p" and "take_bit 2 k = k"
  shows "token_word_semantic_token (join_fields (k, p)) =
    (if k = 0 then obind (expect_some (char_from_u32 (drop_bit 4 p))) (\<lambda>ch.
         if unat (p AND 0xF) < length ALL_CATCODES then Ok (Char ch (ALL_CATCODES ! unat (p AND 0xF))) else Panic)
     else if k = 1 then Ok (Cs p) else if k = 2 then Ok (Param (ucast p))
     else if k = 3 then Ok (Frozen (FrozenToken (ucast p))) else Panic)"
  unfolding token_word_semantic_token_def join_fields_def fst_conv snd_conv token_kind_defs
    token_word_fields [OF assms(1)] assms(2) Let_def by (rule refl)

lemma catcode_nth: "ALL_CATCODES ! cat_code c = c"
  by (cases c) (simp_all add: ALL_CATCODES_def)

lemma semantic_token_pack:
  assumes "valid_token t"
  shows "token_word_semantic_token (join_fields (token_fields t)) = Ok t"
proof -
  obtain k p where f: "token_fields t = (k, p)" by (cases "token_fields t")
  note join = semantic_token_join [OF token_fields_bounds [OF assms f]]
  show ?thesis
  proof (cases t)
    case (Char ch cat)
    then have ch: "char_from_u32 ch = Some ch" using assms by (simp add: valid_token_def)
    have p: "k = 0" "p = push_bit 4 ch OR of_nat (cat_code cat)" using f Char by (simp_all add: token_fields_def)
    have u: "unat (of_nat (cat_code cat) :: u32) = cat_code cat"
      using cat_code_less [of cat] by (cases cat) simp_all
    have "cat_code cat < length ALL_CATCODES" using cat_code_less [of cat] by (simp add: ALL_CATCODES_def)
    then show ?thesis unfolding f join unfolding p char_field [OF ch] u using ch Char by (simp add: catcode_nth)
  next
    case (Frozen fr)
    then show ?thesis unfolding f join using f by (cases fr) (auto simp: token_fields_def ucast_down_up)
  qed (unfold f join, use f assms in \<open>auto simp: token_fields_def ucast_down_up\<close>)
qed

lemma low_nibble_join: "(push_bit 30 k OR p) AND 0xF = (p :: u32) AND 0xF"
proof -
  have "(0xF :: u32) = mask 4" by (simp add: mask_eq_decr_exp)
  then show ?thesis
    by (simp only: flip: take_bit_eq_mask) (simp add: take_bit_push_bit)
qed

lemma literal_projections_join:
  assumes "valid_token t"
  defines "w \<equiv> join_fields (token_fields t)"
  shows "literal_catcode w = (case t of Char ch cat \<Rightarrow> Some cat | _ \<Rightarrow> None)"
    and "literal_char w = (case t of Char ch cat \<Rightarrow> Some ch | _ \<Rightarrow> None)"
    and "out_parameter_slot w = (case t of Param s \<Rightarrow> Some s | _ \<Rightarrow> None)"
    and "is_control_sequence w = (case t of Cs s \<Rightarrow> True | _ \<Rightarrow> False)"
proof -
  obtain k p where f: "token_fields t = (k, p)" by (cases "token_fields t")
  note b = token_fields_bounds [OF assms(1) f]
  have kind: "drop_bit 30 w = k" and pay: "w AND TOKEN_PAYLOAD_MASK = p" and low: "w AND 0xF = p AND 0xF"
    unfolding w_def f join_fields_def fst_conv snd_conv
    using token_word_fields [OF b(1)] b(2) by (simp_all only: low_nibble_join)
  have k: "k = (case t of Char _ _ \<Rightarrow> 0 | Cs _ \<Rightarrow> 1 | Param _ \<Rightarrow> 2 | Frozen _ \<Rightarrow> 3)"
    using f by (cases t) (auto simp: token_fields_def)
  show "is_control_sequence w = (case t of Cs s \<Rightarrow> True | _ \<Rightarrow> False)"
    unfolding is_control_sequence_def token_kind_defs kind k by (cases t) simp_all
  show "out_parameter_slot w = (case t of Param s \<Rightarrow> Some s | _ \<Rightarrow> None)"
    unfolding out_parameter_slot_def token_kind_defs kind pay k
    using f by (cases t) (auto simp: token_fields_def ucast_down_up)
  show "literal_catcode w = (case t of Char ch cat \<Rightarrow> Some cat | _ \<Rightarrow> None)"
    and "literal_char w = (case t of Char ch cat \<Rightarrow> Some ch | _ \<Rightarrow> None)"
  proof (atomize (full), cases t)
    case (Char ch cat)
    then have ch: "char_from_u32 ch = Some ch" using assms by (simp add: valid_token_def)
    have p: "p = push_bit 4 ch OR of_nat (cat_code cat)" using f Char by (simp add: token_fields_def)
    have u: "ucast (of_nat (cat_code cat) :: u32) = (of_nat (cat_code cat) :: byte)" by (cases cat) simp_all
    show "literal_catcode w = (case t of Char ch cat \<Rightarrow> Some cat | _ \<Rightarrow> None)
        \<and> literal_char w = (case t of Char ch cat \<Rightarrow> Some ch | _ \<Rightarrow> None)"
      unfolding literal_catcode_def literal_char_def token_kind_defs kind pay low k p char_field [OF ch] u
      using Char ch by simp
  qed (unfold literal_catcode_def literal_char_def token_kind_defs kind k, simp_all)
qed

text \<open>C13. The unvalidated projections of the hot path agree with the checked decoder: on the packed form
  of a valid token, \<open>semantic_token\<close> returns the token without panicking, and \<open>literal_catcode\<close>,
  \<open>literal_char\<close>, \<open>out_parameter_slot\<close> and \<open>is_control_sequence\<close> are the corresponding projections of
  it.\<close>

theorem token_word_projections:
  assumes "token_word_pack t = Ok w" and "valid_token t"
  shows "token_word_semantic_token w = Ok t
    \<and> literal_catcode w = (case t of Char ch cat \<Rightarrow> Some cat | _ \<Rightarrow> None)
    \<and> literal_char w = (case t of Char ch cat \<Rightarrow> Some ch | _ \<Rightarrow> None)
    \<and> out_parameter_slot w = (case t of Param s \<Rightarrow> Some s | _ \<Rightarrow> None)
    \<and> is_control_sequence w = (case t of Cs s \<Rightarrow> True | _ \<Rightarrow> False)"
proof -
  have w: "w = join_fields (token_fields t)" using assms token_word_pack_valid by simp
  show ?thesis
    unfolding w using semantic_token_pack [OF assms(2)] literal_projections_join [OF assms(2)] by blast
qed

theorem token_word_projections_witness:
  "literal_catcode 1051 = Some Letter \<and> token_word_semantic_token 1051 = Ok (Char 65 Letter)"
proof -
  have "token_word_pack (Char 65 Letter) = Ok 1051"
    by (simp add: token_word_pack_def token_kind_defs push_bit_eq_mult or_one_eq)
  moreover have "valid_token (Char 65 Letter)" by (simp add: valid_token_def char_from_u32_def)
  ultimately show ?thesis using token_word_projections [of "Char 65 Letter" 1051] by simp
qed

section \<open>Origins\<close>

definition origin_encode :: "OriginEncoding \<Rightarrow> OriginId panicking" where
  "origin_encode e =
     (case e of
        Unknown \<Rightarrow> Ok ORIGIN_UNKNOWN
      | NoExpandFallback \<Rightarrow> Ok NOEXPAND_FALLBACK
      | DirectSource position \<Rightarrow> expect_some (origin_direct_source position)
      | Arena index \<Rightarrow> expect_some (origin_arena index))"

definition valid_origin :: "OriginEncoding \<Rightarrow> bool" where
  "valid_origin e =
     (case e of
        DirectSource position \<Rightarrow> unat position < 2 ^ 31 - 1
      | Arena index \<Rightarrow> unat index < 2 ^ 31 - 1
      | _ \<Rightarrow> True)"

lemma arena_tag_bit: "w AND ARENA_TAG = 0 \<longleftrightarrow> \<not> bit w 31"
  unfolding ARENA_TAG_def by (simp only: bit_iff_and_push_bit_not_eq_0 not_not)

lemma origin_fields:
  fixes w :: u32
  shows "w AND ARENA_TAG = 0 \<longleftrightarrow> unat w < 2 ^ 31" and "w AND ORIGIN_PAYLOAD_MASK = take_bit 31 w"
    and "unat ORIGIN_PAYLOAD_MASK = 2 ^ 31 - 1"
proof -
  show "w AND ORIGIN_PAYLOAD_MASK = take_bit 31 w"
    by (simp add: ORIGIN_PAYLOAD_MASK_def ARENA_TAG_def take_bit_eq_mask mask_eq_decr_exp)
  show "unat ORIGIN_PAYLOAD_MASK = 2 ^ 31 - 1"
    by (simp add: ORIGIN_PAYLOAD_MASK_def ARENA_TAG_def)
  have "w AND ARENA_TAG = 0 \<longleftrightarrow> \<not> bit w 31" by (rule arena_tag_bit)
  also have "\<dots> \<longleftrightarrow> take_bit 31 w = w"
  proof
    assume nb: "\<not> bit w 31"
    show "take_bit 31 w = w"
    proof (rule bit_word_eqI)
      fix n
      assume "n < LENGTH(32)"
      then have "n < 31 \<or> n = 31" by auto
      then show "bit (take_bit 31 w) n = bit w n" using nb by (auto simp: bit_simps)
    qed
  next
    assume "take_bit 31 w = w"
    then show "\<not> bit w 31" by (metis bit_take_bit_iff less_irrefl)
  qed
  finally show "w AND ARENA_TAG = 0 \<longleftrightarrow> unat w < 2 ^ 31" by (simp only: take_bit_eq_self_word)
qed

lemma unat_ucast_mask: "unat (ucast ORIGIN_PAYLOAD_MASK :: u64) = 2 ^ 31 - 1"
  by (simp add: unat_ucast_up origin_fields(3))

lemma origin_direct_source_eq:
  "origin_direct_source p = (if unat p < 2 ^ 31 - 1 then Some (ucast (p + 1)) else None)"
proof (cases "p = - 1")
  case True
  then show ?thesis
    by (simp add: origin_direct_source_def unsigned_minus_1_eq_mask mask_eq_exp_minus_1)
next
  case False
  then have "p + 1 \<noteq> 0" by (simp add: eq_neg_iff_add_eq_0)
  then have "unat (p + 1) = unat p + 1" using unat_minus_one [of "p + 1"] by (simp add: unat_eq_0 [symmetric])
  with False show ?thesis
    by (auto simp: origin_direct_source_def word_le_nat_alt unat_ucast_mask)
qed

lemma origin_arena_eq:
  "origin_arena i = (if unat i < 2 ^ 31 - 1 then Some (push_bit 31 1 OR i) else None)"
  by (simp add: origin_arena_def word_less_nat_alt origin_fields(3) ARENA_TAG_def)


lemma arena_word_fields:
  assumes "unat i < 2 ^ 31 - 1"
  shows "(push_bit 31 1 OR i) AND ARENA_TAG \<noteq> 0" and "(push_bit 31 1 OR i) AND ORIGIN_PAYLOAD_MASK = i"
    and "push_bit 31 1 OR i \<noteq> NOEXPAND_FALLBACK" and "push_bit 31 1 OR i \<noteq> (0 :: u32)"
proof -
  have i: "take_bit 31 i = i" using assms by (simp add: take_bit_eq_self_word)
  show low: "(push_bit 31 1 OR i) AND ORIGIN_PAYLOAD_MASK = i"
    unfolding origin_fields(2) by (rule field_low [OF i])
  have "bit (push_bit 31 1 :: u32) 31" by (simp only: bit_push_bit_iff) simp
  then show tag: "(push_bit 31 1 OR i) AND ARENA_TAG \<noteq> 0"
    by (simp only: arena_tag_bit bit_or_iff) simp
  show "push_bit 31 1 OR i \<noteq> (0 :: u32)" using tag by auto
  show "push_bit 31 1 OR i \<noteq> NOEXPAND_FALLBACK"
  proof
    assume "push_bit 31 1 OR i = NOEXPAND_FALLBACK"
    with low have "i = ORIGIN_PAYLOAD_MASK" by (simp add: NOEXPAND_FALLBACK_def)
    with assms show False by (simp add: origin_fields(3))
  qed
qed

lemma origin_decode_encode:
  assumes "origin_encode e = Ok w" and "valid_origin e"
  shows "origin_decode w = e"
proof (cases e)
  case (DirectSource p)
  then have p: "unat p < 2 ^ 31 - 1" and w: "w = ucast (p + 1)"
    using assms by (simp_all add: valid_origin_def origin_encode_def origin_direct_source_eq)
  have "unat (p + 1) = unat p + 1" using p by (subst unat_add_lem [THEN iffD1]) simp_all
  then have uw: "unat w = unat p + 1" and "unat (p + 1) < 2 ^ LENGTH(32)"
    using p unfolding w by (simp_all add: unsigned_ucast_eq take_bit_nat_eq_self)
  then have "w \<noteq> 0" "w \<noteq> NOEXPAND_FALLBACK" "w AND ARENA_TAG = 0"
    using p by (auto simp: NOEXPAND_FALLBACK_def origin_fields(1) unsigned_minus_1_eq_mask mask_eq_exp_minus_1)
  moreover have "unat (ucast (w - 1) :: u64) = unat p"
    using uw \<open>w \<noteq> 0\<close> by (simp add: unat_ucast_up unat_minus_one)
  ultimately show ?thesis using DirectSource by (simp add: origin_decode_def word_unat_eq_iff)
next
  case (Arena i)
  then have i: "unat i < 2 ^ 31 - 1" and w: "w = push_bit 31 1 OR i"
    using assms by (simp_all add: valid_origin_def origin_encode_def origin_arena_eq)
  show ?thesis unfolding w origin_decode_def using arena_word_fields [OF i] Arena by simp
qed (use assms in \<open>auto simp: origin_encode_def origin_decode_def ORIGIN_UNKNOWN_def NOEXPAND_FALLBACK_def\<close>)

lemma origin_encode_decode: "origin_encode (origin_decode w) = Ok w \<and> valid_origin (origin_decode w)"
proof -
  consider "w = NOEXPAND_FALLBACK" | "w = 0" | "w \<noteq> NOEXPAND_FALLBACK" "w \<noteq> 0" "unat w < 2 ^ 31"
    | "w \<noteq> NOEXPAND_FALLBACK" "w \<noteq> 0" "\<not> unat w < 2 ^ 31" by blast
  then show ?thesis
  proof cases
    case 3
    then have d: "origin_decode w = DirectSource (ucast (w - 1))"
      by (simp add: origin_decode_def origin_fields(1))
    have u: "unat (ucast (w - 1) :: u64) = unat w - 1" using 3(2) by (simp add: unat_ucast_up unat_minus_one)
    have "unat w \<noteq> 0" using 3(2) by (simp add: unat_eq_0)
    with u 3(3) have "unat (ucast (w - 1) + 1 :: u64) = unat w"
      by (subst unat_add_lem [THEN iffD1]) simp_all
    then have "ucast (ucast (w - 1) + 1 :: u64) = w"
      using 3(3) by (simp add: word_unat_eq_iff unsigned_ucast_eq take_bit_nat_eq_self)
    with u 3(3) \<open>unat w \<noteq> 0\<close> show ?thesis
      unfolding d by (simp add: origin_encode_def valid_origin_def origin_direct_source_eq)
  next
    case 4
    then have d: "origin_decode w = Arena (take_bit 31 w)"
      by (simp add: origin_decode_def origin_fields)
    have "bit w 31" using 4(3) arena_tag_bit [of w] origin_fields(1) [of w] by blast
    then have "drop_bit 31 w = 1"
      by (intro bit_word_eqI) (auto simp: bit_simps less_Suc_eq numeral_eq_Suc dest: bit_imp_le_length)
    then have w: "push_bit 31 1 OR take_bit 31 w = w" using field_join [of 31 w] by simp
    have "unat (take_bit 31 w) < 2 ^ 31"
      using take_bit_nat_less_exp [of 31 "unat w"] by (simp add: unsigned_take_bit_eq)
    moreover have "unat (take_bit 31 w) \<noteq> 2 ^ 31 - 1"
    proof
      assume "unat (take_bit 31 w) = 2 ^ 31 - 1"
      then have "take_bit 31 w = ORIGIN_PAYLOAD_MASK" by (simp only: word_unat_eq_iff origin_fields(3))
      with w have "w = push_bit 31 1 OR ORIGIN_PAYLOAD_MASK" by simp
      with 4(1) show False by (simp add: ORIGIN_PAYLOAD_MASK_def ARENA_TAG_def NOEXPAND_FALLBACK_def)
    qed
    ultimately have "unat (take_bit 31 w) < 2 ^ 31 - 1" by simp
    with w show ?thesis unfolding d by (simp add: origin_encode_def valid_origin_def origin_arena_eq)
  qed (simp_all add: origin_decode_def origin_encode_def valid_origin_def ORIGIN_UNKNOWN_def NOEXPAND_FALLBACK_def)
qed

interpretation origin_code: packed_code origin_encode "\<lambda>w. Some (origin_decode w)" valid_origin
proof
  fix e w
  show "valid_origin e \<Longrightarrow> \<exists>w. origin_encode e = Ok w"
    by (cases e) (simp_all add: valid_origin_def origin_encode_def origin_direct_source_eq origin_arena_eq)
qed (use origin_decode_encode origin_encode_decode in auto)

text \<open>C14. Every 32-bit origin word has exactly one meaning: \<open>decode\<close> inverts \<open>direct_source\<close> and \<open>arena\<close>
  wherever they produce a word, the word it was decoded from is rebuilt by the same constructors, and the
  two reserved words (unknown and the \<open>\noexpand\<close> fallback) are produced by neither.\<close>

theorem origin_id_unambiguous:
  "(case origin_direct_source position of
      Some w \<Rightarrow> origin_decode w = DirectSource position | None \<Rightarrow> 2 ^ 31 - 1 \<le> unat position)
   \<and> (case origin_arena index of
      Some w \<Rightarrow> origin_decode w = Arena index | None \<Rightarrow> 2 ^ 31 - 1 \<le> unat index)
   \<and> (case origin_decode w of
        Unknown \<Rightarrow> w = ORIGIN_UNKNOWN
      | NoExpandFallback \<Rightarrow> w = NOEXPAND_FALLBACK
      | DirectSource p \<Rightarrow> origin_direct_source p = Some w
      | Arena i \<Rightarrow> origin_arena i = Some w)"
proof (intro conjI)
  show "case origin_direct_source position of
      Some w \<Rightarrow> origin_decode w = DirectSource position | None \<Rightarrow> 2 ^ 31 - 1 \<le> unat position"
    using origin_decode_encode [of "DirectSource position"]
    by (auto simp: origin_encode_def valid_origin_def origin_direct_source_eq)
  show "case origin_arena index of
      Some w \<Rightarrow> origin_decode w = Arena index | None \<Rightarrow> 2 ^ 31 - 1 \<le> unat index"
    using origin_decode_encode [of "Arena index"]
    by (auto simp: origin_encode_def valid_origin_def origin_arena_eq)
  show "case origin_decode w of
        Unknown \<Rightarrow> w = ORIGIN_UNKNOWN
      | NoExpandFallback \<Rightarrow> w = NOEXPAND_FALLBACK
      | DirectSource p \<Rightarrow> origin_direct_source p = Some w
      | Arena i \<Rightarrow> origin_arena i = Some w"
    using origin_encode_decode [of w] by (auto simp: origin_encode_def split: OriginEncoding.splits)
qed

section \<open>Traced words\<close>

lemma traced_parts:
  "traced_token_word (traced_from_parts w o1) = w" "traced_origin (traced_from_parts w o1) = o1"
proof -
  have o1: "take_bit 32 (ucast o1 :: u64) = ucast o1"
    by (rule bit_word_eqI) (auto simp: bit_simps dest: bit_imp_le_length)
  have w: "take_bit 32 (ucast w :: u64) = ucast w"
    by (rule bit_word_eqI) (auto simp: bit_simps dest: bit_imp_le_length)
  have up_down: "ucast (ucast v :: u64) = v"
    for v :: u32
    by (rule bit_word_eqI) (simp add: bit_simps)
  have "drop_bit 32 (push_bit 32 (ucast w) OR ucast o1 :: u64) = ucast w"
    by (subst field_high [OF o1]) (simp_all add: w)
  then show "traced_token_word (traced_from_parts w o1) = w"
    unfolding traced_token_word_def traced_from_parts_def TRACED_PAYLOAD_SHIFT_def by (simp only: up_down)
  have "ucast (push_bit 32 (ucast w) OR ucast o1 :: u64) = o1"
    by (rule bit_word_eqI) (auto simp: bit_simps)
  then show "traced_origin (traced_from_parts w o1) = o1"
    unfolding traced_origin_def traced_from_parts_def TRACED_PAYLOAD_SHIFT_def .
qed

lemma traced_from_parts_of: "traced_from_parts (traced_token_word v) (traced_origin v) = v"
  unfolding traced_from_parts_def traced_token_word_def traced_origin_def TRACED_PAYLOAD_SHIFT_def
  by (rule bit_word_eqI) (auto simp: bit_simps)

interpretation traced_code:
  packed_code "\<lambda>a. traced_pack (fst a) (snd a)" traced_unpack "\<lambda>a. valid_token (fst a)"
proof
  fix a :: "Token \<times> OriginId" and w
  show "valid_token (fst a) \<Longrightarrow> \<exists>w. traced_pack (fst a) (snd a) = Ok w"
    using token_code.encodes [of "fst a"] by (auto simp: traced_pack_def)
  show "traced_pack (fst a) (snd a) = Ok w \<Longrightarrow> valid_token (fst a) \<Longrightarrow> traced_unpack w = Some a"
    using token_code.dec_enc [of "fst a"]
    by (auto simp: traced_pack_def traced_unpack_def traced_token_def traced_parts outcome_simps)
  show "traced_unpack w = Some a \<Longrightarrow> traced_pack (fst a) (snd a) = Ok w \<and> valid_token (fst a)"
    using token_code.enc_dec [of "traced_token_word w" "fst a"]
    by (auto simp: traced_pack_def traced_unpack_def traced_token_def bind_eq_Some_conv traced_from_parts_of)
qed

text \<open>A traced word carries its token and its origin without interference: unpacking a packed pair
  returns the pair, a word that unpacks is the packed form of what it yields, and the token word and the
  origin are recovered separately from any combination of the two.\<close>

lemma traced_word_roundtrip:
  "(traced_unpack v = Some (t, o1)) = (traced_pack t o1 = Ok v \<and> valid_token t)
   \<and> traced_token_word (traced_from_parts w o1) = w
   \<and> traced_origin (traced_from_parts w o1) = o1
   \<and> traced_from_parts (traced_token_word v) (traced_origin v) = v"
  using traced_code.dec_iff [of v "(t, o1)"] traced_parts traced_from_parts_of by simp

end
