(* ===== verification/Node_Model.thy ===== *)
theory Node_Model
  imports Glue_Ratio Token_Words
begin

text \<open>
  The page-material nodes of \<^verbatim>\<open>crates/tex-state/src/node.rs\<close> and \<^verbatim>\<open>math.rs\<close>, and the borrowed projection
  \<open>NodeView\<close> of \<^verbatim>\<open>crates/tex-state/src/node_view/view.rs\<close> that the typesetting kernels read. As in the
  source, nodes are generic in the type of a list handle, of a glue payload and of a token payload; \<open>'l Node\<close> is
  the instance with the source's default payloads. A page list is a handle together with what it resolves
  to: the arena lookup \<open>page_nodes\<close> is the selector of \<open>page_list\<close>, so that a frozen list is the tree of its
  nodes. A \<open>char\<close> is its scalar value; the strings and byte vectors of extension nodes are lists.
\<close>

section \<open>Glue\<close>

datatype Order = ONormal | Fil | Fill | Filll

record GlueSpec =
  g_width :: scaled
  g_stretch :: scaled
  g_stretch_order :: Order
  g_shrink :: scaled
  g_shrink_order :: Order

definition glue_ZERO :: GlueSpec where
  "glue_ZERO = \<lparr>g_width = 0, g_stretch = 0, g_stretch_order = ONormal, g_shrink = 0,
     g_shrink_order = ONormal\<rparr>"

text \<open>\<open>trap_zero_glue\<close> ignores the orders of zero components.\<close>

definition has_zero_components :: "GlueSpec \<Rightarrow> bool" where
  "has_zero_components g \<longleftrightarrow> g_width g = 0 \<and> g_stretch g = 0 \<and> g_shrink g = 0"

section \<open>Token coordinates\<close>

datatype NodeTokenKey =
  NodeTokenKey (key_owner: u32) (key_block_ordinal: u32) (key_logical_block_incarnation: u32)
    (key_word_offset: u32) (key_word_len: u32) (key_publication_serial: u32)

definition key_is_empty :: "NodeTokenKey \<Rightarrow> bool" where
  "key_is_empty k \<longleftrightarrow> key_word_len k = 0"

fun key_coordinates :: "NodeTokenKey \<Rightarrow> u32 list" where
  "key_coordinates (NodeTokenKey ow b i off len p) = [ow, b, i, off, len, p]"

definition key_from_coordinates :: "u32 list \<Rightarrow> NodeTokenKey panicking" where
  "key_from_coordinates words =
     (case words of [ow, b, i, off, len, p] \<Rightarrow> Ok (NodeTokenKey ow b i off len p) | _ \<Rightarrow> Panic)"

section \<open>Boxes and leaders\<close>

datatype Sign = SNormal | Stretching | Shrinking
datatype BoxLr = LrNormal | LrReversed | DList
datatype UnsetKind = UHBox | UVBox
datatype KernKind = KExplicit | KFont | KAuto | KAccent | KMu | KLeftMargin | KRightMargin
datatype MarginKernSide = MLeft | MRight
datatype DiscKind = Discretionary | ExplicitHyphen | AutomaticHyphen
datatype GlueSpecOrigin = SharedZero | Owned
datatype GlueKind =
  GNormal | SpaceSkip | XSpaceSkip | TabSkip | BaselineSkip | LineSkip | TopSkip | SplitTopSkip
| LeftSkip | RightSkip | ParSkip | ParFillSkip | AboveDisplaySkip | BelowDisplaySkip
| AboveDisplayShortSkip | BelowDisplayShortSkip | Leaders | Cleaders | Xleaders | MuSkip
| ThinMuSkip | MedMuSkip | ThickMuSkip | NonScript

datatype MathBoundary = BeginM | EndM | BeginL | EndL | BeginR | EndR

definition from_trapped_parameter :: "GlueSpec \<Rightarrow> GlueSpecOrigin" where
  "from_trapped_parameter spec = (if spec = glue_ZERO then SharedZero else Owned)"

datatype 'l BoxNode =
  BoxNode (box_width: scaled) (box_height: scaled) (box_depth: scaled) (box_shift: scaled)
    (box_lr: BoxLr) (glue_set: GlueSetRatio) (glue_sign: Sign) (glue_order: Order) (children: 'l)
    (diagnostic_children: "'l option") (allocator_high_cell_overlap: u32)

text \<open>\<open>BoxNode::new\<close>; the fields of \<open>BoxNodeFields\<close> are its arguments.\<close>

definition box_new :: "scaled \<Rightarrow> scaled \<Rightarrow> scaled \<Rightarrow> scaled \<Rightarrow> BoxLr \<Rightarrow> GlueSetRatio \<Rightarrow> Sign \<Rightarrow> Order \<Rightarrow> 'l \<Rightarrow> 'l BoxNode" where
  "box_new w h d shift lr gs sign order kids = BoxNode w h d shift lr gs sign order kids None 0"

declare box_new_def [simp]

datatype 'l UnsetNode =
  UnsetNode (unset_kind: UnsetKind) (unset_width: scaled) (unset_height: scaled) (unset_depth: scaled)
    (span_count: u16) (unset_stretch: scaled) (unset_stretch_order: Order) (unset_shrink: scaled)
    (unset_shrink_order: Order) (unset_children: 'l)

datatype 'l LeaderPayload =
  LeaderHList "'l BoxNode" | LeaderVList "'l BoxNode"
| LeaderRule "scaled option" "scaled option" "scaled option"

datatype 'l AdjustNode = AdjustNode (adjust_content: 'l) (adjust_pre: bool)

section \<open>Math payloads\<close>

datatype MathStyle = DisplayStyle | TextStyle | ScriptStyle | ScriptScriptStyle
datatype MathFontSize = TextSize | ScriptSize | ScriptScriptSize

datatype MathChar = MathCharacter (mc_family: byte) (mc_character: nat) (mc_origin: OriginId)

datatype 'l MathField =
  FieldEmpty | FieldMathChar MathChar | FieldMathTextChar MathChar | FieldSubBox 'l | FieldSubMlist 'l

datatype NoadClass = OrdClass | OpClass | BinClass | RelClass | OpenClass | CloseClass | PunctClass | InnerClass
datatype LimitType = DisplayLimits | Limits | NoLimits

datatype NoadKind =
  NoadNormal NoadClass | NoadOperator LimitType | NoadRadical u32 | NoadAccent MathChar
| NoadLeftDelimiter u32 | NoadRightDelimiter u32 | NoadMiddleDelimiter u32
| NoadUnderline | NoadOverline | NoadVCenter

datatype 'l MathNoad =
  MkNoad (noad_kind: NoadKind) (noad_nucleus: "'l MathField") (noad_subscript: "'l MathField")
    (noad_superscript: "'l MathField")

datatype FractionThickness = DefaultThickness | ExplicitThickness scaled

datatype 'l MathFraction =
  MkFraction (frac_numerator: 'l) (frac_denominator: 'l) (frac_thickness: FractionThickness)
    (frac_left_delimiter: "u32 option") (frac_right_delimiter: "u32 option")

datatype 'l MathChoice =
  MkChoice (choice_display: 'l) (choice_text: 'l) (choice_script: 'l) (choice_script_script: 'l)

datatype 'l MathListNode = MkMathList (mlist_display: bool) (mlist_content: 'l)

section \<open>Extension nodes\<close>

type_synonym StreamSlot = byte

datatype PrintSink = SinkTerminal | SinkLog | SinkTerminalAndLog | SinkStream StreamSlot
datatype PdfColorStackAction = ColorSet "byte list" | ColorPush "byte list" | ColorPop | ColorCurrent
datatype PdfAccessibilityControl = InterwordSpaceOn | InterwordSpaceOff | FakeSpace
datatype PdfLiteralMode = LiteralOrigin | LiteralPage | LiteralDirect

datatype PdfAnnotationDimensions =
  PdfAnnotationDimensions "scaled option" "scaled option" "scaled option"

datatype PdfDestinationKind =
  DestXyz "int option" | FitBoundingBoxHorizontal | FitBoundingBoxVertical | FitBoundingBox
| FitHorizontal | FitVertical | FitRectangle PdfAnnotationDimensions | Fit

datatype 't NodePdfActionIdentifier = ActionName 't | ActionNumber u32 | ActionRaw 't

datatype 't PdfThreadNode =
  PdfThreadNode (thread_identifier: "'t NodePdfActionIdentifier") (thread_dimensions: PdfAnnotationDimensions)
    (thread_attributes: 't) (thread_running: bool)

datatype 't PdfDestinationNode =
  PdfDestinationNode (dest_identifier: "'t NodePdfActionIdentifier") (dest_structure: "u32 option")
    (dest_kind: PdfDestinationKind)

datatype ('g, 't) Whatsit =
  OpenOut StreamSlot string
| CloseOut "StreamSlot option"
| DeferredWrite PrintSink 't
| Special string "byte list"
| DeferredSpecial string 't
| PdfReferenceObject u32
| PdfAccessibility PdfAccessibilityControl
| PdfAnnotation u32
| PdfLinkStart u32
| PdfLinkEnd u32
| PdfRunningLink bool
| PdfLiteral PdfLiteralMode "byte list"
| DeferredPdfLiteral PdfLiteralMode 't
| PdfSetMatrix "byte list"
| PdfSave
| PdfRestore
| PdfColorStack u32 PdfColorStackAction
| PdfSavePos
| PdfSnapRefPoint
| PdfSnapY 'g
| PdfSnapYComp u16
| PdfRefXForm u32 scaled scaled scaled
| PdfRefXImage u32 scaled scaled scaled
| PdfDestination "'t PdfDestinationNode"
| PdfThread "'t PdfThreadNode"
| PdfEndThread
| Language byte byte byte

section \<open>Nodes\<close>

type_synonym FontId = nat

datatype ('l, 'g, 't) NodeOf =
  CharNode FontId nat OriginId
| Lig FontId nat "nat list" bool bool "OriginId list"
| Kern scaled KernKind
| MarginKern scaled MarginKernSide FontId byte
| Glue 'g GlueKind GlueSpecOrigin "'l LeaderPayload option"
| Penalty int
| Rule "scaled option" "scaled option" "scaled option"
| HList "'l BoxNode"
| VList "'l BoxNode"
| Unset "'l UnsetNode"
| Disc DiscKind 'l 'l 'l byte
| Mark u16 't
| Ins u16 scaled 'g scaled int 'l
| WhatsitNode "('g, 't) Whatsit"
| MathOn scaled
| MathOff scaled
| Direction MathBoundary
| MathNoad "'l MathNoad"
| FractionNoad "'l MathFraction"
| MathStyle MathStyle
| MathChoice "'l MathChoice"
| MathList "'l MathListNode"
| Nonscript
| Adjust "'l AdjustNode"

type_synonym 'l Node = "('l, GlueSpec, NodeTokenKey) NodeOf"

datatype page_list = PageList (page_nodes: "page_list Node list")

section \<open>The borrowed view\<close>

text \<open>\<open>NodeView\<close>; a borrowed or owned slice is the list it holds.\<close>

datatype ('l, 'g, 't) NodeViewOf =
  VChar FontId nat OriginId
| VLig FontId nat "nat list" "OriginId list" bool bool
| VKern scaled KernKind
| VMarginKern scaled MarginKernSide FontId byte
| VGlue 'g GlueKind GlueSpecOrigin "'l LeaderPayload option"
| VPenalty int
| VRule "scaled option" "scaled option" "scaled option"
| VHList "'l BoxNode"
| VVList "'l BoxNode"
| VUnset "'l UnsetNode"
| VDisc DiscKind 'l 'l 'l byte
| VMark u16 't
| VIns u16 scaled 'g scaled int 'l
| VWhatsit "('g, 't) Whatsit"
| VMathOn scaled
| VMathOff scaled
| VDirection MathBoundary
| VMathNoad "'l MathNoad"
| VFractionNoad "'l MathFraction"
| VMathStyle MathStyle
| VMathChoice "'l MathChoice"
| VMathList "'l MathListNode"
| VNonscript
| VAdjust "'l AdjustNode"

type_synonym 'l NodeView = "('l, GlueSpec, NodeTokenKey) NodeViewOf"

fun view_from :: "('l, 'g, 't) NodeOf \<Rightarrow> ('l, 'g, 't) NodeViewOf" where
  "view_from (CharNode font ch origin) = VChar font ch origin"
| "view_from (Lig font ch orig left_hit right_hit origins) = VLig font ch orig origins left_hit right_hit"
| "view_from (Kern amount kind) = VKern amount kind"
| "view_from (MarginKern amount side font ch) = VMarginKern amount side font ch"
| "view_from (Glue spec kind origin leader) = VGlue spec kind origin leader"
| "view_from (Penalty v) = VPenalty v"
| "view_from (Rule w h d) = VRule w h d"
| "view_from (HList b) = VHList b"
| "view_from (VList b) = VVList b"
| "view_from (Unset u) = VUnset u"
| "view_from (Disc kind pre post replace count) = VDisc kind pre post replace count"
| "view_from (Mark class tokens) = VMark class tokens"
| "view_from (Ins class sz split_top_skip split_max_depth floating_penalty content) =
     VIns class sz split_top_skip split_max_depth floating_penalty content"
| "view_from (WhatsitNode w) = VWhatsit w"
| "view_from (MathOn v) = VMathOn v"
| "view_from (MathOff v) = VMathOff v"
| "view_from (Direction v) = VDirection v"
| "view_from (MathNoad v) = VMathNoad v"
| "view_from (FractionNoad v) = VFractionNoad v"
| "view_from (MathStyle v) = VMathStyle v"
| "view_from (MathChoice v) = VMathChoice v"
| "view_from (MathList v) = VMathList v"
| "view_from Nonscript = VNonscript"
| "view_from (Adjust v) = VAdjust v"

section \<open>The dimension-bearing projection\<close>

datatype 'l PackedNode =
  PGlyph FontId nat
| PKern scaled "KernKind option"
| PGlue GlueSpec "'l LeaderPayload option"
| PRule "scaled option" "scaled option" "scaled option"
| PBox "'l BoxNode"
| PUnset "'l UnsetNode"
| PDisc 'l
| PImage scaled scaled scaled
| PMath scaled
| PIgnored

fun view_packed :: "'l NodeView \<Rightarrow> 'l PackedNode" where
  "view_packed (VChar font ch origin) = PGlyph font ch"
| "view_packed (VLig font ch orig origins lh rh) = PGlyph font ch"
| "view_packed (VKern amount kind) = PKern amount (Some kind)"
| "view_packed (VMarginKern amount side font ch) = PKern amount None"
| "view_packed (VGlue spec kind origin leader) = PGlue spec leader"
| "view_packed (VRule w h d) = PRule w h d"
| "view_packed (VHList b) = PBox b"
| "view_packed (VVList b) = PBox b"
| "view_packed (VUnset u) = PUnset u"
| "view_packed (VDisc kind pre post replace count) = PDisc replace"
| "view_packed (VWhatsit whatsit) =
     (case whatsit of
        PdfRefXForm object w h d \<Rightarrow> PImage w h d
      | PdfRefXImage object w h d \<Rightarrow> PImage w h d
      | _ \<Rightarrow> PIgnored)"
| "view_packed (VMathOn w) = PMath w"
| "view_packed (VMathOff w) = PMath w"
| "view_packed _ = PIgnored"

definition or_zero :: "scaled option \<Rightarrow> scaled" where
  "or_zero v = (case v of None \<Rightarrow> 0 | Some x \<Rightarrow> x)"

definition view_vertical_dimensions :: "'l NodeView \<Rightarrow> (scaled \<times> scaled) option" where
  "view_vertical_dimensions node =
     (case view_packed node of
        PBox b \<Rightarrow> Some (box_height b, box_depth b)
      | PUnset u \<Rightarrow> Some (unset_height u, unset_depth u)
      | PRule w h d \<Rightarrow> Some (or_zero h, or_zero d)
      | _ \<Rightarrow> None)"

definition view_box_node :: "'l NodeView \<Rightarrow> 'l BoxNode option" where
  "view_box_node node = (case view_packed node of PBox b \<Rightarrow> Some b | _ \<Rightarrow> None)"

text \<open>The projections as the kernels apply them to the node under a cursor.\<close>

definition packed :: "'l Node \<Rightarrow> 'l PackedNode" where
  "packed node = view_packed (view_from node)"

definition vertical_dimensions :: "'l Node \<Rightarrow> (scaled \<times> scaled) option" where
  "vertical_dimensions node = view_vertical_dimensions (view_from node)"

lemma packed_simps [simp]:
  "packed (CharNode font ch origin) = PGlyph font ch"
  "packed (Lig font ch orig lh rh origins) = PGlyph font ch"
  "packed (Kern amount kind) = PKern amount (Some kind)"
  "packed (MarginKern amount side font c) = PKern amount None"
  "packed (Glue spec gkind gorigin leader) = PGlue spec leader"
  "packed (Penalty p) = PIgnored"
  "packed (Rule w h d) = PRule w h d"
  "packed (HList b) = PBox b"
  "packed (VList b) = PBox b"
  "packed (Unset u) = PUnset u"
  "packed (Disc dkind pre post replace count) = PDisc replace"
  "packed (MathOn v) = PMath v"
  "packed (MathOff v) = PMath v"
  by (simp_all add: packed_def)

lemma packed_PDiscE:
  assumes "packed n = PDisc r"
  obtains kind pre post count where "n = Disc kind pre post r count"
  using assms by (cases n) (auto simp: packed_def split: Whatsit.splits)

lemma disc_replace_size: "Disc kind pre post r count \<in> set ns \<Longrightarrow> size r < size (PageList ns)"
  by (induction ns) auto

end
