(* ===== verification/List_Metrics.thy ===== *)
theory List_Metrics
  imports Node_Model
begin

text \<open>
  The metric accumulator of \<^verbatim>\<open>crates/tex-typeset/src/metrics.rs\<close>. The four totals of stretch and of
  shrink are functions of the order that indexes them; an overflow of the checked \<open>i32\<close> additions
  is a panic, whose message is the only thing a \<open>MetricOverflow\<close> carries.
\<close>

section \<open>Definitions\<close>

datatype MetricEvent =
  EvGlyph scaled scaled scaled
| EvBox scaled scaled scaled scaled
| EvRule scaled scaled scaled
| EvImage scaled scaled scaled
| EvKern scaled
| EvGlue GlueSpec
| EvMath scaled

record ListMetrics =
  m_width :: scaled
  m_height :: scaled
  m_depth :: scaled
  m_stretch :: "Order \<Rightarrow> scaled"
  m_shrink :: "Order \<Rightarrow> scaled"
  m_has_glue :: bool

definition metrics_ZERO :: ListMetrics where
  "metrics_ZERO = \<lparr>m_width = 0, m_height = 0, m_depth = 0, m_stretch = (\<lambda>_. 0), m_shrink = (\<lambda>_. 0),
     m_has_glue = False\<rparr>"

definition m_add :: "scaled \<Rightarrow> scaled \<Rightarrow> scaled panicking" where
  "m_add l r = expect_some (scaled_checked_add l r)"

definition m_sub :: "scaled \<Rightarrow> scaled \<Rightarrow> scaled panicking" where
  "m_sub l r = expect_some (scaled_checked_sub l r)"

definition add_glue :: "ListMetrics \<Rightarrow> GlueSpec \<Rightarrow> ListMetrics panicking" where
  "add_glue m spec =
     obind (m_add (m_stretch m (g_stretch_order spec)) (g_stretch spec)) (\<lambda>st.
     obind (m_add (m_shrink m (g_shrink_order spec)) (g_shrink spec)) (\<lambda>sh.
       Ok (m\<lparr>m_has_glue := True,
             m_stretch := (m_stretch m)(g_stretch_order spec := st),
             m_shrink := (m_shrink m)(g_shrink_order spec := sh)\<rparr>)))"

fun observe_horizontal :: "ListMetrics \<Rightarrow> MetricEvent \<Rightarrow> ListMetrics panicking" where
  "observe_horizontal m (EvGlyph w h d) =
     obind (m_add (m_width m) w) (\<lambda>w. Ok (m\<lparr>m_width := w, m_height := max (m_height m) h, m_depth := max (m_depth m) d\<rparr>))"
| "observe_horizontal m (EvRule w h d) =
     obind (m_add (m_width m) w) (\<lambda>w. Ok (m\<lparr>m_width := w, m_height := max (m_height m) h, m_depth := max (m_depth m) d\<rparr>))"
| "observe_horizontal m (EvImage w h d) =
     obind (m_add (m_width m) w) (\<lambda>w. Ok (m\<lparr>m_width := w, m_height := max (m_height m) h, m_depth := max (m_depth m) d\<rparr>))"
| "observe_horizontal m (EvBox w h d shift) =
     obind (m_add (m_width m) w) (\<lambda>w.
     obind (m_sub h shift) (\<lambda>h.
     obind (m_add d shift) (\<lambda>d.
       Ok (m\<lparr>m_width := w, m_height := max (m_height m) h, m_depth := max (m_depth m) d\<rparr>))))"
| "observe_horizontal m (EvKern amount) = obind (m_add (m_width m) amount) (\<lambda>w. Ok (m\<lparr>m_width := w\<rparr>))"
| "observe_horizontal m (EvMath amount) = obind (m_add (m_width m) amount) (\<lambda>w. Ok (m\<lparr>m_width := w\<rparr>))"
| "observe_horizontal m (EvGlue spec) =
     obind (m_add (m_width m) (g_width spec)) (\<lambda>w. add_glue (m\<lparr>m_width := w\<rparr>) spec)"

definition try_append_vertical_spacing :: "ListMetrics \<Rightarrow> scaled \<Rightarrow> ListMetrics option" where
  "try_append_vertical_spacing m amount =
     Option.bind (scaled_checked_add (m_depth m) amount) (\<lambda>v.
     Option.bind (scaled_checked_add (m_height m) v) (\<lambda>h.
       Some (m\<lparr>m_height := h, m_depth := 0\<rparr>)))"

definition try_append_vertical_box ::
    "ListMetrics \<Rightarrow> scaled \<Rightarrow> scaled \<Rightarrow> scaled \<Rightarrow> scaled \<Rightarrow> ListMetrics option" where
  "try_append_vertical_box m width height depth shift =
     Option.bind (scaled_checked_add (m_height m) (m_depth m)) (\<lambda>v.
     Option.bind (scaled_checked_add v height) (\<lambda>h.
     Option.bind (scaled_checked_add width shift) (\<lambda>w.
       Some (m\<lparr>m_height := h, m_depth := depth, m_width := max (m_width m) w\<rparr>))))"

fun try_observe_vertical :: "ListMetrics \<Rightarrow> MetricEvent \<Rightarrow> ListMetrics option" where
  "try_observe_vertical m (EvBox w h d shift) = try_append_vertical_box m w h d shift"
| "try_observe_vertical m (EvRule w h d) = try_append_vertical_box m w h d 0"
| "try_observe_vertical m (EvImage w h d) = try_append_vertical_box m w h d 0"
| "try_observe_vertical m (EvKern amount) = try_append_vertical_spacing m amount"
| "try_observe_vertical m (EvGlue spec) = try_append_vertical_spacing m (g_width spec)"
| "try_observe_vertical m (EvGlyph w h d) = Some m"
| "try_observe_vertical m (EvMath w) = Some m"

definition observe_vertical :: "ListMetrics \<Rightarrow> MetricEvent \<Rightarrow> ListMetrics panicking" where
  "observe_vertical m event =
     obind (expect_some (try_observe_vertical m event)) (\<lambda>m.
       case event of EvGlue spec \<Rightarrow> add_glue m spec | _ \<Rightarrow> Ok m)"

definition merge_horizontal_dimensions :: "ListMetrics \<Rightarrow> ListMetrics \<Rightarrow> ListMetrics panicking" where
  "merge_horizontal_dimensions m other =
     obind (m_add (m_width m) (m_width other)) (\<lambda>w.
       Ok (m\<lparr>m_width := w, m_height := max (m_height m) (m_height other),
             m_depth := max (m_depth m) (m_depth other), m_has_glue := m_has_glue m \<or> m_has_glue other\<rparr>))"

section \<open>Widened totals\<close>

record WideMetricTotals =
  t_natural :: int
  t_stretch :: "Order \<Rightarrow> int"
  t_shrink :: "Order \<Rightarrow> int"

definition totals_ZERO :: WideMetricTotals where
  "totals_ZERO = \<lparr>t_natural = 0, t_stretch = (\<lambda>_. 0), t_shrink = (\<lambda>_. 0)\<rparr>"

definition wide_add :: "int \<Rightarrow> int \<Rightarrow> int panicking" where
  "wide_add l r = expect_some (wide_checked_add l r)"

definition wide_sub :: "int \<Rightarrow> int \<Rightarrow> int panicking" where
  "wide_sub l r = expect_some (wide_checked_sub l r)"

definition wide_add_scaled :: "int \<Rightarrow> scaled \<Rightarrow> int panicking" where
  "wide_add_scaled tot v = wide_add tot (wide_from_scaled v)"

definition totals_observe :: "WideMetricTotals \<Rightarrow> MetricEvent \<Rightarrow> WideMetricTotals panicking" where
  "totals_observe t event =
     obind (case event of
         EvGlyph w h d \<Rightarrow> Ok (t, w)
       | EvBox w h d s \<Rightarrow> Ok (t, w)
       | EvRule w h d \<Rightarrow> Ok (t, w)
       | EvImage w h d \<Rightarrow> Ok (t, w)
       | EvKern w \<Rightarrow> Ok (t, w)
       | EvMath w \<Rightarrow> Ok (t, w)
       | EvGlue spec \<Rightarrow>
           obind (wide_add_scaled (t_stretch t (g_stretch_order spec)) (g_stretch spec)) (\<lambda>st.
           obind (wide_add_scaled (t_shrink t (g_shrink_order spec)) (g_shrink spec)) (\<lambda>sh.
             Ok (t\<lparr>t_stretch := (t_stretch t)(g_stretch_order spec := st),
                   t_shrink := (t_shrink t)(g_shrink_order spec := sh)\<rparr>, g_width spec))))
     (\<lambda>(t, width). obind (wide_add_scaled (t_natural t) width) (\<lambda>n. Ok (t\<lparr>t_natural := n\<rparr>)))"

text \<open>The loop over the four orders, in order.\<close>

fun wide_orders :: "(int \<Rightarrow> int \<Rightarrow> int panicking) \<Rightarrow> Order list \<Rightarrow> WideMetricTotals \<Rightarrow> WideMetricTotals
    \<Rightarrow> WideMetricTotals \<Rightarrow> WideMetricTotals panicking" where
  "wide_orders f [] a b out = Ok out"
| "wide_orders f (o1 # os) a b out =
     obind (f (t_stretch a o1) (t_stretch b o1)) (\<lambda>st.
     obind (f (t_shrink a o1) (t_shrink b o1)) (\<lambda>sh.
       wide_orders f os a b (out\<lparr>t_stretch := (t_stretch out)(o1 := st), t_shrink := (t_shrink out)(o1 := sh)\<rparr>)))"

definition ALL_ORDERS :: "Order list" where "ALL_ORDERS = [ONormal, Fil, Fill, Filll]"

definition totals_add_assign :: "WideMetricTotals \<Rightarrow> WideMetricTotals \<Rightarrow> WideMetricTotals panicking" where
  "totals_add_assign a b =
     obind (wide_add (t_natural a) (t_natural b)) (\<lambda>n.
       wide_orders wide_add ALL_ORDERS a b (a\<lparr>t_natural := n\<rparr>))"

definition totals_sub :: "WideMetricTotals \<Rightarrow> WideMetricTotals \<Rightarrow> WideMetricTotals panicking" where
  "totals_sub a b =
     obind (wide_sub (t_natural a) (t_natural b)) (\<lambda>n.
       wide_orders wide_sub ALL_ORDERS a b (totals_ZERO\<lparr>t_natural := n\<rparr>))"

section \<open>Prefix totals\<close>

text \<open>The contribution of one event: its natural width, and the glue it adds to each order.\<close>

fun ev_width :: "MetricEvent \<Rightarrow> scaled" where
  "ev_width (EvGlyph w h d) = w"
| "ev_width (EvBox w h d s) = w"
| "ev_width (EvRule w h d) = w"
| "ev_width (EvImage w h d) = w"
| "ev_width (EvKern w) = w"
| "ev_width (EvMath w) = w"
| "ev_width (EvGlue spec) = g_width spec"

definition ev_stretch :: "MetricEvent \<Rightarrow> Order \<Rightarrow> scaled" where
  "ev_stretch e ord =
     (case e of EvGlue spec \<Rightarrow> if ord = g_stretch_order spec then g_stretch spec else 0 | _ \<Rightarrow> 0)"

definition ev_shrink :: "MetricEvent \<Rightarrow> Order \<Rightarrow> scaled" where
  "ev_shrink e ord =
     (case e of EvGlue spec \<Rightarrow> if ord = g_shrink_order spec then g_shrink spec else 0 | _ \<Rightarrow> 0)"

fun totals_fold :: "WideMetricTotals \<Rightarrow> MetricEvent list \<Rightarrow> WideMetricTotals panicking" where
  "totals_fold t [] = Ok t"
| "totals_fold t (e # es) = obind (totals_observe t e) (\<lambda>t. totals_fold t es)"

definition totals_of :: "MetricEvent list \<Rightarrow> WideMetricTotals" where
  "totals_of es =
     \<lparr>t_natural = (\<Sum>e \<leftarrow> es. ev_width e), t_stretch = (\<lambda>ord. \<Sum>e \<leftarrow> es. ev_stretch e ord),
      t_shrink = (\<lambda>ord. \<Sum>e \<leftarrow> es. ev_shrink e ord)\<rparr>"

text \<open>Every dimension an event carries is an \<open>i32\<close>.\<close>

definition ev_in_range :: "MetricEvent \<Rightarrow> bool" where
  "ev_in_range e \<longleftrightarrow> in_i32 (ev_width e) \<and> (\<forall>ord. in_i32 (ev_stretch e ord) \<and> in_i32 (ev_shrink e ord))"

definition totals_within :: "nat \<Rightarrow> WideMetricTotals \<Rightarrow> bool" where
  "totals_within n t \<longleftrightarrow> \<bar>t_natural t\<bar> \<le> int n * 2 ^ 31
     \<and> (\<forall>ord. \<bar>t_stretch t ord\<bar> \<le> int n * 2 ^ 31 \<and> \<bar>t_shrink t ord\<bar> \<le> int n * 2 ^ 31)"

lemma within_step:
  assumes "\<bar>a\<bar> \<le> int n * 2 ^ 31" and "in_i32 b"
  shows "\<bar>a + b\<bar> \<le> int (Suc n) * 2 ^ 31"
  using assms by (auto simp: in_i32_iff abs_le_iff)

lemma wide_add_scaled_within:
  assumes "\<bar>a\<bar> \<le> int n * 2 ^ 31" and "in_i32 b" and "n < 2 ^ 31"
  shows "wide_add_scaled a b = Ok (a + b)" and "\<bar>a + b\<bar> \<le> int (Suc n) * 2 ^ 31"
proof -
  show b: "\<bar>a + b\<bar> \<le> int (Suc n) * 2 ^ 31" by (rule within_step [OF assms(1,2)])
  have "int (Suc n) \<le> 2 ^ 31" using assms(3) by simp
  then have "int (Suc n) * 2 ^ 31 \<le> 2 ^ 31 * 2 ^ 31" by (intro mult_right_mono) simp_all
  with b have "in_i64 (a + b)" by (auto simp: in_i64_iff abs_le_iff)
  then show "wide_add_scaled a b = Ok (a + b)"
    by (simp add: wide_add_scaled_def wide_add_def wide_checked_add_def wide_from_scaled_def checked64_def)
qed

lemma totals_observe_within:
  assumes "totals_within n t" and "ev_in_range e" and "n < 2 ^ 31"
  shows "totals_observe t e = Ok \<lparr>t_natural = t_natural t + ev_width e,
      t_stretch = (\<lambda>ord. t_stretch t ord + ev_stretch e ord), t_shrink = (\<lambda>ord. t_shrink t ord + ev_shrink e ord)\<rparr>
    \<and> totals_within (Suc n) \<lparr>t_natural = t_natural t + ev_width e,
      t_stretch = (\<lambda>ord. t_stretch t ord + ev_stretch e ord), t_shrink = (\<lambda>ord. t_shrink t ord + ev_shrink e ord)\<rparr>"
proof -
  have nat: "\<bar>t_natural t\<bar> \<le> int n * 2 ^ 31" and st: "\<bar>t_stretch t ord\<bar> \<le> int n * 2 ^ 31"
    and sh: "\<bar>t_shrink t ord\<bar> \<le> int n * 2 ^ 31" for ord
    using assms(1) by (auto simp: totals_within_def)
  have rng: "in_i32 (ev_width e)" "in_i32 (ev_stretch e ord)" "in_i32 (ev_shrink e ord)" for ord
    using assms(2) by (auto simp: ev_in_range_def)
  note w = wide_add_scaled_within [OF nat rng(1) assms(3)]
  note s = wide_add_scaled_within [OF st rng(2) assms(3)]
  note k = wide_add_scaled_within [OF sh rng(3) assms(3)]
  have "totals_observe t e = Ok \<lparr>t_natural = t_natural t + ev_width e,
      t_stretch = (\<lambda>ord. t_stretch t ord + ev_stretch e ord), t_shrink = (\<lambda>ord. t_shrink t ord + ev_shrink e ord)\<rparr>"
  proof (cases e)
    case (EvGlue spec)
    have "wide_add_scaled (t_stretch t (g_stretch_order spec)) (g_stretch spec)
        = Ok (t_stretch t (g_stretch_order spec) + g_stretch spec)"
      and "wide_add_scaled (t_shrink t (g_shrink_order spec)) (g_shrink spec)
        = Ok (t_shrink t (g_shrink_order spec) + g_shrink spec)"
      using s(1) [of "g_stretch_order spec" "g_stretch_order spec"]
        k(1) [of "g_shrink_order spec" "g_shrink_order spec"]
      by (simp_all add: EvGlue ev_stretch_def ev_shrink_def)
    with w(1) show ?thesis
      by (auto simp: EvGlue totals_observe_def ev_stretch_def ev_shrink_def fun_eq_iff)
  qed (use w(1) in \<open>auto simp: totals_observe_def ev_stretch_def ev_shrink_def\<close>)
  moreover have "totals_within (Suc n) \<lparr>t_natural = t_natural t + ev_width e,
      t_stretch = (\<lambda>ord. t_stretch t ord + ev_stretch e ord), t_shrink = (\<lambda>ord. t_shrink t ord + ev_shrink e ord)\<rparr>"
    unfolding totals_within_def using w(2) s(2) k(2) by simp
  ultimately show ?thesis by blast
qed

lemma totals_fold_exact:
  assumes "totals_within n t" and "list_all ev_in_range es" and "n + length es \<le> 2 ^ 31"
  shows "totals_fold t es = Ok \<lparr>t_natural = t_natural t + t_natural (totals_of es),
      t_stretch = (\<lambda>ord. t_stretch t ord + t_stretch (totals_of es) ord),
      t_shrink = (\<lambda>ord. t_shrink t ord + t_shrink (totals_of es) ord)\<rparr>"
  using assms
proof (induction es arbitrary: n t)
  case Nil
  then show ?case by (simp add: totals_of_def)
next
  case (Cons e es)
  let ?t = "\<lparr>t_natural = t_natural t + ev_width e,
      t_stretch = (\<lambda>ord. t_stretch t ord + ev_stretch e ord), t_shrink = (\<lambda>ord. t_shrink t ord + ev_shrink e ord)\<rparr>"
  have "totals_observe t e = Ok ?t" and w: "totals_within (Suc n) ?t"
    using totals_observe_within [of n t e] Cons.prems by simp_all
  with Cons.IH [OF w] Cons.prems show ?case by (simp add: totals_of_def add.assoc)
qed

lemma totals_of_within: "list_all ev_in_range es \<Longrightarrow> totals_within (length es) (totals_of es)"
proof (induction es)
  case Nil
  then show ?case by (simp add: totals_within_def totals_of_def)
next
  case (Cons e es)
  then have e: "in_i32 (ev_width e)" "in_i32 (ev_stretch e ord)" "in_i32 (ev_shrink e ord)"
    and w: "\<bar>t_natural (totals_of es)\<bar> \<le> int (length es) * 2 ^ 31"
      "\<bar>t_stretch (totals_of es) ord\<bar> \<le> int (length es) * 2 ^ 31"
      "\<bar>t_shrink (totals_of es) ord\<bar> \<le> int (length es) * 2 ^ 31" for ord
    by (simp_all add: ev_in_range_def totals_within_def)
  have "totals_of (e # es) = \<lparr>t_natural = t_natural (totals_of es) + ev_width e,
      t_stretch = (\<lambda>ord. t_stretch (totals_of es) ord + ev_stretch e ord),
      t_shrink = (\<lambda>ord. t_shrink (totals_of es) ord + ev_shrink e ord)\<rparr>"
    by (simp add: totals_of_def add.commute)
  then show ?case
    using within_step [OF w(1) e(1)] within_step [OF w(2) e(2)] within_step [OF w(3) e(3)]
    by (simp add: totals_within_def)
qed

lemma totals_within_i64:
  assumes "totals_within n t" and "n \<le> 2 ^ 31"
  shows "in_i64 (t_natural t)" and "in_i64 (t_stretch t ord)" and "in_i64 (t_shrink t ord)"
proof -
  have "int n * 2 ^ 31 \<le> 2 ^ 31 * 2 ^ 31" using assms(2) by (intro mult_right_mono) simp_all
  moreover have "\<bar>t_natural t\<bar> \<le> int n * 2 ^ 31" "\<bar>t_stretch t ord\<bar> \<le> int n * 2 ^ 31"
      "\<bar>t_shrink t ord\<bar> \<le> int n * 2 ^ 31"
    using assms(1) by (simp_all add: totals_within_def)
  ultimately show "in_i64 (t_natural t)" and "in_i64 (t_stretch t ord)" and "in_i64 (t_shrink t ord)"
    by (simp_all add: in_i64_iff abs_le_iff)
qed

lemma totals_within_ZERO: "totals_within 0 totals_ZERO"
  by (simp add: totals_within_def totals_ZERO_def)

lemma wide_orders_sub_exact:
  assumes "\<And>ord. in_i64 (t_stretch a ord - t_stretch b ord) \<and> in_i64 (t_shrink a ord - t_shrink b ord)"
  shows "wide_orders wide_sub ALL_ORDERS a b c = Ok (c\<lparr>t_stretch := (\<lambda>ord. t_stretch a ord - t_stretch b ord),
    t_shrink := (\<lambda>ord. t_shrink a ord - t_shrink b ord)\<rparr>)"
proof -
  have ok: "wide_sub (t_stretch a ord) (t_stretch b ord) = Ok (t_stretch a ord - t_stretch b ord)"
    "wide_sub (t_shrink a ord) (t_shrink b ord) = Ok (t_shrink a ord - t_shrink b ord)" for ord
    using assms [of ord] by (simp_all add: wide_sub_def wide_checked_sub_def checked64_def)
  have upd: "(((f(ONormal := g ONormal))(Fil := g Fil))(Fill := g Fill))(Filll := g Filll) = g" for f g :: "Order \<Rightarrow> int"
  proof
    fix ord
    show "((((f(ONormal := g ONormal))(Fil := g Fil))(Fill := g Fill))(Filll := g Filll)) ord = g ord"
      by (cases ord) simp_all
  qed
  show ?thesis
    using upd [of "t_stretch c" "\<lambda>ord. t_stretch a ord - t_stretch b ord"]
      upd [of "t_shrink c" "\<lambda>ord. t_shrink a ord - t_shrink b ord"]
    unfolding ALL_ORDERS_def by (simp add: ok)
qed

text \<open>Prefix totals are exact and never panic: over any list of at most \<open>2^31\<close> events with \<open>i32\<close>
  dimensions, accumulating the list gives the exact sums, and subtracting the totals of a prefix from
  the totals of the whole list gives the totals of the rest. Line breaking reads the width of a segment
  this way.\<close>

lemma wide_totals_segment:
  assumes "list_all ev_in_range (xs @ ys)" and "length (xs @ ys) \<le> 2 ^ 31"
  shows "\<exists>whole prefix. totals_fold totals_ZERO (xs @ ys) = Ok whole \<and> totals_fold totals_ZERO xs = Ok prefix
    \<and> totals_sub whole prefix = Ok (totals_of ys)"
proof -
  have fold: "totals_fold totals_ZERO es = Ok (totals_of es)" if "list_all ev_in_range es" "length es \<le> 2 ^ 31" for es
    using totals_fold_exact [OF totals_within_ZERO that(1)] that(2) by (simp add: totals_ZERO_def totals_of_def)
  have "list_all ev_in_range xs" "list_all ev_in_range ys" "length xs \<le> 2 ^ 31" "length ys \<le> 2 ^ 31"
    using assms by simp_all
  note i64 = totals_within_i64 [OF totals_of_within [OF \<open>list_all ev_in_range ys\<close>] \<open>length ys \<le> 2 ^ 31\<close>]
  have diff: "t_natural (totals_of (xs @ ys)) - t_natural (totals_of xs) = t_natural (totals_of ys)"
    "t_stretch (totals_of (xs @ ys)) ord - t_stretch (totals_of xs) ord = t_stretch (totals_of ys) ord"
    "t_shrink (totals_of (xs @ ys)) ord - t_shrink (totals_of xs) ord = t_shrink (totals_of ys) ord" for ord
    by (simp_all add: totals_of_def)
  have "totals_sub (totals_of (xs @ ys)) (totals_of xs) = Ok (totals_of ys)"
    unfolding totals_sub_def
    by (subst wide_orders_sub_exact)
      (use i64 in \<open>simp_all add: diff wide_sub_def wide_checked_sub_def checked64_def totals_ZERO_def totals_of_def\<close>)
  with fold [OF assms] fold [OF \<open>list_all ev_in_range xs\<close> \<open>length xs \<le> 2 ^ 31\<close>] show ?thesis by blast
qed

lemma wide_totals_segment_witness:
  "\<exists>whole prefix. totals_fold totals_ZERO [EvKern 5, EvMath 7] = Ok whole \<and> totals_fold totals_ZERO [EvKern 5] = Ok prefix
    \<and> totals_sub whole prefix = Ok (totals_of [EvMath 7])"
  using wide_totals_segment [of "[EvKern 5]" "[EvMath 7]"]
  by (simp add: ev_in_range_def in_i32_iff ev_stretch_def ev_shrink_def)

end
