(* ===== verification/Packing.thy ===== *)
theory Packing
  imports List_Metrics
begin

text \<open>
  The packing kernel of \<^verbatim>\<open>crates/tex-typeset/src/packing.rs\<close> and TeX's \<open>badness\<close> of
  \<^verbatim>\<open>crates/tex-typeset/src/lib.rs\<close>: natural measurement of horizontal and vertical lists, glue setting,
  diagnostics, \<open>hpack\<close>, \<open>vpack\<close> and \<open>vtop\<close>. The record \<open>TypesetState\<close> holds the font queries of the
  trait of that name; the lists a handle denotes are part of the node model.
\<close>

section \<open>Badness\<close>

definition INF_BAD :: int where "INF_BAD = 10000"
definition OVERFULL_BADNESS :: int where "OVERFULL_BADNESS = 1000000"

definition badness :: "scaled \<Rightarrow> scaled \<Rightarrow> int" where
  "badness t s =
     (if t = 0 then 0
      else if s \<le> 0 then INF_BAD
      else let r = (if t \<le> 7230584 then wrap32 (t * 297) sdiv s
                    else if s \<ge> 1663497 then t sdiv (s sdiv 297)
                    else t)
           in if r > 1290 then INF_BAD
              else min (wrap32 (wrap32 (wrap32 (wrap32 (r * r) * r) + 131072)) sdiv 262144) INF_BAD)"

section \<open>Requests and results\<close>

datatype CharTag = CtNone | CtLigKern byte u16 | CtNextLarger byte | CtExtensible byte

record CharMetrics =
  c_width :: scaled
  c_height :: scaled
  c_depth :: scaled
  c_italic_correction :: scaled
  c_tag :: CharTag

text \<open>What the packing kernels read of the state besides the page lists.\<close>

record TypesetState =
  font_character_metrics :: "FontId \<Rightarrow> nat \<Rightarrow> CharMetrics option"
  font_uses_tfm_metrics :: "FontId \<Rightarrow> bool"
  font_characters :: "FontId \<Rightarrow> CharMetrics option list"

datatype PackSpec = Natural | Exactly scaled | Spread scaled

record HpackParams =
  hbadness :: int
  hfuzz :: scaled
  overfull_rule :: scaled

record VpackParams =
  vbadness :: int
  vfuzz :: scaled
  box_max_depth :: scaled

datatype PackDiagnostic = Underfull int scaled | Loose int scaled | Tight int scaled | Overfull scaled

record PackedBox =
  packed_node :: "page_list BoxNode"
  packed_badness :: int
  diagnostics :: "PackDiagnostic list"

record GlueSetting =
  gs_ratio :: GlueSetRatio
  gs_sign :: Sign
  gs_order :: Order
  gs_badness :: int
  gs_excess :: scaled
  gs_overfull_excess :: scaled

record HpackPlan =
  plan_width :: scaled
  plan_height :: scaled
  plan_depth :: scaled
  plan_glue :: GlueSetting
  plan_diagnostics :: "PackDiagnostic list"

record UnsetMetrics =
  um_width :: scaled
  um_height :: scaled
  um_depth :: scaled
  um_stretch :: scaled
  um_stretch_order :: Order
  um_shrink :: scaled
  um_shrink_order :: Order

definition target_size :: "scaled \<Rightarrow> PackSpec \<Rightarrow> scaled panicking" where
  "target_size natural spec =
     (case spec of Natural \<Rightarrow> Ok natural | Exactly sz \<Rightarrow> Ok sz | Spread extra \<Rightarrow> m_add natural extra)"

section \<open>Measurement\<close>

definition hglyph_metrics :: "TypesetState \<Rightarrow> 'l Node \<Rightarrow> FontId \<Rightarrow> nat \<Rightarrow> CharMetrics option panicking" where
  "hglyph_metrics st node font ch =
     (case node of
        CharNode f c _ \<Rightarrow>
          obind (if ch < 256
                 then (if font_uses_tfm_metrics st font
                       then (if ch < length (font_characters st font)
                             then Ok (font_characters st font ! ch) else Panic)
                       else Ok (font_character_metrics st font ch))
                 else Ok None)
            (\<lambda>metrics. Ok (case metrics of Some m \<Rightarrow> Some m | None \<Rightarrow> font_character_metrics st font ch))
      | _ \<Rightarrow> Ok (font_character_metrics st font ch))"

fun add_hleader_perpendicular_dimensions :: "ListMetrics \<Rightarrow> 'l LeaderPayload \<Rightarrow> ListMetrics" where
  "add_hleader_perpendicular_dimensions m (LeaderHList b) =
     m\<lparr>m_height := max (m_height m) (box_height b), m_depth := max (m_depth m) (box_depth b)\<rparr>"
| "add_hleader_perpendicular_dimensions m (LeaderVList b) =
     m\<lparr>m_height := max (m_height m) (box_height b), m_depth := max (m_depth m) (box_depth b)\<rparr>"
| "add_hleader_perpendicular_dimensions m (LeaderRule w h d) =
     (let m = (case h of Some h \<Rightarrow> m\<lparr>m_height := max (m_height m) h\<rparr> | None \<Rightarrow> m)
      in case d of Some d \<Rightarrow> m\<lparr>m_depth := max (m_depth m) d\<rparr> | None \<Rightarrow> m)"

fun add_vleader_perpendicular_dimensions :: "ListMetrics \<Rightarrow> 'l LeaderPayload \<Rightarrow> ListMetrics" where
  "add_vleader_perpendicular_dimensions m (LeaderHList b) = m\<lparr>m_width := max (m_width m) (box_width b)\<rparr>"
| "add_vleader_perpendicular_dimensions m (LeaderVList b) = m\<lparr>m_width := max (m_width m) (box_width b)\<rparr>"
| "add_vleader_perpendicular_dimensions m (LeaderRule w h d) =
     (case w of Some w \<Rightarrow> m\<lparr>m_width := max (m_width m) w\<rparr> | None \<Rightarrow> m)"

text \<open>One iteration of the loop of \<open>measure_hlist\<close> for a node that is not a discretionary.\<close>

definition measure_hnode :: "TypesetState \<Rightarrow> 'l Node \<Rightarrow> ListMetrics \<Rightarrow> ListMetrics panicking" where
  "measure_hnode st node m =
     (case packed node of
        PGlyph font ch \<Rightarrow>
          obind (hglyph_metrics st node font ch) (\<lambda>metrics.
            case metrics of
              Some c \<Rightarrow> observe_horizontal m (EvGlyph (c_width c) (c_height c) (c_depth c))
            | None \<Rightarrow> Ok m)
      | PKern amount kind \<Rightarrow> observe_horizontal m (EvKern amount)
      | PGlue spec leader \<Rightarrow>
          obind (observe_horizontal m (EvGlue spec)) (\<lambda>m.
            Ok (case leader of Some l \<Rightarrow> add_hleader_perpendicular_dimensions m l | None \<Rightarrow> m))
      | PRule w h d \<Rightarrow> observe_horizontal m (EvRule (or_zero w) (or_zero h) (or_zero d))
      | PBox b \<Rightarrow> observe_horizontal m (EvBox (box_width b) (box_height b) (box_depth b) (box_shift b))
      | PUnset u \<Rightarrow> observe_horizontal m (EvBox (unset_width u) (unset_height u) (unset_depth u) 0)
      | PImage w h d \<Rightarrow> observe_horizontal m (EvImage w h d)
      | PMath w \<Rightarrow> observe_horizontal m (EvMath w)
      | PDisc replace \<Rightarrow> Ok m
      | PIgnored \<Rightarrow> Ok m)"

function measure_hlist_loop ::
    "TypesetState \<Rightarrow> page_list Node list \<Rightarrow> ListMetrics \<Rightarrow> ListMetrics panicking" where
  "measure_hlist_loop st [] m = Ok m"
| "measure_hlist_loop st (node # rest) m =
     obind (case packed node of
              PDisc replace \<Rightarrow>
                obind (measure_hlist_loop st (page_nodes replace) metrics_ZERO) (\<lambda>replacement.
                  merge_horizontal_dimensions m replacement)
            | _ \<Rightarrow> measure_hnode st node m)
       (\<lambda>m. measure_hlist_loop st rest m)"
  by pat_completeness auto
termination
proof (relation "measure (\<lambda>(st, ns, m). size (PageList ns))", goal_cases)
  case 1
  show ?case by simp
next
  case (2 st node rest m replace)
  then show ?case
    by (cases replace) (auto elim!: packed_PDiscE)
next
  case (3 st node rest m x)
  then show ?case by simp
qed

definition measure_hlist :: "TypesetState \<Rightarrow> page_list Node list \<Rightarrow> ListMetrics panicking" where
  "measure_hlist st nodes = measure_hlist_loop st nodes metrics_ZERO"

definition measure_vnode :: "'l Node \<Rightarrow> ListMetrics \<Rightarrow> ListMetrics panicking" where
  "measure_vnode node m =
     (case packed node of
        PBox b \<Rightarrow> observe_vertical m (EvBox (box_width b) (box_height b) (box_depth b) (box_shift b))
      | PUnset u \<Rightarrow> observe_vertical m (EvBox (unset_width u) (unset_height u) (unset_depth u) 0)
      | PRule w h d \<Rightarrow> observe_vertical m (EvRule (or_zero w) (or_zero h) (or_zero d))
      | PKern amount kind \<Rightarrow> observe_vertical m (EvKern amount)
      | PGlue spec leader \<Rightarrow>
          obind (observe_vertical m (EvGlue spec)) (\<lambda>m.
            Ok (case leader of Some l \<Rightarrow> add_vleader_perpendicular_dimensions m l | None \<Rightarrow> m))
      | PImage w h d \<Rightarrow> observe_vertical m (EvImage w h d)
      | _ \<Rightarrow> Ok m)"

fun measure_vlist_loop :: "'l Node list \<Rightarrow> ListMetrics \<Rightarrow> ListMetrics panicking" where
  "measure_vlist_loop [] m = Ok m"
| "measure_vlist_loop (node # rest) m = obind (measure_vnode node m) (\<lambda>m. measure_vlist_loop rest m)"

definition measure_vlist :: "'l Node list \<Rightarrow> ListMetrics panicking" where
  "measure_vlist nodes = measure_vlist_loop nodes metrics_ZERO"

section \<open>Glue setting\<close>

definition highest_order :: "(Order \<Rightarrow> scaled) \<Rightarrow> Order" where
  "highest_order values =
     (if values Filll \<noteq> 0 then Filll else if values Fill \<noteq> 0 then Fill
      else if values Fil \<noteq> 0 then Fil else ONormal)"

text \<open>\<open>set_glue\<close>: the difference and its absolute value are plain \<open>i32\<close> operations.\<close>

definition set_glue :: "scaled \<Rightarrow> scaled \<Rightarrow> ListMetrics \<Rightarrow> bool \<Rightarrow> GlueSetting panicking" where
  "set_glue target natural meas has_content =
     (let diff = wrap32 (target - natural)
      in if diff = 0 \<or> \<not> has_content
         then Ok \<lparr>gs_ratio = ratio_ZERO, gs_sign = SNormal, gs_order = ONormal, gs_badness = 0,
                  gs_excess = 0, gs_overfull_excess = 0\<rparr>
         else let (sign, totals) = (if diff > 0 then (Stretching, m_stretch meas)
                                    else (Shrinking, m_shrink meas));
                  order = highest_order totals;
                  total = totals order;
                  excess = wrap32 \<bar>diff\<bar>;
                  ratio = (if total = 0 then ratio_ZERO
                           else if sign = Shrinking \<and> order = ONormal \<and> excess > total then ratio_UNITY
                           else from_scaled_ratio excess total)
              in obind (if sign = Shrinking \<and> order = ONormal \<and> excess > total
                        then m_sub excess total else Ok 0) (\<lambda>overfull_excess.
                   Ok \<lparr>gs_ratio = ratio, gs_sign = sign, gs_order = order,
                       gs_badness = (if overfull_excess > 0 then OVERFULL_BADNESS
                                     else if order = ONormal then badness excess total else 0),
                       gs_excess = excess, gs_overfull_excess = overfull_excess\<rparr>))"

definition common_diagnostics :: "GlueSetting \<Rightarrow> int \<Rightarrow> scaled \<Rightarrow> PackDiagnostic list" where
  "common_diagnostics glue badness_threshold fuzz =
     (if gs_overfull_excess glue > 0
      then (if gs_overfull_excess glue > fuzz \<or> badness_threshold < 100
            then [Overfull (gs_overfull_excess glue)] else [])
      else if gs_badness glue \<le> badness_threshold then []
      else case gs_sign glue of
             Stretching \<Rightarrow> [Underfull (gs_badness glue) (gs_excess glue)]
           | Shrinking \<Rightarrow> [Tight (gs_badness glue) (gs_excess glue)]
           | SNormal \<Rightarrow> [])"

definition hpack_diagnostics :: "GlueSetting \<Rightarrow> HpackParams \<Rightarrow> PackDiagnostic list" where
  "hpack_diagnostics glue params = common_diagnostics glue (hbadness params) (hfuzz params)"

definition vpack_diagnostics :: "GlueSetting \<Rightarrow> VpackParams \<Rightarrow> PackDiagnostic list" where
  "vpack_diagnostics glue params = common_diagnostics glue (vbadness params) (vfuzz params)"

section \<open>Packing\<close>

definition measure_unset :: "TypesetState \<Rightarrow> page_list \<Rightarrow> UnsetKind \<Rightarrow> UnsetMetrics panicking" where
  "measure_unset st lst kind =
     obind (case kind of UHBox \<Rightarrow> measure_hlist st (page_nodes lst) | UVBox \<Rightarrow> measure_vlist (page_nodes lst))
       (\<lambda>meas.
         let stretch_order = highest_order (m_stretch meas);
             shrink_order = highest_order (m_shrink meas)
         in Ok \<lparr>um_width = m_width meas, um_height = m_height meas, um_depth = m_depth meas,
                um_stretch = m_stretch meas stretch_order, um_stretch_order = stretch_order,
                um_shrink = m_shrink meas shrink_order, um_shrink_order = shrink_order\<rparr>)"

definition hpack :: "TypesetState \<Rightarrow> page_list \<Rightarrow> PackSpec \<Rightarrow> HpackParams \<Rightarrow> PackedBox panicking" where
  "hpack st lst spec params =
     (let nodes = page_nodes lst;
          has_content = (nodes \<noteq> [])
      in obind (measure_hlist st nodes) (\<lambda>meas.
         obind (target_size (m_width meas) spec) (\<lambda>width.
         obind (set_glue width (m_width meas) meas has_content) (\<lambda>glue.
           Ok \<lparr>packed_node = box_new width (m_height meas) (m_depth meas) 0 LrNormal (gs_ratio glue)
                 (gs_sign glue) (gs_order glue) lst,
               packed_badness = gs_badness glue,
               diagnostics = hpack_diagnostics glue params\<rparr>))))"

definition plan_hpack_nodes ::
    "TypesetState \<Rightarrow> page_list Node list \<Rightarrow> PackSpec \<Rightarrow> HpackParams \<Rightarrow> HpackPlan panicking" where
  "plan_hpack_nodes st nodes spec params =
     obind (measure_hlist st nodes) (\<lambda>meas.
     obind (target_size (m_width meas) spec) (\<lambda>width.
     obind (set_glue width (m_width meas) meas (nodes \<noteq> [])) (\<lambda>glue.
       Ok \<lparr>plan_width = width, plan_height = m_height meas, plan_depth = m_depth meas,
           plan_glue = glue, plan_diagnostics = hpack_diagnostics glue params\<rparr>)))"

definition plan_finish :: "HpackPlan \<Rightarrow> page_list \<Rightarrow> PackedBox" where
  "plan_finish plan lst =
     \<lparr>packed_node = box_new (plan_width plan) (plan_height plan) (plan_depth plan) 0 LrNormal
        (gs_ratio (plan_glue plan)) (gs_sign (plan_glue plan)) (gs_order (plan_glue plan)) lst,
      packed_badness = gs_badness (plan_glue plan),
      diagnostics = plan_diagnostics plan\<rparr>"

definition clamp_depth :: "ListMetrics \<Rightarrow> scaled \<Rightarrow> ListMetrics panicking" where
  "clamp_depth m max_depth =
     (if m_depth m > max_depth
      then let excess = wrap32 (m_depth m - max_depth)
           in obind (m_add (m_height m) excess) (\<lambda>h. Ok (m\<lparr>m_height := h, m_depth := max_depth\<rparr>))
      else Ok m)"

definition vpack :: "page_list \<Rightarrow> PackSpec \<Rightarrow> VpackParams \<Rightarrow> PackedBox panicking" where
  "vpack lst spec params =
     (let nodes = page_nodes lst;
          has_content = (nodes \<noteq> [])
      in obind (measure_vlist nodes) (\<lambda>meas.
         obind (clamp_depth meas (box_max_depth params)) (\<lambda>meas.
         obind (target_size (m_height meas) spec) (\<lambda>height.
         obind (set_glue height (m_height meas) meas has_content) (\<lambda>glue.
           Ok \<lparr>packed_node = box_new (m_width meas) height (m_depth meas) 0 LrNormal (gs_ratio glue)
                 (gs_sign glue) (gs_order glue) lst,
               packed_badness = gs_badness glue,
               diagnostics = vpack_diagnostics glue params\<rparr>)))))"

definition vtop_split :: "page_list \<Rightarrow> scaled \<Rightarrow> scaled \<Rightarrow> (scaled \<times> scaled) panicking" where
  "vtop_split lst total_height total_depth =
     (let first_height =
            (case page_nodes lst of
               HList b # _ \<Rightarrow> box_height b
             | VList b # _ \<Rightarrow> box_height b
             | Rule w h d # _ \<Rightarrow> or_zero h
             | _ \<Rightarrow> 0)
      in obind (m_add total_height total_depth) (\<lambda>s.
         obind (m_sub s first_height) (\<lambda>depth. Ok (first_height, depth))))"

definition with_height_depth :: "'l BoxNode \<Rightarrow> scaled \<Rightarrow> scaled \<Rightarrow> 'l BoxNode" where
  "with_height_depth b h d =
     BoxNode (box_width b) h d (box_shift b) (box_lr b) (glue_set b) (glue_sign b) (glue_order b) (children b)
       (diagnostic_children b) (allocator_high_cell_overlap b)"

definition readjust_vtop :: "page_list \<Rightarrow> PackedBox \<Rightarrow> PackedBox panicking" where
  "readjust_vtop lst pb =
     obind (vtop_split lst (box_height (packed_node pb)) (box_depth (packed_node pb))) (\<lambda>(h, d).
       Ok (pb\<lparr>packed_node := with_height_depth (packed_node pb) h d\<rparr>))"

definition vtop :: "page_list \<Rightarrow> PackSpec \<Rightarrow> VpackParams \<Rightarrow> PackedBox panicking" where
  "vtop lst spec params =
     obind (vpack lst spec params) (\<lambda>pb. readjust_vtop (children (packed_node pb)) pb)"

section \<open>Badness: range and monotonicity\<close>

definition badness_ratio :: "scaled \<Rightarrow> scaled \<Rightarrow> int" where
  "badness_ratio t s =
     (if t \<le> 7230584 then (t * 297) div s else if s \<ge> 1663497 then t div (s div 297) else t)"

lemma cube_mono: "0 \<le> a \<Longrightarrow> a \<le> b \<Longrightarrow> a * a * a \<le> b * b * (b :: int)"
  by (intro mult_mono) auto

lemma badness_eq:
  assumes "0 < t" and "0 < s"
  shows "badness t s = (let r = badness_ratio t s in if r > 1290 then 10000 else (r * r * r + 131072) div 262144)"
proof -
  have q: "0 < s div 297" if "s \<ge> 1663497" using that by (simp add: pos_imp_zdiv_pos_iff)
  have "in_i32 (t * 297)" if "t \<le> 7230584" using that assms(1) by (simp add: in_i32_iff)
  then have r: "(if t \<le> 7230584 then wrap32 (t * 297) sdiv s
      else if s \<ge> 1663497 then t sdiv (s sdiv 297) else t) = badness_ratio t s"
    using assms q by (simp add: badness_ratio_def wrap32_id sdiv_nonneg)
  have r0: "0 \<le> badness_ratio t s"
    using assms q by (simp add: badness_ratio_def pos_imp_zdiv_nonneg_iff)
  define r where "r = badness_ratio t s"
  have small: "min (wrap32 (wrap32 (wrap32 (wrap32 (r * r) * r) + 131072)) sdiv 262144) 10000
      = (r * r * r + 131072) div 262144" if "r \<le> 1290"
  proof -
    have "r * r \<le> 1290 * 1290" using r0 that unfolding r_def by (intro mult_mono) auto
    moreover have "r * r * r \<le> 1290 * 1290 * 1290"
      using cube_mono [of r 1290] r0 that unfolding r_def by simp
    moreover have "0 \<le> r * r" "0 \<le> r * r * r" using r0 unfolding r_def by simp_all
    moreover have "(r * r * r + 131072) div 262144 \<le> (2146689000 + 131072) div 262144"
      using calculation(2) by (intro zdiv_mono1) simp_all
    moreover have "wrap32 (r * r) = r * r" "wrap32 (r * r * r) = r * r * r"
        "wrap32 (r * r * r + 131072) = r * r * r + 131072"
      using calculation by (intro wrap32_id; simp only: in_i32_iff; linarith)+
    ultimately show ?thesis by (simp add: sdiv_nonneg)
  qed
  show ?thesis
    using assms small unfolding badness_def Let_def r INF_BAD_def r_def by simp
qed

lemma badness_ratio_nonneg: "0 < t \<Longrightarrow> 0 < s \<Longrightarrow> 0 \<le> badness_ratio t s"
  by (simp add: badness_ratio_def pos_imp_zdiv_nonneg_iff pos_imp_zdiv_pos_iff)

lemma badness_ratio_mono_t:
  assumes "0 < t" and "t \<le> t'" and "0 < s"
  shows "min (badness_ratio t s) 1291 \<le> min (badness_ratio t' s) 1291"
proof -
  consider "t' \<le> 7230584" | "t \<le> 7230584" "7230584 < t'" "s \<ge> 1663497" | "7230584 < t" "s \<ge> 1663497"
    | "7230584 < t'" "s < 1663497" using assms(2) by linarith
  then show ?thesis
  proof cases
    case 1
    then have "(t * 297) div s \<le> (t' * 297) div s" using assms by (intro zdiv_mono1) auto
    with 1 assms(2) show ?thesis by (simp add: badness_ratio_def)
  next
    case 2
    define q where "q = s div 297"
    have q: "0 < q" "297 * q \<le> s" using 2(3) by (simp_all add: q_def pos_imp_zdiv_pos_iff)
    have "t * 297 div s \<le> t' * 297 div s" using assms by (intro zdiv_mono1) auto
    also have "\<dots> \<le> (t' * 297) div (297 * q)" using q assms by (intro zdiv_mono2) auto
    also have "\<dots> = t' div q" by simp
    finally show ?thesis using 2 by (simp add: badness_ratio_def q_def)
  next
    case 3
    have "t div (s div 297) \<le> t' div (s div 297)"
      using assms 3 by (intro zdiv_mono1) (auto simp: pos_imp_zdiv_pos_iff)
    with 3 assms(2) show ?thesis by (simp add: badness_ratio_def)
  next
    case 4
    then show ?thesis by (simp add: badness_ratio_def)
  qed
qed

lemma badness_ratio_anti_s:
  assumes "0 < t" and "0 < s" and "s \<le> s'"
  shows "badness_ratio t s' \<le> badness_ratio t s"
proof -
  consider "t \<le> 7230584" | "7230584 < t" "s \<ge> 1663497" | "7230584 < t" "s < 1663497" "s' \<ge> 1663497"
    | "7230584 < t" "s' < 1663497" by linarith
  then show ?thesis
  proof cases
    case 1
    then show ?thesis using assms by (simp add: badness_ratio_def zdiv_mono2)
  next
    case 2
    have "t div (s' div 297) \<le> t div (s div 297)"
      using assms 2 by (intro zdiv_mono2 zdiv_mono1) (auto simp: pos_imp_zdiv_pos_iff)
    with 2 assms(3) show ?thesis by (simp add: badness_ratio_def)
  next
    case 3
    have "t div (s' div 297) \<le> t div 1"
      using assms 3 by (intro zdiv_mono2) (auto simp: le_div_iff_mult_le)
    with 3 show ?thesis by (simp add: badness_ratio_def)
  next
    case 4
    with assms(3) show ?thesis by (simp add: badness_ratio_def)
  qed
qed

definition badness_of_ratio :: "int \<Rightarrow> int" where
  "badness_of_ratio r = (if r > 1290 then 10000 else (r * r * r + 131072) div 262144)"

lemma badness_of_ratio_mono: "0 \<le> a \<Longrightarrow> min a 1291 \<le> min b 1291 \<Longrightarrow> badness_of_ratio a \<le> badness_of_ratio b"
proof -
  assume a: "0 \<le> a" and le: "min a 1291 \<le> min b 1291"
  have top: "badness_of_ratio a \<le> 10000"
  proof (cases "a > 1290")
    case False
    then have "a * a * a \<le> 1290 * 1290 * 1290" using cube_mono [of a 1290] a by simp
    with False show ?thesis by (simp add: badness_of_ratio_def)
  qed (simp add: badness_of_ratio_def)
  show ?thesis
  proof (cases "b > 1290")
    case True
    with top show ?thesis by (simp add: badness_of_ratio_def)
  next
    case False
    with le have ab: "a \<le> b" by (auto simp: min_def split: if_splits)
    then have "a * a * a \<le> b * b * b" by (rule cube_mono [OF a])
    then have "(a * a * a + 131072) div 262144 \<le> (b * b * b + 131072) div 262144" by (intro zdiv_mono1) simp_all
    with False ab show ?thesis by (simp add: badness_of_ratio_def)
  qed
qed

lemma badness_of_ratio_range: "0 \<le> a \<Longrightarrow> 0 \<le> badness_of_ratio a \<and> badness_of_ratio a \<le> 10000"
  using badness_of_ratio_mono [of a 1291] badness_of_ratio_mono [of 0 a]
  by (simp add: badness_of_ratio_def min_def)

lemma badness_eq_ratio: "0 < t \<Longrightarrow> 0 < s \<Longrightarrow> badness t s = badness_of_ratio (badness_ratio t s)"
  by (simp add: badness_eq badness_of_ratio_def Let_def)

lemma badness_range: "0 \<le> t \<Longrightarrow> 0 \<le> badness t s \<and> badness t s \<le> 10000"
proof -
  assume "0 \<le> t"
  then consider "t = 0" | "0 < t" "s \<le> 0" | "0 < t" "0 < s" by linarith
  then show ?thesis
  proof cases
    case 3
    then show ?thesis
      using badness_of_ratio_range [OF badness_ratio_nonneg] by (simp add: badness_eq_ratio)
  qed (simp_all add: badness_def INF_BAD_def)
qed

text \<open>C30. TeX's badness on nonnegative excesses is a bounded monotone penalty with no wrap-around: it lies
  between 0 and 10000, is 0 for no excess and 10000 for a positive excess without capacity, grows with
  the excess and does not grow with the capacity, and is at most 8189 unless it is infinite.\<close>

theorem badness_bounded_monotone:
  assumes "0 \<le> t" and "t \<le> t'" and "s \<le> s'"
  shows "0 \<le> badness t s \<and> badness t s \<le> 10000
    \<and> badness t s \<le> badness t' s \<and> badness t s' \<le> badness t s
    \<and> (badness t s = 10000 \<or> badness t s \<le> 8189)"
proof (intro conjI)
  show "0 \<le> badness t s" "badness t s \<le> 10000" using badness_range [OF assms(1)] by simp_all
  consider "t = 0" | "0 < t" "s \<le> 0" | "0 < t" "0 < s" using assms(1) by linarith
  then have "badness t s \<le> badness t' s \<and> badness t s' \<le> badness t s
      \<and> (badness t s = 10000 \<or> badness t s \<le> 8189)"
  proof cases
    case 1
    then show ?thesis using badness_range [of t' s] assms by (simp add: badness_def)
  next
    case 2
    then show ?thesis using badness_range [of t s'] assms by (simp add: badness_def INF_BAD_def)
  next
    case 3
    have "badness_of_ratio (badness_ratio t s) \<le> badness_of_ratio (badness_ratio t' s)"
      using 3 assms by (intro badness_of_ratio_mono badness_ratio_nonneg badness_ratio_mono_t) auto
    moreover have "badness_of_ratio (badness_ratio t s') \<le> badness_of_ratio (badness_ratio t s)"
      using 3 assms badness_ratio_anti_s [of t s s'] badness_ratio_nonneg [of t s']
      by (intro badness_of_ratio_mono) auto
    moreover have "badness_of_ratio r = 10000 \<or> badness_of_ratio r \<le> 8189" if "0 \<le> r" for r
    proof (cases "r > 1290")
      case False
      then have "r * r * r \<le> 1290 * 1290 * 1290" using cube_mono [of r 1290] that by simp
      then have "(r * r * r + 131072) div 262144 \<le> (2146689000 + 131072) div 262144"
        by (intro zdiv_mono1) simp_all
      with False show ?thesis by (simp add: badness_of_ratio_def)
    qed (simp add: badness_of_ratio_def)
    ultimately show ?thesis
      using 3 assms badness_ratio_nonneg [of t s] by (simp add: badness_eq_ratio)
  qed
  then show "badness t s \<le> badness t' s" and "badness t s' \<le> badness t s"
    and "badness t s = 10000 \<or> badness t s \<le> 8189" by blast+
qed

theorem badness_bounded_monotone_witness:
  "badness 65536 65536 = 100 \<and> badness 65536 65536 \<le> badness 131072 65536
   \<and> badness 65536 131072 \<le> badness 65536 65536"
  using badness_bounded_monotone [of 65536 131072 65536 131072]
  by (simp add: badness_eq badness_ratio_def Let_def)

section \<open>Glue setting\<close>

text \<open>Totals as the measurement leaves them: \<open>i32\<close> values other than \<open>i32::MIN\<close>.\<close>

definition totals_ok :: "ListMetrics \<Rightarrow> bool" where
  "totals_ok m \<longleftrightarrow> (\<forall>ord. in_i32 (m_stretch m ord) \<and> m_stretch m ord \<noteq> i32_min
     \<and> in_i32 (m_shrink m ord) \<and> m_shrink m ord \<noteq> i32_min)"

definition signed_totals :: "ListMetrics \<Rightarrow> scaled \<Rightarrow> Order \<Rightarrow> scaled" where
  "signed_totals m diff = (if diff > 0 then m_stretch m else m_shrink m)"

text \<open>The exact shape of a glue setting for a representable difference.\<close>

lemma set_glue_eq:
  fixes m :: ListMetrics and target natural :: scaled
  assumes "\<bar>target - natural\<bar> \<le> i32_max" and "target \<noteq> natural"
  defines "excess \<equiv> \<bar>target - natural\<bar>"
    and "tot \<equiv> signed_totals m (target - natural) (highest_order (signed_totals m (target - natural)))"
    and "order \<equiv> highest_order (signed_totals m (target - natural))"
  shows "set_glue target natural m True =
    (let over = (target < natural \<and> order = ONormal \<and> excess > tot)
     in obind (if over then m_sub excess tot else Ok 0) (\<lambda>ov.
       Ok \<lparr>gs_ratio = (if tot = 0 then ratio_ZERO else if over then ratio_UNITY else from_ratio_parts excess tot),
           gs_sign = (if target > natural then Stretching else Shrinking), gs_order = order,
           gs_badness = (if ov > 0 then 1000000 else if order = ONormal then badness excess tot else 0),
           gs_excess = excess, gs_overfull_excess = ov\<rparr>))"
proof -
  have d: "wrap32 (target - natural) = target - natural"
    using assms(1) by (intro wrap32_id) (auto simp: int_range_defs)
  have e: "wrap32 \<bar>target - natural\<bar> = \<bar>target - natural\<bar>"
    using assms(1) by (intro wrap32_id) (auto simp: int_range_defs)
  have s: "(target - natural > 0) = (natural < target)" by auto
  show ?thesis
    using assms(2) unfolding set_glue_def Let_def d e excess_def tot_def order_def from_scaled_ratio_def
      OVERFULL_BADNESS_def signed_totals_def s
    by (cases "natural < target") simp_all
qed

text \<open>C31. Glue setting fills the box exactly: for a nonempty list whose size must change by a representable
  amount, the setting stretches when the target is larger and shrinks when it is smaller, at the highest
  order with a nonzero total; unless that total is zero or the box is overfull, the rational glue ratio
  times the total is exactly the required change. The box is overfull (badness 1000000, ratio one)
  exactly when finite shrink must exceed its total, and then the overfull excess is the part that the
  shrink cannot absorb; every other setting has a badness of at most 10000.\<close>

theorem set_glue_fills_box:
  assumes "\<bar>target - natural\<bar> \<le> i32_max" and "target \<noteq> natural" and "totals_ok m"
    and "set_glue target natural m True = Ok g"
  shows "gs_sign g = (if target > natural then Stretching else Shrinking)
    \<and> gs_order g = highest_order (signed_totals m (target - natural))
    \<and> gs_excess g = \<bar>target - natural\<bar>
    \<and> (let tot = signed_totals m (target - natural) (gs_order g);
           overfull = (target < natural \<and> gs_order g = ONormal \<and> natural - target > tot)
       in (tot \<noteq> 0 \<and> \<not> overfull \<longrightarrow>
             numerator (gs_ratio g) * tot = \<bar>target - natural\<bar> * denominator (gs_ratio g)
             \<and> 0 < denominator (gs_ratio g))
        \<and> (gs_badness g = 1000000 \<longleftrightarrow> overfull)
        \<and> (overfull \<longrightarrow> gs_overfull_excess g = natural - target - tot
             \<and> (tot \<noteq> 0 \<longrightarrow> gs_ratio g = ratio_UNITY))
        \<and> (\<not> overfull \<longrightarrow> gs_overfull_excess g = 0 \<and> 0 \<le> gs_badness g \<and> gs_badness g \<le> 10000))"
proof -
  define order where "order = highest_order (signed_totals m (target - natural))"
  define tot where "tot = signed_totals m (target - natural) order"
  define excess where "excess = \<bar>target - natural\<bar>"
  define over where "over = (target < natural \<and> order = ONormal \<and> excess > tot)"
  have g: "obind (if over then m_sub excess tot else Ok 0) (\<lambda>ov.
       Ok \<lparr>gs_ratio = (if tot = 0 then ratio_ZERO else if over then ratio_UNITY else from_ratio_parts excess tot),
           gs_sign = (if target > natural then Stretching else Shrinking), gs_order = order,
           gs_badness = (if ov > 0 then 1000000 else if order = ONormal then badness excess tot else 0),
           gs_excess = excess, gs_overfull_excess = ov\<rparr>) = Ok g"
    using assms(4) set_glue_eq [OF assms(1,2), of m]
    unfolding Let_def order_def [symmetric] tot_def [symmetric] excess_def [symmetric] over_def [symmetric]
    by simp
  have e: "in_i32 excess" "excess \<noteq> i32_min" "0 < excess"
    using assms(1,2) unfolding excess_def by (auto simp: int_range_defs)
  have t: "in_i32 tot" "tot \<noteq> i32_min"
    using assms(3) by (auto simp: tot_def signed_totals_def totals_ok_def)
  have cross: "tot \<noteq> 0 \<Longrightarrow> numerator (from_ratio_parts excess tot) * tot
      = excess * denominator (from_ratio_parts excess tot)"
    by (rule from_ratio_parts_value [OF e(1) t(1) _ e(2) t(2)])
  have den: "0 < denominator (from_ratio_parts excess tot)"
    using from_ratio_parts_wf [OF e(1) t(1)] by (simp add: ratio_wf_def)
  have bad: "0 \<le> badness excess tot" "badness excess tot \<le> 10000"
    using badness_range [of excess tot] e(3) by simp_all
  have over': "target < natural \<and> order = ONormal \<and> natural - target > tot \<longleftrightarrow> over"
    by (auto simp: over_def excess_def)
  have split: "over \<Longrightarrow> gs_overfull_excess g = excess - tot \<and> 0 < gs_overfull_excess g"
    using g by (auto simp: m_sub_def scaled_checked_sub_def outcome_simps over_def)
  have tot': "signed_totals m (target - natural) order = tot" "over \<Longrightarrow> signed_totals m (target - natural) ONormal = tot"
    by (auto simp: tot_def over_def)
  have ex: "over \<Longrightarrow> excess = natural - target" by (auto simp: over_def excess_def)
  show ?thesis
  proof (cases over)
    case True
    with g split ex have "g = \<lparr>gs_ratio = (if tot = 0 then ratio_ZERO else ratio_UNITY),
        gs_sign = (if target > natural then Stretching else Shrinking), gs_order = order,
        gs_badness = 1000000, gs_excess = excess, gs_overfull_excess = natural - target - tot\<rparr>"
      by (auto simp: outcome_simps)
    with True over' show ?thesis
      by (simp add: Let_def tot' order_def [symmetric] excess_def [symmetric])
  next
    case False
    with g have "g = \<lparr>gs_ratio = (if tot = 0 then ratio_ZERO else from_ratio_parts excess tot),
        gs_sign = (if target > natural then Stretching else Shrinking), gs_order = order,
        gs_badness = (if order = ONormal then badness excess tot else 0), gs_excess = excess,
        gs_overfull_excess = 0\<rparr>"
      by (cases "tot = 0") (auto split del: if_split)
    with False over' cross den bad show ?thesis
      by (simp add: Let_def tot' order_def [symmetric] excess_def [symmetric])
  qed
qed

theorem set_glue_fills_box_witness:
  "\<exists>g. set_glue 100 70 (metrics_ZERO\<lparr>m_stretch := (\<lambda>_. 0)(Fil := 45)\<rparr>) True = Ok g
     \<and> numerator (gs_ratio g) * 45 = 30 * denominator (gs_ratio g) \<and> gs_sign g = Stretching \<and> gs_order g = Fil"
proof -
  let ?m = "metrics_ZERO\<lparr>m_stretch := (\<lambda>_. 0)(Fil := 45)\<rparr>"
  have tot: "totals_ok ?m"
    by (simp add: totals_ok_def metrics_ZERO_def in_i32_iff i32_min_def)
  have ord: "highest_order (signed_totals ?m 30) = Fil" "signed_totals ?m 30 Fil = 45"
    by (simp_all add: highest_order_def signed_totals_def)
  obtain g where g: "set_glue 100 70 ?m True = Ok g"
    using set_glue_eq [of 100 70 ?m] by (simp add: i32_max_def ord)
  from set_glue_fills_box [OF _ _ tot g] g show ?thesis
    by (auto simp: i32_max_def ord Let_def)
qed

text \<open>The difference is an unchecked \<open>i32\<close> subtraction: a list of natural size near \<open>i32::MAX\<close> packed to a
  negative size wraps around and is stretched instead of being reported overfull.\<close>

lemma set_glue_difference_wraps:
  "\<exists>g. set_glue (-2) i32_max (metrics_ZERO\<lparr>m_width := i32_max\<rparr>) True = Ok g
     \<and> gs_sign g = Stretching \<and> gs_overfull_excess g = 0"
  by (simp add: set_glue_def wrap32_def i32_max_def metrics_ZERO_def highest_order_def)

section \<open>What a measurement accumulates\<close>

fun run_steps :: "('e \<Rightarrow> 'm \<Rightarrow> 'm panicking) \<Rightarrow> 'e list \<Rightarrow> 'm \<Rightarrow> 'm panicking" where
  "run_steps step [] m = Ok m"
| "run_steps step (e # es) m = obind (step e m) (\<lambda>m. run_steps step es m)"

text \<open>
  The contract of a metric accumulator: one step combines an observation of the state with the
  contribution of the element, and keeps the invariant. A whole run then folds the contributions.
  Each dimension of a horizontal and of a vertical measurement is an instance.
\<close>

locale exact_accumulator =
  fixes step :: "'e \<Rightarrow> 'm \<Rightarrow> 'm panicking" and inv :: "'m \<Rightarrow> bool" and obs :: "'m \<Rightarrow> 'v"
    and comb :: "'v \<Rightarrow> 'v \<Rightarrow> 'v" and contrib :: "'e \<Rightarrow> 'v"
  assumes step_combines: "inv m \<Longrightarrow> step e m = Ok m' \<Longrightarrow> inv m' \<and> obs m' = comb (obs m) (contrib e)"
begin

lemma run_folds:
  "inv m \<Longrightarrow> run_steps step es m = Ok m' \<Longrightarrow> inv m' \<and> obs m' = foldl comb (obs m) (map contrib es)"
proof (induction es arbitrary: m)
  case (Cons e es)
  from Cons.prems(2) obtain m1 where "step e m = Ok m1" "run_steps step es m1 = Ok m'"
    by (auto simp: outcome_simps)
  with step_combines [OF Cons.prems(1)] Cons.IH [of m1] show ?case by simp
qed simp

end

lemma foldl_plus_sum: "foldl (+) a xs = a + sum_list (xs :: int list)"
  by (induction xs arbitrary: a) simp_all

lemma m_add_Ok [simp]: "m_add a b = Ok c \<longleftrightarrow> in_i32 (a + b) \<and> c = a + b"
  by (simp add: m_add_def scaled_checked_add_def)

lemma m_sub_Ok [simp]: "m_sub a b = Ok c \<longleftrightarrow> in_i32 (a - b) \<and> c = a - b"
  by (simp add: m_sub_def scaled_checked_sub_def)

text \<open>Glue a node contributes to the totals of a list, the same in both directions.\<close>

definition node_stretch :: "Order \<Rightarrow> 'l Node \<Rightarrow> scaled" where
  "node_stretch ord n =
     (case packed n of PGlue g l \<Rightarrow> if g_stretch_order g = ord then g_stretch g else 0 | _ \<Rightarrow> 0)"

definition node_shrink :: "Order \<Rightarrow> 'l Node \<Rightarrow> scaled" where
  "node_shrink ord n =
     (case packed n of PGlue g l \<Rightarrow> if g_shrink_order g = ord then g_shrink g else 0 | _ \<Rightarrow> 0)"

lemma add_glue_Ok:
  "add_glue m g = Ok m' \<longleftrightarrow>
     in_i32 (m_stretch m (g_stretch_order g) + g_stretch g) \<and> in_i32 (m_shrink m (g_shrink_order g) + g_shrink g)
     \<and> m' = m\<lparr>m_has_glue := True,
             m_stretch := (m_stretch m)(g_stretch_order g := m_stretch m (g_stretch_order g) + g_stretch g),
             m_shrink := (m_shrink m)(g_shrink_order g := m_shrink m (g_shrink_order g) + g_shrink g)\<rparr>"
  by (auto simp: add_glue_def outcome_simps)

section \<open>Vertical measurement\<close>

definition node_vextent :: "'l Node \<Rightarrow> scaled" where
  "node_vextent n =
     (case packed n of
        PBox b \<Rightarrow> box_height b + box_depth b
      | PUnset u \<Rightarrow> unset_height u + unset_depth u
      | PRule w h d \<Rightarrow> or_zero h + or_zero d
      | PKern a k \<Rightarrow> a
      | PGlue g l \<Rightarrow> g_width g
      | PImage w h d \<Rightarrow> h + d
      | _ \<Rightarrow> 0)"

definition leader_width :: "'l LeaderPayload option \<Rightarrow> scaled" where
  "leader_width l =
     (case l of Some (LeaderHList b) \<Rightarrow> box_width b | Some (LeaderVList b) \<Rightarrow> box_width b
      | Some (LeaderRule w h d) \<Rightarrow> or_zero w | None \<Rightarrow> 0)"

definition node_vwidth :: "'l Node \<Rightarrow> scaled" where
  "node_vwidth n =
     (case packed n of
        PBox b \<Rightarrow> box_width b + box_shift b
      | PUnset u \<Rightarrow> unset_width u
      | PRule w h d \<Rightarrow> or_zero w
      | PGlue g l \<Rightarrow> leader_width l
      | PImage w h d \<Rightarrow> w
      | _ \<Rightarrow> 0)"

lemma vleader_effect:
  assumes "0 \<le> m_width m"
  shows "(case l of Some l \<Rightarrow> add_vleader_perpendicular_dimensions m l | None \<Rightarrow> m)
    = m\<lparr>m_width := max (m_width m) (leader_width l)\<rparr>"
  using assms
  by (cases l rule: option.exhaust [case_product LeaderPayload.exhaust])
    (auto simp: leader_width_def or_zero_def max_def split: option.splits LeaderPayload.splits)

lemma measure_vnode_effect:
  assumes "0 \<le> m_width m" and "measure_vnode n m = Ok m'"
  shows "m_height m' + m_depth m' = m_height m + m_depth m + node_vextent n
    \<and> m_width m' = max (m_width m) (node_vwidth n)
    \<and> m_stretch m' ord = m_stretch m ord + node_stretch ord n
    \<and> m_shrink m' ord = m_shrink m ord + node_shrink ord n"
proof (cases "packed n")
  case (PGlue g l)
  with assms(2) obtain m1 where m1: "observe_vertical m (EvGlue g) = Ok m1"
    and m': "m' = (case l of Some l \<Rightarrow> add_vleader_perpendicular_dimensions m1 l | None \<Rightarrow> m1)"
    by (auto simp: measure_vnode_def outcome_simps)
  from m1 have "m_height m1 + m_depth m1 = m_height m + m_depth m + g_width g" "m_width m1 = m_width m"
    "m_stretch m1 ord = m_stretch m ord + node_stretch ord n" "m_shrink m1 ord = m_shrink m ord + node_shrink ord n"
    by (auto simp: observe_vertical_def outcome_simps add_glue_Ok try_append_vertical_spacing_def PGlue
      scaled_checked_add_def bind_eq_Some_conv node_stretch_def node_shrink_def)
  moreover from this assms(1) have "m' = m1\<lparr>m_width := max (m_width m1) (leader_width l)\<rparr>"
    using vleader_effect [of m1 l] unfolding m' by simp
  ultimately show ?thesis by (simp add: node_vextent_def node_vwidth_def PGlue)
qed (use assms in \<open>auto simp: measure_vnode_def observe_vertical_def outcome_simps
  try_append_vertical_box_def try_append_vertical_spacing_def scaled_checked_add_def bind_eq_Some_conv
  node_vextent_def node_vwidth_def node_stretch_def node_shrink_def\<close>)

lemma measure_vnode_width_nonneg: "0 \<le> m_width m \<Longrightarrow> measure_vnode n m = Ok m' \<Longrightarrow> 0 \<le> m_width m'"
  using measure_vnode_effect [of m n m'] by simp

lemma measure_vlist_loop_run: "measure_vlist_loop ns = run_steps measure_vnode ns"
proof (induction ns)
  case (Cons n ns)
  then show ?case by (intro ext) simp
qed (rule ext, simp)

abbreviation width_nonneg :: "ListMetrics \<Rightarrow> bool" where "width_nonneg m \<equiv> 0 \<le> m_width m"

interpretation v_extent: exact_accumulator measure_vnode width_nonneg "\<lambda>m. m_height m + m_depth m" "(+)" node_vextent
  by unfold_locales (auto dest: measure_vnode_effect intro: measure_vnode_width_nonneg)

interpretation v_width: exact_accumulator measure_vnode width_nonneg m_width max node_vwidth
  by unfold_locales (auto dest: measure_vnode_effect intro: measure_vnode_width_nonneg)

interpretation v_stretch: exact_accumulator measure_vnode width_nonneg "\<lambda>m. m_stretch m ord" "(+)" "node_stretch ord"
  by unfold_locales (auto dest: measure_vnode_effect intro: measure_vnode_width_nonneg)

interpretation v_shrink: exact_accumulator measure_vnode width_nonneg "\<lambda>m. m_shrink m ord" "(+)" "node_shrink ord"
  by unfold_locales (auto dest: measure_vnode_effect intro: measure_vnode_width_nonneg)

lemma measure_vlist_exact:
  assumes "measure_vlist ns = Ok m"
  shows "m_height m + m_depth m = (\<Sum>n \<leftarrow> ns. node_vextent n)"
    and "m_width m = foldl max 0 (map node_vwidth ns)"
    and "m_stretch m ord = (\<Sum>n \<leftarrow> ns. node_stretch ord n)" and "m_shrink m ord = (\<Sum>n \<leftarrow> ns. node_shrink ord n)"
proof -
  have run: "run_steps measure_vnode ns metrics_ZERO = Ok m" and z: "width_nonneg metrics_ZERO"
    using assms by (simp_all add: measure_vlist_def measure_vlist_loop_run metrics_ZERO_def)
  show "m_height m + m_depth m = (\<Sum>n \<leftarrow> ns. node_vextent n)"
    and "m_width m = foldl max 0 (map node_vwidth ns)"
    and "m_stretch m ord = (\<Sum>n \<leftarrow> ns. node_stretch ord n)" and "m_shrink m ord = (\<Sum>n \<leftarrow> ns. node_shrink ord n)"
    using v_extent.run_folds [OF z run] v_width.run_folds [OF z run] v_stretch.run_folds [OF z run, of ord]
      v_shrink.run_folds [OF z run, of ord]
    by (simp_all add: foldl_plus_sum metrics_ZERO_def)
qed

section \<open>Horizontal measurement\<close>

definition leader_height :: "'l LeaderPayload option \<Rightarrow> scaled" where
  "leader_height l =
     (case l of Some (LeaderHList b) \<Rightarrow> box_height b | Some (LeaderVList b) \<Rightarrow> box_height b
      | Some (LeaderRule w h d) \<Rightarrow> or_zero h | None \<Rightarrow> 0)"

definition leader_depth :: "'l LeaderPayload option \<Rightarrow> scaled" where
  "leader_depth l =
     (case l of Some (LeaderHList b) \<Rightarrow> box_depth b | Some (LeaderVList b) \<Rightarrow> box_depth b
      | Some (LeaderRule w h d) \<Rightarrow> or_zero d | None \<Rightarrow> 0)"

text \<open>Natural width, height and depth that a node other than a discretionary adds to a line.\<close>

definition node_hdims :: "TypesetState \<Rightarrow> 'l Node \<Rightarrow> scaled \<times> scaled \<times> scaled" where
  "node_hdims st n =
     (case packed n of
        PGlyph f c \<Rightarrow> (case hglyph_metrics st n f c of Ok (Some m) \<Rightarrow> (c_width m, c_height m, c_depth m) | _ \<Rightarrow> (0, 0, 0))
      | PKern a k \<Rightarrow> (a, 0, 0)
      | PGlue g l \<Rightarrow> (g_width g, leader_height l, leader_depth l)
      | PRule w h d \<Rightarrow> (or_zero w, or_zero h, or_zero d)
      | PBox b \<Rightarrow> (box_width b, box_height b - box_shift b, box_depth b + box_shift b)
      | PUnset u \<Rightarrow> (unset_width u, unset_height u, unset_depth u)
      | PImage w h d \<Rightarrow> (w, h, d)
      | PMath w \<Rightarrow> (w, 0, 0)
      | _ \<Rightarrow> (0, 0, 0))"

text \<open>The natural dimensions of a horizontal list: total width, greatest height, greatest depth, with a
  discretionary standing for its replacement text.\<close>

function hextent :: "TypesetState \<Rightarrow> page_list Node list \<Rightarrow> scaled \<times> scaled \<times> scaled" where
  "hextent st [] = (0, 0, 0)"
| "hextent st (n # ns) =
     (let (w, h, d) = (case packed n of PDisc r \<Rightarrow> hextent st (page_nodes r) | _ \<Rightarrow> node_hdims st n);
          (ws, hs, ds) = hextent st ns
      in (w + ws, max h hs, max d ds))"
  by pat_completeness auto
termination
proof (relation "measure (\<lambda>(st, ns). size (PageList ns))", goal_cases)
  case (2 st n ns r)
  then show ?case by (cases r) (auto elim!: packed_PDiscE)
qed auto

lemma hextent_nonneg: "0 \<le> fst (snd (hextent st ns)) \<and> 0 \<le> snd (snd (hextent st ns))"
  by (induction ns) (auto simp: Let_def le_max_iff_disj split: prod.splits)

lemma hleader_effect:
  assumes "0 \<le> m_height m" and "0 \<le> m_depth m"
  shows "(case l of Some l \<Rightarrow> add_hleader_perpendicular_dimensions m l | None \<Rightarrow> m)
    = m\<lparr>m_height := max (m_height m) (leader_height l), m_depth := max (m_depth m) (leader_depth l)\<rparr>"
  using assms
  by (cases l rule: option.exhaust [case_product LeaderPayload.exhaust])
    (auto simp: leader_height_def leader_depth_def or_zero_def max_def Let_def split: option.splits LeaderPayload.splits)

definition metrics_nonneg :: "ListMetrics \<Rightarrow> bool" where
  "metrics_nonneg m \<longleftrightarrow> 0 \<le> m_height m \<and> 0 \<le> m_depth m"

lemma measure_hnode_effect:
  assumes "metrics_nonneg m" and "measure_hnode st n m = Ok m'" and "\<forall>r. packed n \<noteq> PDisc r"
    and "node_hdims st n = (w, h, d)"
  shows "m_width m' = m_width m + w \<and> m_height m' = max (m_height m) h \<and> m_depth m' = max (m_depth m) d
    \<and> m_stretch m' ord = m_stretch m ord + node_stretch ord n
    \<and> m_shrink m' ord = m_shrink m ord + node_shrink ord n"
proof (cases "packed n")
  case (PGlue g l)
  with assms(2) obtain m1 where m1: "observe_horizontal m (EvGlue g) = Ok m1"
    and m': "m' = (case l of Some l \<Rightarrow> add_hleader_perpendicular_dimensions m1 l | None \<Rightarrow> m1)"
    by (auto simp: measure_hnode_def outcome_simps)
  from m1 have "m_width m1 = m_width m + g_width g" "m_height m1 = m_height m" "m_depth m1 = m_depth m"
    "m_stretch m1 ord = m_stretch m ord + node_stretch ord n" "m_shrink m1 ord = m_shrink m ord + node_shrink ord n"
    by (auto simp: outcome_simps add_glue_Ok PGlue node_stretch_def node_shrink_def)
  moreover from this assms(1)
  have "m' = m1\<lparr>m_height := max (m_height m1) (leader_height l), m_depth := max (m_depth m1) (leader_depth l)\<rparr>"
    using hleader_effect [of m1 l] unfolding m' metrics_nonneg_def by simp
  ultimately show ?thesis using assms(4) by (auto simp: node_hdims_def PGlue)
next
  case (PGlyph f c)
  with assms(2) obtain c' where "hglyph_metrics st n f c = Ok c'"
    "(case c' of Some c \<Rightarrow> observe_horizontal m (EvGlyph (c_width c) (c_height c) (c_depth c)) | None \<Rightarrow> Ok m) = Ok m'"
    by (auto simp: measure_hnode_def outcome_simps simp del: observe_horizontal.simps)
  with assms(1,4) PGlyph show ?thesis
    by (cases c') (auto simp: node_hdims_def outcome_simps node_stretch_def node_shrink_def metrics_nonneg_def)
qed (use assms in \<open>auto simp: measure_hnode_def outcome_simps node_hdims_def node_stretch_def node_shrink_def
  metrics_nonneg_def\<close>)

lemma merge_horizontal_Ok:
  "merge_horizontal_dimensions m r = Ok m' \<longleftrightarrow> in_i32 (m_width m + m_width r)
     \<and> m' = m\<lparr>m_width := m_width m + m_width r, m_height := max (m_height m) (m_height r),
             m_depth := max (m_depth m) (m_depth r), m_has_glue := m_has_glue m \<or> m_has_glue r\<rparr>"
  by (auto simp: merge_horizontal_dimensions_def outcome_simps)

lemma measure_hlist_loop_exact:
  assumes "metrics_nonneg m" and "measure_hlist_loop st ns m = Ok m'"
  shows "metrics_nonneg m' \<and> m_width m' = m_width m + fst (hextent st ns)
    \<and> m_height m' = max (m_height m) (fst (snd (hextent st ns)))
    \<and> m_depth m' = max (m_depth m) (snd (snd (hextent st ns)))
    \<and> m_stretch m' ord = m_stretch m ord + (\<Sum>n \<leftarrow> ns. node_stretch ord n)
    \<and> m_shrink m' ord = m_shrink m ord + (\<Sum>n \<leftarrow> ns. node_shrink ord n)"
  using assms
proof (induction st ns m arbitrary: m' rule: measure_hlist_loop.induct)
  case (1 st m)
  then show ?case by (auto simp: metrics_nonneg_def)
next
  case (2 st n ns m)
  obtain ws hs ds where ns: "hextent st ns = (ws, hs, ds)" by (rule prod_cases3)
  show ?case
  proof (cases "\<exists>r. packed n = PDisc r")
    case True
    then obtain r where r: "packed n = PDisc r" by blast
    with 2(4) obtain rep m1 where rep: "measure_hlist_loop st (page_nodes r) metrics_ZERO = Ok rep"
      and m1: "merge_horizontal_dimensions m rep = Ok m1" and rest: "measure_hlist_loop st ns m1 = Ok m'"
      by (auto simp: outcome_simps)
    obtain w h d where disc: "hextent st (page_nodes r) = (w, h, d)" by (rule prod_cases3)
    have rep': "metrics_nonneg rep \<and> m_width rep = w \<and> m_height rep = max 0 h \<and> m_depth rep = max 0 d"
      using 2(1) [OF r _ rep] disc by (simp add: metrics_nonneg_def metrics_ZERO_def)
    have "0 \<le> h" "0 \<le> d" using hextent_nonneg [of st "page_nodes r"] disc by simp_all
    then have m1': "m_width m1 = m_width m + w" "m_height m1 = max (m_height m) h" "m_depth m1 = max (m_depth m) d"
      "m_stretch m1 = m_stretch m" "m_shrink m1 = m_shrink m"
      using m1 rep' by (auto simp: merge_horizontal_Ok)
    have "metrics_nonneg m1" using m1' 2(3) by (simp add: metrics_nonneg_def le_max_iff_disj)
    from 2(2) [OF this rest] m1' r disc ns show ?thesis
      by (simp add: node_stretch_def node_shrink_def max.assoc)
  next
    case False
    obtain w h d where dims: "node_hdims st n = (w, h, d)" by (rule prod_cases3)
    from 2(4) False obtain m1 where m1: "measure_hnode st n m = Ok m1" and rest: "measure_hlist_loop st ns m1 = Ok m'"
      by (cases "packed n") (auto simp: outcome_simps)
    note eff = measure_hnode_effect [OF 2(3) m1 _ dims, of ord]
    have "metrics_nonneg m1" using eff False 2(3) by (auto simp: metrics_nonneg_def le_max_iff_disj)
    moreover have "hextent st (n # ns) = (w + ws, max h hs, max d ds)"
      using False dims ns by (cases "packed n") auto
    ultimately show ?thesis using 2(2) [OF _ rest] eff False ns by (simp add: max.assoc)
  qed
qed

lemma measure_hlist_exact:
  assumes "measure_hlist st ns = Ok m"
  shows "(m_width m, m_height m, m_depth m) = hextent st ns"
    and "m_stretch m ord = (\<Sum>n \<leftarrow> ns. node_stretch ord n)" and "m_shrink m ord = (\<Sum>n \<leftarrow> ns. node_shrink ord n)"
proof -
  have "metrics_nonneg metrics_ZERO" by (simp add: metrics_nonneg_def metrics_ZERO_def)
  from measure_hlist_loop_exact [OF this assms [unfolded measure_hlist_def], of ord] hextent_nonneg [of st ns]
  show "(m_width m, m_height m, m_depth m) = hextent st ns"
    and "m_stretch m ord = (\<Sum>n \<leftarrow> ns. node_stretch ord n)" and "m_shrink m ord = (\<Sum>n \<leftarrow> ns. node_shrink ord n)"
    by (cases "hextent st ns"; simp add: metrics_ZERO_def)+
qed

section \<open>Packed boxes\<close>

definition requested_size :: "PackSpec \<Rightarrow> scaled \<Rightarrow> scaled" where
  "requested_size spec natural =
     (case spec of Natural \<Rightarrow> natural | Exactly sz \<Rightarrow> sz | Spread extra \<Rightarrow> natural + extra)"

lemma target_size_Ok: "target_size natural spec = Ok v \<Longrightarrow> v = requested_size spec natural"
  by (cases spec) (auto simp: target_size_def requested_size_def)

lemma set_glue_natural: "set_glue v v m c = Ok \<lparr>gs_ratio = ratio_ZERO, gs_sign = SNormal, gs_order = ONormal,
    gs_badness = 0, gs_excess = 0, gs_overfull_excess = 0\<rparr>"
  by (simp add: set_glue_def wrap32_def)

lemma set_glue_empty: "set_glue v w m False = Ok \<lparr>gs_ratio = ratio_ZERO, gs_sign = SNormal, gs_order = ONormal,
    gs_badness = 0, gs_excess = 0, gs_overfull_excess = 0\<rparr>"
  by (simp add: set_glue_def)

lemma hpack_via_plan:
  "hpack st (PageList ns) spec params
     = obind (plan_hpack_nodes st ns spec params) (\<lambda>plan. Ok (plan_finish plan (PageList ns)))"
proof -
  have assoc: "obind (obind a f) g = obind a (\<lambda>x. obind (f x) g)" for a :: "'x panicking" and f :: "'x \<Rightarrow> 'y panicking" and g :: "'y \<Rightarrow> 'z panicking"
    by (cases a) simp_all
  show ?thesis
    by (simp add: hpack_def plan_hpack_nodes_def plan_finish_def assoc)
qed

text \<open>C32. A packed hbox has the dimensions of its list: whenever \<open>hpack\<close> returns, the box holds the list,
  is unshifted, has exactly the requested width, the greatest height and depth of the list with
  discretionaries replaced, and its glue is set for the sums of the stretch and shrink of the outer
  list; a naturally sized or empty box has no glue set, zero badness and no diagnostic.\<close>

theorem hpack_dimensions:
  assumes "hpack st (PageList ns) spec params = Ok pb"
  shows "\<exists>w h d ratio sign order m g.
      hextent st ns = (w, h, d)
    \<and> packed_node pb = box_new (requested_size spec w) h d 0 LrNormal ratio sign order (PageList ns)
    \<and> m_stretch m = (\<lambda>ord. \<Sum>n \<leftarrow> ns. node_stretch ord n) \<and> m_shrink m = (\<lambda>ord. \<Sum>n \<leftarrow> ns. node_shrink ord n)
    \<and> set_glue (requested_size spec w) w m (ns \<noteq> []) = Ok g
    \<and> ratio = gs_ratio g \<and> sign = gs_sign g \<and> order = gs_order g \<and> packed_badness pb = gs_badness g
    \<and> diagnostics pb = common_diagnostics g (hbadness params) (hfuzz params)
    \<and> (spec = Natural \<or> ns = [] \<longrightarrow>
         ratio = ratio_ZERO \<and> sign = SNormal \<and> packed_badness pb = 0 \<and> diagnostics pb = [])"
proof -
  obtain m v g where m: "measure_hlist st ns = Ok m" and v: "target_size (m_width m) spec = Ok v"
    and g: "set_glue v (m_width m) m (ns \<noteq> []) = Ok g"
    and pb: "pb = \<lparr>packed_node = box_new v (m_height m) (m_depth m) 0 LrNormal (gs_ratio g) (gs_sign g)
        (gs_order g) (PageList ns), packed_badness = gs_badness g,
        diagnostics = hpack_diagnostics g params\<rparr>"
    using assms by (auto simp: hpack_def outcome_simps)
  note v' = target_size_Ok [OF v]
  have ext: "hextent st ns = (m_width m, m_height m, m_depth m)" using measure_hlist_exact(1) [OF m] by simp
  have glue: "m_stretch m = (\<lambda>ord. \<Sum>n \<leftarrow> ns. node_stretch ord n)" "m_shrink m = (\<lambda>ord. \<Sum>n \<leftarrow> ns. node_shrink ord n)"
    using measure_hlist_exact(2,3) [OF m] by (auto simp: fun_eq_iff)
  have nat: "gs_ratio g = ratio_ZERO \<and> gs_sign g = SNormal \<and> gs_badness g = 0
      \<and> common_diagnostics g (hbadness params) (hfuzz params) = []" if "spec = Natural \<or> ns = []"
  proof -
    have "g = \<lparr>gs_ratio = ratio_ZERO, gs_sign = SNormal, gs_order = ONormal,
        gs_badness = 0, gs_excess = 0, gs_overfull_excess = 0\<rparr>"
      using that g v' by (auto simp: set_glue_empty set_glue_natural requested_size_def)
    then show ?thesis by (simp add: common_diagnostics_def)
  qed
  show ?thesis
    using ext glue g nat unfolding v' pb hpack_diagnostics_def by auto
qed

theorem hpack_dimensions_witness:
  "\<exists>pb. hpack \<lparr>font_character_metrics = \<lambda>_ _. None, font_uses_tfm_metrics = \<lambda>_. False, font_characters = \<lambda>_. []\<rparr>
      (PageList [Kern 10 KExplicit, Rule (Some 5) (Some 7) None]) Natural \<lparr>hbadness = 1000, hfuzz = 0, overfull_rule = 0\<rparr>
      = Ok pb \<and> box_width (packed_node pb) = 15 \<and> box_height (packed_node pb) = 7 \<and> diagnostics pb = []"
proof -
  let ?st = "\<lparr>font_character_metrics = \<lambda>_ _. None, font_uses_tfm_metrics = \<lambda>_. False, font_characters = \<lambda>_. []\<rparr>"
  let ?ns = "[Kern 10 KExplicit, Rule (Some 5) (Some 7) None] :: page_list Node list"
  obtain pb where pb: "hpack ?st (PageList ?ns) Natural \<lparr>hbadness = 1000, hfuzz = 0, overfull_rule = 0\<rparr> = Ok pb"
    by (simp add: hpack_def measure_hlist_def measure_hnode_def metrics_ZERO_def or_zero_def
      m_add_def scaled_checked_add_def checked32_def in_i32_iff target_size_def set_glue_natural)
  have "hextent ?st ?ns = (15, 7, 0)" by (simp add: node_hdims_def or_zero_def)
  with hpack_dimensions [OF pb] pb show ?thesis by (auto simp: requested_size_def)
qed

text \<open>The depth a node leaves at the end of a vertical list.\<close>

definition node_vdepth :: "'l Node \<Rightarrow> scaled" where
  "node_vdepth n =
     (case packed n of PBox b \<Rightarrow> box_depth b | PUnset u \<Rightarrow> unset_depth u | PRule w h d \<Rightarrow> or_zero d
      | PImage w h d \<Rightarrow> d | _ \<Rightarrow> 0)"

lemma measure_vnode_depth:
  assumes "measure_vnode n m = Ok m'"
  shows "m_depth m' = m_depth m \<or> m_depth m' = 0 \<or> m_depth m' = node_vdepth n"
proof (cases "packed n")
  case (PGlue g l)
  with assms obtain m1 where m1: "observe_vertical m (EvGlue g) = Ok m1"
    and m': "m' = (case l of Some l \<Rightarrow> add_vleader_perpendicular_dimensions m1 l | None \<Rightarrow> m1)"
    by (auto simp: measure_vnode_def outcome_simps)
  have "m_depth m1 = 0"
    using m1 by (auto simp: observe_vertical_def outcome_simps add_glue_Ok try_append_vertical_spacing_def bind_eq_Some_conv)
  moreover have "m_depth (add_vleader_perpendicular_dimensions m1 l') = m_depth m1" for l' :: "'a LeaderPayload"
    by (cases l') (simp_all split: option.split)
  ultimately show ?thesis unfolding m' by (simp split: option.split)
qed (use assms in \<open>auto simp: measure_vnode_def observe_vertical_def outcome_simps node_vdepth_def
  try_append_vertical_box_def try_append_vertical_spacing_def bind_eq_Some_conv\<close>)

lemma measure_vlist_depth: "measure_vlist ns = Ok m \<Longrightarrow> m_depth m = 0 \<or> (\<exists>n \<in> set ns. m_depth m = node_vdepth n)"
proof -
  have run: "run_steps measure_vnode ns m1 = Ok m \<Longrightarrow> m_depth m \<in> {0, m_depth m1} \<union> node_vdepth ` set ns" for m1
  proof (induction ns arbitrary: m1)
    case (Cons n ns)
    then obtain m2 where "measure_vnode n m1 = Ok m2" "run_steps measure_vnode ns m2 = Ok m"
      by (auto simp: outcome_simps)
    with Cons.IH [of m2] measure_vnode_depth [of n m1 m2] show ?case by auto
  qed simp
  assume "measure_vlist ns = Ok m"
  with run [of metrics_ZERO] show ?thesis by (auto simp: measure_vlist_def measure_vlist_loop_run metrics_ZERO_def)
qed

lemma clamp_depth_Ok:
  assumes "clamp_depth m maxd = Ok c" and "m_depth m - maxd \<le> i32_max"
  shows "m_depth c \<le> maxd" and "m_width c = m_width m" and "m_height c + m_depth c = m_height m + m_depth m"
proof -
  have "wrap32 (m_depth m - maxd) = m_depth m - maxd" if "m_depth m > maxd"
    using that assms(2) by (intro wrap32_id) (simp add: int_range_defs)
  with assms(1) show "m_depth c \<le> maxd" and "m_width c = m_width m"
    and "m_height c + m_depth c = m_height m + m_depth m"
    by (auto simp: clamp_depth_def Let_def outcome_simps split: if_splits)
qed

text \<open>C33. Packing vertically loses no material: if no depth exceeds \<open>\boxmaxdepth\<close> by more than an \<open>i32\<close>, then whenever \<open>vpack\<close> returns, the depth of the box is at most
  \<open>\boxmaxdepth\<close>, its width is the greatest extent of the list to the right, and at natural size its height
  plus depth is the sum of the heights, depths and spacing of the list. \<open>vtop\<close> keeps that sum, and the
  rest of the box, while making the height that of the first box or rule.\<close>

theorem vpack_vtop_extent:
  assumes "vpack (PageList ns) spec params = Ok pb"
    and "\<forall>d \<in> insert 0 (node_vdepth ` set ns). d - box_max_depth params \<le> i32_max"
  shows "box_depth (packed_node pb) \<le> box_max_depth params
    \<and> box_width (packed_node pb) = foldl max 0 (map node_vwidth ns)
    \<and> children (packed_node pb) = PageList ns
    \<and> (spec = Natural \<longrightarrow>
         box_height (packed_node pb) + box_depth (packed_node pb) = (\<Sum>n \<leftarrow> ns. node_vextent n))
    \<and> (\<forall>tb. vtop (PageList ns) spec params = Ok tb \<longrightarrow>
         box_height (packed_node tb) + box_depth (packed_node tb)
           = box_height (packed_node pb) + box_depth (packed_node pb)
         \<and> with_height_depth (packed_node tb) (box_height (packed_node pb)) (box_depth (packed_node pb))
           = packed_node pb
         \<and> box_height (packed_node tb)
           = (case ns of HList b # _ \<Rightarrow> box_height b | VList b # _ \<Rightarrow> box_height b
              | Rule w h d # _ \<Rightarrow> or_zero h | _ \<Rightarrow> 0))"
proof -
  obtain m c v g where m: "measure_vlist ns = Ok m" and c: "clamp_depth m (box_max_depth params) = Ok c"
    and v: "target_size (m_height c) spec = Ok v" and g: "set_glue v (m_height c) c (ns \<noteq> []) = Ok g"
    and pb: "pb = \<lparr>packed_node = box_new (m_width c) v (m_depth c) 0 LrNormal (gs_ratio g) (gs_sign g)
        (gs_order g) (PageList ns), packed_badness = gs_badness g,
        diagnostics = vpack_diagnostics g params\<rparr>"
    using assms(1) by (auto simp: vpack_def outcome_simps)
  note v' = target_size_Ok [OF v]
  have clamp: "m_depth c \<le> box_max_depth params" "m_width c = m_width m"
    "m_height c + m_depth c = m_height m + m_depth m"
    using clamp_depth_Ok [OF c] measure_vlist_depth [OF m] assms(2) by auto
  have "(\<forall>tb. vtop (PageList ns) spec params = Ok tb \<longrightarrow>
         box_height (packed_node tb) + box_depth (packed_node tb)
           = box_height (packed_node pb) + box_depth (packed_node pb)
         \<and> with_height_depth (packed_node tb) (box_height (packed_node pb)) (box_depth (packed_node pb))
           = packed_node pb
         \<and> box_height (packed_node tb)
           = (case ns of HList b # _ \<Rightarrow> box_height b | VList b # _ \<Rightarrow> box_height b
              | Rule w h d # _ \<Rightarrow> or_zero h | _ \<Rightarrow> 0))"
    unfolding vtop_def assms(1)
    by (auto simp: readjust_vtop_def vtop_split_def outcome_simps Let_def with_height_depth_def pb)
  with clamp measure_vlist_exact [OF m] v' show ?thesis
    by (auto simp: pb requested_size_def)
qed

theorem vpack_vtop_extent_witness:
  "\<exists>pb tb. vpack (PageList [Rule (Some 5) (Some 7) (Some 3), Kern 10 KExplicit]) Natural
        \<lparr>vbadness = 1000, vfuzz = 0, box_max_depth = 0\<rparr> = Ok pb
    \<and> vtop (PageList [Rule (Some 5) (Some 7) (Some 3), Kern 10 KExplicit]) Natural
        \<lparr>vbadness = 1000, vfuzz = 0, box_max_depth = 0\<rparr> = Ok tb
    \<and> box_height (packed_node pb) + box_depth (packed_node pb) = 20
    \<and> box_height (packed_node tb) = 7 \<and> box_depth (packed_node tb) = 13"
proof -
  let ?ns = "[Rule (Some 5) (Some 7) (Some 3), Kern 10 KExplicit] :: page_list Node list"
  let ?p = "\<lparr>vbadness = 1000, vfuzz = 0, box_max_depth = 0\<rparr>"
  note evals = vpack_def measure_vlist_def measure_vnode_def observe_vertical_def try_append_vertical_box_def
    try_append_vertical_spacing_def scaled_checked_add_def scaled_checked_sub_def checked32_def metrics_ZERO_def or_zero_def
    in_i32_iff clamp_depth_def target_size_def set_glue_natural m_add_def m_sub_def
  obtain pb where pb: "vpack (PageList ?ns) Natural ?p = Ok pb" by (simp add: evals)
  moreover obtain tb where tb: "vtop (PageList ?ns) Natural ?p = Ok tb"
    by (simp add: vtop_def readjust_vtop_def vtop_split_def evals)
  moreover have "\<forall>d \<in> insert 0 (node_vdepth ` set ?ns). d - box_max_depth ?p \<le> i32_max"
    by (simp add: node_vdepth_def or_zero_def i32_max_def)
  ultimately show ?thesis
    using vpack_vtop_extent [of ?ns Natural ?p pb] by (auto simp: node_vextent_def or_zero_def)
qed

end
