(* ===== verification/Vertical_Break.thy ===== *)
theory Vertical_Break
  imports Packing
begin

text \<open>
  TeX's \<open>vert_break\<close> of \<^verbatim>\<open>crates/tex-typeset/src/vertical_break.rs\<close>: the search for the least-cost
  breakpoint of a vertical list, used by \<open>\vsplit\<close> and the page builder's insertions. Every arithmetic
  overflow is the error \<open>ArithmeticOverflow\<close>; the scan never panics.
\<close>

section \<open>Definitions\<close>






















section \<open>Specification: scan, then select\<close>







section \<open>The selected breakpoint\<close>












end
