(* ===== verification/Alignment_Plan.thy ===== *)
theory Alignment_Plan
  imports Scaled_Arith
begin

text \<open>
  The alignment width planner of \<^verbatim>\<open>crates/tex-typeset/src/alignment.rs\<close>: TeX82's resolution of the
  column widths of an \<open>\halign\<close> from cell requirements that may span several columns. The span chain of
  a column, a \<open>BTreeMap\<close>, is an association list in ascending key order.
\<close>

section \<open>Definitions\<close>

record AlignmentWidthRequirement =
  first_column :: nat
  req_span :: nat
  req_width :: scaled

record AlignmentWidthPlan =
  columns :: "scaled list"
  zero_tabskip_boundaries :: "nat list"

datatype AlignmentPlanError = AlArithmeticOverflow | MissingTabskipBoundary nat

record ColumnRecord =
  col_width :: "scaled option"
  col_spans :: "(nat \<times> scaled) list"

definition column_default :: ColumnRecord where
  "column_default = \<lparr>col_width = None, col_spans = []\<rparr>"

definition ensure_columns :: "ColumnRecord list \<Rightarrow> nat \<Rightarrow> ColumnRecord list" where
  "ensure_columns records n =
     (if length records < n then records @ replicate (n - length records) column_default else records)"

text \<open>\<open>entry(span).and_modify(max).or_insert(width)\<close> of the ordered map.\<close>

fun span_entry :: "(nat \<times> scaled) list \<Rightarrow> nat \<Rightarrow> scaled \<Rightarrow> (nat \<times> scaled) list" where
  "span_entry [] span width = [(span, width)]"
| "span_entry ((k, old) # rest) span width =
     (if span < k then (span, width) # (k, old) # rest
      else if span = k then (k, max old width) # rest
      else (k, old) # span_entry rest span width)"

definition merge_width :: "ColumnRecord \<Rightarrow> nat \<Rightarrow> scaled \<Rightarrow> ColumnRecord" where
  "merge_width r span width =
     (if span \<le> 1
      then (if (case col_width r of None \<Rightarrow> True | Some old \<Rightarrow> width > old) then r\<lparr>col_width := Some width\<rparr> else r)
      else r\<lparr>col_spans := span_entry (col_spans r) span width\<rparr>)"

definition add_requirement :: "ColumnRecord list \<Rightarrow> AlignmentWidthRequirement \<Rightarrow> ColumnRecord list" where
  "add_requirement records q =
     (let span = max (req_span q) 1;
          records = ensure_columns records (first_column q + span)
      in records[first_column q := merge_width (records ! first_column q) span (req_width q)])"

text \<open>The inner loop over the taken span chain of a column.\<close>

fun reduce_spans :: "ColumnRecord \<Rightarrow> scaled \<Rightarrow> (nat \<times> scaled) list
    \<Rightarrow> (AlignmentPlanError, ColumnRecord) outcome" where
  "reduce_spans next_column reduction [] = Ok next_column"
| "reduce_spans next_column reduction ((span, width) # rest) =
     obind (ok_or AlArithmeticOverflow (scaled_checked_sub width reduction)) (\<lambda>reduced.
       reduce_spans (merge_width next_column (span - 1) reduced) reduction rest)"

text \<open>One iteration of the column loop.\<close>

definition align_step :: "scaled list \<Rightarrow> ColumnRecord list \<Rightarrow> nat \<Rightarrow> nat list
    \<Rightarrow> (AlignmentPlanError, ColumnRecord list \<times> nat list) outcome" where
  "align_step tabskip_widths records index zeros =
     (let (records, zeros) =
            (if col_width (records ! index) = None
             then (records[index := (records ! index)\<lparr>col_width := Some 0\<rparr>], zeros @ [index + 1])
             else (records, zeros));
          spans = col_spans (records ! index);
          records = records[index := (records ! index)\<lparr>col_spans := []\<rparr>]
      in if spans = [] then Ok (records, zeros)
         else let records = ensure_columns records (index + 2)
              in obind (if zeros \<noteq> [] \<and> last zeros = index + 1 then Ok 0
                        else if index + 1 < length tabskip_widths then Ok (tabskip_widths ! (index + 1))
                        else Err (MissingTabskipBoundary (index + 1))) (\<lambda>tabskip.
                 obind (expect_some (col_width (records ! index))) (\<lambda>w.
                 obind (ok_or AlArithmeticOverflow (scaled_checked_add w tabskip)) (\<lambda>reduction.
                 obind (reduce_spans (records ! (index + 1)) reduction spans) (\<lambda>next_column.
                   Ok (records[index + 1 := next_column], zeros))))))"

text \<open>The column loop terminates although it can append columns: a step either consumes a column or takes
  a nonempty span chain and passes it on with smaller keys.\<close>

definition span_weight :: "ColumnRecord \<Rightarrow> nat" where
  "span_weight r = (\<Sum>(k, w) \<leftarrow> col_spans r. Suc k)"

lemma span_entry_weight: "(\<Sum>(k, w) \<leftarrow> span_entry xs k0 w0. Suc k) \<le> Suc k0 + (\<Sum>(k, w) \<leftarrow> xs. Suc k)"
  by (induction xs k0 w0 rule: span_entry.induct) auto

lemma merge_width_weight: "span_weight (merge_width r (k - 1) v) \<le> span_weight r + k"
  using span_entry_weight [of "col_spans r" "k - 1" v] by (auto simp: merge_width_def span_weight_def)

lemma reduce_spans_weight:
  "reduce_spans r red xs = Ok r' \<Longrightarrow> span_weight r' + length xs \<le> span_weight r + (\<Sum>(k, w) \<leftarrow> xs. Suc k)"
proof (induction xs arbitrary: r)
  case (Cons x xs)
  obtain k v where x: "x = (k, v)" by (cases x)
  from Cons.prems obtain v' where "reduce_spans (merge_width r (k - 1) v') red xs = Ok r'"
    by (auto simp: x outcome_simps)
  from Cons.IH [OF this] merge_width_weight [of r k v'] show ?case by (simp add: x)
qed simp

definition total_weight :: "ColumnRecord list \<Rightarrow> nat" where
  "total_weight records = sum_list (map span_weight records)"

lemma total_weight_update:
  "i < length rs \<Longrightarrow> total_weight (rs[i := r]) + span_weight (rs ! i) = total_weight rs + span_weight r"
  using member_le_sum_list [of "span_weight (rs ! i)" "map span_weight rs"]
  by (simp add: total_weight_def map_update sum_list_update)

lemma total_weight_ensure [simp]: "total_weight (ensure_columns rs n) = total_weight rs"
  by (simp add: total_weight_def ensure_columns_def span_weight_def column_default_def sum_list_replicate)

lemma length_ensure [simp]: "length (ensure_columns rs n) = max (length rs) n"
  by (simp add: ensure_columns_def)

lemma align_step_decreases:
  assumes "align_step tabs rs i zs = Ok (rs', zs')" and "i < length rs"
  shows "total_weight rs' < total_weight rs \<or> total_weight rs' = total_weight rs \<and> length rs' = length rs"
proof -
  define rs1 where "rs1 = (if col_width (rs ! i) = None then rs[i := (rs ! i)\<lparr>col_width := Some 0\<rparr>] else rs)"
  have rs1: "length rs1 = length rs" "col_spans (rs1 ! i) = col_spans (rs ! i)" "total_weight rs1 = total_weight rs"
    using assms(2) total_weight_update [of i rs "(rs ! i)\<lparr>col_width := Some 0\<rparr>"]
    by (auto simp: rs1_def span_weight_def)
  define rs2 where "rs2 = rs1[i := (rs1 ! i)\<lparr>col_spans := []\<rparr>]"
  have w2: "total_weight rs2 + span_weight (rs ! i) = total_weight rs"
    using total_weight_update [of i rs1 "(rs1 ! i)\<lparr>col_spans := []\<rparr>"] rs1 assms(2)
    by (simp add: rs2_def span_weight_def)
  show ?thesis
  proof (cases "col_spans (rs ! i) = []")
    case True
    then have "rs' = rs2" using assms(1) rs1(2) by (auto simp: align_step_def Let_def rs1_def rs2_def split: if_splits)
    with w2 True rs1 show ?thesis by (simp add: span_weight_def rs2_def)
  next
    case False
    let ?e = "ensure_columns rs2 (i + 2)"
    from assms(1) False rs1(2) obtain red nxt where
      red: "reduce_spans (?e ! (i + 1)) red (col_spans (rs ! i)) = Ok nxt" and rs': "rs' = ?e[i + 1 := nxt]"
      by (auto simp: align_step_def Let_def rs1_def rs2_def outcome_simps split: if_splits)
    have "total_weight rs' + span_weight (?e ! (i + 1)) = total_weight rs2 + span_weight nxt"
      using total_weight_update [of "i + 1" ?e nxt] by (simp add: rs')
    moreover have "span_weight nxt < span_weight (?e ! (i + 1)) + span_weight (rs ! i)"
      using reduce_spans_weight [OF red] False by (cases "col_spans (rs ! i)") (auto simp: span_weight_def)
    ultimately show ?thesis using w2 by linarith
  qed
qed

lemma obind_cong [fundef_cong]:
  "m = m' \<Longrightarrow> (\<And>a. m' = Ok a \<Longrightarrow> f a = g a) \<Longrightarrow> obind m f = obind m' g"
  by (cases m') auto

function align_loop :: "scaled list \<Rightarrow> ColumnRecord list \<Rightarrow> nat \<Rightarrow> nat list
    \<Rightarrow> (AlignmentPlanError, ColumnRecord list \<times> nat list) outcome" where
  "align_loop tabskip_widths records index zeros =
     (if index < length records
      then obind (align_step tabskip_widths records index zeros) (\<lambda>(records, zeros).
             align_loop tabskip_widths records (index + 1) zeros)
      else Ok (records, zeros))"
  by pat_completeness auto
termination
proof (relation "inv_image (less_than <*lex*> less_than)
    (\<lambda>(tabs, records, index, zeros). (total_weight records, length records - index))", goal_cases)
  case (2 tabs rs i zs r rs' zs')
  then show ?case using align_step_decreases [of tabs rs i zs rs' zs'] by auto
qed auto

declare align_loop.simps [simp del]

fun expect_all :: "ColumnRecord list \<Rightarrow> (AlignmentPlanError, scaled list) outcome" where
  "expect_all [] = Ok []"
| "expect_all (r # rs) = obind (expect_some (col_width r)) (\<lambda>w. obind (expect_all rs) (\<lambda>ws. Ok (w # ws)))"

definition plan_alignment_widths :: "nat \<Rightarrow> scaled list \<Rightarrow> AlignmentWidthRequirement list
    \<Rightarrow> (AlignmentPlanError, AlignmentWidthPlan) outcome" where
  "plan_alignment_widths declared_columns tabskip_widths requirements =
     (let records = foldl add_requirement (replicate declared_columns column_default) requirements
      in obind (align_loop tabskip_widths records 0 []) (\<lambda>(records, zeros).
         obind (expect_all records) (\<lambda>cs. Ok \<lparr>columns = cs, zero_tabskip_boundaries = zeros\<rparr>)))"

section \<open>Obligations of a column record\<close>

text \<open>A column record is a set of obligations \<open>(span, width)\<close> on the columns from it on.\<close>

definition obligations :: "ColumnRecord \<Rightarrow> (nat \<times> scaled) set" where
  "obligations r = (case col_width r of Some w \<Rightarrow> {(1, w)} | None \<Rightarrow> {}) \<union> set (col_spans r)"

definition long_spans :: "ColumnRecord \<Rightarrow> bool" where
  "long_spans r \<longleftrightarrow> (\<forall>(k, w) \<in> set (col_spans r). 2 \<le> k)"

text \<open>\<open>B\<close> imposes at least what \<open>A\<close> imposes.\<close>

definition dominated :: "(nat \<times> scaled) set \<Rightarrow> (nat \<times> scaled) set \<Rightarrow> bool" where
  "dominated A B \<longleftrightarrow> (\<forall>k w. (k, w) \<in> A \<longrightarrow> (\<exists>w'. w \<le> w' \<and> (k, w') \<in> B))"

lemma dominated_refl: "dominated A A"
  by (auto simp: dominated_def)

lemma dominated_trans: "dominated A B \<Longrightarrow> dominated B C \<Longrightarrow> dominated A C"
  unfolding dominated_def by (meson order_trans)

lemma dominated_Un: "dominated A C \<Longrightarrow> dominated B C \<Longrightarrow> dominated (A \<union> B) C"
  by (auto simp: dominated_def)

lemma dominated_mono: "A \<subseteq> A' \<Longrightarrow> dominated A' B \<Longrightarrow> dominated A B"
  by (auto simp: dominated_def)

lemma span_entry_sub: "set (span_entry xs k w) \<subseteq> insert (k, w) (set xs)"
  by (induction xs k w rule: span_entry.induct) (auto simp: max_def)

lemma span_entry_dominates: "dominated (insert (k, w) (set xs)) (set (span_entry xs k w))"
proof (induction xs k w rule: span_entry.induct)
  case (2 k old rest span width)
  show ?case
  proof (cases "span < k \<or> span = k")
    case True
    then show ?thesis
      by (auto simp: dominated_def intro: exI [of _ "max old width"])
  next
    case False
    with 2 show ?thesis by (auto simp: dominated_def)
  qed
qed (simp add: dominated_refl)

lemma merge_width_obligations:
  assumes "1 \<le> k"
  shows "obligations (merge_width r k w) \<subseteq> insert (k, w) (obligations r)"
    and "dominated (insert (k, w) (obligations r)) (obligations (merge_width r k w))"
    and "long_spans r \<Longrightarrow> long_spans (merge_width r k w)"
proof -
  show "obligations (merge_width r k w) \<subseteq> insert (k, w) (obligations r)"
    using assms span_entry_sub [of "col_spans r" k w] by (auto simp: merge_width_def obligations_def split: option.splits if_splits)
  show "long_spans r \<Longrightarrow> long_spans (merge_width r k w)"
    using span_entry_sub [of "col_spans r" k w] by (fastforce simp: merge_width_def long_spans_def)
  show "dominated (insert (k, w) (obligations r)) (obligations (merge_width r k w))"
  proof (cases "k \<le> 1")
    case True
    with assms have "k = 1" by simp
    then show ?thesis
      by (cases "col_width r") (auto simp: merge_width_def obligations_def dominated_def not_less intro: less_imp_le)
  next
    case False
    then show ?thesis using span_entry_dominates [of k w "col_spans r"]
      by (auto simp: merge_width_def obligations_def dominated_def)
  qed
qed

definition reduced :: "scaled \<Rightarrow> (nat \<times> scaled) list \<Rightarrow> (nat \<times> scaled) set" where
  "reduced red xs = (\<lambda>(k, w). (k - 1, w - red)) ` set xs"

lemma reduce_spans_obligations:
  assumes "reduce_spans r red xs = Ok r'" and "\<forall>(k, w) \<in> set xs. 2 \<le> k"
  shows "obligations r' \<subseteq> obligations r \<union> reduced red xs
    \<and> dominated (obligations r \<union> reduced red xs) (obligations r') \<and> (long_spans r \<longrightarrow> long_spans r')"
  using assms
proof (induction xs arbitrary: r)
  case Nil
  then show ?case by (simp add: reduced_def dominated_refl)
next
  case (Cons x xs)
  obtain k v where x: "x = (k, v)" by (cases x)
  with Cons.prems have run: "reduce_spans (merge_width r (k - 1) (v - red)) red xs = Ok r'" and k: "1 \<le> k - 1"
    by (auto simp: outcome_simps scaled_checked_sub_def)
  let ?m = "merge_width r (k - 1) (v - red)"
  note m = merge_width_obligations [OF k, where r = r and w = "v - red"]
  have ih: "obligations r' \<subseteq> obligations ?m \<union> reduced red xs"
    "dominated (obligations ?m \<union> reduced red xs) (obligations r')" "long_spans ?m \<longrightarrow> long_spans r'"
    using Cons.IH [OF run] Cons.prems(2) by auto
  have xs: "reduced red (x # xs) = insert (k - 1, v - red) (reduced red xs)" by (simp add: reduced_def x)
  have "dominated (obligations r \<union> reduced red (x # xs)) (obligations ?m \<union> reduced red xs)"
    using m(2) unfolding xs by (fastforce simp: dominated_def)
  with ih m xs show ?case using dominated_trans by blast
qed

section \<open>The column loop resolves the obligations\<close>

text \<open>The natural width of \<open>n\<close> columns from column \<open>c\<close> on, tabskips between them included.\<close>

fun extent :: "(nat \<Rightarrow> scaled) \<Rightarrow> (nat \<Rightarrow> scaled) \<Rightarrow> nat \<Rightarrow> nat \<Rightarrow> scaled" where
  "extent C T c 0 = 0"
| "extent C T c (Suc 0) = C c"
| "extent C T c (Suc (Suc n)) = C c + T (Suc c) + extent C T (Suc c) (Suc n)"

definition tab_at :: "scaled list \<Rightarrow> nat list \<Rightarrow> nat \<Rightarrow> scaled" where
  "tab_at tabs zeros j = (if j \<in> set zeros then 0 else tabs ! j)"

definition width_at :: "ColumnRecord list \<Rightarrow> nat \<Rightarrow> scaled" where
  "width_at rs j = (case col_width (rs ! j) of Some w \<Rightarrow> w | None \<Rightarrow> 0)"

lemma extent_unfold: "2 \<le> k \<Longrightarrow> extent C T c k = C c + T (Suc c) + extent C T (Suc c) (k - 1)"
proof -
  assume "2 \<le> k"
  then obtain n where "k = Suc (Suc n)" by (metis add_2_eq_Suc le_Suc_ex)
  then show ?thesis by simp
qed

definition obligations_at :: "ColumnRecord list \<Rightarrow> nat \<Rightarrow> (nat \<times> scaled) set" where
  "obligations_at rs j = (if j < length rs then obligations (rs ! j) else {})"

lemma obligations_default [simp]: "obligations column_default = {}"
  by (simp add: obligations_def column_default_def)

lemma ensure_columns_nth: "j < length (ensure_columns rs n) \<Longrightarrow>
    ensure_columns rs n ! j = (if j < length rs then rs ! j else column_default)"
  by (auto simp: ensure_columns_def nth_append)

lemma ensure_columns_long: "\<forall>r \<in> set rs. long_spans r \<Longrightarrow> \<forall>r \<in> set (ensure_columns rs n). long_spans r"
  by (auto simp: ensure_columns_def long_spans_def column_default_def)

lemma align_step_spec:
  assumes step: "align_step tabs rs i zs = Ok (rs', zs')" and i: "i < length rs"
    and long: "\<forall>r \<in> set rs. long_spans r" and zs: "\<forall>z \<in> set zs. z \<le> i"
  shows "zs' = (if col_width (rs ! i) = None then zs @ [i + 1] else zs)"
    and "length rs \<le> length rs' \<and> i + (if col_spans (rs ! i) = [] then 0 else 1) < length rs'"
    and "rs' ! i = \<lparr>col_width = Some (width_at rs i), col_spans = []\<rparr>"
    and "j < length rs' \<Longrightarrow> j \<noteq> i \<Longrightarrow> j \<noteq> i + 1 \<Longrightarrow> rs' ! j = (if j < length rs then rs ! j else column_default)"
    and "\<forall>r \<in> set rs'. long_spans r"
    and "obligations_at rs' (i + 1) \<subseteq> obligations_at rs (i + 1)
           \<union> reduced (width_at rs i + tab_at tabs zs' (i + 1)) (col_spans (rs ! i))"
    and "dominated (obligations_at rs (i + 1) \<union> reduced (width_at rs i + tab_at tabs zs' (i + 1)) (col_spans (rs ! i)))
           (obligations_at rs' (i + 1))"
proof -
  define spans where "spans = col_spans (rs ! i)"
  define rs1 where "rs1 = (if col_width (rs ! i) = None then rs[i := (rs ! i)\<lparr>col_width := Some 0\<rparr>] else rs)"
  define rs2 where "rs2 = rs1[i := (rs1 ! i)\<lparr>col_spans := []\<rparr>]"
  have rs2: "length rs2 = length rs" "rs2 ! i = \<lparr>col_width = Some (width_at rs i), col_spans = []\<rparr>"
    "\<And>j. j \<noteq> i \<Longrightarrow> rs2 ! j = rs ! j"
    using i by (auto simp: rs2_def rs1_def width_at_def split: option.splits)
  have long2: "\<forall>r \<in> set rs2. long_spans r"
  proof
    fix r
    assume "r \<in> set rs2"
    then obtain j where j: "j < length rs2" "r = rs2 ! j" by (auto simp: in_set_conv_nth)
    then show "long_spans r" using long rs2 by (cases "j = i") (auto simp: long_spans_def)
  qed
  have spans1: "col_spans (rs1 ! i) = spans" using i by (simp add: rs1_def spans_def)
  define zs1 where "zs1 = (if col_width (rs ! i) = None then zs @ [i + 1] else zs)"
  have step': "(if spans = [] then Ok (rs2, zs1)
     else obind (if zs1 \<noteq> [] \<and> last zs1 = i + 1 then Ok 0
                 else if i + 1 < length tabs then Ok (tabs ! (i + 1)) else Err (MissingTabskipBoundary (i + 1))) (\<lambda>tabskip.
          obind (expect_some (col_width (ensure_columns rs2 (i + 2) ! i))) (\<lambda>w.
          obind (ok_or AlArithmeticOverflow (scaled_checked_add w tabskip)) (\<lambda>reduction.
          obind (reduce_spans (ensure_columns rs2 (i + 2) ! (i + 1)) reduction spans) (\<lambda>next_column.
            Ok ((ensure_columns rs2 (i + 2))[i + 1 := next_column], zs1)))))) = Ok (rs', zs')"
    using step spans1 unfolding align_step_def Let_def rs2_def
    by (auto simp: rs1_def zs1_def split: if_splits)
  have last: "(zs1 \<noteq> [] \<and> last zs1 = i + 1) \<longleftrightarrow> i + 1 \<in> set zs1"
  proof (cases "col_width (rs ! i) = None")
    case False
    then have "zs1 = zs" by (simp add: zs1_def)
    moreover have "i + 1 \<notin> set zs" using zs by auto
    moreover have "last zs \<noteq> i + 1" if "zs \<noteq> []" using \<open>i + 1 \<notin> set zs\<close> last_in_set [OF that] by metis
    ultimately show ?thesis by blast
  qed (simp add: zs1_def)
  have spans_long: "\<forall>(k, w) \<in> set spans. 2 \<le> k" using long i by (auto simp: spans_def long_spans_def)
  have main: "zs' = zs1 \<and> length rs \<le> length rs' \<and> i + (if spans = [] then 0 else 1) < length rs'
      \<and> rs' ! i = \<lparr>col_width = Some (width_at rs i), col_spans = []\<rparr>
      \<and> (\<forall>j. j < length rs' \<longrightarrow> j \<noteq> i \<longrightarrow> j \<noteq> i + 1 \<longrightarrow> rs' ! j = (if j < length rs then rs ! j else column_default))
      \<and> (\<forall>r \<in> set rs'. long_spans r)
      \<and> obligations_at rs' (i + 1) \<subseteq> obligations_at rs (i + 1) \<union> reduced (width_at rs i + tab_at tabs zs1 (i + 1)) spans
      \<and> dominated (obligations_at rs (i + 1) \<union> reduced (width_at rs i + tab_at tabs zs1 (i + 1)) spans) (obligations_at rs' (i + 1))"
  proof (cases "spans = []")
    case True
    then have "rs' = rs2" "zs' = zs1" using step' by simp_all
    with True rs2 long2 i show ?thesis by (auto simp: reduced_def obligations_at_def dominated_refl)
  next
    case False
    let ?e = "ensure_columns rs2 (i + 2)"
    have e: "i + 1 < length ?e" "?e ! i = rs2 ! i" "?e ! (i + 1) = (if i + 1 < length rs then rs ! (i + 1) else column_default)"
      using i rs2 by (simp_all add: ensure_columns_nth)
    from step' False obtain tabskip nxt where
      tab: "(if zs1 \<noteq> [] \<and> last zs1 = i + 1 then Ok 0
                 else if i + 1 < length tabs then Ok (tabs ! (i + 1)) else Err (MissingTabskipBoundary (i + 1))) = Ok tabskip"
      and red: "reduce_spans (?e ! (i + 1)) (width_at rs i + tabskip) spans = Ok nxt"
      and rs': "rs' = ?e[i + 1 := nxt]" "zs' = zs1"
      unfolding e(2) rs2(2) by (auto simp: outcome_simps scaled_checked_add_def)
    have tabskip: "tabskip = tab_at tabs zs1 (i + 1)"
      using tab unfolding last by (auto simp: tab_at_def split: if_splits)
    have o: "obligations (?e ! (i + 1)) = obligations_at rs (i + 1)" using e(3) by (simp add: obligations_at_def)
    have elong: "\<forall>r \<in> set ?e. long_spans r" by (rule ensure_columns_long [OF long2])
    note r = reduce_spans_obligations [OF red spans_long, unfolded o tabskip]
    have nl: "long_spans nxt" using r elong e(1) by simp
    have "\<forall>r \<in> set rs'. long_spans r" using elong nl set_update_subset_insert [of ?e "i + 1" nxt] by (auto simp: rs')
    moreover have "obligations_at rs' (i + 1) = obligations nxt" using e(1) by (simp add: obligations_at_def rs')
    moreover have "\<forall>j. j < length rs' \<longrightarrow> j \<noteq> i \<longrightarrow> j \<noteq> i + 1 \<longrightarrow> rs' ! j = (if j < length rs then rs ! j else column_default)"
      using rs2 by (auto simp: rs' ensure_columns_nth)
    ultimately show ?thesis using r e rs2 False by (simp add: rs')
  qed
  show "zs' = (if col_width (rs ! i) = None then zs @ [i + 1] else zs)"
    using main by (simp add: zs1_def)
  show "length rs \<le> length rs' \<and> i + (if col_spans (rs ! i) = [] then 0 else 1) < length rs'"
    and "rs' ! i = \<lparr>col_width = Some (width_at rs i), col_spans = []\<rparr>"
    and "j < length rs' \<Longrightarrow> j \<noteq> i \<Longrightarrow> j \<noteq> i + 1 \<Longrightarrow> rs' ! j = (if j < length rs then rs ! j else column_default)"
    and "\<forall>r \<in> set rs'. long_spans r"
    and "obligations_at rs' (i + 1) \<subseteq> obligations_at rs (i + 1)
           \<union> reduced (width_at rs i + tab_at tabs zs' (i + 1)) (col_spans (rs ! i))"
    and "dominated (obligations_at rs (i + 1) \<union> reduced (width_at rs i + tab_at tabs zs' (i + 1)) (col_spans (rs ! i)))
           (obligations_at rs' (i + 1))"
    using main unfolding spans_def by blast+
qed

section \<open>Obligations through one step\<close>

definition meets :: "(nat \<Rightarrow> scaled) \<Rightarrow> (nat \<Rightarrow> scaled) \<Rightarrow> nat \<Rightarrow> (nat \<Rightarrow> (nat \<times> scaled) set) \<Rightarrow> bool" where
  "meets C T i A \<longleftrightarrow> (\<forall>j k w. i \<le> j \<longrightarrow> (k, w) \<in> A j \<longrightarrow> w \<le> extent C T j k)"

definition ends_at :: "nat \<Rightarrow> (nat \<Rightarrow> (nat \<times> scaled) set) \<Rightarrow> nat \<Rightarrow> bool" where
  "ends_at i A j \<longleftrightarrow> (\<exists>j0 k w. i \<le> j0 \<and> (k, w) \<in> A j0 \<and> j0 + k = j + 1)"

definition forced :: "(nat \<Rightarrow> scaled) \<Rightarrow> (nat \<Rightarrow> scaled) \<Rightarrow> nat \<Rightarrow> (nat \<Rightarrow> (nat \<times> scaled) set) \<Rightarrow> nat \<Rightarrow> bool" where
  "forced C T i A j \<longleftrightarrow> (\<exists>j0 k w. i \<le> j0 \<and> (k, w) \<in> A j0 \<and> j0 + k = j + 1 \<and> w = extent C T j0 k)"

text \<open>What resolving column \<open>i\<close> of width \<open>wd\<close> and span chain \<open>spans\<close> does to the obligations.\<close>

definition resolves :: "(nat \<Rightarrow> scaled) \<Rightarrow> (nat \<Rightarrow> scaled) \<Rightarrow> nat \<Rightarrow> scaled option \<Rightarrow> (nat \<times> scaled) list
    \<Rightarrow> (nat \<Rightarrow> (nat \<times> scaled) set) \<Rightarrow> (nat \<Rightarrow> (nat \<times> scaled) set) \<Rightarrow> bool" where
  "resolves C T i wd spans A A' \<longleftrightarrow>
     A i = (case wd of Some w \<Rightarrow> {(1, w)} | None \<Rightarrow> {}) \<union> set spans
   \<and> (\<forall>k w. (k, w) \<in> set spans \<longrightarrow> 2 \<le> k) \<and> C i = (case wd of Some w \<Rightarrow> w | None \<Rightarrow> 0)
   \<and> (\<forall>j > i. \<forall>k w. (k, w) \<in> A j \<longrightarrow> 1 \<le> k)
   \<and> (\<forall>j > i + 1. A' j = A j)
   \<and> A' (i + 1) \<subseteq> A (i + 1) \<union> reduced (C i + T (i + 1)) spans
   \<and> dominated (A (i + 1) \<union> reduced (C i + T (i + 1)) spans) (A' (i + 1))"

lemma resolvesD:
  assumes "resolves C T i wd spans A A'"
  shows "A i = (case wd of Some w \<Rightarrow> {(1, w)} | None \<Rightarrow> {}) \<union> set spans"
    and "(k, w) \<in> set spans \<Longrightarrow> 2 \<le> k" and "C i = (case wd of Some w \<Rightarrow> w | None \<Rightarrow> 0)"
    and "i < j \<Longrightarrow> (k, w) \<in> A j \<Longrightarrow> 1 \<le> k" and "i + 1 < j \<Longrightarrow> A' j = A j"
    and "A' (i + 1) \<subseteq> A (i + 1) \<union> reduced (C i + T (i + 1)) spans"
    and "dominated (A (i + 1) \<union> reduced (C i + T (i + 1)) spans) (A' (i + 1))"
  using assms unfolding resolves_def by blast+

lemma dominatedE:
  assumes "dominated A B" and "(k, w) \<in> A"
  obtains w' where "w \<le> w'" and "(k, w') \<in> B"
  using assms unfolding dominated_def by blast

lemma resolves_span_passed:
  assumes "resolves C T i wd spans A A'" and "(k, w) \<in> set spans"
  obtains w' where "w - (C i + T (i + 1)) \<le> w'" and "(k - 1, w') \<in> A' (i + 1)"
proof -
  have "(k - 1, w - (C i + T (i + 1))) \<in> reduced (C i + T (i + 1)) spans"
    using assms(2) by (force simp: reduced_def)
  then have "(k - 1, w - (C i + T (i + 1))) \<in> A (i + 1) \<union> reduced (C i + T (i + 1)) spans" by simp
  then show ?thesis by (rule dominatedE [OF resolvesD(7) [OF assms(1)]]) (rule that)
qed

lemma resolves_later:
  assumes "resolves C T i wd spans A A'" and "i < j" and "(k, w) \<in> A j"
  obtains w' where "w \<le> w'" and "(k, w') \<in> A' j"
proof (cases "j = i + 1")
  case True
  then have "(k, w) \<in> A (i + 1) \<union> reduced (C i + T (i + 1)) spans" using assms(3) by simp
  then show ?thesis by (rule dominatedE [OF resolvesD(7) [OF assms(1)]]) (use True in \<open>auto intro: that\<close>)
next
  case False
  then show ?thesis using assms(2,3) that [of w] resolvesD(5) [OF assms(1), of j] by simp
qed

lemma resolves_meets:
  assumes r: "resolves C T i wd spans A A'" and m: "meets C T (i + 1) A'"
  shows "meets C T i A"
  unfolding meets_def
proof (intro allI impI)
  fix j k w
  assume j: "i \<le> j" and o: "(k, w) \<in> A j"
  consider "j = i" "wd = Some w" "k = 1" | "j = i" "(k, w) \<in> set spans" | "i < j"
    using j o resolvesD(1) [OF r] by (cases "j = i") (auto split: option.splits)
  then show "w \<le> extent C T j k"
  proof cases
    case 1
    then show ?thesis using resolvesD(3) [OF r] by simp
  next
    case 2
    obtain w' where "w - (C i + T (i + 1)) \<le> w'" "(k - 1, w') \<in> A' (i + 1)"
      by (rule resolves_span_passed [OF r 2(2)])
    moreover from this m have "w' \<le> extent C T (i + 1) (k - 1)" by (auto simp: meets_def)
    moreover have "2 \<le> k" by (rule resolvesD(2) [OF r 2(2)])
    ultimately show ?thesis using 2(1) by (simp add: extent_unfold)
  next
    case 3
    obtain w' where "w \<le> w'" "(k, w') \<in> A' j" by (rule resolves_later [OF r 3 o])
    moreover have "w' \<le> extent C T j k" using m 3 \<open>(k, w') \<in> A' j\<close> by (simp add: meets_def)
    ultimately show ?thesis by linarith
  qed
qed

lemma resolves_ends:
  assumes r: "resolves C T i wd spans A A'" and "i < j" and "ends_at i A j"
  shows "ends_at (i + 1) A' j"
proof -
  obtain j0 k w where j0: "i \<le> j0" "(k, w) \<in> A j0" "j0 + k = j + 1" using assms(3) by (auto simp: ends_at_def)
  consider "j0 = i" "(k, w) \<in> set spans" | "i < j0"
    using j0 resolvesD(1) [OF r] assms(2) by (cases "j0 = i") (auto split: option.splits)
  then show ?thesis
  proof cases
    case 1
    obtain w' where "(k - 1, w') \<in> A' (i + 1)" by (rule resolves_span_passed [OF r 1(2)])
    moreover have "2 \<le> k" by (rule resolvesD(2) [OF r 1(2)])
    ultimately show ?thesis
      using j0 1 unfolding ends_at_def by (intro exI [of _ "i + 1"] exI [of _ "k - 1"] exI [of _ w']) auto
  next
    case 2
    obtain w' where "(k, w') \<in> A' j0" by (rule resolves_later [OF r 2 j0(2)])
    with j0 2 show ?thesis
      unfolding ends_at_def by (intro exI [of _ j0] exI [of _ k] exI [of _ w']) auto
  qed
qed

lemma resolves_forced:
  assumes r: "resolves C T i wd spans A A'" and "forced C T (i + 1) A' j"
  shows "forced C T i A j"
proof -
  obtain j0 k w where j0: "i + 1 \<le> j0" "(k, w) \<in> A' j0" "j0 + k = j + 1" "w = extent C T j0 k"
    using assms(2) by (auto simp: forced_def)
  show ?thesis
  proof (cases "(k, w) \<in> A j0")
    case True
    with j0 show ?thesis unfolding forced_def by (intro exI [of _ j0] exI [of _ k] exI [of _ w]) auto
  next
    case False
    have "j0 = i + 1" using False j0 resolvesD(5) [OF r, of j0] by (cases "j0 = i + 1") auto
    with False j0 resolvesD(6) [OF r] have "(k, w) \<in> reduced (C i + T (i + 1)) spans" by blast
    then obtain k0 w0 where k0: "(k0, w0) \<in> set spans" "k = k0 - 1" "w = w0 - (C i + T (i + 1))"
      by (auto simp: reduced_def)
    moreover have "2 \<le> k0" by (rule resolvesD(2) [OF r k0(1)])
    moreover have "(k0, w0) \<in> A i" using k0(1) resolvesD(1) [OF r] by simp
    ultimately show ?thesis
      using j0 \<open>j0 = i + 1\<close> unfolding forced_def
      by (intro exI [of _ i] exI [of _ k0] exI [of _ w0]) (auto simp: extent_unfold)
  qed
qed

lemma resolves_here:
  assumes "resolves C T i wd spans A A'"
  shows "wd = Some w \<Longrightarrow> forced C T i A i" and "wd = None \<Longrightarrow> \<not> ends_at i A i"
proof -
  show "wd = Some w \<Longrightarrow> forced C T i A i"
    unfolding forced_def by (intro exI [of _ i] exI [of _ 1] exI [of _ w]) (simp add: resolvesD(1,3) [OF assms])
  assume wd: "wd = None"
  show "\<not> ends_at i A i"
  proof
    assume "ends_at i A i"
    then obtain j0 k w where j0: "i \<le> j0" "(k, w) \<in> A j0" "j0 + k = i + 1" by (auto simp: ends_at_def)
    show False
    proof (cases "j0 = i")
      case True
      then have "(k, w) \<in> set spans" "k = 1" using j0 wd resolvesD(1) [OF assms] by simp_all
      then show False using resolvesD(2) [OF assms] by fastforce
    next
      case False
      then show False using j0 resolvesD(4) [OF assms, of j0 k w] by simp
    qed
  qed
qed

lemma obligation_key: "(k, w) \<in> obligations r \<Longrightarrow> long_spans r \<Longrightarrow> 1 \<le> k"
  by (force simp: obligations_def long_spans_def split: option.splits)

lemma align_step_resolves:
  assumes step: "align_step tabs rs i zs = Ok (rs', zs')" and i: "i < length rs"
    and long: "\<forall>r \<in> set rs. long_spans r" and zs: "\<forall>z \<in> set zs. z \<le> i"
    and C: "C i = width_at rs i" and T: "T (i + 1) = tab_at tabs zs' (i + 1)"
  shows "resolves C T i (col_width (rs ! i)) (col_spans (rs ! i)) (obligations_at rs) (obligations_at rs')"
proof -
  note s = align_step_spec [OF step i long zs]
  have "obligations_at rs' j = obligations_at rs j" if "i + 1 < j" for j
    using s(2) s(4) [of j] that by (auto simp: obligations_at_def)
  moreover have "\<forall>k w. (k, w) \<in> set (col_spans (rs ! i)) \<longrightarrow> 2 \<le> k"
    using long i by (auto simp: long_spans_def)
  moreover have "1 \<le> k" if "(k, w) \<in> obligations_at rs j" for j k w
    using that long obligation_key [of k w "rs ! j"] by (auto simp: obligations_at_def split: if_splits)
  moreover have "obligations_at rs i = (case col_width (rs ! i) of Some w \<Rightarrow> {(1, w)} | None \<Rightarrow> {}) \<union> set (col_spans (rs ! i))"
    using i by (simp add: obligations_at_def obligations_def)
  moreover have "C i = (case col_width (rs ! i) of Some w \<Rightarrow> w | None \<Rightarrow> 0)" using C by (simp add: width_at_def)
  ultimately show ?thesis
    unfolding resolves_def C T using s(6,7) C by auto
qed

definition resolved_column :: "(nat \<Rightarrow> scaled) \<Rightarrow> (nat \<Rightarrow> scaled) \<Rightarrow> nat list \<Rightarrow> nat
    \<Rightarrow> (nat \<Rightarrow> (nat \<times> scaled) set) \<Rightarrow> nat \<Rightarrow> bool" where
  "resolved_column C T zeros i A j \<longleftrightarrow>
     forced C T i A j \<or> C j = 0 \<and> j + 1 \<in> set zeros \<and> \<not> ends_at i A j"

text \<open>The final widths meet every obligation of the unresolved columns, and each of them is either forced
  by an obligation that ends there or an empty column whose following tabskip is dropped.\<close>

lemma align_loop_spec:
  assumes "align_loop tabs rs i zs = Ok (rs', zs')" and "i \<le> length rs"
    and "\<forall>r \<in> set rs. long_spans r" and "\<forall>z \<in> set zs. z \<le> i"
  defines "C \<equiv> width_at rs'" and "T \<equiv> tab_at tabs zs'"
  shows "(\<forall>j < i. rs' ! j = rs ! j) \<and> length rs \<le> length rs' \<and> (\<forall>z \<le> i. z \<in> set zs' \<longleftrightarrow> z \<in> set zs)
    \<and> meets C T i (obligations_at rs)
    \<and> (\<forall>j. i \<le> j \<and> j < length rs' \<longrightarrow> col_width (rs' ! j) \<noteq> None \<and> resolved_column C T zs' i (obligations_at rs) j)"
  using assms(1-4) unfolding C_def T_def
proof (induction tabs rs i zs rule: align_loop.induct)
  case (1 tabs rs i zs)
  let ?C = "width_at rs'" and ?T = "tab_at tabs zs'"
  show ?case
  proof (cases "i < length rs")
    case False
    with 1(2,3) have "rs' = rs" "zs' = zs" "i = length rs" by (simp_all add: align_loop.simps)
    then show ?thesis by (auto simp: obligations_at_def meets_def)
  next
    case True
    with 1(2) obtain rs1 zs1 where step: "align_step tabs rs i zs = Ok (rs1, zs1)"
      and loop: "align_loop tabs rs1 (i + 1) zs1 = Ok (rs', zs')"
      by (subst (asm) align_loop.simps) (auto simp: outcome_simps)
    note s = align_step_spec [OF step True 1(4,5)]
    have len: "i + 1 \<le> length rs1" and z1: "\<forall>z \<in> set zs1. z \<le> i + 1" using s(1,2) 1(5) by auto
    note ih = 1(1) [OF True step _ loop len s(5) z1]
    have C: "?C i = width_at rs i" using ih s(3) by (simp add: width_at_def)
    have T: "?T (i + 1) = tab_at tabs zs1 (i + 1)" using ih by (simp add: tab_at_def)
    note r = align_step_resolves [OF step True 1(4,5), of ?C ?T, OF C T]
    have pre: "\<forall>j < i. rs' ! j = rs ! j" "length rs \<le> length rs'" "\<forall>z \<le> i. z \<in> set zs' \<longleftrightarrow> z \<in> set zs"
      using ih s(1,2) s(4) True by auto
    have cols: "col_width (rs' ! j) \<noteq> None \<and> resolved_column ?C ?T zs' i (obligations_at rs) j"
      if j: "i \<le> j" "j < length rs'" for j
    proof (cases "j = i")
      case True
      have "rs' ! i = \<lparr>col_width = Some (width_at rs i), col_spans = []\<rparr>" using ih s(3) by simp
      moreover have "i + 1 \<in> set zs'" if "col_width (rs ! i) = None" using that ih s(1) by simp
      moreover have "?C i = 0" if "col_width (rs ! i) = None" using that C by (simp add: width_at_def)
      ultimately show ?thesis
        using True resolves_here [OF r] by (cases "col_width (rs ! i)") (auto simp: resolved_column_def)
    next
      case False
      with j have "i + 1 \<le> j \<and> j < length rs'" by simp
      with ih have *: "col_width (rs' ! j) \<noteq> None \<and> resolved_column ?C ?T zs' (i + 1) (obligations_at rs1) j" by blast
      then show ?thesis
        using resolves_forced [OF r, of j] resolves_ends [OF r, of j] \<open>i \<le> j\<close> False
        unfolding resolved_column_def by (metis le_neq_implies_less)
    qed
    show ?thesis using pre cols resolves_meets [OF r] ih by blast
  qed
qed

lemma dominated_insert: "dominated A B \<Longrightarrow> dominated (insert p A) (insert p B)"
  unfolding dominated_def by (metis insert_iff order_refl)

section \<open>Planning\<close>

text \<open>The obligations a requirement list places on a column.\<close>

definition requested :: "AlignmentWidthRequirement list \<Rightarrow> nat \<Rightarrow> (nat \<times> scaled) set" where
  "requested qs j = {(max (req_span q) 1, req_width q) | q. q \<in> set qs \<and> first_column q = j}"

lemma requested_snoc:
  "requested (qs @ [q]) j = requested qs j \<union> (if first_column q = j then {(max (req_span q) 1, req_width q)} else {})"
  by (auto simp: requested_def)

lemma add_requirement_length: "length (add_requirement rs q) = max (length rs) (first_column q + max (req_span q) 1)"
  by (simp add: add_requirement_def Let_def)

lemma add_requirement_spec:
  assumes "\<forall>r \<in> set rs. long_spans r"
  shows "\<forall>r \<in> set (add_requirement rs q). long_spans r"
    and "j \<noteq> first_column q \<Longrightarrow> obligations_at (add_requirement rs q) j = obligations_at rs j"
    and "obligations_at (add_requirement rs q) (first_column q)
           \<subseteq> insert (max (req_span q) 1, req_width q) (obligations_at rs (first_column q))"
    and "dominated (insert (max (req_span q) 1, req_width q) (obligations_at rs (first_column q)))
           (obligations_at (add_requirement rs q) (first_column q))"
proof -
  let ?c = "first_column q" and ?k = "max (req_span q) 1"
  let ?e = "ensure_columns rs (?c + ?k)"
  have c: "?c < length ?e" by simp
  have k: "1 \<le> ?k" by simp
  have elong: "\<forall>r \<in> set ?e. long_spans r" by (rule ensure_columns_long [OF assms])
  have eo: "obligations_at ?e i = obligations_at rs i" for i
    by (auto simp: obligations_at_def ensure_columns_nth)
  have at: "obligations_at (add_requirement rs q) ?c = obligations (merge_width (?e ! ?c) ?k (req_width q))"
    using c by (simp only: obligations_at_def add_requirement_def Let_def length_list_update nth_list_update_eq if_True)
  have old: "obligations (?e ! ?c) = obligations_at rs ?c" using eo [of ?c] c by (simp add: obligations_at_def)
  note m = merge_width_obligations [OF k, where r = "?e ! ?c" and w = "req_width q"]
  show "\<forall>r \<in> set (add_requirement rs q). long_spans r"
    using elong m(3) c set_update_subset_insert [of ?e ?c "merge_width (?e ! ?c) ?k (req_width q)"]
    by (auto simp: add_requirement_def Let_def)
  show "j \<noteq> ?c \<Longrightarrow> obligations_at (add_requirement rs q) j = obligations_at rs j"
    unfolding eo [of j, symmetric] by (simp add: obligations_at_def add_requirement_def Let_def)
  show "obligations_at (add_requirement rs q) ?c \<subseteq> insert (?k, req_width q) (obligations_at rs ?c)"
    using m(1) unfolding at old .
  show "dominated (insert (?k, req_width q) (obligations_at rs ?c)) (obligations_at (add_requirement rs q) ?c)"
    using m(2) unfolding at old .
qed

lemma collect_requirements:
  fixes n :: nat and qs :: "AlignmentWidthRequirement list"
  defines "rs \<equiv> foldl add_requirement (replicate n column_default) qs"
  shows "(\<forall>r \<in> set rs. long_spans r) \<and> n \<le> length rs
    \<and> (\<forall>q \<in> set qs. first_column q + max (req_span q) 1 \<le> length rs)
    \<and> (\<forall>j. obligations_at rs j \<subseteq> requested qs j \<and> dominated (requested qs j) (obligations_at rs j))"
  unfolding rs_def
proof (induction qs rule: rev_induct)
  case Nil
  show ?case by (auto simp: long_spans_def column_default_def obligations_at_def requested_def dominated_def obligations_def)
next
  case (snoc q qs)
  let ?rs = "foldl add_requirement (replicate n column_default) qs" and ?rs' = "foldl add_requirement (replicate n column_default) (qs @ [q])"
  have rs': "?rs' = add_requirement ?rs q" by simp
  note s = add_requirement_spec [where rs = ?rs and q = q, OF conjunct1 [OF snoc.IH], folded rs']
  have "obligations_at ?rs' j \<subseteq> requested (qs @ [q]) j \<and> dominated (requested (qs @ [q]) j) (obligations_at ?rs' j)" for j
  proof (cases "j = first_column q")
    case True
    let ?p = "(max (req_span q) 1, req_width q)"
    have ih: "obligations_at ?rs j \<subseteq> requested qs j" "dominated (requested qs j) (obligations_at ?rs j)"
      using snoc.IH by blast+
    have new: "requested (qs @ [q]) j = insert ?p (requested qs j)" using True by (simp add: requested_snoc)
    have "dominated (requested (qs @ [q]) j) (obligations_at ?rs' j)"
      unfolding new by (rule dominated_trans [OF dominated_insert [OF ih(2)] s(4) [folded True]])
    moreover have "obligations_at ?rs' j \<subseteq> requested (qs @ [q]) j"
      unfolding new by (rule order_trans [OF s(3) [folded True] insert_mono [OF ih(1)]])
    ultimately show ?thesis by blast
  next
    case False
    then show ?thesis using s(2) [of j] snoc.IH by (simp add: requested_snoc)
  qed
  moreover have "n \<le> length ?rs' \<and> (\<forall>q \<in> set (qs @ [q]). first_column q + max (req_span q) 1 \<le> length ?rs')"
    using snoc.IH unfolding rs' add_requirement_length by auto
  ultimately show ?case using s(1) by blast
qed

lemma expect_all_widths:
  "\<forall>r \<in> set rs. col_width r \<noteq> None \<Longrightarrow> expect_all rs = Ok (map (width_at rs) [0..<length rs])"
proof -
  assume *: "\<forall>r \<in> set rs. col_width r \<noteq> None"
  define w where "w r = (case col_width r of Some w \<Rightarrow> w | None \<Rightarrow> 0)" for r :: ColumnRecord
  have "expect_all rs = Ok (map w rs)"
    using * by (induction rs) (auto simp: w_def)
  moreover have "map (width_at rs) [0..<length rs] = map w rs"
    by (rule nth_equalityI) (simp_all add: width_at_def w_def)
  ultimately show ?thesis by simp
qed

lemma extent_cong: "(\<And>i. j \<le> i \<Longrightarrow> i < j + k \<Longrightarrow> C i = C' i) \<Longrightarrow> extent C T j k = extent C' T j k"
  by (induction C T j k rule: extent.induct) auto




lemma align_loop_widths:
  assumes loop: "align_loop tabs (foldl add_requirement (replicate n column_default) qs) 0 [] = Ok (rs', zs')"
  shows "\<forall>r \<in> set rs'. col_width r \<noteq> None"
proof
  fix r
  assume "r \<in> set rs'"
  then obtain j where "j < length rs'" "r = rs' ! j" by (auto simp: in_set_conv_nth)
  moreover have "col_width (rs' ! j) \<noteq> None" if "j < length rs'" for j
    using align_loop_spec [OF loop _ conjunct1 [OF collect_requirements]] that by simp
  ultimately show "col_width r \<noteq> None" by blast
qed

lemma meets_dominated:
  assumes "meets C T i B" and "\<And>j. dominated (A j) (B j)" shows "meets C T i A"
  unfolding meets_def
proof (intro allI impI)
  fix j k w
  assume "i \<le> j" and "(k, w) \<in> A j"
  moreover from this(2) assms(2) [of j] obtain w' where "w \<le> w'" "(k, w') \<in> B j" unfolding dominated_def by blast
  ultimately show "w \<le> extent C T j k" using assms(1) unfolding meets_def by (blast intro: order_trans)
qed

lemma resolved_column_dominated:
  assumes "resolved_column C T zs i B j" and "\<And>j. B j \<subseteq> A j" and dom: "\<And>j. dominated (A j) (B j)"
  shows "resolved_column C T zs i A j"
proof -
  have "ends_at i B j" if ends: "ends_at i A j"
  proof -
    from ends obtain j0 k w where "i \<le> j0" "(k, w) \<in> A j0" "j0 + k = j + 1" unfolding ends_at_def by blast
    moreover from this(2) dom [of j0] obtain w' where "(k, w') \<in> B j0" unfolding dominated_def by blast
    ultimately show ?thesis unfolding ends_at_def by blast
  qed
  moreover have "forced C T i A j" if "forced C T i B j"
    using that assms(2) unfolding forced_def by blast
  ultimately show ?thesis using assms(1) unfolding resolved_column_def by blast
qed

lemma planE:
  assumes plan: "plan_alignment_widths declared tabs qs = Ok plan"
  obtains rs where "columns plan = map (width_at rs) [0..<length rs]" and "declared \<le> length rs"
    and "\<forall>q \<in> set qs. first_column q + max (req_span q) 1 \<le> length rs"
    and "meets (width_at rs) (tab_at tabs (zero_tabskip_boundaries plan)) 0 (requested qs)"
    and "\<forall>j < length rs. resolved_column (width_at rs) (tab_at tabs (zero_tabskip_boundaries plan))
           (zero_tabskip_boundaries plan) 0 (requested qs) j"
proof -
  define rs0 where "rs0 = foldl add_requirement (replicate declared column_default) qs"
  obtain rs' where loop: "align_loop tabs rs0 0 [] = Ok (rs', zero_tabskip_boundaries plan)"
    and cs: "expect_all rs' = Ok (columns plan)"
    using plan by (auto simp: plan_alignment_widths_def Let_def outcome_simps rs0_def)
  note c = collect_requirements [of declared qs, folded rs0_def]
  have dom: "\<And>j. dominated (requested qs j) (obligations_at rs0 j)" "\<And>j. obligations_at rs0 j \<subseteq> requested qs j"
    using c by blast+
  have "0 \<le> length rs0" "\<forall>z \<in> set []. z \<le> (0::nat)" by simp_all
  note l = align_loop_spec [OF loop this(1) conjunct1 [OF c] this(2)]
  let ?T = "tab_at tabs (zero_tabskip_boundaries plan)"
  have meets: "meets (width_at rs') ?T 0 (obligations_at rs0)"
    and res: "\<And>j. j < length rs' \<Longrightarrow> resolved_column (width_at rs') ?T (zero_tabskip_boundaries plan) 0 (obligations_at rs0) j"
    and len: "length rs0 \<le> length rs'" using l by blast+
  show thesis
  proof (rule that [of rs'])
    show "columns plan = map (width_at rs') [0..<length rs']"
      using cs expect_all_widths [OF align_loop_widths [OF loop [unfolded rs0_def]]] by simp
    show "declared \<le> length rs'" using c len by linarith
    show "\<forall>q \<in> set qs. first_column q + max (req_span q) 1 \<le> length rs'"
      using c len by (blast intro: order_trans)
    show "meets (width_at rs') ?T 0 (requested qs)" by (rule meets_dominated [OF meets dom(1)])
    show "\<forall>j < length rs'. resolved_column (width_at rs') ?T (zero_tabskip_boundaries plan) 0 (requested qs) j"
      using resolved_column_dominated [OF res dom(2) dom(1)] by blast
  qed
qed


lemma plan_alignment_widths_solves:
  assumes plan: "plan_alignment_widths declared tabs qs = Ok plan"
  defines "C \<equiv> \<lambda>j. columns plan ! j" and "T \<equiv> tab_at tabs (zero_tabskip_boundaries plan)"
  shows "declared \<le> length (columns plan)"
    and "\<forall>q \<in> set qs. first_column q + max (req_span q) 1 \<le> length (columns plan)
           \<and> req_width q \<le> extent C T (first_column q) (max (req_span q) 1)"
    and "\<forall>j < length (columns plan).
           (\<exists>q \<in> set qs. first_column q + max (req_span q) 1 = j + 1
              \<and> req_width q = extent C T (first_column q) (max (req_span q) 1))
           \<or> C j = 0 \<and> j + 1 \<in> set (zero_tabskip_boundaries plan)
             \<and> (\<forall>q \<in> set qs. first_column q + max (req_span q) 1 \<noteq> j + 1)"
proof -
  obtain rs where cols: "columns plan = map (width_at rs) [0..<length rs]" and n: "declared \<le> length rs"
    and fit: "\<forall>q \<in> set qs. first_column q + max (req_span q) 1 \<le> length rs"
    and meets: "meets (width_at rs) T 0 (requested qs)"
    and res: "\<forall>j < length rs. resolved_column (width_at rs) T (zero_tabskip_boundaries plan) 0 (requested qs) j"
    by (rule planE [OF plan, folded T_def]) (rule that)
  have ext: "extent (width_at rs) T j k = extent C T j k" if "j + k \<le> length rs" for j k
    using that by (intro extent_cong) (simp add: C_def cols)
  have req: "(max (req_span q) 1, req_width q) \<in> requested qs (first_column q)" if "q \<in> set qs" for q
    using that by (auto simp: requested_def)
  show "declared \<le> length (columns plan)" using n by (simp add: cols)
  show "\<forall>q \<in> set qs. first_column q + max (req_span q) 1 \<le> length (columns plan)
           \<and> req_width q \<le> extent C T (first_column q) (max (req_span q) 1)"
  proof
    fix q
    assume q: "q \<in> set qs"
    have "req_width q \<le> extent (width_at rs) T (first_column q) (max (req_span q) 1)"
      using meets req [OF q] unfolding meets_def by blast
    with fit q ext [OF bspec [OF fit q]] show "first_column q + max (req_span q) 1 \<le> length (columns plan)
           \<and> req_width q \<le> extent C T (first_column q) (max (req_span q) 1)" by (simp add: cols)
  qed
  show "\<forall>j < length (columns plan).
           (\<exists>q \<in> set qs. first_column q + max (req_span q) 1 = j + 1
              \<and> req_width q = extent C T (first_column q) (max (req_span q) 1))
           \<or> C j = 0 \<and> j + 1 \<in> set (zero_tabskip_boundaries plan)
             \<and> (\<forall>q \<in> set qs. first_column q + max (req_span q) 1 \<noteq> j + 1)"
  proof (intro allI impI)
    fix j
    assume "j < length (columns plan)"
    then have j: "j < length rs" by (simp add: cols)
    have "\<exists>q \<in> set qs. first_column q + max (req_span q) 1 = j + 1
              \<and> req_width q = extent C T (first_column q) (max (req_span q) 1)"
      if "forced (width_at rs) T 0 (requested qs) j"
    proof -
      from that obtain q where "q \<in> set qs" "first_column q + max (req_span q) 1 = j + 1"
        "req_width q = extent (width_at rs) T (first_column q) (max (req_span q) 1)"
        by (auto simp: forced_def requested_def)
      with ext [OF bspec [OF fit, of q]] show ?thesis by auto
    qed
    moreover have "ends_at 0 (requested qs) j" if "q \<in> set qs" "first_column q + max (req_span q) 1 = j + 1" for q
      using req [OF that(1)] that(2) unfolding ends_at_def by blast
    moreover have Cj: "C j = width_at rs j" using j by (simp add: C_def cols)
    moreover have "forced (width_at rs) T 0 (requested qs) j
        \<or> width_at rs j = 0 \<and> j + 1 \<in> set (zero_tabskip_boundaries plan) \<and> \<not> ends_at 0 (requested qs) j"
      using res j unfolding resolved_column_def by blast
    ultimately show "(\<exists>q \<in> set qs. first_column q + max (req_span q) 1 = j + 1
              \<and> req_width q = extent C T (first_column q) (max (req_span q) 1))
           \<or> C j = 0 \<and> j + 1 \<in> set (zero_tabskip_boundaries plan)
             \<and> (\<forall>q \<in> set qs. first_column q + max (req_span q) 1 \<noteq> j + 1)"
      unfolding Cj by blast
  qed
qed

text \<open>C35. The planned widths solve the alignment: every cell requirement, spanning or not, fits in the columns
  it covers together with the tabskip between them (a boundary after an empty column counts as zero), and no
  column is wider than needed: each is either made tight by a requirement that ends at it, or it is an empty
  column of width zero at which no requirement ends and whose following tabskip boundary is dropped.\<close>

theorem plan_alignment_widths_exact:
  assumes "plan_alignment_widths declared tabs qs = Ok plan"
  shows "let C = \<lambda>j. columns plan ! j; T = tab_at tabs (zero_tabskip_boundaries plan) in
      declared \<le> length (columns plan)
    \<and> (\<forall>q \<in> set qs. first_column q + max (req_span q) 1 \<le> length (columns plan)
         \<and> req_width q \<le> extent C T (first_column q) (max (req_span q) 1))
    \<and> (\<forall>j < length (columns plan).
         (\<exists>q \<in> set qs. first_column q + max (req_span q) 1 = j + 1
            \<and> req_width q = extent C T (first_column q) (max (req_span q) 1))
         \<or> C j = 0 \<and> j + 1 \<in> set (zero_tabskip_boundaries plan)
           \<and> (\<forall>q \<in> set qs. first_column q + max (req_span q) 1 \<noteq> j + 1))"
  unfolding Let_def using plan_alignment_widths_solves [OF assms] by (intro conjI) assumption+

theorem plan_alignment_widths_exact_witness:
  "let qs = [\<lparr>first_column = 0, req_span = 1, req_width = 5\<rparr>, \<lparr>first_column = 0, req_span = 2, req_width = 20\<rparr>,
             \<lparr>first_column = 2, req_span = 1, req_width = 7\<rparr>];
       plan = \<lparr>columns = [5, 12, 7], zero_tabskip_boundaries = []\<rparr>
   in plan_alignment_widths 2 [0, 3, 3] qs = Ok plan
      \<and> (\<forall>q \<in> set qs. req_width q \<le> extent (\<lambda>j. columns plan ! j) (tab_at [0, 3, 3] []) (first_column q) (max (req_span q) 1))"
proof -
  have "plan_alignment_widths 2 [0, 3, 3] [\<lparr>first_column = 0, req_span = 1, req_width = 5\<rparr>, \<lparr>first_column = 0, req_span = 2, req_width = 20\<rparr>,
             \<lparr>first_column = 2, req_span = 1, req_width = 7\<rparr>] = Ok \<lparr>columns = [5, 12, 7], zero_tabskip_boundaries = []\<rparr>"
    by code_simp
  from this plan_alignment_widths_exact [OF this] show ?thesis by (simp add: Let_def)
qed

end
