(* ===== verification/Node_Ops.thy ===== *)
theory Node_Ops
  imports Node_Model "HOL-Library.State_Monad"
begin

text \<open>
  The structural operations of \<^verbatim>\<open>crates/tex-state/src/node.rs\<close>, \<^verbatim>\<open>math.rs\<close> and \<^verbatim>\<open>node_view/view.rs\<close>:
  rewriting and visiting child lists, glue and token payloads, semantic equality, the erasure of diagnostic
  sidecars, kinds and memory sizes. A closure that the source takes as \<open>FnMut\<close> and that returns a value is a
  function into the state monad, so that the order of its calls is part of the model; a visitor that
  returns nothing is the list of what it is called on, in order.
\<close>

section \<open>Rewriting child lists\<close>

definition box_map_lists :: "('l \<Rightarrow> ('s, 'm) state) \<Rightarrow> 'l BoxNode \<Rightarrow> ('s, 'm BoxNode) state" where
  "box_map_lists f b = do {
     c \<leftarrow> f (children b);
     dc \<leftarrow> (case diagnostic_children b of
             None \<Rightarrow> State_Monad.return None
           | Some x \<Rightarrow> do { y \<leftarrow> f x; State_Monad.return (Some y) });
     State_Monad.return (BoxNode (box_width b) (box_height b) (box_depth b) (box_shift b) (box_lr b) (glue_set b)
       (glue_sign b) (glue_order b) c dc (allocator_high_cell_overlap b)) }"

definition unset_map_list :: "('l \<Rightarrow> ('s, 'm) state) \<Rightarrow> 'l UnsetNode \<Rightarrow> ('s, 'm UnsetNode) state" where
  "unset_map_list f u = do {
     c \<leftarrow> f (unset_children u);
     State_Monad.return (UnsetNode (unset_kind u) (unset_width u) (unset_height u) (unset_depth u) (span_count u)
       (unset_stretch u) (unset_stretch_order u) (unset_shrink u) (unset_shrink_order u) c) }"

fun leader_map_lists :: "('l \<Rightarrow> ('s, 'm) state) \<Rightarrow> 'l LeaderPayload \<Rightarrow> ('s, 'm LeaderPayload) state" where
  "leader_map_lists f (LeaderHList b) = do { b \<leftarrow> box_map_lists f b; State_Monad.return (LeaderHList b) }"
| "leader_map_lists f (LeaderVList b) = do { b \<leftarrow> box_map_lists f b; State_Monad.return (LeaderVList b) }"
| "leader_map_lists f (LeaderRule w h d) = State_Monad.return (LeaderRule w h d)"

fun field_map_list :: "('l \<Rightarrow> ('s, 'm) state) \<Rightarrow> 'l MathField \<Rightarrow> ('s, 'm MathField) state" where
  "field_map_list f FieldEmpty = State_Monad.return FieldEmpty"
| "field_map_list f (FieldMathChar c) = State_Monad.return (FieldMathChar c)"
| "field_map_list f (FieldMathTextChar c) = State_Monad.return (FieldMathTextChar c)"
| "field_map_list f (FieldSubBox l) = do { l \<leftarrow> f l; State_Monad.return (FieldSubBox l) }"
| "field_map_list f (FieldSubMlist l) = do { l \<leftarrow> f l; State_Monad.return (FieldSubMlist l) }"

definition noad_map_lists :: "('l \<Rightarrow> ('s, 'm) state) \<Rightarrow> 'l MathNoad \<Rightarrow> ('s, 'm MathNoad) state" where
  "noad_map_lists f n = do {
     nu \<leftarrow> field_map_list f (noad_nucleus n);
     sb \<leftarrow> field_map_list f (noad_subscript n);
     sp \<leftarrow> field_map_list f (noad_superscript n);
     State_Monad.return (MkNoad (noad_kind n) nu sb sp) }"

definition fraction_map_lists :: "('l \<Rightarrow> ('s, 'm) state) \<Rightarrow> 'l MathFraction \<Rightarrow> ('s, 'm MathFraction) state" where
  "fraction_map_lists f x = do {
     n \<leftarrow> f (frac_numerator x);
     d \<leftarrow> f (frac_denominator x);
     State_Monad.return (MkFraction n d (frac_thickness x) (frac_left_delimiter x) (frac_right_delimiter x)) }"

definition choice_map_lists :: "('l \<Rightarrow> ('s, 'm) state) \<Rightarrow> 'l MathChoice \<Rightarrow> ('s, 'm MathChoice) state" where
  "choice_map_lists f x = do {
     d \<leftarrow> f (choice_display x);
     t \<leftarrow> f (choice_text x);
     s \<leftarrow> f (choice_script x);
     ss \<leftarrow> f (choice_script_script x);
     State_Monad.return (MkChoice d t s ss) }"

definition mathlist_map_list :: "('l \<Rightarrow> ('s, 'm) state) \<Rightarrow> 'l MathListNode \<Rightarrow> ('s, 'm MathListNode) state" where
  "mathlist_map_list f x = do { c \<leftarrow> f (mlist_content x); State_Monad.return (MkMathList (mlist_display x) c) }"

definition adjust_map_list :: "('l \<Rightarrow> ('s, 'm) state) \<Rightarrow> 'l AdjustNode \<Rightarrow> ('s, 'm AdjustNode) state" where
  "adjust_map_list f x = do { c \<leftarrow> f (adjust_content x); State_Monad.return (AdjustNode c (adjust_pre x)) }"

fun map_lists :: "('l \<Rightarrow> ('s, 'm) state) \<Rightarrow> ('l, 'g, 't) NodeOf \<Rightarrow> ('s, ('m, 'g, 't) NodeOf) state" where
  "map_lists f (CharNode font ch origin) = State_Monad.return (CharNode font ch origin)"
| "map_lists f (Lig font ch orig left_hit right_hit origins) =
     State_Monad.return (Lig font ch orig left_hit right_hit origins)"
| "map_lists f (Kern amount kind) = State_Monad.return (Kern amount kind)"
| "map_lists f (MarginKern amount side font ch) = State_Monad.return (MarginKern amount side font ch)"
| "map_lists f (Glue spec kind origin leader) = do {
     leader \<leftarrow> (case leader of
                 None \<Rightarrow> State_Monad.return None
               | Some v \<Rightarrow> do { v \<leftarrow> leader_map_lists f v; State_Monad.return (Some v) });
     State_Monad.return (Glue spec kind origin leader) }"
| "map_lists f (Penalty v) = State_Monad.return (Penalty v)"
| "map_lists f (Rule w h d) = State_Monad.return (Rule w h d)"
| "map_lists f (HList b) = do { b \<leftarrow> box_map_lists f b; State_Monad.return (HList b) }"
| "map_lists f (VList b) = do { b \<leftarrow> box_map_lists f b; State_Monad.return (VList b) }"
| "map_lists f (Unset u) = do { u \<leftarrow> unset_map_list f u; State_Monad.return (Unset u) }"
| "map_lists f (Disc kind pre post replace count) = do {
     pre \<leftarrow> f pre;
     post \<leftarrow> f post;
     replace \<leftarrow> f replace;
     State_Monad.return (Disc kind pre post replace count) }"
| "map_lists f (Mark class tokens) = State_Monad.return (Mark class tokens)"
| "map_lists f (Ins class sz skip max_depth pen content) = do {
     content \<leftarrow> f content;
     State_Monad.return (Ins class sz skip max_depth pen content) }"
| "map_lists f (WhatsitNode w) = State_Monad.return (WhatsitNode w)"
| "map_lists f (MathOn v) = State_Monad.return (MathOn v)"
| "map_lists f (MathOff v) = State_Monad.return (MathOff v)"
| "map_lists f (Direction v) = State_Monad.return (Direction v)"
| "map_lists f (MathNoad v) = do { v \<leftarrow> noad_map_lists f v; State_Monad.return (MathNoad v) }"
| "map_lists f (FractionNoad v) = do { v \<leftarrow> fraction_map_lists f v; State_Monad.return (FractionNoad v) }"
| "map_lists f (MathStyle v) = State_Monad.return (MathStyle v)"
| "map_lists f (MathChoice v) = do { v \<leftarrow> choice_map_lists f v; State_Monad.return (MathChoice v) }"
| "map_lists f (MathList v) = do { v \<leftarrow> mathlist_map_list f v; State_Monad.return (MathList v) }"
| "map_lists f Nonscript = State_Monad.return Nonscript"
| "map_lists f (Adjust v) = do { v \<leftarrow> adjust_map_list f v; State_Monad.return (Adjust v) }"

section \<open>Visiting child lists\<close>

fun field_lists :: "'l MathField \<Rightarrow> 'l list" where
  "field_lists (FieldSubBox l) = [l]"
| "field_lists (FieldSubMlist l) = [l]"
| "field_lists _ = []"

fun visit_semantic_node_lists :: "('l, 'g, 't) NodeOf \<Rightarrow> 'l list" where
  "visit_semantic_node_lists (HList b) = [children b]"
| "visit_semantic_node_lists (VList b) = [children b]"
| "visit_semantic_node_lists (Unset u) = [unset_children u]"
| "visit_semantic_node_lists (Glue spec kind origin leader) =
     (case leader of
        Some (LeaderHList b) \<Rightarrow> [children b]
      | Some (LeaderVList b) \<Rightarrow> [children b]
      | _ \<Rightarrow> [])"
| "visit_semantic_node_lists (Disc kind pre post replace count) = [pre, post, replace]"
| "visit_semantic_node_lists (Ins class sz skip max_depth pen content) = [content]"
| "visit_semantic_node_lists (MathNoad n) =
     field_lists (noad_nucleus n) @ field_lists (noad_subscript n) @ field_lists (noad_superscript n)"
| "visit_semantic_node_lists (FractionNoad x) = [frac_numerator x, frac_denominator x]"
| "visit_semantic_node_lists (MathChoice x) =
     [choice_display x, choice_text x, choice_script x, choice_script_script x]"
| "visit_semantic_node_lists (MathList x) = [mlist_content x]"
| "visit_semantic_node_lists (Adjust x) = [adjust_content x]"
| "visit_semantic_node_lists _ = []"

definition box_lists :: "'l BoxNode \<Rightarrow> 'l list" where
  "box_lists b = children b # (case diagnostic_children b of None \<Rightarrow> [] | Some l \<Rightarrow> [l])"

fun visit_node_lists :: "('l, 'g, 't) NodeOf \<Rightarrow> 'l list" where
  "visit_node_lists (HList b) = box_lists b"
| "visit_node_lists (VList b) = box_lists b"
| "visit_node_lists (Unset u) = [unset_children u]"
| "visit_node_lists (Glue spec kind origin leader) =
     (case leader of
        Some (LeaderHList b) \<Rightarrow> box_lists b
      | Some (LeaderVList b) \<Rightarrow> box_lists b
      | _ \<Rightarrow> [])"
| "visit_node_lists (Disc kind pre post replace count) = [pre, post, replace]"
| "visit_node_lists (Ins class sz skip max_depth pen content) = [content]"
| "visit_node_lists (MathNoad n) =
     field_lists (noad_nucleus n) @ field_lists (noad_subscript n) @ field_lists (noad_superscript n)"
| "visit_node_lists (FractionNoad x) = [frac_numerator x, frac_denominator x]"
| "visit_node_lists (MathChoice x) =
     [choice_display x, choice_text x, choice_script x, choice_script_script x]"
| "visit_node_lists (MathList x) = [mlist_content x]"
| "visit_node_lists (Adjust x) = [adjust_content x]"
| "visit_node_lists _ = []"

text \<open>The in-place visitor; a closure on \<open>&mut List\<close> returns the new handle.\<close>

fun field_visit_mut :: "('l \<Rightarrow> ('s, 'l) state) \<Rightarrow> 'l MathField \<Rightarrow> ('s, 'l MathField) state" where
  "field_visit_mut f (FieldSubBox l) = do { l \<leftarrow> f l; State_Monad.return (FieldSubBox l) }"
| "field_visit_mut f (FieldSubMlist l) = do { l \<leftarrow> f l; State_Monad.return (FieldSubMlist l) }"
| "field_visit_mut f field = State_Monad.return field"

fun box_visit_mut :: "('l \<Rightarrow> ('s, 'l) state) \<Rightarrow> 'l BoxNode \<Rightarrow> ('s, 'l BoxNode) state" where
  "box_visit_mut f (BoxNode w h d shift lr gs sign order kids dkids overlap) = do {
     kids \<leftarrow> f kids;
     dkids \<leftarrow> (case dkids of
                Some l \<Rightarrow> do { l \<leftarrow> f l; State_Monad.return (Some l) }
              | None \<Rightarrow> State_Monad.return None);
     State_Monad.return (BoxNode w h d shift lr gs sign order kids dkids overlap) }"

fun visit_node_lists_mut :: "('l \<Rightarrow> ('s, 'l) state) \<Rightarrow> ('l, 'g, 't) NodeOf \<Rightarrow> ('s, ('l, 'g, 't) NodeOf) state" where
  "visit_node_lists_mut f (HList b) = do { b \<leftarrow> box_visit_mut f b; State_Monad.return (HList b) }"
| "visit_node_lists_mut f (VList b) = do { b \<leftarrow> box_visit_mut f b; State_Monad.return (VList b) }"
| "visit_node_lists_mut f (Unset (UnsetNode k w h d sc st sto sh sho kids)) = do {
     kids \<leftarrow> f kids;
     State_Monad.return (Unset (UnsetNode k w h d sc st sto sh sho kids)) }"
| "visit_node_lists_mut f (Glue spec kind origin leader) =
     (case leader of
        Some (LeaderHList b) \<Rightarrow>
          do { b \<leftarrow> box_visit_mut f b; State_Monad.return (Glue spec kind origin (Some (LeaderHList b))) }
      | Some (LeaderVList b) \<Rightarrow>
          do { b \<leftarrow> box_visit_mut f b; State_Monad.return (Glue spec kind origin (Some (LeaderVList b))) }
      | _ \<Rightarrow> State_Monad.return (Glue spec kind origin leader))"
| "visit_node_lists_mut f (Disc kind pre post replace count) = do {
     pre \<leftarrow> f pre;
     post \<leftarrow> f post;
     replace \<leftarrow> f replace;
     State_Monad.return (Disc kind pre post replace count) }"
| "visit_node_lists_mut f (Ins class sz skip max_depth pen content) = do {
     content \<leftarrow> f content;
     State_Monad.return (Ins class sz skip max_depth pen content) }"
| "visit_node_lists_mut f (MathNoad (MkNoad kind nucleus subscr superscr)) = do {
     nucleus \<leftarrow> field_visit_mut f nucleus;
     subscr \<leftarrow> field_visit_mut f subscr;
     superscr \<leftarrow> field_visit_mut f superscr;
     State_Monad.return (MathNoad (MkNoad kind nucleus subscr superscr)) }"
| "visit_node_lists_mut f (FractionNoad (MkFraction num den th ld rd)) = do {
     num \<leftarrow> f num;
     den \<leftarrow> f den;
     State_Monad.return (FractionNoad (MkFraction num den th ld rd)) }"
| "visit_node_lists_mut f (MathChoice (MkChoice d t s ss)) = do {
     d \<leftarrow> f d;
     t \<leftarrow> f t;
     s \<leftarrow> f s;
     ss \<leftarrow> f ss;
     State_Monad.return (MathChoice (MkChoice d t s ss)) }"
| "visit_node_lists_mut f (MathList (MkMathList display content)) = do {
     content \<leftarrow> f content;
     State_Monad.return (MathList (MkMathList display content)) }"
| "visit_node_lists_mut f (Adjust (AdjustNode content pre)) = do {
     content \<leftarrow> f content;
     State_Monad.return (Adjust (AdjustNode content pre)) }"
| "visit_node_lists_mut f node = State_Monad.return node"

section \<open>Fonts and payloads\<close>

fun map_fonts :: "(FontId \<Rightarrow> ('s, FontId) state) \<Rightarrow> ('l, 'g, 't) NodeOf \<Rightarrow> ('s, ('l, 'g, 't) NodeOf) state" where
  "map_fonts f (CharNode font ch origin) = do { font \<leftarrow> f font; State_Monad.return (CharNode font ch origin) }"
| "map_fonts f (Lig font ch orig left_hit right_hit origins) =
     do { font \<leftarrow> f font; State_Monad.return (Lig font ch orig left_hit right_hit origins) }"
| "map_fonts f (MarginKern amount side font ch) =
     do { font \<leftarrow> f font; State_Monad.return (MarginKern amount side font ch) }"
| "map_fonts f node = State_Monad.return node"

fun visit_fonts :: "('l, 'g, 't) NodeOf \<Rightarrow> FontId list" where
  "visit_fonts (CharNode font ch origin) = [font]"
| "visit_fonts (Lig font ch orig left_hit right_hit origins) = [font]"
| "visit_fonts (MarginKern amount side font ch) = [font]"
| "visit_fonts _ = []"

text \<open>A payload visitor is called on glue and on tokens; a visit is recorded as a sum.\<close>

fun identifier_visit_tokens :: "'t NodePdfActionIdentifier \<Rightarrow> 't list" where
  "identifier_visit_tokens (ActionName tokens) = [tokens]"
| "identifier_visit_tokens (ActionRaw tokens) = [tokens]"
| "identifier_visit_tokens (ActionNumber n) = []"

fun identifier_map_tokens :: "('t \<Rightarrow> ('s, 'u) state) \<Rightarrow> 't NodePdfActionIdentifier \<Rightarrow> ('s, 'u NodePdfActionIdentifier) state" where
  "identifier_map_tokens f (ActionName tokens) = do { tokens \<leftarrow> f tokens; State_Monad.return (ActionName tokens) }"
| "identifier_map_tokens f (ActionNumber n) = State_Monad.return (ActionNumber n)"
| "identifier_map_tokens f (ActionRaw tokens) = do { tokens \<leftarrow> f tokens; State_Monad.return (ActionRaw tokens) }"

fun whatsit_visit_payloads :: "('g, 't) Whatsit \<Rightarrow> ('g + 't) list" where
  "whatsit_visit_payloads (DeferredWrite sink tokens) = [Inr tokens]"
| "whatsit_visit_payloads (DeferredSpecial class tokens) = [Inr tokens]"
| "whatsit_visit_payloads (DeferredPdfLiteral mode tokens) = [Inr tokens]"
| "whatsit_visit_payloads (PdfSnapY glue) = [Inl glue]"
| "whatsit_visit_payloads (PdfDestination d) = map Inr (identifier_visit_tokens (dest_identifier d))"
| "whatsit_visit_payloads (PdfThread t) =
     map Inr (identifier_visit_tokens (thread_identifier t)) @ [Inr (thread_attributes t)]"
| "whatsit_visit_payloads _ = []"

fun whatsit_map_payloads :: "('g \<Rightarrow> ('s, 'h) state) \<Rightarrow> ('t \<Rightarrow> ('s, 'u) state) \<Rightarrow> ('g, 't) Whatsit
    \<Rightarrow> ('s, ('h, 'u) Whatsit) state" where
  "whatsit_map_payloads mg mt (OpenOut slot path) = State_Monad.return (OpenOut slot path)"
| "whatsit_map_payloads mg mt (CloseOut slot) = State_Monad.return (CloseOut slot)"
| "whatsit_map_payloads mg mt (DeferredWrite sink tokens) =
     do { tokens \<leftarrow> mt tokens; State_Monad.return (DeferredWrite sink tokens) }"
| "whatsit_map_payloads mg mt (Special class payload) = State_Monad.return (Special class payload)"
| "whatsit_map_payloads mg mt (DeferredSpecial class tokens) =
     do { tokens \<leftarrow> mt tokens; State_Monad.return (DeferredSpecial class tokens) }"
| "whatsit_map_payloads mg mt (PdfReferenceObject object) = State_Monad.return (PdfReferenceObject object)"
| "whatsit_map_payloads mg mt (PdfAccessibility v) = State_Monad.return (PdfAccessibility v)"
| "whatsit_map_payloads mg mt (PdfAnnotation object) = State_Monad.return (PdfAnnotation object)"
| "whatsit_map_payloads mg mt (PdfLinkStart object) = State_Monad.return (PdfLinkStart object)"
| "whatsit_map_payloads mg mt (PdfLinkEnd object) = State_Monad.return (PdfLinkEnd object)"
| "whatsit_map_payloads mg mt (PdfRunningLink v) = State_Monad.return (PdfRunningLink v)"
| "whatsit_map_payloads mg mt (PdfLiteral mode payload) = State_Monad.return (PdfLiteral mode payload)"
| "whatsit_map_payloads mg mt (DeferredPdfLiteral mode tokens) =
     do { tokens \<leftarrow> mt tokens; State_Monad.return (DeferredPdfLiteral mode tokens) }"
| "whatsit_map_payloads mg mt (PdfSetMatrix payload) = State_Monad.return (PdfSetMatrix payload)"
| "whatsit_map_payloads mg mt PdfSave = State_Monad.return PdfSave"
| "whatsit_map_payloads mg mt PdfRestore = State_Monad.return PdfRestore"
| "whatsit_map_payloads mg mt (PdfColorStack sid action) = State_Monad.return (PdfColorStack sid action)"
| "whatsit_map_payloads mg mt PdfSavePos = State_Monad.return PdfSavePos"
| "whatsit_map_payloads mg mt PdfSnapRefPoint = State_Monad.return PdfSnapRefPoint"
| "whatsit_map_payloads mg mt (PdfSnapY glue) = do { glue \<leftarrow> mg glue; State_Monad.return (PdfSnapY glue) }"
| "whatsit_map_payloads mg mt (PdfSnapYComp ratio) = State_Monad.return (PdfSnapYComp ratio)"
| "whatsit_map_payloads mg mt (PdfRefXForm object w h d) = State_Monad.return (PdfRefXForm object w h d)"
| "whatsit_map_payloads mg mt (PdfRefXImage object w h d) = State_Monad.return (PdfRefXImage object w h d)"
| "whatsit_map_payloads mg mt (PdfDestination v) = do {
     i \<leftarrow> identifier_map_tokens mt (dest_identifier v);
     State_Monad.return (PdfDestination (PdfDestinationNode i (dest_structure v) (dest_kind v))) }"
| "whatsit_map_payloads mg mt (PdfThread v) = do {
     i \<leftarrow> identifier_map_tokens mt (thread_identifier v);
     attributes \<leftarrow> mt (thread_attributes v);
     State_Monad.return (PdfThread (PdfThreadNode i (thread_dimensions v) attributes (thread_running v))) }"
| "whatsit_map_payloads mg mt PdfEndThread = State_Monad.return PdfEndThread"
| "whatsit_map_payloads mg mt (Language language left_min right_min) =
     State_Monad.return (Language language left_min right_min)"

fun visit_payloads :: "('l, 'g, 't) NodeOf \<Rightarrow> ('g + 't) list" where
  "visit_payloads (Glue spec kind origin leader) = [Inl spec]"
| "visit_payloads (Mark class tokens) = [Inr tokens]"
| "visit_payloads (Ins class sz skip max_depth pen content) = [Inl skip]"
| "visit_payloads (WhatsitNode w) = whatsit_visit_payloads w"
| "visit_payloads _ = []"

fun map_payloads :: "('g \<Rightarrow> ('s, 'h) state) \<Rightarrow> ('t \<Rightarrow> ('s, 'u) state) \<Rightarrow> ('l, 'g, 't) NodeOf
    \<Rightarrow> ('s, ('l, 'h, 'u) NodeOf) state" where
  "map_payloads mg mt (CharNode font ch origin) = State_Monad.return (CharNode font ch origin)"
| "map_payloads mg mt (Lig font ch orig left_hit right_hit origins) =
     State_Monad.return (Lig font ch orig left_hit right_hit origins)"
| "map_payloads mg mt (Kern amount kind) = State_Monad.return (Kern amount kind)"
| "map_payloads mg mt (MarginKern amount side font ch) = State_Monad.return (MarginKern amount side font ch)"
| "map_payloads mg mt (Glue spec kind origin leader) =
     do { spec \<leftarrow> mg spec; State_Monad.return (Glue spec kind origin leader) }"
| "map_payloads mg mt (Penalty v) = State_Monad.return (Penalty v)"
| "map_payloads mg mt (Rule w h d) = State_Monad.return (Rule w h d)"
| "map_payloads mg mt (HList b) = State_Monad.return (HList b)"
| "map_payloads mg mt (VList b) = State_Monad.return (VList b)"
| "map_payloads mg mt (Unset u) = State_Monad.return (Unset u)"
| "map_payloads mg mt (Disc kind pre post replace count) = State_Monad.return (Disc kind pre post replace count)"
| "map_payloads mg mt (Mark class tokens) = do { tokens \<leftarrow> mt tokens; State_Monad.return (Mark class tokens) }"
| "map_payloads mg mt (Ins class sz skip max_depth pen content) =
     do { skip \<leftarrow> mg skip; State_Monad.return (Ins class sz skip max_depth pen content) }"
| "map_payloads mg mt (WhatsitNode w) = do { w \<leftarrow> whatsit_map_payloads mg mt w; State_Monad.return (WhatsitNode w) }"
| "map_payloads mg mt (MathOn v) = State_Monad.return (MathOn v)"
| "map_payloads mg mt (MathOff v) = State_Monad.return (MathOff v)"
| "map_payloads mg mt (Direction v) = State_Monad.return (Direction v)"
| "map_payloads mg mt (MathNoad v) = State_Monad.return (MathNoad v)"
| "map_payloads mg mt (FractionNoad v) = State_Monad.return (FractionNoad v)"
| "map_payloads mg mt (MathStyle v) = State_Monad.return (MathStyle v)"
| "map_payloads mg mt (MathChoice v) = State_Monad.return (MathChoice v)"
| "map_payloads mg mt (MathList v) = State_Monad.return (MathList v)"
| "map_payloads mg mt Nonscript = State_Monad.return Nonscript"
| "map_payloads mg mt (Adjust v) = State_Monad.return (Adjust v)"

text \<open>The closure sets \<open>missing\<close> when a coordinate does not resolve.\<close>

definition resolve_token :: "('k \<Rightarrow> 'w list option) \<Rightarrow> 'k \<Rightarrow> (bool, 'w list) state" where
  "resolve_token resolve key =
     (case resolve key of
        Some words \<Rightarrow> State_Monad.return words
      | None \<Rightarrow> do { _ \<leftarrow> State_Monad.set True; State_Monad.return [] })"

definition resolve_token_payloads :: "('k \<Rightarrow> 'w list option) \<Rightarrow> ('l, 'g, 'k) NodeOf
    \<Rightarrow> ('l, 'g, 'w list) NodeOf option" where
  "resolve_token_payloads resolve node =
     (let (resolved, missing) = run_state (map_payloads State_Monad.return (resolve_token resolve) node) False
      in if \<not> missing then Some resolved else None)"

section \<open>Semantic equality\<close>

definition mathchar_eq :: "MathChar \<Rightarrow> MathChar \<Rightarrow> bool" where
  "mathchar_eq a b \<longleftrightarrow> mc_family a = mc_family b \<and> mc_character a = mc_character b"

definition box_eq :: "'l BoxNode \<Rightarrow> 'l BoxNode \<Rightarrow> bool" where
  "box_eq a b \<longleftrightarrow> box_width a = box_width b \<and> box_height a = box_height b \<and> box_depth a = box_depth b
     \<and> box_shift a = box_shift b \<and> box_lr a = box_lr b \<and> glue_set a = glue_set b \<and> glue_sign a = glue_sign b
     \<and> glue_order a = glue_order b \<and> children a = children b"

text \<open>Derived equality of the payloads that contain a box or a math character.\<close>

fun leader_eq :: "'l LeaderPayload \<Rightarrow> 'l LeaderPayload \<Rightarrow> bool" where
  "leader_eq (LeaderHList a) (LeaderHList b) = box_eq a b"
| "leader_eq (LeaderVList a) (LeaderVList b) = box_eq a b"
| "leader_eq (LeaderRule w h d) (LeaderRule w' h' d') = (w = w' \<and> h = h' \<and> d = d')"
| "leader_eq _ _ = False"

definition field_eq :: "'l MathField \<Rightarrow> 'l MathField \<Rightarrow> bool" where
  "field_eq a b \<longleftrightarrow>
     (case a of
        FieldMathChar x \<Rightarrow> (case b of FieldMathChar y \<Rightarrow> mathchar_eq x y | _ \<Rightarrow> False)
      | FieldMathTextChar x \<Rightarrow> (case b of FieldMathTextChar y \<Rightarrow> mathchar_eq x y | _ \<Rightarrow> False)
      | _ \<Rightarrow> a = b)"

definition noad_kind_eq :: "NoadKind \<Rightarrow> NoadKind \<Rightarrow> bool" where
  "noad_kind_eq a b \<longleftrightarrow>
     (case a of NoadAccent x \<Rightarrow> (case b of NoadAccent y \<Rightarrow> mathchar_eq x y | _ \<Rightarrow> False) | _ \<Rightarrow> a = b)"

definition noad_eq :: "'l MathNoad \<Rightarrow> 'l MathNoad \<Rightarrow> bool" where
  "noad_eq a b \<longleftrightarrow> noad_kind_eq (noad_kind a) (noad_kind b) \<and> field_eq (noad_nucleus a) (noad_nucleus b)
     \<and> field_eq (noad_subscript a) (noad_subscript b) \<and> field_eq (noad_superscript a) (noad_superscript b)"

text \<open>The projection holds references; the types whose equality is not structural are its parameters, so
  that the derived equality of the projection is its relator.\<close>

datatype ('l, 'g, 't, 'box, 'leader, 'noad) SemanticNodeRef =
  SChar FontId nat
| SLig FontId nat "nat list" bool bool
| SKern scaled KernKind
| SMarginKern scaled MarginKernSide FontId byte
| SGlue 'g GlueKind GlueSpecOrigin "'leader option"
| SPenalty int
| SRule "scaled option" "scaled option" "scaled option"
| SHList 'box
| SVList 'box
| SUnset "'l UnsetNode"
| SDisc DiscKind 'l 'l 'l
| SMark u16 't
| SIns u16 scaled 'g scaled int 'l
| SWhatsit "('g, 't) Whatsit"
| SMathOn scaled
| SMathOff scaled
| SDirection MathBoundary
| SMathNoad 'noad
| SFractionNoad "'l MathFraction"
| SMathStyle MathStyle
| SMathChoice "'l MathChoice"
| SMathList "'l MathListNode"
| SNonscript
| SAdjust "'l AdjustNode"

type_synonym ('l, 'g, 't) semantic_ref_type =
  "('l, 'g, 't, 'l BoxNode, 'l LeaderPayload, 'l MathNoad) SemanticNodeRef"

fun semantic_ref :: "('l, 'g, 't) NodeOf \<Rightarrow> ('l, 'g, 't) semantic_ref_type" where
  "semantic_ref (CharNode font ch origin) = SChar font ch"
| "semantic_ref (Lig font ch orig left_hit right_hit origins) = SLig font ch orig left_hit right_hit"
| "semantic_ref (Kern amount kind) = SKern amount kind"
| "semantic_ref (MarginKern amount side font ch) = SMarginKern amount side font ch"
| "semantic_ref (Glue spec kind origin leader) = SGlue spec kind origin leader"
| "semantic_ref (Penalty v) = SPenalty v"
| "semantic_ref (Rule w h d) = SRule w h d"
| "semantic_ref (HList v) = SHList v"
| "semantic_ref (VList v) = SVList v"
| "semantic_ref (Unset v) = SUnset v"
| "semantic_ref (Disc kind pre post replace count) = SDisc kind pre post replace"
| "semantic_ref (Mark class tokens) = SMark class tokens"
| "semantic_ref (Ins class sz skip max_depth pen content) = SIns class sz skip max_depth pen content"
| "semantic_ref (WhatsitNode v) = SWhatsit v"
| "semantic_ref (MathOn v) = SMathOn v"
| "semantic_ref (MathOff v) = SMathOff v"
| "semantic_ref (Direction v) = SDirection v"
| "semantic_ref (MathNoad v) = SMathNoad v"
| "semantic_ref (FractionNoad v) = SFractionNoad v"
| "semantic_ref (MathStyle v) = SMathStyle v"
| "semantic_ref (MathChoice v) = SMathChoice v"
| "semantic_ref (MathList v) = SMathList v"
| "semantic_ref Nonscript = SNonscript"
| "semantic_ref (Adjust v) = SAdjust v"

definition node_eq :: "('l, 'g, 't) NodeOf \<Rightarrow> ('l, 'g, 't) NodeOf \<Rightarrow> bool" where
  "node_eq a b \<longleftrightarrow> rel_SemanticNodeRef (=) (=) (=) box_eq leader_eq noad_eq (semantic_ref a) (semantic_ref b)"

section \<open>Erasing diagnostic sidecars\<close>

definition box_erase :: "'l BoxNode \<Rightarrow> 'l BoxNode" where
  "box_erase b = BoxNode (box_width b) (box_height b) (box_depth b) (box_shift b) (box_lr b) (glue_set b)
     (glue_sign b) (glue_order b) (children b) None 0"

definition mathchar_erase :: "MathChar \<Rightarrow> MathChar" where
  "mathchar_erase c = MathCharacter (mc_family c) (mc_character c) ORIGIN_UNKNOWN"

fun erase_math_char :: "'l MathField \<Rightarrow> 'l MathField" where
  "erase_math_char (FieldMathChar c) = FieldMathChar (mathchar_erase c)"
| "erase_math_char (FieldMathTextChar c) = FieldMathTextChar (mathchar_erase c)"
| "erase_math_char field = field"

definition noad_erase :: "'l MathNoad \<Rightarrow> 'l MathNoad" where
  "noad_erase n = MkNoad
     (case noad_kind n of NoadAccent accent \<Rightarrow> NoadAccent (mathchar_erase accent) | k \<Rightarrow> k)
     (erase_math_char (noad_nucleus n)) (erase_math_char (noad_subscript n)) (erase_math_char (noad_superscript n))"

fun leader_erase :: "'l LeaderPayload \<Rightarrow> 'l LeaderPayload" where
  "leader_erase (LeaderHList b) = LeaderHList (box_erase b)"
| "leader_erase (LeaderVList b) = LeaderVList (box_erase b)"
| "leader_erase (LeaderRule w h d) = LeaderRule w h d"

fun erase_diagnostic_sidecars :: "('l, 'g, 't) NodeOf \<Rightarrow> ('l, 'g, 't) NodeOf" where
  "erase_diagnostic_sidecars (CharNode font ch origin) = CharNode font ch ORIGIN_UNKNOWN"
| "erase_diagnostic_sidecars (Lig font ch orig left_hit right_hit origins) = Lig font ch orig left_hit right_hit []"
| "erase_diagnostic_sidecars (HList b) = HList (box_erase b)"
| "erase_diagnostic_sidecars (VList b) = VList (box_erase b)"
| "erase_diagnostic_sidecars (Glue spec kind origin leader) = Glue spec kind origin (map_option leader_erase leader)"
| "erase_diagnostic_sidecars (Disc kind pre post replace count) = Disc kind pre post replace 0"
| "erase_diagnostic_sidecars (MathNoad n) = MathNoad (noad_erase n)"
| "erase_diagnostic_sidecars node = node"

section \<open>Kinds and memory sizes\<close>

datatype NodeKind =
  NKChar | NKLig | NKKern | NKMarginKern | NKGlue | NKPenalty | NKRule | NKHList | NKVList | NKUnset | NKDisc
| NKMark | NKIns | NKWhatsit | NKMathOn | NKMathOff | NKDirection | NKMathNoad | NKFractionNoad | NKMathStyle
| NKMathChoice | NKMathList | NKNonscript | NKAdjust

definition NodeKind_ALL :: "NodeKind list" where
  "NodeKind_ALL = [NKChar, NKLig, NKKern, NKMarginKern, NKGlue, NKPenalty, NKRule, NKHList, NKVList, NKUnset, NKDisc,
     NKMark, NKIns, NKWhatsit, NKMathOn, NKMathOff, NKDirection, NKMathNoad, NKFractionNoad, NKMathStyle,
     NKMathChoice, NKMathList, NKNonscript, NKAdjust]"

fun kind_etex_type :: "NodeKind \<Rightarrow> int" where
  "kind_etex_type NKChar = 0"
| "kind_etex_type NKHList = 1"
| "kind_etex_type NKVList = 2"
| "kind_etex_type NKRule = 3"
| "kind_etex_type NKIns = 4"
| "kind_etex_type NKMark = 5"
| "kind_etex_type NKAdjust = 6"
| "kind_etex_type NKLig = 7"
| "kind_etex_type NKDisc = 8"
| "kind_etex_type NKWhatsit = 9"
| "kind_etex_type NKMathOn = 10"
| "kind_etex_type NKMathOff = 10"
| "kind_etex_type NKDirection = 10"
| "kind_etex_type NKGlue = 11"
| "kind_etex_type NKNonscript = 11"
| "kind_etex_type NKKern = 12"
| "kind_etex_type NKMarginKern = 12"
| "kind_etex_type NKPenalty = 13"
| "kind_etex_type NKUnset = 14"
| "kind_etex_type NKMathNoad = 15"
| "kind_etex_type NKFractionNoad = 15"
| "kind_etex_type NKMathStyle = 15"
| "kind_etex_type NKMathChoice = 15"
| "kind_etex_type NKMathList = 15"

fun node_kind :: "('l, 'g, 't) NodeOf \<Rightarrow> NodeKind" where
  "node_kind (CharNode font ch origin) = NKChar"
| "node_kind (Lig font ch orig left_hit right_hit origins) = NKLig"
| "node_kind (Kern amount kind) = NKKern"
| "node_kind (MarginKern amount side font ch) = NKMarginKern"
| "node_kind (Glue spec kind origin leader) = NKGlue"
| "node_kind (Penalty v) = NKPenalty"
| "node_kind (Rule w h d) = NKRule"
| "node_kind (HList v) = NKHList"
| "node_kind (VList v) = NKVList"
| "node_kind (Unset v) = NKUnset"
| "node_kind (Disc kind pre post replace count) = NKDisc"
| "node_kind (Mark class tokens) = NKMark"
| "node_kind (Ins class sz skip max_depth pen content) = NKIns"
| "node_kind (WhatsitNode v) = NKWhatsit"
| "node_kind (MathOn v) = NKMathOn"
| "node_kind (MathOff v) = NKMathOff"
| "node_kind (Direction v) = NKDirection"
| "node_kind (MathNoad v) = NKMathNoad"
| "node_kind (FractionNoad v) = NKFractionNoad"
| "node_kind (MathStyle v) = NKMathStyle"
| "node_kind (MathChoice v) = NKMathChoice"
| "node_kind (MathList v) = NKMathList"
| "node_kind Nonscript = NKNonscript"
| "node_kind (Adjust v) = NKAdjust"

definition node_etex_type :: "('l, 'g, 't) NodeOf \<Rightarrow> int" where
  "node_etex_type n = kind_etex_type (node_kind n)"

fun tex_memory_words :: "('l, 'g, 't) NodeOf \<Rightarrow> bool \<Rightarrow> nat \<times> nat" where
  "tex_memory_words (CharNode font ch origin) etex = (0, 1)"
| "tex_memory_words (Lig font ch orig left_hit right_hit origins) etex = (2, length orig)"
| "tex_memory_words (HList b) etex = (7 + of_bool etex * 2, 0)"
| "tex_memory_words (VList b) etex = (7 + of_bool etex * 2, 0)"
| "tex_memory_words (Unset u) etex = (7 + of_bool etex * 2, 0)"
| "tex_memory_words (Rule w h d) etex = (4 + of_bool etex * 2, 0)"
| "tex_memory_words (Ins class sz skip max_depth pen content) etex = (5, 0)"
| "tex_memory_words (MathNoad noad) etex =
     ((case noad_kind noad of NoadRadical _ \<Rightarrow> 5 | NoadAccent _ \<Rightarrow> 5 | _ \<Rightarrow> 4), 0)"
| "tex_memory_words (FractionNoad v) etex = (6, 0)"
| "tex_memory_words (MathStyle v) etex = (3, 0)"
| "tex_memory_words (MathChoice v) etex = (3, 0)"
| "tex_memory_words (MarginKern amount side font ch) etex = (3, 0)"
| "tex_memory_words (Kern amount kind) etex = (2 + of_bool etex * 2, 0)"
| "tex_memory_words (Glue spec kind origin leader) etex = (2 + of_bool etex * 2, 0)"
| "tex_memory_words (Penalty v) etex = (2 + of_bool etex * 2, 0)"
| "tex_memory_words (MathOn v) etex = (2 + of_bool etex * 2, 0)"
| "tex_memory_words (MathOff v) etex = (2 + of_bool etex * 2, 0)"
| "tex_memory_words Nonscript etex = (2 + of_bool etex * 2, 0)"
| "tex_memory_words (Direction v) etex = ((if etex then 2 + of_bool etex * 2 else 2), 0)"
| "tex_memory_words (Disc kind pre post replace count) etex = (2, 0)"
| "tex_memory_words (Mark class tokens) etex = (2, 0)"
| "tex_memory_words (WhatsitNode v) etex = (2, 0)"
| "tex_memory_words (MathList v) etex = (2, 0)"
| "tex_memory_words (Adjust v) etex = (2, 0)"

section \<open>The same projections on the borrowed view\<close>

text \<open>\<open>from_owned\<close> moves a node into a view, \<open>to_owned\<close> copies it back.\<close>

fun view_from_owned :: "'l Node \<Rightarrow> 'l NodeView" where
  "view_from_owned (CharNode font ch origin) = VChar font ch origin"
| "view_from_owned (Lig font ch orig left_hit right_hit origins) = VLig font ch orig origins left_hit right_hit"
| "view_from_owned (Kern amount kind) = VKern amount kind"
| "view_from_owned (MarginKern amount side font ch) = VMarginKern amount side font ch"
| "view_from_owned (Glue spec kind origin leader) = VGlue spec kind origin leader"
| "view_from_owned (Penalty v) = VPenalty v"
| "view_from_owned (Rule w h d) = VRule w h d"
| "view_from_owned (HList v) = VHList v"
| "view_from_owned (VList v) = VVList v"
| "view_from_owned (Unset v) = VUnset v"
| "view_from_owned (Disc kind pre post replace count) = VDisc kind pre post replace count"
| "view_from_owned (Mark class tokens) = VMark class tokens"
| "view_from_owned (Ins class sz skip max_depth pen content) = VIns class sz skip max_depth pen content"
| "view_from_owned (WhatsitNode v) = VWhatsit v"
| "view_from_owned (MathOn v) = VMathOn v"
| "view_from_owned (MathOff v) = VMathOff v"
| "view_from_owned (Direction v) = VDirection v"
| "view_from_owned (MathNoad v) = VMathNoad v"
| "view_from_owned (FractionNoad v) = VFractionNoad v"
| "view_from_owned (MathStyle v) = VMathStyle v"
| "view_from_owned (MathChoice v) = VMathChoice v"
| "view_from_owned (MathList v) = VMathList v"
| "view_from_owned Nonscript = VNonscript"
| "view_from_owned (Adjust v) = VAdjust v"

fun view_to_owned :: "'l NodeView \<Rightarrow> 'l Node" where
  "view_to_owned (VChar font ch origin) = CharNode font ch origin"
| "view_to_owned (VLig font ch orig origins left_hit right_hit) = Lig font ch orig left_hit right_hit origins"
| "view_to_owned (VKern amount kind) = Kern amount kind"
| "view_to_owned (VMarginKern amount side font ch) = MarginKern amount side font ch"
| "view_to_owned (VGlue spec kind origin leader) = Glue spec kind origin leader"
| "view_to_owned (VPenalty v) = Penalty v"
| "view_to_owned (VRule w h d) = Rule w h d"
| "view_to_owned (VHList v) = HList v"
| "view_to_owned (VVList v) = VList v"
| "view_to_owned (VUnset v) = Unset v"
| "view_to_owned (VDisc kind pre post replace count) = Disc kind pre post replace count"
| "view_to_owned (VMark class tokens) = Mark class tokens"
| "view_to_owned (VIns class sz skip max_depth pen content) = Ins class sz skip max_depth pen content"
| "view_to_owned (VWhatsit v) = WhatsitNode v"
| "view_to_owned (VMathOn v) = MathOn v"
| "view_to_owned (VMathOff v) = MathOff v"
| "view_to_owned (VDirection v) = Direction v"
| "view_to_owned (VMathNoad v) = MathNoad v"
| "view_to_owned (VFractionNoad v) = FractionNoad v"
| "view_to_owned (VMathStyle v) = MathStyle v"
| "view_to_owned (VMathChoice v) = MathChoice v"
| "view_to_owned (VMathList v) = MathList v"
| "view_to_owned VNonscript = Nonscript"
| "view_to_owned (VAdjust v) = Adjust v"

fun view_kind :: "'l NodeView \<Rightarrow> NodeKind" where
  "view_kind (VChar font ch origin) = NKChar"
| "view_kind (VLig font ch orig origins left_hit right_hit) = NKLig"
| "view_kind (VKern amount kind) = NKKern"
| "view_kind (VMarginKern amount side font ch) = NKMarginKern"
| "view_kind (VGlue spec kind origin leader) = NKGlue"
| "view_kind (VPenalty v) = NKPenalty"
| "view_kind (VRule w h d) = NKRule"
| "view_kind (VHList v) = NKHList"
| "view_kind (VVList v) = NKVList"
| "view_kind (VUnset v) = NKUnset"
| "view_kind (VDisc kind pre post replace count) = NKDisc"
| "view_kind (VMark class tokens) = NKMark"
| "view_kind (VIns class sz skip max_depth pen content) = NKIns"
| "view_kind (VWhatsit v) = NKWhatsit"
| "view_kind (VMathOn v) = NKMathOn"
| "view_kind (VMathOff v) = NKMathOff"
| "view_kind (VDirection v) = NKDirection"
| "view_kind (VMathNoad v) = NKMathNoad"
| "view_kind (VFractionNoad v) = NKFractionNoad"
| "view_kind (VMathStyle v) = NKMathStyle"
| "view_kind (VMathChoice v) = NKMathChoice"
| "view_kind (VMathList v) = NKMathList"
| "view_kind VNonscript = NKNonscript"
| "view_kind (VAdjust v) = NKAdjust"

definition view_etex_type :: "'l NodeView \<Rightarrow> int" where
  "view_etex_type v = kind_etex_type (view_kind v)"

fun view_tex_memory_words :: "'l NodeView \<Rightarrow> bool \<Rightarrow> nat \<times> nat" where
  "view_tex_memory_words (VChar font ch origin) etex = (0, 1)"
| "view_tex_memory_words (VLig font ch orig origins left_hit right_hit) etex = (2, length orig)"
| "view_tex_memory_words (VHList b) etex = (7 + of_bool etex * 2, 0)"
| "view_tex_memory_words (VVList b) etex = (7 + of_bool etex * 2, 0)"
| "view_tex_memory_words (VUnset u) etex = (7 + of_bool etex * 2, 0)"
| "view_tex_memory_words (VRule w h d) etex = (4 + of_bool etex * 2, 0)"
| "view_tex_memory_words (VIns class sz skip max_depth pen content) etex = (5, 0)"
| "view_tex_memory_words (VMathNoad noad) etex =
     ((case noad_kind noad of NoadRadical _ \<Rightarrow> 5 | NoadAccent _ \<Rightarrow> 5 | _ \<Rightarrow> 4), 0)"
| "view_tex_memory_words (VFractionNoad v) etex = (6, 0)"
| "view_tex_memory_words (VMathStyle v) etex = (3, 0)"
| "view_tex_memory_words (VMathChoice v) etex = (3, 0)"
| "view_tex_memory_words (VMarginKern amount side font ch) etex = (3, 0)"
| "view_tex_memory_words (VKern amount kind) etex = (2 + of_bool etex * 2, 0)"
| "view_tex_memory_words (VGlue spec kind origin leader) etex = (2 + of_bool etex * 2, 0)"
| "view_tex_memory_words (VPenalty v) etex = (2 + of_bool etex * 2, 0)"
| "view_tex_memory_words (VMathOn v) etex = (2 + of_bool etex * 2, 0)"
| "view_tex_memory_words (VMathOff v) etex = (2 + of_bool etex * 2, 0)"
| "view_tex_memory_words VNonscript etex = (2 + of_bool etex * 2, 0)"
| "view_tex_memory_words (VDirection v) etex = ((if etex then 2 + of_bool etex * 2 else 2), 0)"
| "view_tex_memory_words (VDisc kind pre post replace count) etex = (2, 0)"
| "view_tex_memory_words (VMark class tokens) etex = (2, 0)"
| "view_tex_memory_words (VWhatsit v) etex = (2, 0)"
| "view_tex_memory_words (VMathList v) etex = (2, 0)"
| "view_tex_memory_words (VAdjust v) etex = (2, 0)"

fun view_visit_semantic_node_lists :: "'l NodeView \<Rightarrow> 'l list" where
  "view_visit_semantic_node_lists (VHList b) = [children b]"
| "view_visit_semantic_node_lists (VVList b) = [children b]"
| "view_visit_semantic_node_lists (VUnset u) = [unset_children u]"
| "view_visit_semantic_node_lists (VGlue spec kind origin leader) =
     (case leader of
        Some (LeaderHList b) \<Rightarrow> [children b]
      | Some (LeaderVList b) \<Rightarrow> [children b]
      | _ \<Rightarrow> [])"
| "view_visit_semantic_node_lists (VDisc kind pre post replace count) = [pre, post, replace]"
| "view_visit_semantic_node_lists (VIns class sz skip max_depth pen content) = [content]"
| "view_visit_semantic_node_lists (VMathNoad n) =
     field_lists (noad_nucleus n) @ field_lists (noad_subscript n) @ field_lists (noad_superscript n)"
| "view_visit_semantic_node_lists (VFractionNoad x) = [frac_numerator x, frac_denominator x]"
| "view_visit_semantic_node_lists (VMathChoice x) =
     [choice_display x, choice_text x, choice_script x, choice_script_script x]"
| "view_visit_semantic_node_lists (VMathList x) = [mlist_content x]"
| "view_visit_semantic_node_lists (VAdjust x) = [adjust_content x]"
| "view_visit_semantic_node_lists _ = []"

section \<open>Rewriting and visiting child lists\<close>

lemma box_visit_mut_map: "box_visit_mut f b = box_map_lists f b"
  by (cases b) (auto simp: box_map_lists_def split: option.splits)

lemma field_visit_mut_map: "field_visit_mut f x = field_map_list f x"
  by (cases x) auto

lemma visit_node_lists_mut_map: "visit_node_lists_mut f n = map_lists f n"
proof (cases n)
  case (Glue g k or l)
  then show ?thesis by (auto simp: box_visit_mut_map split: option.splits LeaderPayload.splits)
next
  case (Unset u)
  then show ?thesis by (cases u) (simp add: unset_map_list_def)
next
  case (MathNoad x)
  then show ?thesis by (cases x) (simp add: noad_map_lists_def field_visit_mut_map)
next
  case (FractionNoad x)
  then show ?thesis by (cases x) (simp add: fraction_map_lists_def)
next
  case (MathChoice x)
  then show ?thesis by (cases x) (simp add: choice_map_lists_def)
next
  case (MathList x)
  then show ?thesis by (cases x) (simp add: mathlist_map_list_def)
next
  case (Adjust x)
  then show ?thesis by (cases x) (simp add: adjust_map_list_def)
qed (simp_all add: box_visit_mut_map)

lemma box_map_lists_traverse:
  "box_map_lists f b \<bind> (\<lambda>b'. State_Monad.return (box_lists b')) = traverse_list f (box_lists b)"
  by (cases b) (auto simp: box_map_lists_def box_lists_def split: option.splits)

lemma box_map_lists_pure: "box_map_lists (\<lambda>l. State_Monad.return (f l)) b = State_Monad.return (map_BoxNode f b)"
  by (cases b) (auto simp: box_map_lists_def split: option.splits)

lemma field_map_list_pure: "field_map_list (\<lambda>l. State_Monad.return (f l)) x = State_Monad.return (map_MathField f x)"
  by (cases x) auto

lemmas payload_map_defs = unset_map_list_def noad_map_lists_def fraction_map_lists_def choice_map_lists_def
  mathlist_map_list_def adjust_map_list_def

lemma map_lists_traverse:
  "map_lists f n \<bind> (\<lambda>n'. State_Monad.return (visit_node_lists n')) = traverse_list f (visit_node_lists n)"
proof (cases n)
  case (Glue g k or l)
  then show ?thesis
    by (auto simp: box_map_lists_traverse split: option.splits LeaderPayload.splits elim: leader_map_lists.elims)
next
  case (MathNoad x)
  then show ?thesis
    by (cases "noad_nucleus x"; cases "noad_subscript x"; cases "noad_superscript x") (simp_all add: noad_map_lists_def)
qed (simp_all add: box_map_lists_traverse payload_map_defs)

lemma leader_map_lists_pure: "leader_map_lists (\<lambda>l. State_Monad.return (f l)) x = State_Monad.return (map_LeaderPayload f x)"
  by (cases x) (simp_all add: box_map_lists_pure)

lemma map_lists_pure: "map_lists (\<lambda>l. State_Monad.return (f l)) n = State_Monad.return (map_NodeOf f id id n)"
proof (cases n)
  case (Unset u)
  then show ?thesis by (cases u) (simp add: unset_map_list_def)
next
  case (MathNoad x)
  then show ?thesis by (cases x) (simp add: noad_map_lists_def field_map_list_pure)
next
  case (FractionNoad x)
  then show ?thesis by (cases x) (simp add: fraction_map_lists_def)
next
  case (MathChoice x)
  then show ?thesis by (cases x) (simp add: choice_map_lists_def)
next
  case (MathList x)
  then show ?thesis by (cases x) (simp add: mathlist_map_list_def)
next
  case (Adjust x)
  then show ?thesis by (cases x) (simp add: adjust_map_list_def)
qed (simp_all add: box_map_lists_pure leader_map_lists_pure Whatsit.map_id split: option.splits)

section \<open>Payloads\<close>

lemmas payload_map_id = BoxNode.map_id UnsetNode.map_id LeaderPayload.map_id0 option.map_id MathNoad.map_id
  MathFraction.map_id MathChoice.map_id MathListNode.map_id AdjustNode.map_id Whatsit.map_id

lemma identifier_map_tokens_pure:
  "identifier_map_tokens (\<lambda>t. State_Monad.return (h t)) i = State_Monad.return (map_NodePdfActionIdentifier h i)"
  by (cases i) simp_all

lemma whatsit_map_payloads_pure:
  "whatsit_map_payloads (\<lambda>g. State_Monad.return (f g)) (\<lambda>t. State_Monad.return (h t)) w
   = State_Monad.return (map_Whatsit f h w)"
proof (cases w)
  case (PdfDestination d)
  then show ?thesis by (cases d) (simp add: identifier_map_tokens_pure)
next
  case (PdfThread t)
  then show ?thesis by (cases t) (simp add: identifier_map_tokens_pure)
qed simp_all

lemma map_payloads_pure:
  "map_payloads (\<lambda>g. State_Monad.return (f g)) (\<lambda>t. State_Monad.return (h t)) n
   = State_Monad.return (map_NodeOf id f h n)"
  by (cases n) (simp_all add: whatsit_map_payloads_pure payload_map_id)

definition visit_with :: "('g \<Rightarrow> ('s, 'h) state) \<Rightarrow> ('t \<Rightarrow> ('s, 'u) state) \<Rightarrow> 'g + 't \<Rightarrow> ('s, 'h + 'u) state" where
  "visit_with mg mt p = (case p of Inl g \<Rightarrow> do { g \<leftarrow> mg g; State_Monad.return (Inl g) }
                                 | Inr t \<Rightarrow> do { t \<leftarrow> mt t; State_Monad.return (Inr t) })"

lemma visit_with_simps [simp]:
  "visit_with mg mt (Inl g) = do { g \<leftarrow> mg g; State_Monad.return (Inl g) }"
  "visit_with mg mt (Inr t) = do { t \<leftarrow> mt t; State_Monad.return (Inr t) }"
  by (simp_all add: visit_with_def)

lemma whatsit_map_payloads_traverse:
  "whatsit_map_payloads mg mt w \<bind> (\<lambda>w'. State_Monad.return (whatsit_visit_payloads w'))
   = traverse_list (visit_with mg mt) (whatsit_visit_payloads w)"
proof (cases w)
  case (PdfDestination d)
  then show ?thesis by (cases "dest_identifier d") simp_all
next
  case (PdfThread t)
  then show ?thesis by (cases "thread_identifier t") simp_all
qed simp_all

lemma map_payloads_traverse:
  "map_payloads mg mt n \<bind> (\<lambda>n'. State_Monad.return (visit_payloads n'))
   = traverse_list (visit_with mg mt) (visit_payloads n)"
  by (cases n) (simp_all add: whatsit_map_payloads_traverse)

definition resolved_words :: "('k \<Rightarrow> 'w list option) \<Rightarrow> 'k \<Rightarrow> 'w list" where
  "resolved_words resolve k = (case resolve k of Some ws \<Rightarrow> ws | None \<Rightarrow> [])"

lemma run_resolve_token:
  "run_state (resolve_token resolve k) s = (resolved_words resolve k, s \<or> resolve k = None)"
  by (auto simp: resolve_token_def resolved_words_def split: option.splits)

lemma run_resolve_whatsit:
  "run_state (whatsit_map_payloads State_Monad.return (resolve_token resolve) w) s
   = (map_Whatsit id (resolved_words resolve) w, s \<or> (\<exists>k. Inr k \<in> set (whatsit_visit_payloads w) \<and> resolve k = None))"
proof (cases w)
  case (PdfDestination d)
  then show ?thesis by (cases d; cases "dest_identifier d") (auto simp: run_resolve_token)
next
  case (PdfThread t)
  then show ?thesis by (cases t; cases "thread_identifier t") (auto simp: run_resolve_token)
qed (auto simp: run_resolve_token)

lemma run_resolve_payloads:
  "run_state (map_payloads State_Monad.return (resolve_token resolve) n) s
   = (map_NodeOf id id (resolved_words resolve) n, s \<or> (\<exists>k. Inr k \<in> set (visit_payloads n) \<and> resolve k = None))"
  by (cases n) (auto simp: run_resolve_token run_resolve_whatsit payload_map_id)

section \<open>Semantic identity\<close>

lemma box_eq_erase: "box_eq a b \<longleftrightarrow> box_erase a = box_erase b"
  by (auto simp: box_eq_def box_erase_def)

lemma mathchar_eq_erase: "mathchar_eq a b \<longleftrightarrow> mathchar_erase a = mathchar_erase b"
  by (auto simp: mathchar_eq_def mathchar_erase_def)

lemma leader_eq_erase: "leader_eq a b \<longleftrightarrow> leader_erase a = leader_erase b"
  by (cases a; cases b) (auto simp: box_eq_erase)

lemma field_eq_erase: "field_eq a b \<longleftrightarrow> erase_math_char a = erase_math_char b"
  by (cases a; cases b) (auto simp: field_eq_def mathchar_eq_erase)

lemma noad_eq_erase: "noad_eq a b \<longleftrightarrow> noad_erase a = noad_erase b"
  by (auto simp: noad_eq_def noad_erase_def field_eq_erase noad_kind_eq_def mathchar_eq_erase split: NoadKind.splits)

text \<open>The canonical node of a projection, with every sidecar blank.\<close>

fun node_of_ref :: "('l, 'g, 't) semantic_ref_type \<Rightarrow> ('l, 'g, 't) NodeOf" where
  "node_of_ref (SChar font ch) = CharNode font ch ORIGIN_UNKNOWN"
| "node_of_ref (SLig font ch orig left_hit right_hit) = Lig font ch orig left_hit right_hit []"
| "node_of_ref (SKern amount kind) = Kern amount kind"
| "node_of_ref (SMarginKern amount side font ch) = MarginKern amount side font ch"
| "node_of_ref (SGlue spec kind origin leader) = Glue spec kind origin leader"
| "node_of_ref (SPenalty v) = Penalty v"
| "node_of_ref (SRule w h d) = Rule w h d"
| "node_of_ref (SHList v) = HList v"
| "node_of_ref (SVList v) = VList v"
| "node_of_ref (SUnset v) = Unset v"
| "node_of_ref (SDisc kind pre post replace) = Disc kind pre post replace 0"
| "node_of_ref (SMark class tokens) = Mark class tokens"
| "node_of_ref (SIns class sz skip max_depth pen content) = Ins class sz skip max_depth pen content"
| "node_of_ref (SWhatsit v) = WhatsitNode v"
| "node_of_ref (SMathOn v) = MathOn v"
| "node_of_ref (SMathOff v) = MathOff v"
| "node_of_ref (SDirection v) = Direction v"
| "node_of_ref (SMathNoad v) = MathNoad v"
| "node_of_ref (SFractionNoad v) = FractionNoad v"
| "node_of_ref (SMathStyle v) = MathStyle v"
| "node_of_ref (SMathChoice v) = MathChoice v"
| "node_of_ref (SMathList v) = MathList v"
| "node_of_ref SNonscript = Nonscript"
| "node_of_ref (SAdjust v) = Adjust v"

lemma semantic_ref_erase:
  "semantic_ref (erase_diagnostic_sidecars n)
   = map_SemanticNodeRef id id id box_erase leader_erase noad_erase (semantic_ref n)"
  by (cases n) (simp_all add: payload_map_id)

lemma node_of_ref_erase: "node_of_ref (semantic_ref (erase_diagnostic_sidecars n)) = erase_diagnostic_sidecars n"
  by (cases n) simp_all

lemma leader_erase_idem: "leader_erase (leader_erase x) = leader_erase x"
  by (cases x) (simp_all add: box_erase_def)

lemma erase_idem: "erase_diagnostic_sidecars (erase_diagnostic_sidecars n) = erase_diagnostic_sidecars n"
proof (cases n)
  case (MathNoad x)
  have "erase_math_char (erase_math_char f) = erase_math_char f" for f :: "'a MathField"
    by (cases f) (simp_all add: mathchar_erase_def)
  with MathNoad show ?thesis by (simp add: noad_erase_def mathchar_erase_def split: NoadKind.splits)
qed (simp_all add: box_erase_def option.map_comp comp_def leader_erase_idem)

lemma node_eq_erase: "node_eq a b \<longleftrightarrow> erase_diagnostic_sidecars a = erase_diagnostic_sidecars b"
proof -
  have "node_eq a b \<longleftrightarrow> semantic_ref (erase_diagnostic_sidecars a) = semantic_ref (erase_diagnostic_sidecars b)"
    unfolding node_eq_def semantic_ref_erase SemanticNodeRef.rel_eq [symmetric] SemanticNodeRef.rel_map
    by (simp add: box_eq_erase [abs_def] leader_eq_erase [abs_def] noad_eq_erase [abs_def])
  then show ?thesis by (metis node_of_ref_erase)
qed

lemma view_owned [simp]: "view_to_owned (view_from n) = n" and view_from_owned_eq: "view_from_owned n = view_from n"
  by (cases n; simp)+

lemma view_agrees:
  "view_kind (view_from n) = node_kind n" "view_tex_memory_words (view_from n) e = tex_memory_words n e"
  "view_visit_semantic_node_lists (view_from n) = visit_semantic_node_lists n"
  by (cases n; simp)+

section \<open>Properties\<close>

text \<open>Rewriting the child lists of a node calls the closure on exactly the lists the visitor reports, once
  each and in the visitor's order, and the node it builds has the closure's results in those places; with
  a closure that keeps no state it is the functorial map on the list type, so every other payload is
  untouched, and the in-place visitor does the same rewriting.\<close>

lemma map_lists_traversal:
  "(map_lists f n \<bind> (\<lambda>n'. State_Monad.return (visit_node_lists n')) = traverse_list f (visit_node_lists n))
   \<and> map_lists (\<lambda>l. State_Monad.return (g l)) n = State_Monad.return (map_NodeOf g id id n)
   \<and> visit_node_lists_mut h n = map_lists h n"
  using map_lists_traverse map_lists_pure visit_node_lists_mut_map by blast

text \<open>Rewriting glue and token payloads calls the two closures on exactly the payloads the visitor reports,
  in its order, and with closures that keep no state is the functorial map on the payload types, child
  lists and every other field untouched.\<close>

lemma map_payloads_traversal:
  "(map_payloads mg mt n \<bind> (\<lambda>n'. State_Monad.return (visit_payloads n'))
      = traverse_list (visit_with mg mt) (visit_payloads n))
   \<and> map_payloads (\<lambda>g. State_Monad.return (f g)) (\<lambda>t. State_Monad.return (h t)) n
      = State_Monad.return (map_NodeOf id f h n)"
  using map_payloads_traverse map_payloads_pure by blast

text \<open>C37. Resolving the token payloads of a node fails exactly when one of the coordinates it holds does not
  resolve, and otherwise returns the node with every coordinate replaced by its words.\<close>

theorem resolve_token_payloads_exact:
  "resolve_token_payloads resolve n =
     (if \<exists>k. Inr k \<in> set (visit_payloads n) \<and> resolve k = None then None
      else Some (map_NodeOf id id (resolved_words resolve) n))"
  by (auto simp: resolve_token_payloads_def run_resolve_payloads)

text \<open>C38. Node equality, the comparison of semantic projections, is equality of the nodes with their
  diagnostic sidecars erased: it ignores exactly the sidecars. Hence it is an equivalence, erasing is
  idempotent, and an erased node equals the original.\<close>

theorem node_eq_is_erased_equality:
  fixes a b :: "('l, 'g, 't) NodeOf"
  shows "(node_eq a b \<longleftrightarrow> erase_diagnostic_sidecars a = erase_diagnostic_sidecars b)
   \<and> node_eq (erase_diagnostic_sidecars a) a
   \<and> erase_diagnostic_sidecars (erase_diagnostic_sidecars a) = erase_diagnostic_sidecars a
   \<and> equivp (node_eq :: ('l, 'g, 't) NodeOf \<Rightarrow> _)"
  by (auto simp: node_eq_erase erase_idem equivp_def fun_eq_iff)

text \<open>C39. A borrowed view agrees with the node it borrows: it is converted back to the same node, both ways of
  making it give the same view, and its kind, e-TeX type, memory size and visited child lists are the node's.\<close>

theorem node_view_agrees:
  "view_to_owned (view_from n) = n \<and> view_from_owned n = view_from n
   \<and> view_kind (view_from n) = node_kind n \<and> view_etex_type (view_from n) = node_etex_type n
   \<and> view_tex_memory_words (view_from n) e = tex_memory_words n e
   \<and> view_visit_semantic_node_lists (view_from n) = visit_semantic_node_lists n"
  by (simp add: view_from_owned_eq view_agrees view_etex_type_def node_etex_type_def)

text \<open>The table of node kinds lists every kind once, and the e-TeX node types are exactly the numbers from
  0 to 15.\<close>

lemma node_kinds_complete:
  "distinct NodeKind_ALL \<and> set NodeKind_ALL = UNIV \<and> range kind_etex_type = {0..15}"
proof -
  have all: "set NodeKind_ALL = UNIV"
  proof -
    have "k \<in> set NodeKind_ALL" for k by (cases k) (simp_all add: NodeKind_ALL_def)
    then show ?thesis by blast
  qed
  have "range kind_etex_type = kind_etex_type ` set NodeKind_ALL" by (simp only: all)
  also have "\<dots> = {0, 1, 2, 3, 4, 5, 6, 7, 8, 9, 10, 11, 12, 13, 14, 15}"
    by (auto simp: NodeKind_ALL_def)
  also have "\<dots> = {0..15}" by (rule set_eqI) (simp, presburger)
  finally show ?thesis using all by (simp add: NodeKind_ALL_def)
qed

end
