(* ===== verification/Math_Boundary.thy ===== *)
theory Math_Boundary
  imports Node_Model
begin

text \<open>
  The nesting state of e-TeX's M/L/R boundaries, \<open>MathBoundaryStack\<close> of \<^verbatim>\<open>crates/tex-state/src/node.rs\<close>. The
  vector of open boundaries grows at its end; the \<open>u32\<close> anomaly counters are saturating naturals.
\<close>

section \<open>Definitions\<close>

definition U32_MAX :: nat where "U32_MAX = 2 ^ 32 - 1"

definition saturating_add_u32 :: "nat \<Rightarrow> nat \<Rightarrow> nat" where
  "saturating_add_u32 a b = min (a + b) U32_MAX"

record LrAnomalies =
  lr_missing :: nat
  lr_extra :: nat

record MathBoundaryStack =
  lr_open :: "MathBoundary list"
  lr_anomalies :: LrAnomalies

definition boundary_stack_default :: MathBoundaryStack where
  "boundary_stack_default = \<lparr>lr_open = [], lr_anomalies = \<lparr>lr_missing = 0, lr_extra = 0\<rparr>\<rparr>"

fun boundary_matches :: "MathBoundary \<Rightarrow> MathBoundary \<Rightarrow> bool" where
  "boundary_matches BeginM EndM = True"
| "boundary_matches BeginL EndL = True"
| "boundary_matches BeginR EndR = True"
| "boundary_matches _ _ = False"

fun is_begin :: "MathBoundary \<Rightarrow> bool" where
  "is_begin BeginM = True"
| "is_begin BeginL = True"
| "is_begin BeginR = True"
| "is_begin _ = False"

definition boundary_observe :: "MathBoundaryStack \<Rightarrow> MathBoundary \<Rightarrow> MathBoundaryStack" where
  "boundary_observe st boundary =
     (if is_begin boundary then st\<lparr>lr_open := lr_open st @ [boundary]\<rparr>
      else if lr_open st \<noteq> [] \<and> boundary_matches (last (lr_open st)) boundary
      then st\<lparr>lr_open := butlast (lr_open st)\<rparr>
      else st\<lparr>lr_anomalies := (lr_anomalies st)\<lparr>lr_extra := saturating_add_u32 (lr_extra (lr_anomalies st)) 1\<rparr>\<rparr>)"

definition boundary_finish :: "MathBoundaryStack \<Rightarrow> LrAnomalies" where
  "boundary_finish st =
     (lr_anomalies st)\<lparr>lr_missing := saturating_add_u32 (lr_missing (lr_anomalies st)) (min (length (lr_open st)) U32_MAX)\<rparr>"

section \<open>Nesting\<close>

text \<open>The well-nested boundary sequences.\<close>

inductive balanced :: "MathBoundary list \<Rightarrow> bool" where
  balanced_Nil: "balanced []"
| balanced_pair: "boundary_matches b e \<Longrightarrow> balanced xs \<Longrightarrow> balanced ys \<Longrightarrow> balanced (b # xs @ e # ys)"

text \<open>The sequences that close the open boundaries of a stack, innermost first, with well-nested material between.\<close>

inductive closes :: "MathBoundary list \<Rightarrow> MathBoundary list \<Rightarrow> bool" where
  closes_Nil: "balanced xs \<Longrightarrow> closes [] xs"
| closes_snoc: "balanced xs \<Longrightarrow> boundary_matches b e \<Longrightarrow> closes st ys \<Longrightarrow> closes (st @ [b]) (xs @ e # ys)"

inductive_cases closes_snocE: "closes (st @ [b]) zs"

lemma matches_begin: "boundary_matches b e \<Longrightarrow> is_begin b \<and> \<not> is_begin e"
  by (cases b; cases e) simp_all

lemma balanced_append: "balanced xs \<Longrightarrow> balanced ys \<Longrightarrow> balanced (xs @ ys)"
  by (induction rule: balanced.induct) (auto intro: balanced.intros)

lemma closes_prepend: "closes st ys \<Longrightarrow> balanced xs \<Longrightarrow> closes st (xs @ ys)"
proof (induction rule: closes.induct)
  case (closes_snoc ys b e st zs)
  then have "closes (st @ [b]) ((xs @ ys) @ e # zs)" by (intro closes.closes_snoc balanced_append) auto
  then show ?case by simp
qed (auto intro: closes_Nil balanced_append)

text \<open>Well-nested material leaves the state as it was.\<close>

lemma observe_balanced: "balanced xs \<Longrightarrow> foldl boundary_observe st xs = st"
proof (induction arbitrary: st rule: balanced.induct)
  case (balanced_pair b e xs ys)
  then have "foldl boundary_observe (boundary_observe st b) xs = boundary_observe st b" by blast
  moreover have "boundary_observe (boundary_observe st b) e = st"
    using matches_begin [OF balanced_pair(1)] balanced_pair(1) by (simp add: boundary_observe_def)
  ultimately show ?case using balanced_pair.IH by simp
qed simp

definition extra_of :: "MathBoundaryStack \<Rightarrow> nat" where "extra_of st = lr_extra (lr_anomalies st)"

lemma extra_positive: "0 < extra_of st \<Longrightarrow> 0 < extra_of (foldl boundary_observe st xs)"
proof (induction xs arbitrary: st)
  case (Cons x xs)
  have "0 < extra_of (boundary_observe st x)"
    using Cons.prems by (simp add: boundary_observe_def extra_of_def saturating_add_u32_def U32_MAX_def)
  from Cons.IH [OF this] show ?case by simp
qed simp

lemma observe_closes:
  "lr_open (foldl boundary_observe st xs) = [] \<Longrightarrow> extra_of (foldl boundary_observe st xs) = 0 \<Longrightarrow> closes (lr_open st) xs"
proof (induction xs arbitrary: st)
  case Nil
  then show ?case by (auto intro: closes_Nil balanced_Nil)
next
  case (Cons x xs)
  then have ih: "closes (lr_open (boundary_observe st x)) xs" by simp
  consider "is_begin x" | "\<not> is_begin x" "lr_open st \<noteq> []" "boundary_matches (last (lr_open st)) x"
    | "\<not> is_begin x" "\<not> (lr_open st \<noteq> [] \<and> boundary_matches (last (lr_open st)) x)" by blast
  then show ?case
  proof cases
    case 1
    with ih have "closes (lr_open st @ [x]) xs" by (simp add: boundary_observe_def)
    then obtain ys e zs where "xs = ys @ e # zs" "balanced ys" "boundary_matches x e" "closes (lr_open st) zs"
      by (rule closes_snocE) auto
    moreover from this have "balanced (x # ys @ e # [])" by (intro balanced_pair balanced_Nil)
    ultimately show ?thesis using closes_prepend by fastforce
  next
    case 2
    with ih have "closes (butlast (lr_open st)) xs" by (simp add: boundary_observe_def)
    from closes_snoc [OF balanced_Nil 2(3) this] 2(2) show ?thesis by simp
  next
    case 3
    then have "0 < extra_of (boundary_observe st x)"
      by (auto simp: boundary_observe_def extra_of_def saturating_add_u32_def U32_MAX_def)
    from extra_positive [OF this, of xs] Cons.prems show ?thesis by simp
  qed
qed

section \<open>Properties\<close>

text \<open>C40. A boundary sequence is reported without anomalies exactly when it is well nested: every begin is closed
  by an end of its own kind, innermost first.\<close>

theorem math_boundaries_balanced:
  "boundary_finish (foldl boundary_observe boundary_stack_default bs) = \<lparr>lr_missing = 0, lr_extra = 0\<rparr> \<longleftrightarrow> balanced bs"
proof
  let ?st = "foldl boundary_observe boundary_stack_default bs"
  assume "boundary_finish ?st = \<lparr>lr_missing = 0, lr_extra = 0\<rparr>"
  then have "saturating_add_u32 (lr_missing (lr_anomalies ?st)) (min (length (lr_open ?st)) U32_MAX) = 0"
    and "extra_of ?st = 0"
    unfolding boundary_finish_def extra_of_def by (metis LrAnomalies.ext_inject LrAnomalies.surjective LrAnomalies.update_convs(1))+
  then have "lr_open ?st = []" "extra_of ?st = 0" by (auto simp: saturating_add_u32_def U32_MAX_def min_def split: if_splits)
  from observe_closes [OF this] have "closes [] bs" by (simp add: boundary_stack_default_def)
  then show "balanced bs" by (cases rule: closes.cases) auto
next
  assume "balanced bs"
  then show "boundary_finish (foldl boundary_observe boundary_stack_default bs) = \<lparr>lr_missing = 0, lr_extra = 0\<rparr>"
    by (simp add: observe_balanced boundary_finish_def boundary_stack_default_def saturating_add_u32_def)
qed

end
