(* ===== verification/Page_Model.thy ===== *)
theory Page_Model
  imports Glue_Ratio Token_Words
begin

text \<open>
  The shipped page of \<^verbatim>\<open>crates/tex-out/src/model.rs\<close>: the driver-facing nodes, boxes, leaders, glue and
  committed effects that the output writers traverse. Fonts are carried with the identities the font crate
  computed, which are plain values here.
\<close>

datatype PageGlueOrder = PoNormal | PoFil | PoFill | PoFilll
datatype PageGlueSign = PsNormal | PsStretching | PsShrinking
datatype PageKernKind = PkExplicit | PkFont | PkAuto | PkAccent | PkLeftMargin | PkRightMargin
datatype PageMarginSide = PmLeft | PmRight
datatype PageGlueKind =
    GkNormal | GkBaselineSkip | GkLineSkip | GkLeftSkip | GkRightSkip | GkParFillSkip
  | GkLeaders | GkCleaders | GkXleaders
datatype PageDiscKind = PdDiscretionary | PdExplicitHyphen | PdAutomaticHyphen
datatype TokenCatcode =
    TcEscape | TcBeginGroup | TcEndGroup | TcMathShift | TcAlignmentTab | TcEndLine | TcParameter
  | TcSuperscript | TcSubscript | TcIgnored | TcSpace | TcLetter | TcOther | TcActive | TcComment | TcInvalid
datatype PageToken =
    PtChar u32 TokenCatcode
  | PtControlSequence string
  | PtActiveControlSequence u32
  | PtParam byte

record PageGlueSpec =
  pg_width :: scaled
  pg_stretch :: scaled
  pg_stretch_order :: PageGlueOrder
  pg_shrink :: scaled
  pg_shrink_order :: PageGlueOrder

datatype PageNode =
    PnChar u32 u32 scaled
  | PnLig u32 u32 "u32 list" scaled
  | PnKern scaled PageKernKind
  | PnMarginKern scaled PageMarginSide u32 byte
  | PnGlue PageGlueSpec PageGlueKind "PageLeader option"
  | PnPenalty int
  | PnRule "scaled option" "scaled option" "scaled option"
  | PnHList PageBox
  | PnVList PageBox
  | PnDisc PageDiscKind "PageNode list" "PageNode list" "PageNode list"
  | PnMark u16 "PageToken list"
  | PnInsert u16 "PageNode list"
  | PnWhatsitAnchor u32
  | PnMathOn scaled
  | PnMathOff scaled
  | PnAdjust "PageNode list"
and PageBox =
    PageBox (pb_width: scaled) (pb_height: scaled) (pb_depth: scaled) (pb_shift: scaled)
      (pb_glue_set: GlueSetRatio) (pb_glue_sign: PageGlueSign) (pb_glue_order: PageGlueOrder)
      (pb_children: "PageNode list")
and PageLeader =
    PlHList PageBox
  | PlVList PageBox
  | PlRule "scaled option" "scaled option" "scaled option"

datatype PdfAccessibilityEffect = PaInterwordSpaceOn | PaInterwordSpaceOff | PaFakeSpace
datatype PdfAnnotationEffect = PnAnnotation u32 | PnLinkStart u32 | PnLinkEnd u32 | PnRunningLink bool
datatype PagePdfLiteralMode = PlmOrigin | PlmPage | PlmDirect
datatype PdfDestinationIdentifier = DestName "byte list" | DestNumber u32
datatype PagePdfDestinationKind =
    DkXyz "int option"
  | DkFitBoundingBoxHorizontal
  | DkFitBoundingBoxVertical
  | DkFitBoundingBox
  | DkFitHorizontal
  | DkFitVertical
  | DkFitRectangle "scaled option" "scaled option" "scaled option"
  | DkFit

record PdfDestinationEffect =
  pde_object :: u32
  pde_identifier :: PdfDestinationIdentifier
  pde_structure :: "u32 option"
  pde_kind :: PagePdfDestinationKind
  pde_margin :: scaled

record PdfThreadEffect =
  pte_thread_object :: u32
  pte_bead_object :: u32
  pte_rectangle_object :: u32
  pte_identifier :: PdfDestinationIdentifier
  pte_width :: "scaled option"
  pte_height :: "scaled option"
  pte_depth :: "scaled option"
  pte_attributes :: "byte list"
  pte_margin :: scaled

datatype EffectSink = EsTerminal | EsLog | EsTerminalAndLog | EsStream byte

datatype PageEffect =
    PeOpenOut byte string
  | PeCloseOut byte
  | PeWrite EffectSink string
  | PeSpecial string "byte list"
  | PePdfAccessibility PdfAccessibilityEffect
  | PePdfAnnotation PdfAnnotationEffect
  | PePdfLiteral PagePdfLiteralMode "byte list"
  | PePdfSetMatrix "byte list"
  | PePdfSave
  | PePdfRestore
  | PePdfColorStack PagePdfLiteralMode "byte list" bool
  | PePdfSavePosition
  | PePdfSnapState scaled scaled
  | PePdfSnapRefPoint
  | PePdfSnapY PageGlueSpec
  | PePdfSnapYComp u16
  | PePdfRefXForm u32 scaled scaled scaled
  | PePdfRefXImage u32 scaled scaled scaled
  | PePdfDestination PdfDestinationEffect
  | PePdfThread PdfThreadEffect
  | PePdfStartThread PdfThreadEffect
  | PePdfEndThread

text \<open>\<open>JobInfo\<close> and its default.\<close>

record JobInfo =
  job_mag_field :: int
  job_banner_field :: string
  h_offset :: scaled
  v_offset :: scaled
  page_origin_x :: scaled
  page_origin_y :: scaled
  page_width :: scaled
  page_height :: scaled

definition DEFAULT_BANNER :: string where "DEFAULT_BANNER = ''  Umber DVI 1970.01.01:0000''"

definition job_default :: JobInfo where
  "job_default = \<lparr>job_mag_field = 1000, job_banner_field = DEFAULT_BANNER, h_offset = 0, v_offset = 0,
     page_origin_x = 0, page_origin_y = 0, page_width = 0, page_height = 0\<rparr>"

text \<open>A font of the page. The OpenType attachments, which no definition below reads, are left out.\<close>

datatype FontLayoutPolicy = OpenTypePreferred | PolicyClassicTfmExact
datatype FontMappingFallbackPolicy = FallbackError | FallbackClassicTfmExact
datatype FontResourceConstruction =
    Loaded
  | Copied u32 "byte list"
  | Letterspaced u32 "byte list" int bool
  | ExpandedFont u32 "byte list" int

record FontResource =
  fr_font_id :: u32
  fr_name :: string
  fr_tfm_content_hash :: "byte list"
  fr_tfm_checksum :: u32
  fr_design_size :: scaled
  fr_at_size :: scaled
  fr_layout_policy :: FontLayoutPolicy
  fr_mapping_fallback :: "FontMappingFallbackPolicy option"
  fr_semantic_identity :: "byte list"
  fr_construction :: FontResourceConstruction

text \<open>\<open>str::as_bytes\<close>: a Rust string is its UTF-8 bytes.\<close>

definition as_bytes :: "string \<Rightarrow> byte list" where
  "as_bytes s = map (\<lambda>c. word_of_nat (of_char c)) s"

end
