(* ===== verification/Dvi_Movement.thy ===== *)
theory Dvi_Movement
  imports Page_Model
begin

text \<open>
  The movement optimiser of the DVI writer: \<^verbatim>\<open>crates/tex-out/src/dvi/movement.rs\<close> and the operations of the
  page compiler in \<^verbatim>\<open>traversal.rs\<close> that drive it. The bytes of a page and the two movement stacks are the state;
  an index out of range is the panic outcome.
\<close>

section \<open>Definitions\<close>

definition Y0_OFFSET :: byte where "Y0_OFFSET = 161 - 157"
definition Z0_OFFSET :: byte where "Z0_OFFSET = 166 - 157"
definition Y1_OFFSET :: byte where "Y1_OFFSET = 162 - 157"
definition Z1_OFFSET :: byte where "Z1_OFFSET = 167 - 157"
definition THREE_BYTE_MIN :: int where "THREE_BYTE_MIN = - 0x800000"
definition THREE_BYTE_MAX :: int where "THREE_BYTE_MAX = 0x7FFFFF"
definition OP_PUSH :: byte where "OP_PUSH = 141"
definition OP_POP :: byte where "OP_POP = 142"
definition RIGHT1 :: byte where "RIGHT1 = 143"
definition DOWN1 :: byte where "DOWN1 = 157"

datatype MovementInfo = YHere | ZHere | YzOk | YOk | ZOk | DFixed
datatype MovementState = MsNone | MsY | MsZ

record MovementEntry =
  mv_width :: int
  mv_location :: nat
  mv_info :: MovementInfo

definition prune_movements :: "MovementEntry list \<Rightarrow> nat \<Rightarrow> MovementEntry list" where
  "prune_movements entries save_loc = rev (dropWhile (\<lambda>e. mv_location e \<ge> save_loc) (rev entries))"

text \<open>\<open>bytes[location] += offset\<close>.\<close>

definition patch_byte :: "byte list \<Rightarrow> nat \<Rightarrow> byte \<Rightarrow> byte list panicking" where
  "patch_byte bytes loc offset = (if loc < length bytes then Ok (bytes[loc := bytes ! loc + offset]) else Panic)"

text \<open>The search, newest entry first; \<open>p\<close> is one more than the index examined.\<close>

fun find_hit :: "MovementEntry list \<Rightarrow> nat \<Rightarrow> int \<Rightarrow> MovementState \<Rightarrow> byte list
    \<Rightarrow> (MovementEntry list \<times> byte list \<times> (nat \<times> MovementInfo) option) panicking" where
  "find_hit entries 0 w mstate bytes = Ok (entries, bytes, None)"
| "find_hit entries (Suc p) w mstate bytes =
     (let info = mv_info (entries ! p)
      in if mv_width (entries ! p) = w
         then if mstate \<in> {MsNone, MsZ} \<and> info \<in> {YzOk, YOk}
              then obind (patch_byte bytes (mv_location (entries ! p)) Y1_OFFSET) (\<lambda>bytes.
                     Ok (entries[p := (entries ! p)\<lparr>mv_info := YHere\<rparr>], bytes, Some (p, YHere)))
              else if mstate \<in> {MsNone, MsY} \<and> info \<in> {YzOk, ZOk}
              then obind (patch_byte bytes (mv_location (entries ! p)) Z1_OFFSET) (\<lambda>bytes.
                     Ok (entries[p := (entries ! p)\<lparr>mv_info := ZHere\<rparr>], bytes, Some (p, ZHere)))
              else if mstate = MsNone \<and> info \<in> {YHere, ZHere} \<or> mstate = MsY \<and> info = ZHere
                      \<or> mstate = MsZ \<and> info = YHere
              then Ok (entries, bytes, Some (p, info))
              else find_hit entries p w mstate bytes
         else if mstate = MsNone \<and> info = YHere then find_hit entries p w MsY bytes
         else if mstate = MsNone \<and> info = ZHere then find_hit entries p w MsZ bytes
         else if mstate = MsY \<and> info = ZHere \<or> mstate = MsZ \<and> info = YHere then Ok (entries, bytes, None)
         else find_hit entries p w mstate bytes)"

fun restrict_y_info :: "MovementInfo \<Rightarrow> MovementInfo" where
  "restrict_y_info YzOk = ZOk"
| "restrict_y_info YOk = DFixed"
| "restrict_y_info i = i"

fun restrict_z_info :: "MovementInfo \<Rightarrow> MovementInfo" where
  "restrict_z_info YzOk = YOk"
| "restrict_z_info ZOk = DFixed"
| "restrict_z_info i = i"

text \<open>The update of the entries from \<open>p + 1\<close> up to, and excluding, \<open>q\<close>.\<close>

definition restrict_intervening :: "(MovementInfo \<Rightarrow> MovementInfo) \<Rightarrow> MovementEntry list \<Rightarrow> nat \<Rightarrow> nat \<Rightarrow> MovementEntry list" where
  "restrict_intervening f entries q p =
     take (p + 1) entries @ map (\<lambda>e. e\<lparr>mv_info := f (mv_info e)\<rparr>) (drop (p + 1) (take q entries)) @ drop q entries"

text \<open>\<open>to_be_bytes\<close> of the low \<open>k\<close> bytes of an integer in two's complement.\<close>

fun be_bytes :: "nat \<Rightarrow> int \<Rightarrow> byte list" where
  "be_bytes 0 w = []"
| "be_bytes (Suc k) w = word_of_int (w div 256 ^ k) # be_bytes k w"

definition emit_explicit_movement :: "byte list \<Rightarrow> int \<Rightarrow> byte \<Rightarrow> byte list" where
  "emit_explicit_movement bytes w opc =
     (if - 128 \<le> w \<and> w \<le> 127 then bytes @ opc # be_bytes 1 w
      else if - 32768 \<le> w \<and> w \<le> 32767 then bytes @ (opc + 1) # be_bytes 2 w
      else if THREE_BYTE_MIN \<le> w \<and> w \<le> THREE_BYTE_MAX then bytes @ (opc + 2) # be_bytes 3 w
      else bytes @ (opc + 3) # be_bytes 4 w)"

definition movement :: "MovementEntry list \<Rightarrow> byte list \<Rightarrow> scaled \<Rightarrow> byte \<Rightarrow> (MovementEntry list \<times> byte list) panicking" where
  "movement entries bytes w opc =
     (let q = length entries;
          entries = entries @ [\<lparr>mv_width = w, mv_location = length bytes, mv_info = YzOk\<rparr>]
      in obind (find_hit entries q w MsNone bytes) (\<lambda>(entries, bytes, hit).
           case hit of
             Some (p, info) \<Rightarrow>
               let entries = entries[q := (entries ! q)\<lparr>mv_info := info\<rparr>]
               in if info = YHere
                  then Ok (restrict_intervening restrict_y_info entries q p, bytes @ [opc + Y0_OFFSET])
                  else Ok (restrict_intervening restrict_z_info entries q p, bytes @ [opc + Z0_OFFSET])
           | None \<Rightarrow>
               Ok (entries[q := (entries ! q)\<lparr>mv_info := YzOk\<rparr>], emit_explicit_movement bytes w opc)))"

section \<open>The page compiler's use of the stacks\<close>

record FontKey =
  fk_font_id :: u32
  fk_name :: string
  fk_tfm_checksum :: u32
  fk_design_size :: scaled
  fk_at_size :: scaled
  fk_realized_identity :: "byte list"

definition font_key :: "FontResource \<Rightarrow> FontKey" where
  "font_key font = \<lparr>fk_font_id = fr_font_id font, fk_name = fr_name font, fk_tfm_checksum = fr_tfm_checksum font,
     fk_design_size = fr_design_size font, fk_at_size = fr_at_size font,
     fk_realized_identity = fr_semantic_identity font\<rparr>"

record DefinedFont =
  df_number :: u32
  df_font :: FontResource

record FontDefinitionSite =
  fs_font_id :: u32
  fs_start :: nat
  fs_end :: nat

record DviPopSite =
  pop_offset :: nat

text \<open>The defined fonts are an association list in the order of definition.\<close>

record DviBodyCompiler =
  dvi_bytes :: "byte list"
  dvi_fonts :: "(FontKey \<times> DefinedFont) list"
  fonts_by_number :: "u32 \<rightharpoonup> FontKey"
  page_fonts :: "u32 \<rightharpoonup> FontResource"
  max_stack_depth :: nat
  right_stack :: "MovementEntry list"
  down_stack :: "MovementEntry list"
  dvi_h :: scaled
  dvi_v :: scaled
  cur_h :: scaled
  cur_v :: scaled
  dvi_f :: "u32 option"
  cur_s :: int
  font_definition_sites :: "FontDefinitionSite list option"
  dvi_pop_save_locs :: "nat list"
  dvi_pop_sites :: "DviPopSite list"
  snap_reference :: "scaled \<times> scaled"

datatype DviError =
    NoPages
  | EmptyFontName "32 word"
  | FieldTooLong string nat
  | MissingFont "32 word"
  | MissingEffect "32 word"
  | CharacterOutOfRange "32 word"
  | InconsistentJobInfo
  | TooManyPages nat
  | SpecialTooLong nat
  | OffsetOverflow nat
  | PositionOverflow
  | DviSink string
  | InconsistentFontResource "32 word"
  | ArtifactError string
  | Poisoned

definition synch_h :: "DviBodyCompiler \<Rightarrow> (DviError, DviBodyCompiler) outcome" where
  "synch_h c =
     (if cur_h c \<noteq> dvi_h c
      then obind (ok_or PositionOverflow (scaled_checked_sub (cur_h c) (dvi_h c))) (\<lambda>m.
           case movement (right_stack c) (dvi_bytes c) m RIGHT1 of
             Ok (stack, bytes) \<Rightarrow> Ok (c\<lparr>right_stack := stack, dvi_bytes := bytes, dvi_h := cur_h c\<rparr>)
           | _ \<Rightarrow> Panic)
      else Ok c)"

definition synch_v :: "DviBodyCompiler \<Rightarrow> (DviError, DviBodyCompiler) outcome" where
  "synch_v c =
     (if cur_v c \<noteq> dvi_v c
      then obind (ok_or PositionOverflow (scaled_checked_sub (cur_v c) (dvi_v c))) (\<lambda>m.
           case movement (down_stack c) (dvi_bytes c) m DOWN1 of
             Ok (stack, bytes) \<Rightarrow> Ok (c\<lparr>down_stack := stack, dvi_bytes := bytes, dvi_v := cur_v c\<rparr>)
           | _ \<Rightarrow> Panic)
      else Ok c)"

definition compiler_prune :: "DviBodyCompiler \<Rightarrow> nat \<Rightarrow> DviBodyCompiler" where
  "compiler_prune c save_loc =
     c\<lparr>down_stack := prune_movements (down_stack c) save_loc,
       right_stack := prune_movements (right_stack c) save_loc\<rparr>"

definition compiler_new :: DviBodyCompiler where
  "compiler_new =
     \<lparr>dvi_bytes = [], dvi_fonts = [], fonts_by_number = Map.empty, page_fonts = Map.empty, max_stack_depth = 0,
      right_stack = [], down_stack = [], dvi_h = 0, dvi_v = 0, cur_h = 0, cur_v = 0, dvi_f = None, cur_s = - 1,
      font_definition_sites = None, dvi_pop_save_locs = [], dvi_pop_sites = [], snap_reference = (0, 0)\<rparr>"

end
