(* ===== verification/Dvi_Replay.thy ===== *)
theory Dvi_Replay
  imports Dvi_Movement
begin

text \<open>
  The movement optimiser is correct: reading the bytes of a page with the DVI registers reproduces every position
  the page compiler asked for, although earlier opcodes are rewritten when a later movement reuses their
  distance. The bytes are described by a list of DVI commands, each tagged with whether it is still on a
  movement stack; the two stacks and the bytes are functions of the tagged list.
\<close>

section \<open>Commands and their reader\<close>

datatype axis = AxH | AxV
datatype reg = RY | RZ

text \<open>A command that moves by a register carries the distance it stands for, which a reader does not see.\<close>

datatype cmd = Move axis int | SetMove axis reg int | RegMove axis reg int | CPush | CPop | COther "byte list" int

fun opc :: "axis \<Rightarrow> byte" where
  "opc AxH = RIGHT1"
| "opc AxV = DOWN1"

fun set_offset :: "reg \<Rightarrow> byte" where
  "set_offset RY = Y1_OFFSET"
| "set_offset RZ = Z1_OFFSET"

fun use_offset :: "reg \<Rightarrow> byte" where
  "use_offset RY = Y0_OFFSET"
| "use_offset RZ = Z0_OFFSET"

fun enc :: "cmd \<Rightarrow> byte list" where
  "enc (Move a w) = emit_explicit_movement [] w (opc a)"
| "enc (SetMove a r w) = (let e = emit_explicit_movement [] w (opc a) in e[0 := e ! 0 + set_offset r])"
| "enc (RegMove a r w) = [opc a + use_offset r]"
| "enc CPush = [OP_PUSH]"
| "enc CPop = [OP_POP]"
| "enc (COther bs adv) = bs"

type_synonym position = "axis \<Rightarrow> int"
type_synonym registers = "axis \<Rightarrow> reg \<Rightarrow> int"

text \<open>A reader also logs where it finds the commands that are not movements, and how far each of them moves the position.\<close>

type_synonym log = "(position \<times> int \<times> byte list) list"
type_synonym reader = "position \<times> registers \<times> (position \<times> registers) list \<times> log"

fun read1 :: "reader \<Rightarrow> cmd \<Rightarrow> reader" where
  "read1 (pos, rg, stk, lg) (Move a w) = (pos(a := pos a + w), rg, stk, lg)"
| "read1 (pos, rg, stk, lg) (SetMove a r w) = (pos(a := pos a + w), rg(a := (rg a)(r := w)), stk, lg)"
| "read1 (pos, rg, stk, lg) (RegMove a r w) = (pos(a := pos a + rg a r), rg, stk, lg)"
| "read1 (pos, rg, stk, lg) CPush = (pos, rg, (pos, rg) # stk, lg)"
| "read1 (pos, rg, stk, lg) CPop = (case stk of [] \<Rightarrow> (pos, rg, [], lg) | (p, g) # stk \<Rightarrow> (p, g, stk, lg))"
| "read1 (pos, rg, stk, lg) (COther bs adv) = (pos(AxH := pos AxH + adv), rg, stk, lg @ [(pos, adv, bs)])"

text \<open>The same without registers: every command moves by the distance it stands for.\<close>

type_synonym ghost = "position \<times> position list \<times> log"

fun ghost1 :: "ghost \<Rightarrow> cmd \<Rightarrow> ghost" where
  "ghost1 (pos, stk, lg) (Move a w) = (pos(a := pos a + w), stk, lg)"
| "ghost1 (pos, stk, lg) (SetMove a r w) = (pos(a := pos a + w), stk, lg)"
| "ghost1 (pos, stk, lg) (RegMove a r w) = (pos(a := pos a + w), stk, lg)"
| "ghost1 (pos, stk, lg) CPush = (pos, pos # stk, lg)"
| "ghost1 (pos, stk, lg) CPop = (case stk of [] \<Rightarrow> (pos, [], lg) | p # stk \<Rightarrow> (p, stk, lg))"
| "ghost1 (pos, stk, lg) (COther bs adv) = (pos(AxH := pos AxH + adv), stk, lg @ [(pos, adv, bs)])"

section \<open>One register\<close>

text \<open>The execution of one register; it fails when a command would move by another distance than the one it
  stands for, or when it pops more than it pushed.\<close>

fun rex :: "axis \<Rightarrow> reg \<Rightarrow> cmd list \<Rightarrow> int \<Rightarrow> int list \<Rightarrow> (int \<times> int list) option" where
  "rex a r [] v s = Some (v, s)"
| "rex a r (c # cs) v s =
     (case c of
        SetMove a' r' w \<Rightarrow> rex a r cs (if a' = a \<and> r' = r then w else v) s
      | RegMove a' r' w \<Rightarrow> if a' = a \<and> r' = r \<and> v \<noteq> w then None else rex a r cs v s
      | CPush \<Rightarrow> rex a r cs v (v # s)
      | CPop \<Rightarrow> (case s of [] \<Rightarrow> None | v' # s' \<Rightarrow> rex a r cs v' s')
      | _ \<Rightarrow> rex a r cs v s)"

fun dep :: "cmd list \<Rightarrow> nat \<Rightarrow> nat option" where
  "dep [] n = Some n"
| "dep (c # cs) n =
     (case c of CPush \<Rightarrow> dep cs (Suc n) | CPop \<Rightarrow> (case n of 0 \<Rightarrow> None | Suc m \<Rightarrow> dep cs m) | _ \<Rightarrow> dep cs n)"

lemma rex_append: "rex a r (cs @ ds) v s = Option.bind (rex a r cs v s) (\<lambda>(v', s'). rex a r ds v' s')"
  by (induction cs arbitrary: v s) (auto split: cmd.splits list.splits)

lemma rex_prefix: "rex a r (cs @ ds) v s \<noteq> None \<Longrightarrow> rex a r cs v s \<noteq> None"
  by (auto simp: rex_append split: Option.bind_splits)

lemma dep_append: "dep (cs @ ds) n = Option.bind (dep cs n) (dep ds)"
  by (induction cs arbitrary: n) (auto split: cmd.splits nat.splits)

lemma rex_dep: "rex a r cs v s = Some (v', s') \<Longrightarrow> dep cs (length s) = Some (length s')"
proof (induction cs arbitrary: v s)
  case (Cons c cs)
  show ?case
  proof (cases c)
    case CPush
    with Cons.prems Cons.IH [of v "v # s"] show ?thesis by simp
  next
    case CPop
    with Cons show ?thesis by (auto split: list.splits)
  qed (use Cons in \<open>auto split: if_splits\<close>)
qed simp

lemma rex_frame: "rex a r cs v s = Some (v', s') \<Longrightarrow> rex a r cs v (s @ t) = Some (v', s' @ t)"
proof (induction cs arbitrary: v s)
  case (Cons c cs)
  show ?case
  proof (cases c)
    case CPush
    with Cons.prems Cons.IH [of v "v # s"] show ?thesis by simp
  next
    case CPop
    with Cons show ?thesis by (auto split: list.splits)
  qed (use Cons in \<open>auto split: if_splits\<close>)
qed simp

lemma rex_unframe:
  "rex a r cs v (s @ t) = Some (v', u) \<Longrightarrow> dep cs (length s) = Some m
   \<Longrightarrow> \<exists>s'. u = s' @ t \<and> rex a r cs v s = Some (v', s')"
proof (induction cs arbitrary: v s)
  case (Cons c cs)
  show ?case
  proof (cases c)
    case CPush
    with Cons.prems Cons.IH [of v "v # s"] show ?thesis by simp
  next
    case CPop
    with Cons show ?thesis by (cases s) auto
  qed (use Cons in \<open>auto split: if_splits\<close>)
qed simp

text \<open>A register that never fails is what the reader holds, so that the reader is where the distances say.\<close>

fun drop_registers :: "reader \<Rightarrow> ghost" where
  "drop_registers (pos, rg, stk, lg) = (pos, map fst stk, lg)"

lemma read1_ghost:
  assumes "\<And>a r. rex a r [c] (rg a r) (map (\<lambda>(p, g). g a r) stk) \<noteq> None"
  obtains pos' rg' stk' lg' where "read1 (pos, rg, stk, lg) c = (pos', rg', stk', lg')"
    and "ghost1 (pos, map fst stk, lg) c = (pos', map fst stk', lg')"
    and "\<And>a r. rex a r [c] (rg a r) (map (\<lambda>(p, g). g a r) stk) = Some (rg' a r, map (\<lambda>(p, g). g a r) stk')"
proof (cases c)
  case (RegMove a' r' w)
  then have "rg a' r' = w" using assms [of a' r'] by (auto split: if_splits)
  with RegMove show ?thesis using assms that by auto
next
  case CPop
  then show ?thesis using assms that by (cases stk) (auto split: prod.splits)
qed (use that in auto)

lemma read_ghost:
  assumes "\<And>a r. rex a r cs (rg a r) (map (\<lambda>(p, g). g a r) stk) \<noteq> None"
  shows "drop_registers (foldl read1 (pos, rg, stk, lg) cs) = foldl ghost1 (pos, map fst stk, lg) cs"
  using assms
proof (induction cs arbitrary: pos rg stk lg)
  case (Cons c cs)
  have one: "rex a r [c] (rg a r) (map (\<lambda>(p, g). g a r) stk) \<noteq> None" for a r
    using Cons.prems rex_prefix [of a r "[c]" cs] by simp
  obtain pos' rg' stk' lg' where step: "read1 (pos, rg, stk, lg) c = (pos', rg', stk', lg')"
    "ghost1 (pos, map fst stk, lg) c = (pos', map fst stk', lg')"
    "\<And>a r. rex a r [c] (rg a r) (map (\<lambda>(p, g). g a r) stk) = Some (rg' a r, map (\<lambda>(p, g). g a r) stk')"
    using read1_ghost [OF one] by metis
  have "rex a r cs (rg' a r) (map (\<lambda>(p, g). g a r) stk') \<noteq> None" for a r
    using Cons.prems [of a r] rex_append [of a r "[c]" cs] step(3) [of a r] by (simp del: rex.simps(2))
  from Cons.IH [OF this] step show ?case by simp
qed simp

section \<open>Tagged commands\<close>

text \<open>A command is live while it is on its movement stack, and a push is open until it is popped.\<close>

datatype tag = Live MovementInfo | Open | Dead

type_synonym item = "cmd \<times> tag"

fun axis_of :: "cmd \<Rightarrow> axis option" where
  "axis_of (Move a w) = Some a"
| "axis_of (SetMove a r w) = Some a"
| "axis_of (RegMove a r w) = Some a"
| "axis_of _ = None"

fun width_of :: "cmd \<Rightarrow> int" where
  "width_of (Move a w) = w"
| "width_of (SetMove a r w) = w"
| "width_of (RegMove a r w) = w"
| "width_of _ = 0"

fun here :: "reg \<Rightarrow> MovementInfo" where
  "here RY = YHere"
| "here RZ = ZHere"

fun flag :: "reg \<Rightarrow> MovementInfo \<Rightarrow> bool" where
  "flag RY i = (i \<in> {YzOk, YOk})"
| "flag RZ i = (i \<in> {YzOk, ZOk})"

fun restrict_info :: "reg \<Rightarrow> MovementInfo \<Rightarrow> MovementInfo" where
  "restrict_info RY = restrict_y_info"
| "restrict_info RZ = restrict_z_info"

lemma flag_restrict [simp]: "flag r' (restrict_info r i) \<longleftrightarrow> flag r' i \<and> r' \<noteq> r"
  by (cases r; cases r'; cases i) auto

lemma here_restrict [simp]: "restrict_info r i = here r' \<longleftrightarrow> i = here r'"
  by (cases r; cases r'; cases i) auto

lemma restrict_here [simp]: "restrict_y_info (here r) = here r" "restrict_z_info (here r) = here r"
  by (cases r; simp)+

lemma here_not_flag [simp]: "\<not> flag r (here r')"
  by (cases r; cases r') auto

lemma here_iff [simp]: "here r = YHere \<longleftrightarrow> r = RY" "here r = ZHere \<longleftrightarrow> r = RZ" "YHere = here r \<longleftrightarrow> r = RY"
    "ZHere = here r \<longleftrightarrow> r = RZ" "here r \<noteq> YzOk" "here r \<noteq> YOk" "here r \<noteq> ZOk" "here r \<noteq> DFixed"
    "YzOk \<noteq> here r" "YOk \<noteq> here r" "ZOk \<noteq> here r" "DFixed \<noteq> here r"
  by (cases r; simp)+

lemma here_inj [simp]: "here r = here r' \<longleftrightarrow> r = r'"
  by (cases r; cases r') auto

definition here_item :: "axis \<Rightarrow> reg \<Rightarrow> item \<Rightarrow> bool" where
  "here_item a r x \<longleftrightarrow> axis_of (fst x) = Some a \<and> snd x = Live (here r)"

text \<open>A live command that holds a register is a command of that register; every other live command is explicit.\<close>

fun wf_item :: "item \<Rightarrow> bool" where
  "wf_item (c, Live i) =
     (\<exists>a w. c = Move a w \<and> i \<notin> {YHere, ZHere} \<or> (\<exists>r. (c = SetMove a r w \<or> c = RegMove a r w) \<and> i = here r))"
| "wf_item (c, Open) = (c = CPush)"
| "wf_item (c, Dead) = True"

abbreviation cmds :: "item list \<Rightarrow> cmd list" where "cmds xs \<equiv> map fst xs"

definition nopen :: "item list \<Rightarrow> nat" where
  "nopen xs = length (filter (\<lambda>x. snd x = Open) xs)"

lemma nopen_simps [simp]:
  "nopen [] = 0" "nopen (x # xs) = (if snd x = Open then 1 else 0) + nopen xs" "nopen (xs @ ys) = nopen xs + nopen ys"
  by (auto simp: nopen_def)

text \<open>What the optimiser relies on for a register: after a live command that may still be turned into one that sets
  the register, nothing depends on the old value of the register; and when no live command after it holds
  the register, the value survives.\<close>

definition safe :: "axis \<Rightarrow> reg \<Rightarrow> item list \<Rightarrow> bool" where
  "safe a r xs \<longleftrightarrow> (\<forall>us c i vs. xs = us @ (c, Live i) # vs \<longrightarrow> axis_of c = Some a \<longrightarrow>
     (flag r i \<longrightarrow> (\<forall>v. rex a r (cmds vs) v [] \<noteq> None))
     \<and> ((\<forall>x \<in> set vs. \<not> here_item a r x) \<longrightarrow> (\<forall>v v' s. rex a r (cmds vs) v [] = Some (v', s) \<longrightarrow> v' = v)))"

lemma safeD:
  assumes "safe a r (us @ (c, Live i) # vs)" and "axis_of c = Some a"
  shows "flag r i \<Longrightarrow> rex a r (cmds vs) v [] \<noteq> None"
    and "\<forall>x \<in> set vs. \<not> here_item a r x \<Longrightarrow> rex a r (cmds vs) v [] = Some (v', s) \<Longrightarrow> v' = v"
  using assms unfolding safe_def by blast+

text \<open>Nesting: after a live command or an open push, pushes and pops are balanced up to the open pushes.\<close>

definition nested :: "item list \<Rightarrow> bool" where
  "nested xs \<longleftrightarrow> dep (cmds xs) 0 = Some (nopen xs)
     \<and> (\<forall>us x vs. xs = us @ x # vs \<longrightarrow> snd x \<noteq> Dead \<longrightarrow> dep (cmds vs) 0 = Some (nopen vs))"

lemma nestedD: "nested (us @ x # vs) \<Longrightarrow> snd x \<noteq> Dead \<Longrightarrow> dep (cmds vs) 0 = Some (nopen vs)"
  unfolding nested_def by blast

text \<open>The page so far and what it was at each open push.\<close>

definition cut :: "item list \<Rightarrow> item list \<Rightarrow> bool" where
  "cut xs ys \<longleftrightarrow> ys = xs \<or> (\<exists>c zs. xs = ys @ (c, Open) # zs)"

definition page_ok :: "item list \<Rightarrow> bool" where
  "page_ok xs \<longleftrightarrow> list_all wf_item xs \<and> nested xs \<and> (\<forall>a r. rex a r (cmds xs) 0 [] \<noteq> None)
     \<and> (\<forall>ys a r. cut xs ys \<longrightarrow> safe a r ys)"

section \<open>Register safety is kept\<close>

text \<open>Commands may change as long as the register does not see it, no flag is added and no holder is lost.\<close>

definition tamer :: "axis \<Rightarrow> reg \<Rightarrow> item \<Rightarrow> item \<Rightarrow> bool" where
  "tamer a r x y \<longleftrightarrow> (\<forall>cs v s. rex a r (fst x # cs) v s = rex a r (fst y # cs) v s)
     \<and> (\<forall>i. snd y = Live i \<longrightarrow> axis_of (fst y) = Some a \<longrightarrow>
          (\<exists>j. snd x = Live j \<and> axis_of (fst x) = Some a \<and> (flag r i \<longrightarrow> flag r j)))
     \<and> (here_item a r x \<longrightarrow> here_item a r y)"

lemma tamer_rex: "list_all2 (tamer a r) xs ys \<Longrightarrow> rex a r (cmds ys) v s = rex a r (cmds xs) v s"
proof (induction arbitrary: v s rule: list_all2_induct)
  case (Cons x xs y ys)
  have "rex a r (fst y # cmds ys) v s = rex a r (fst x # cmds ys) v s" using Cons.hyps(1) by (simp add: tamer_def)
  also have "\<dots> = rex a r (fst x # cmds xs) v s" using Cons.IH by (auto split: cmd.splits list.splits)
  finally show ?case by simp
qed simp

lemma safe_tamer:
  assumes "safe a r xs" and "list_all2 (tamer a r) xs ys"
  shows "safe a r ys"
  unfolding safe_def
proof (intro allI impI)
  fix us c i vs
  assume ys: "ys = us @ (c, Live i) # vs" and c: "axis_of c = Some a"
  from assms(2) obtain us' x vs' where xs: "xs = us' @ x # vs'" and x: "tamer a r x (c, Live i)"
    and vs: "list_all2 (tamer a r) vs' vs"
    unfolding ys by (auto simp: list_all2_append2 list_all2_Cons2)
  from x c obtain j where j: "snd x = Live j" "axis_of (fst x) = Some a" "flag r i \<Longrightarrow> flag r j"
    by (auto simp: tamer_def)
  have xs': "safe a r (us' @ (fst x, Live j) # vs')" using assms(1) j(1) unfolding xs by (metis prod.collapse)
  have "\<forall>x \<in> set vs'. \<not> here_item a r x" if "\<forall>x \<in> set vs. \<not> here_item a r x"
    using vs that by (fastforce simp: list_all2_conv_all_nth in_set_conv_nth tamer_def)
  with safeD [OF xs' j(2)] j(3) show "(flag r i \<longrightarrow> (\<forall>v. rex a r (cmds vs) v [] \<noteq> None))
     \<and> ((\<forall>x \<in> set vs. \<not> here_item a r x) \<longrightarrow> (\<forall>v v' s. rex a r (cmds vs) v [] = Some (v', s) \<longrightarrow> v' = v))"
    unfolding tamer_rex [OF vs] by blast
qed

lemma snoc_split: "xs @ [y] = us @ x # vs \<longleftrightarrow> (us = xs \<and> x = y \<and> vs = []) \<or> (\<exists>ws. xs = us @ x # ws \<and> vs = ws @ [y])"
  by (cases vs rule: rev_cases) auto

lemma safe_snoc:
  assumes safe: "safe a r xs"
    and step: "\<And>us c i vs v v' s. xs = us @ (c, Live i) # vs \<Longrightarrow> axis_of c = Some a \<Longrightarrow>
      rex a r (cmds vs) v [] = Some (v', s) \<Longrightarrow> flag r i \<or> (\<forall>x \<in> set (vs @ [y]). \<not> here_item a r x) \<Longrightarrow>
      \<exists>s'. rex a r [fst y] v' s = Some (v', s')"
  shows "safe a r (xs @ [y])"
  unfolding safe_def snoc_split
proof (intro allI impI, elim disjE exE conjE, goal_cases)
  case (2 us c i vs ws)
  have step': "\<exists>v' s'. rex a r (cmds vs) v [] = Some (v', s') \<and> rex a r (cmds ws) v [] = Some (v', s)"
    if "rex a r (cmds ws) v [] = Some (v', s)" and "flag r i \<or> (\<forall>x \<in> set (ws @ [y]). \<not> here_item a r x)" for v v' s
    using step [OF 2(2) 2(1) that] that(1) 2(3) by (auto simp: rex_append simp del: rex.simps(2))
  show ?case
  proof (intro conjI impI allI)
    fix v
    assume "flag r i"
    then obtain v' s where "rex a r (cmds ws) v [] = Some (v', s)" using safeD(1) [of a r us c i ws] safe 2 by fastforce
    with step' \<open>flag r i\<close> show "rex a r (cmds vs) v [] \<noteq> None" by blast
  next
    fix v v' s
    assume nh: "\<forall>x \<in> set vs. \<not> here_item a r x" and run: "rex a r (cmds vs) v [] = Some (v', s)"
    from run 2(3) obtain w t where w: "rex a r (cmds ws) v [] = Some (w, t)"
      by (auto simp: rex_append simp del: rex.simps(2) split: Option.bind_splits)
    with step' [OF this] nh 2(3) run have "v' = w" by auto
    moreover have "w = v" using safeD(2) [of a r us c i ws v w t] safe 2 nh w by auto
    ultimately show "v' = v" by simp
  qed
qed simp


text \<open>A command that the register does not see, and a push.\<close>

lemma safe_snoc_quiet:
  assumes "safe a r xs" and "\<And>v s. \<exists>s'. rex a r [fst y] v s = Some (v, s')"
  shows "safe a r (xs @ [y])"
  using assms(2) by (intro safe_snoc [OF assms(1)]) blast

text \<open>Turning a flagged command into one that sets the register.\<close>

lemma safe_set:
  assumes safe: "safe a r (us @ (Move a w, Live i) # vs)" and flag: "flag r i"
  shows "safe a r (us @ (SetMove a r w, Live (here r)) # vs)"
  unfolding safe_def
proof (intro allI impI)
  fix us1 c j vs1
  assume eq: "us @ (SetMove a r w, Live (here r)) # vs = us1 @ (c, Live j) # vs1" and c: "axis_of c = Some a"
  have later: "\<exists>v' s. rex a r (cmds vs) w [] = Some (v', s)" using safeD(1) [OF safe, of w] flag by auto
  consider "us1 = us" "c = SetMove a r w" "j = here r" "vs1 = vs"
    | ws where "us = us1 @ (c, Live j) # ws" "vs1 = ws @ (SetMove a r w, Live (here r)) # vs"
    | ws where "vs = ws @ (c, Live j) # vs1"
    using eq by (auto simp: append_eq_append_conv2 Cons_eq_append_conv append_eq_Cons_conv)
  then show "(flag r j \<longrightarrow> (\<forall>v. rex a r (cmds vs1) v [] \<noteq> None))
     \<and> ((\<forall>x \<in> set vs1. \<not> here_item a r x) \<longrightarrow> (\<forall>v v' s. rex a r (cmds vs1) v [] = Some (v', s) \<longrightarrow> v' = v))"
  proof cases
    case 1
    then show ?thesis using safeD [OF safe] by auto
  next
    case (2 ws)
    have "rex a r (cmds vs1) v [] \<noteq> None" if fl: "flag r j" for v
    proof -
      have "safe a r (us1 @ (c, Live j) # ws @ (Move a w, Live i) # vs)" using safe 2(1) by simp
      from safeD(1) [OF this c fl, of v] obtain v1 s1 where ws: "rex a r (cmds ws) v [] = Some (v1, s1)"
        by (auto simp: rex_append split: Option.bind_splits)
      obtain v2 s2 where "rex a r (cmds vs) w ([] @ s1) = Some (v2, s2 @ s1)"
        using later rex_frame by blast
      with ws show ?thesis by (simp add: 2(2) rex_append)
    qed
    moreover have "here_item a r (SetMove a r w, Live (here r))" by (simp add: here_item_def)
    ultimately show ?thesis using 2(2) by auto
  next
    case (3 ws)
    then have "safe a r ((us @ (Move a w, Live i) # ws) @ (c, Live j) # vs1)" using safe by simp
    from safeD [OF this c] show ?thesis by blast
  qed
qed

text \<open>Moving by a register that holds the distance.\<close>

lemma holder_value:
  assumes "(c = SetMove a r w \<or> c = RegMove a r w)" and "rex a r (c # cs) v s = Some x"
  shows "rex a r cs w s = Some x"
  using assms by (auto split: if_splits)

lemma safe_use:
  assumes safe: "safe a r (us @ (c, Live (here r)) # vs)" and c: "c = SetMove a r w \<or> c = RegMove a r w"
    and quiet: "\<forall>x \<in> set vs. \<not> here_item a r x" and noflag: "\<forall>d i. (d, Live i) \<in> set vs \<longrightarrow> axis_of d = Some a \<longrightarrow> \<not> flag r i"
    and dep: "dep (cmds vs) 0 = Some m"
  shows "safe a r (us @ (c, Live (here r)) # vs @ [(RegMove a r w, Live (here r))])"
proof -
  have survive: "v1 = w" if run: "rex a r (cmds vs) w s = Some (v1, s1)" for s v1 s1
  proof -
    from rex_unframe [of a r "cmds vs" w "[]" s v1 s1] run dep obtain s' where "rex a r (cmds vs) w [] = Some (v1, s')"
      by auto
    with safeD(2) [OF safe _ quiet] c show ?thesis by auto
  qed
  have "safe a r ((us @ (c, Live (here r)) # vs) @ [(RegMove a r w, Live (here r))])"
  proof (rule safe_snoc [OF safe])
    fix us1 d i vs1 v v' s
    assume eq: "us @ (c, Live (here r)) # vs = us1 @ (d, Live i) # vs1" and d: "axis_of d = Some a"
      and run: "rex a r (cmds vs1) v [] = Some (v', s)"
      and "flag r i \<or> (\<forall>x \<in> set (vs1 @ [(RegMove a r w, Live (here r))]). \<not> here_item a r x)"
    then have fl: "flag r i" by (auto simp: here_item_def)
    with d noflag have "(d, Live i) \<notin> set vs" by blast
    with eq fl obtain ws where ws: "us = us1 @ (d, Live i) # ws" "vs1 = ws @ (c, Live (here r)) # vs"
      by (auto simp: append_eq_append_conv2 Cons_eq_append_conv append_eq_Cons_conv)
    from run ws(2) obtain v1 s1 where "rex a r (c # cmds vs) v1 s1 = Some (v', s)"
      by (auto simp: rex_append simp del: rex.simps(2) split: Option.bind_splits)
    from survive [OF holder_value [OF c this]] show "\<exists>s'. rex a r [fst (RegMove a r w, Live (here r))] v' s = Some (v', s')"
      by simp
  qed
  then show ?thesis by simp
qed

lemma rex_use:
  assumes safe: "safe a r (us @ (c, Live (here r)) # vs)" and c: "c = SetMove a r w \<or> c = RegMove a r w"
    and quiet: "\<forall>x \<in> set vs. \<not> here_item a r x" and dep: "dep (cmds vs) 0 = Some m"
    and run: "rex a r (cmds (us @ (c, Live (here r)) # vs)) v s \<noteq> None"
  shows "rex a r (cmds (us @ (c, Live (here r)) # vs @ [(RegMove a r w, Live (here r))])) v s \<noteq> None"
proof -
  obtain v1 s1 v2 s2 where us: "rex a r (cmds us) v s = Some (v1, s1)" and "rex a r (c # cmds vs) v1 s1 = Some (v2, s2)"
    using run by (auto simp: rex_append simp del: rex.simps(2) split: Option.bind_splits)
  note raw = this(2)
  note vs = holder_value [OF c raw]
  from rex_unframe [of a r "cmds vs" w "[]" s1 v2 s2] vs dep obtain s' where "rex a r (cmds vs) w [] = Some (v2, s')"
    by auto
  with safeD(2) [OF safe _ quiet] c have "v2 = w" by auto
  have "rex a r (c # cmds vs @ [RegMove a r w]) v1 s1 = Some (w, s2)"
    using raw \<open>v2 = w\<close> rex_append [of a r "c # cmds vs" "[RegMove a r w]" v1 s1] by (simp del: rex.simps(2)) simp
  with us show ?thesis by (simp add: rex_append del: rex.simps(2))
qed


section \<open>The page stays correct\<close>

lemma cut_snoc: "cut (xs @ [y]) ys \<Longrightarrow> ys = xs @ [y] \<or> cut xs ys"
  unfolding cut_def snoc_split by auto

lemma nested_snoc:
  assumes "nested xs" and "c \<noteq> CPop" and "t = Open \<longleftrightarrow> c = CPush"
  shows "nested (xs @ [(c, t)])"
proof -
  have one: "dep [c] n = Some (n + (if t = Open then 1 else 0))" for n
    using assms(2,3) by (cases c) auto
  have "dep (cmds vs) 0 = Some (nopen vs)" if eq: "xs @ [(c, t)] = us @ x # vs" and x: "snd x \<noteq> Dead" for us x vs
  proof -
    from eq consider "vs = []" | ws where "xs = us @ x # ws" "vs = ws @ [(c, t)]" unfolding snoc_split by blast
    then show ?thesis
    proof cases
      case (2 ws)
      with assms(1) have "dep (cmds ws) 0 = Some (nopen ws)" using nestedD x by blast
      with 2 one show ?thesis by (simp add: dep_append del: dep.simps(2))
    qed simp
  qed
  with assms(1) one show ?thesis unfolding nested_def by (auto simp: dep_append simp del: dep.simps(2))
qed

lemma page_okD:
  assumes "page_ok xs"
  shows "list_all wf_item xs" "nested xs" "rex a r (cmds xs) 0 [] \<noteq> None" "cut xs ys \<Longrightarrow> safe a r ys" "safe a r xs"
  using assms unfolding page_ok_def cut_def by blast+

lemma page_ok_quiet:
  assumes ok: "page_ok xs" and "wf_item (c, t)" and "c \<noteq> CPop" and "t = Open \<longleftrightarrow> c = CPush"
    and quiet: "\<And>a r v s. \<exists>s'. rex a r [c] v s = Some (v, s')"
  shows "page_ok (xs @ [(c, t)])"
proof -
  have "safe a r (xs @ [(c, t)])" for a r using page_okD(5) [OF ok] quiet by (intro safe_snoc_quiet) auto
  then have "safe a r ys" if "cut (xs @ [(c, t)]) ys" for a r ys
    using cut_snoc [OF that] page_okD(4) [OF ok] by blast
  moreover have "rex a r (cmds (xs @ [(c, t)])) 0 [] \<noteq> None" for a r
  proof -
    obtain v s where "rex a r (cmds xs) 0 [] = Some (v, s)" using page_okD(3) [OF ok] by fastforce
    then show ?thesis using quiet [of a r v s] by (auto simp: rex_append simp del: rex.simps(2))
  qed
  ultimately show ?thesis
    using page_okD(1,2) [OF ok] assms(2) nested_snoc [OF page_okD(2) [OF ok] assms(3,4)]
    by (simp add: page_ok_def)
qed

text \<open>Closing a box: its commands leave the stacks.\<close>

fun kill :: "item \<Rightarrow> item" where
  "kill (c, t) = (c, Dead)"

lemma cmds_kill [simp]: "cmds (map kill xs) = cmds xs"
  by (induction xs) auto

lemma kill_sel [simp]: "fst (kill x) = fst x" "snd (kill x) = Dead"
  by (cases x; simp)+

lemma rex_closed:
  assumes "rex a r (cmds us @ CPush # cs) v [] \<noteq> None" and "dep cs 0 = Some 0"
  shows "rex a r (cmds us @ CPush # cs @ [CPop]) v [] = rex a r (cmds us) v []"
proof -
  obtain v1 s1 v2 s2 where us: "rex a r (cmds us) v [] = Some (v1, s1)" and cs: "rex a r cs v1 ([] @ v1 # s1) = Some (v2, s2)"
    using assms(1) by (auto simp: rex_append split: Option.bind_splits)
  from rex_unframe [OF cs] assms(2) obtain s' where s': "s2 = s' @ v1 # s1" "rex a r cs v1 [] = Some (v2, s')" by auto
  from rex_dep [OF s'(2)] assms(2) have "s' = []" by simp
  with us cs s' show ?thesis by (simp add: rex_append)
qed

definition closed :: "item list \<Rightarrow> item list \<Rightarrow> item list" where
  "closed us vs = us @ (CPush, Dead) # map kill vs @ [(CPop, Dead)]"

lemma closed_split:
  assumes "closed us vs = us1 @ x # vs1" and "snd x \<noteq> Dead"
  obtains ws where "us = us1 @ x # ws" and "vs1 = closed ws vs"
  using assms that unfolding closed_def
  by (auto simp: append_eq_append_conv2 Cons_eq_append_conv append_eq_Cons_conv snoc_eq_iff_butlast map_eq_append_conv)

lemma page_ok_pop:
  assumes ok: "page_ok (us @ (CPush, Open) # vs)" and "\<forall>x \<in> set vs. snd x \<noteq> Open"
  shows "page_ok (closed us vs)"
proof -
  have no: "nopen vs = 0" using assms(2) by (simp add: nopen_def)
  have dvs: "dep (cmds vs) 0 = Some 0" using nestedD [OF page_okD(2) [OF ok]] no by simp
  have cmds: "cmds (closed ws vs) = cmds ws @ CPush # cmds vs @ [CPop]" for ws by (simp add: closed_def)
  have dws: "dep (cmds (closed ws vs)) 0 = Some (nopen (closed ws vs))"
    if "dep (cmds (ws @ (CPush, Open) # vs)) 0 = Some (nopen (ws @ (CPush, Open) # vs))" for ws
    using that no unfolding cmds by (auto simp: dep_append nopen_def closed_def split: Option.bind_splits)
  have "nested (closed us vs)"
    unfolding nested_def
  proof (intro conjI allI impI)
    show "dep (cmds (closed us vs)) 0 = Some (nopen (closed us vs))"
      using page_okD(2) [OF ok] dws unfolding nested_def by blast
    fix us1 x vs1
    assume "closed us vs = us1 @ x # vs1" and x: "snd x \<noteq> Dead"
    then obtain ws where ws: "us = us1 @ x # ws" "vs1 = closed ws vs" by (rule closed_split)
    then show "dep (cmds vs1) 0 = Some (nopen vs1)"
      using nestedD [of us1 x "ws @ (CPush, Open) # vs"] page_okD(2) [OF ok] x dws by simp
  qed
  moreover have "rex a r (cmds (closed us vs)) 0 [] \<noteq> None" for a r
    using page_okD(3) [OF ok, of a r] rex_closed [OF _ dvs, of a r us 0]
    by (auto simp: cmds rex_append split: Option.bind_splits)
  moreover have main: "safe a r (closed us vs)" for a r
    unfolding safe_def
  proof (intro allI impI)
    fix us1 c i vs1
    assume "closed us vs = us1 @ (c, Live i) # vs1" and c: "axis_of c = Some a"
    then obtain ws where ws: "us = us1 @ (c, Live i) # ws" "vs1 = closed ws vs" by (elim closed_split) auto
    have old: "safe a r (us1 @ (c, Live i) # ws @ (CPush, Open) # vs)" using page_okD(5) [OF ok] ws(1) by simp
    have small: "safe a r (us1 @ (c, Live i) # ws)" using page_okD(4) [OF ok, of us] ws(1) by (auto simp: cut_def)
    have nh: "\<forall>x \<in> set ws. \<not> here_item a r x" if "\<forall>x \<in> set vs1. \<not> here_item a r x"
      using that by (auto simp: ws(2) closed_def)
    have eq: "rex a r (cmds vs1) v [] = rex a r (cmds ws) v []"
      if "rex a r (cmds ws @ CPush # cmds vs) v [] \<noteq> None" for v
      using rex_closed [OF that dvs] by (simp add: ws(2) cmds)
    show "(flag r i \<longrightarrow> (\<forall>v. rex a r (cmds vs1) v [] \<noteq> None))
       \<and> ((\<forall>x \<in> set vs1. \<not> here_item a r x) \<longrightarrow> (\<forall>v v' s. rex a r (cmds vs1) v [] = Some (v', s) \<longrightarrow> v' = v))"
    proof (intro conjI impI allI)
      fix v
      assume "flag r i"
      then have run: "rex a r (cmds ws @ CPush # cmds vs) v [] \<noteq> None" using safeD(1) [OF old c, of v] by simp
      then have "rex a r (cmds ws) v [] \<noteq> None" by (auto simp: rex_append split: Option.bind_splits)
      then show "rex a r (cmds vs1) v [] \<noteq> None" using eq [OF run] by simp
    next
      fix v v' s
      assume quiet: "\<forall>x \<in> set vs1. \<not> here_item a r x" and run: "rex a r (cmds vs1) v [] = Some (v', s)"
      have "rex a r ((cmds ws @ CPush # cmds vs) @ [CPop]) v [] \<noteq> None" using run by (simp add: ws(2) cmds)
      then have "rex a r (cmds ws @ CPush # cmds vs) v [] \<noteq> None" by (rule rex_prefix)
      from eq [OF this] run show "v' = v" using safeD(2) [OF small c nh [OF quiet], of v v' s] by simp
    qed
  qed
  moreover have "safe a r ys" if "cut (closed us vs) ys" for a r ys
  proof (cases "ys = closed us vs")
    case False
    with that obtain c zs where "closed us vs = ys @ (c, Open) # zs" by (auto simp: cut_def)
    then obtain ws where "us = ys @ (c, Open) # ws" by (elim closed_split) auto
    then have "cut (us @ (CPush, Open) # vs) ys" by (auto simp: cut_def)
    then show ?thesis by (rule page_okD(4) [OF ok])
  qed (use main in simp)
  moreover have "list_all wf_item (closed us vs)"
    using page_okD(1) [OF ok] by (auto simp: closed_def list_all_iff elim!: kill.elims)
  ultimately show ?thesis by (simp add: page_ok_def)
qed


text \<open>A hit: the command found holds the register from now on, and those after it may no longer take it.\<close>

fun restr :: "axis \<Rightarrow> reg \<Rightarrow> item \<Rightarrow> item" where
  "restr a r (c, Live i) = (c, Live (if axis_of c = Some a then restrict_info r i else i))"
| "restr a r x = x"

lemma restr_sel [simp]: "fst (restr a r x) = fst x" "snd (restr a r x) = Open \<longleftrightarrow> snd x = Open"
    "snd (restr a r x) = Dead \<longleftrightarrow> snd x = Dead"
  by (cases "(a, r, x)" rule: restr.cases; simp)+

lemma cmds_restr [simp]: "map (fst \<circ> restr a r) xs = cmds xs"
  by simp

lemma here_item_restr [simp]: "here_item a' r' (restr a r x) \<longleftrightarrow> here_item a' r' x"
  by (cases "(a, r, x)" rule: restr.cases) (auto simp: here_item_def)

lemma tamer_refl: "tamer a r x x"
  by (auto simp: tamer_def)

lemma tamer_restr: "tamer a' r' x (restr a r x)"
  by (cases "(a, r, x)" rule: restr.cases) (auto simp: tamer_def here_item_def)

lemma list_all2_tamer_refl: "list_all2 (tamer a r) xs xs"
  by (simp add: list_all2_refl tamer_refl)

lemma list_all2_tamer_restr: "list_all2 (tamer a' r') xs (map (restr a r) xs)"
  by (simp add: list_all2_conv_all_nth tamer_restr)

definition hit_at :: "axis \<Rightarrow> reg \<Rightarrow> int \<Rightarrow> cmd \<Rightarrow> MovementInfo \<Rightarrow> bool" where
  "hit_at a r w c i \<longleftrightarrow> axis_of c = Some a \<and> width_of c = w \<and> wf_item (c, Live i) \<and> (flag r i \<or> i = here r)"

definition holder :: "axis \<Rightarrow> reg \<Rightarrow> int \<Rightarrow> cmd \<Rightarrow> MovementInfo \<Rightarrow> cmd" where
  "holder a r w c i = (if flag r i then SetMove a r w else c)"

definition after_hit :: "axis \<Rightarrow> reg \<Rightarrow> int \<Rightarrow> item list \<Rightarrow> cmd \<Rightarrow> MovementInfo \<Rightarrow> item list \<Rightarrow> item list" where
  "after_hit a r w us c i vs = us @ (holder a r w c i, Live (here r)) # map (restr a r) vs"

lemma kinds: "hit_at a r w c i \<Longrightarrow> c = Move a w \<and> flag r i \<and> holder a r w c i = SetMove a r w
    \<or> (c = SetMove a r w \<or> c = RegMove a r w) \<and> i = here r \<and> holder a r w c i = c"
  by (cases r) (auto simp: holder_def hit_at_def)

lemma holder: "hit_at a r w c i \<Longrightarrow> holder a r w c i = SetMove a r w \<or> holder a r w c i = RegMove a r w"
  using kinds by blast

lemma safe_after_hit:
  assumes h: "hit_at a r w c i" and safe: "\<And>a' r'. safe a' r' (us @ (c, Live i) # vs')"
  shows "safe a' r' (after_hit a r w us c i vs')"
proof (cases "a' = a \<and> r' = r")
  case True
  have "safe a r (us @ (holder a r w c i, Live (here r)) # vs')"
    using kinds [OF h] safe_set [of a r us w i vs'] safe [of a r] by metis
  moreover have "list_all2 (tamer a r) (us @ (holder a r w c i, Live (here r)) # vs') (after_hit a r w us c i vs')"
    by (simp add: after_hit_def list_all2_appendI list_all2_tamer_refl list_all2_tamer_restr tamer_refl)
  ultimately show ?thesis using True safe_tamer by blast
next
  case False
  have "tamer a' r' (c, Live i) (holder a r w c i, Live (here r))"
    using kinds [OF h] False by (auto simp: tamer_def here_item_def)
  then have "list_all2 (tamer a' r') (us @ (c, Live i) # vs') (after_hit a r w us c i vs')"
    by (simp add: after_hit_def list_all2_appendI list_all2_tamer_refl list_all2_tamer_restr)
  then show ?thesis using safe safe_tamer by blast
qed

lemma cut_after_hit:
  assumes cut: "cut (after_hit a r w us c i vs) ys"
  obtains "ys = after_hit a r w us c i vs"
    | vs' where "ys = after_hit a r w us c i vs'" "cut (us @ (c, Live i) # vs) (us @ (c, Live i) # vs')"
    | "cut (us @ (c, Live i) # vs) ys"
proof (cases "ys = after_hit a r w us c i vs")
  case False
  with cut obtain d zs where eq: "us @ (holder a r w c i, Live (here r)) # map (restr a r) vs = ys @ (d, Open) # zs"
    by (auto simp: cut_def after_hit_def)
  then consider ws where "us = ys @ (d, Open) # ws"
    | ws where "ys = us @ (holder a r w c i, Live (here r)) # ws" "map (restr a r) vs = ws @ (d, Open) # zs"
    by (auto simp: append_eq_append_conv2 Cons_eq_append_conv append_eq_Cons_conv)
  then show ?thesis
  proof cases
    case 1
    then show ?thesis using that(3) by (auto simp: cut_def)
  next
    case (2 ws)
    then obtain vs1 x vs2 where vs: "vs = vs1 @ x # vs2" "ws = map (restr a r) vs1" "(d, Open) = restr a r x"
      by (auto simp: map_eq_append_conv map_eq_Cons_conv)
    then have "snd x = Open" by (metis restr_sel(2) snd_conv)
    then have "cut (us @ (c, Live i) # vs) (us @ (c, Live i) # vs1)"
      unfolding cut_def vs(1) by (metis append.assoc append_Cons prod.collapse)
    then show ?thesis using that(2) 2(1) vs(2) by (simp add: after_hit_def)
  qed
qed (use that in blast)

lemma nested_after_hit:
  assumes h: "hit_at a r w c i" and nst: "nested (us @ (c, Live i) # vs)"
  shows "nested (after_hit a r w us c i vs)"
proof -
  have hc: "dep (holder a r w c i # cs) = dep cs" "dep (c # cs) = dep cs" for cs
    using kinds [OF h] by (auto simp: fun_eq_iff)
  have no: "nopen (map (restr a r) zs) = nopen zs" for zs by (induction zs) auto
  have "dep (cmds vs1) 0 = Some (nopen vs1)" if eq: "after_hit a r w us c i vs = us1 @ x # vs1" and x: "snd x \<noteq> Dead" for us1 x vs1
  proof -
    consider ws where "us = us1 @ x # ws" "vs1 = ws @ (holder a r w c i, Live (here r)) # map (restr a r) vs"
      | "vs1 = map (restr a r) vs" "x = (holder a r w c i, Live (here r))"
      | ws where "map (restr a r) vs = ws @ x # vs1"
      using eq by (auto simp: after_hit_def append_eq_append_conv2 Cons_eq_append_conv append_eq_Cons_conv)
    then show ?thesis
    proof cases
      case (1 ws)
      then have "nested (us1 @ x # ws @ (c, Live i) # vs)" using nst by simp
      from nestedD [OF this x] 1(2) show ?thesis by (simp add: dep_append hc no)
    next
      case 2
      then show ?thesis using nestedD [OF nst] by (simp add: no)
    next
      case (3 ws)
      then obtain vs0 y vs2 where y: "vs = vs0 @ y # vs2" "x = restr a r y" "vs1 = map (restr a r) vs2"
        by (auto simp: map_eq_append_conv map_eq_Cons_conv)
      then have "nested ((us @ (c, Live i) # vs0) @ y # vs2)" using nst by simp
      from nestedD [OF this] x y show ?thesis by (simp add: no)
    qed
  qed
  moreover have "dep (cmds (after_hit a r w us c i vs)) 0 = Some (nopen (after_hit a r w us c i vs))"
    using nst unfolding nested_def by (simp add: after_hit_def dep_append hc no)
  ultimately show ?thesis unfolding nested_def by blast
qed

lemma page_ok_hit:
  assumes h: "hit_at a r w c i" and quiet: "\<forall>x \<in> set vs. \<not> here_item a r x" and ok: "page_ok (us @ (c, Live i) # vs)"
  shows "page_ok (after_hit a r w us c i vs @ [(RegMove a r w, Live (here r))])"
proof -
  let ?q = "(RegMove a r w, Live (here r))"
  have safe1: "safe a' r' (after_hit a r w us c i vs)" for a' r' by (rule safe_after_hit [OF h]) (rule page_okD(5) [OF ok])
  have dvs: "dep (cmds vs) 0 = Some (nopen vs)" using nestedD [OF page_okD(2) [OF ok]] by simp
  have quiet': "\<forall>x \<in> set (map (restr a r) vs). \<not> here_item a r x" using quiet by auto
  have noflag: "\<forall>d j. (d, Live j) \<in> set (map (restr a r) vs) \<longrightarrow> axis_of d = Some a \<longrightarrow> \<not> flag r j"
  proof (intro allI impI)
    fix d j
    assume "(d, Live j) \<in> set (map (restr a r) vs)" and d: "axis_of d = Some a"
    then obtain x where "(d, Live j) = restr a r x" by auto
    with d show "\<not> flag r j" by (cases "(a, r, x)" rule: restr.cases) auto
  qed
  have "safe a' r' (after_hit a r w us c i vs @ [?q])" for a' r'
  proof (cases "a' = a \<and> r' = r")
    case True
    then show ?thesis
      using safe_use [OF _ holder [OF h] quiet' noflag, of us "nopen vs"] safe1 [of a r] dvs by (simp add: after_hit_def)
  next
    case False
    then show ?thesis using safe1 by (intro safe_snoc_quiet) auto
  qed
  moreover have "safe a' r' ys" if "cut (after_hit a r w us c i vs) ys" for a' r' ys
    using that safe1 page_okD(4) [OF ok] by (elim cut_after_hit) (auto intro: safe_after_hit [OF h])
  ultimately have "safe a' r' ys" if "cut (after_hit a r w us c i vs @ [?q]) ys" for a' r' ys
    using cut_snoc [OF that] by blast
  moreover have "rex a' r' (cmds (after_hit a r w us c i vs @ [?q])) 0 [] \<noteq> None" for a' r'
  proof -
    obtain v1 s1 where us: "rex a' r' (cmds us) 0 [] = Some (v1, s1)" and rest: "rex a' r' (c # cmds vs) v1 s1 \<noteq> None"
      using page_okD(3) [OF ok, of a' r'] by (auto simp: rex_append simp del: rex.simps(2) split: Option.bind_splits)
    have "rex a' r' (holder a r w c i # cmds vs) v1 s1 \<noteq> None"
    proof (cases "a' = a \<and> r' = r \<and> flag r i")
      case True
      with kinds [OF h] have "c = Move a w" "holder a r w c i = SetMove a r w" by auto
      moreover obtain v2 s2 where "rex a r (cmds vs) w [] = Some (v2, s2)"
        using safeD(1) [OF page_okD(5) [OF ok], of a r w] True h by (auto simp: hit_at_def)
      from rex_frame [OF this, of s1] have "rex a r (cmds vs) w s1 \<noteq> None" by simp
      ultimately show ?thesis using True by simp
    next
      case False
      then show ?thesis using rest kinds [OF h] by auto
    qed
    then have one: "rex a' r' (cmds (after_hit a r w us c i vs)) 0 [] \<noteq> None"
      using us by (simp add: after_hit_def rex_append del: rex.simps(2))
    show ?thesis
    proof (cases "a' = a \<and> r' = r")
      case True
      then show ?thesis
        using rex_use [OF _ holder [OF h] quiet', of us "nopen vs" 0 "[]"] safe1 [of a r] dvs one by (simp add: after_hit_def)
    next
      case False
      then have "rex a' r' [RegMove a r w] v s = Some (v, s)" for v s by auto
      with one show ?thesis by (auto simp: rex_append simp del: rex.simps(2))
    qed
  qed
  moreover have "nested (after_hit a r w us c i vs @ [?q])"
    using nested_after_hit [OF h page_okD(2) [OF ok]] by (intro nested_snoc) auto
  moreover have "list_all wf_item (after_hit a r w us c i vs @ [?q])"
  proof -
    have "wf_item (restr a r x)" if "wf_item x" for x
      using that by (cases "(a, r, x)" rule: restr.cases; cases r) (auto elim!: restrict_y_info.elims restrict_z_info.elims)
    then show ?thesis using page_okD(1) [OF ok] holder [OF h] by (auto simp: after_hit_def list_all_iff)
  qed
  ultimately show ?thesis by (simp add: page_ok_def)
qed


section \<open>Bytes and stacks\<close>

text \<open>The bytes of a page, and the entries of the stack of an axis, of a tagged list that starts at an offset.\<close>

definition page_bytes :: "item list \<Rightarrow> byte list" where
  "page_bytes xs = concat (map (\<lambda>x. enc (fst x)) xs)"

fun entries_of :: "axis \<Rightarrow> nat \<Rightarrow> item list \<Rightarrow> MovementEntry list" where
  "entries_of a off [] = []"
| "entries_of a off ((c, t) # xs) =
     (case t of
        Live i \<Rightarrow> if axis_of c = Some a then [\<lparr>mv_width = width_of c, mv_location = off, mv_info = i\<rparr>] else []
      | _ \<Rightarrow> []) @ entries_of a (off + length (enc c)) xs"

lemma page_bytes_simps [simp]:
  "page_bytes [] = []" "page_bytes (x # xs) = enc (fst x) @ page_bytes xs" "page_bytes (xs @ ys) = page_bytes xs @ page_bytes ys"
  by (simp_all add: page_bytes_def)

lemma page_bytes_map [simp]: "page_bytes (map kill xs) = page_bytes xs" "page_bytes (map (restr a r) xs) = page_bytes xs"
  by (simp_all add: page_bytes_def comp_def)

lemma entries_append:
  "entries_of a off (xs @ ys) = entries_of a off xs @ entries_of a (off + length (page_bytes xs)) ys"
  by (induction xs arbitrary: off) (auto simp: algebra_simps)

lemma entries_kill: "entries_of a off (map kill xs) = []"
proof (induction xs arbitrary: off)
  case (Cons x xs)
  then show ?case by (cases x) simp
qed simp

lemma entries_restr:
  "entries_of a' off (map (restr a r) xs) =
     (if a' = a then map (\<lambda>e. e\<lparr>mv_info := restrict_info r (mv_info e)\<rparr>) (entries_of a' off xs) else entries_of a' off xs)"
proof (induction xs arbitrary: off)
  case (Cons x xs)
  then show ?case by (cases "(a, r, x)" rule: restr.cases) auto
qed simp

lemma enc_move_length: "enc (SetMove a r w) \<noteq> [] \<and> length (enc (SetMove a r w)) = length (enc (Move a w))"
  by (auto simp: emit_explicit_movement_def Let_def)

lemma enc_patch: "(enc (Move a w))[0 := enc (Move a w) ! 0 + set_offset r] = enc (SetMove a r w)"
  by (simp add: Let_def)

lemma entries_location: "e \<in> set (entries_of a off xs) \<Longrightarrow> off \<le> mv_location e \<and> mv_location e < off + length (page_bytes xs)"
proof (induction xs arbitrary: off)
  case (Cons x xs)
  obtain c t where x: "x = (c, t)" by (cases x)
  have pos: "axis_of c = Some a \<Longrightarrow> 0 < length (enc c)"
    by (cases c) (auto simp: emit_explicit_movement_def Let_def)
  from Cons.prems consider "axis_of c = Some a" "mv_location e = off" | "e \<in> set (entries_of a (off + length (enc c)) xs)"
    by (auto simp: x split: tag.splits if_splits)
  then show ?case
  proof cases
    case 1
    then show ?thesis using pos by (simp add: x)
  next
    case 2
    from Cons.IH [OF this] show ?thesis by (simp add: x)
  qed
qed simp

text \<open>The entry at an index is a live command of the axis.\<close>

lemma entry_split:
  assumes "p < length (entries_of a off xs)"
  obtains us c i vs where "xs = us @ (c, Live i) # vs" and "axis_of c = Some a" and "length (entries_of a off us) = p"
  using assms
proof (induction xs arbitrary: off p thesis)
  case (Cons x xs)
  obtain c t where x: "x = (c, t)" by (cases x)
  show ?case
  proof (cases "\<exists>i. t = Live i \<and> axis_of c = Some a")
    case True
    then obtain i where i: "t = Live i" "axis_of c = Some a" by blast
    show ?thesis
    proof (cases p)
      case 0
      then show ?thesis using Cons.prems(1) [of "[]" c i xs] i by (simp add: x)
    next
      case (Suc p')
      then have "p' < length (entries_of a (off + length (enc c)) xs)" using Cons.prems(2) i by (simp add: x)
      from Cons.IH [OF _ this] obtain us d j vs where "xs = us @ (d, Live j) # vs" "axis_of d = Some a"
        "length (entries_of a (off + length (enc c)) us) = p'" by metis
      then show ?thesis using Cons.prems(1) [of "x # us" d j vs] i Suc by (simp add: x)
    qed
  next
    case False
    then have none: "(case t of Live i \<Rightarrow> if axis_of c = Some a then [\<lparr>mv_width = width_of c, mv_location = o', mv_info = i\<rparr>] else []
      | _ \<Rightarrow> []) = []" for o' by (auto split: tag.splits)
    then have "p < length (entries_of a (off + length (enc c)) xs)" using Cons.prems(2) by (simp add: x)
    from Cons.IH [OF _ this] obtain us d j vs where "xs = us @ (d, Live j) # vs" "axis_of d = Some a"
      "length (entries_of a (off + length (enc c)) us) = p" by metis
    then show ?thesis using Cons.prems(1) [of "x # us" d j vs] none by (simp add: x)
  qed
qed simp

section \<open>The search\<close>

definition scanned :: "MovementState \<Rightarrow> MovementEntry list \<Rightarrow> nat \<Rightarrow> nat \<Rightarrow> bool" where
  "scanned ms es p q \<longleftrightarrow> (\<forall>j. p \<le> j \<and> j < q \<longrightarrow> (ms \<noteq> MsZ \<longrightarrow> mv_info (es ! j) \<noteq> ZHere) \<and> (ms \<noteq> MsY \<longrightarrow> mv_info (es ! j) \<noteq> YHere))"

definition hit_result :: "MovementEntry list \<Rightarrow> byte list \<Rightarrow> nat \<Rightarrow> reg
    \<Rightarrow> (MovementEntry list \<times> byte list \<times> (nat \<times> MovementInfo) option)" where
  "hit_result es bytes p r =
     (if flag r (mv_info (es ! p))
      then (es[p := (es ! p)\<lparr>mv_info := here r\<rparr>],
            bytes[mv_location (es ! p) := bytes ! mv_location (es ! p) + set_offset r], Some (p, here r))
      else (es, bytes, Some (p, here r)))"

lemma scanned_Suc:
  assumes "scanned ms es (Suc p) q" and "ms' \<noteq> MsZ \<Longrightarrow> ms \<noteq> MsZ \<and> mv_info (es ! p) \<noteq> ZHere"
    and "ms' \<noteq> MsY \<Longrightarrow> ms \<noteq> MsY \<and> mv_info (es ! p) \<noteq> YHere"
  shows "scanned ms' es p q"
  unfolding scanned_def
proof (intro allI impI)
  fix j
  assume "p \<le> j \<and> j < q"
  then consider "j = p" | "Suc p \<le> j \<and> j < q" by linarith
  then show "(ms' \<noteq> MsZ \<longrightarrow> mv_info (es ! j) \<noteq> ZHere) \<and> (ms' \<noteq> MsY \<longrightarrow> mv_info (es ! j) \<noteq> YHere)"
    using assms unfolding scanned_def by cases blast+
qed

definition hit_found :: "MovementEntry list \<Rightarrow> nat \<Rightarrow> int \<Rightarrow> nat \<Rightarrow> reg \<Rightarrow> bool" where
  "hit_found es q w h r \<longleftrightarrow> mv_width (es ! h) = w \<and> (flag r (mv_info (es ! h)) \<or> mv_info (es ! h) = here r)
     \<and> (\<forall>j. h < j \<and> j < q \<longrightarrow> mv_info (es ! j) \<noteq> here r)"

lemma scanned_found:
  assumes "scanned ms es (Suc p) q" and "mv_width (es ! p) = w"
    and "flag r (mv_info (es ! p)) \<or> mv_info (es ! p) = here r" and "r = RY \<Longrightarrow> ms \<noteq> MsY" and "r = RZ \<Longrightarrow> ms \<noteq> MsZ"
  shows "hit_found es q w p r"
  using assms unfolding hit_found_def scanned_def by (cases r) auto

lemma find_hit_spec:
  assumes "p \<le> q" and "scanned ms es p q" and "\<forall>j < q. mv_location (es ! j) < length bytes"
  shows "find_hit es p w ms bytes = Ok (es, bytes, None)
    \<or> (\<exists>h r. h < p \<and> hit_found es q w h r \<and> find_hit es p w ms bytes = Ok (hit_result es bytes h r))"
  using assms
proof (induction p arbitrary: ms)
  case (Suc p)
  let ?i = "mv_info (es ! p)"
  have loc: "mv_location (es ! p) < length bytes" using Suc.prems by simp
  have found: "\<exists>h r. h < Suc p \<and> hit_found es q w h r \<and> find_hit es (Suc p) w ms bytes = Ok (hit_result es bytes h r)"
    if "mv_width (es ! p) = w" "flag r ?i \<or> ?i = here r" "r = RY \<Longrightarrow> ms \<noteq> MsY" "r = RZ \<Longrightarrow> ms \<noteq> MsZ"
      "find_hit es (Suc p) w ms bytes = Ok (hit_result es bytes p r)" for r
    using scanned_found [OF Suc.prems(2) that(1-4)] that(5) by blast
  have skip: "?case" if "find_hit es (Suc p) w ms bytes = find_hit es p w ms' bytes" "scanned ms' es p q" for ms'
    using Suc.IH [OF _ that(2) Suc.prems(3)] Suc.prems(1) that(1) by (metis Suc_leD less_Suc_eq)
  show ?case
  proof (cases "mv_width (es ! p) = w")
    case True
    note T = True
    show ?thesis
    proof (cases "ms \<in> {MsNone, MsZ} \<and> ?i \<in> {YzOk, YOk}")
      case True
      then show ?thesis using T loc by - (rule disjI2, rule found [of RY]; auto simp: hit_result_def patch_byte_def)
    next
      case notY: False
      show ?thesis
      proof (cases "ms \<in> {MsNone, MsY} \<and> ?i \<in> {YzOk, ZOk}")
        case True
        then show ?thesis using T loc notY by - (rule disjI2, rule found [of RZ]; auto simp: hit_result_def patch_byte_def)
      next
        case notZ: False
        consider "ms \<noteq> MsY" "?i = YHere" | "ms \<noteq> MsZ" "?i = ZHere"
          | "\<not> (ms \<noteq> MsY \<and> ?i = YHere)" "\<not> (ms \<noteq> MsZ \<and> ?i = ZHere)" by blast
        then show ?thesis
        proof cases
          case 1
          then show ?thesis using T by - (rule disjI2, rule found [of RY]; cases ms; auto simp: hit_result_def)
        next
          case 2
          then show ?thesis using T by - (rule disjI2, rule found [of RZ]; cases ms; auto simp: hit_result_def)
        next
          case 3
          then have "find_hit es (Suc p) w ms bytes = find_hit es p w ms bytes" using T notY notZ by (cases ms) auto
          then show ?thesis using 3 by (intro skip [of ms] scanned_Suc [OF Suc.prems(2)]) auto
        qed
      qed
    qed
  next
    case W: False
    consider "ms = MsNone" "?i = YHere" | "ms = MsNone" "?i = ZHere"
      | "ms = MsY \<and> ?i = ZHere \<or> ms = MsZ \<and> ?i = YHere"
      | "\<not> (ms \<noteq> MsY \<and> ?i = YHere)" "\<not> (ms \<noteq> MsZ \<and> ?i = ZHere)" by (cases ms) auto
    then show ?thesis
    proof cases
      case 1
      then show ?thesis using W by (intro skip [of MsY] scanned_Suc [OF Suc.prems(2)]) auto
    next
      case 2
      then show ?thesis using W by (intro skip [of MsZ] scanned_Suc [OF Suc.prems(2)]) auto
    next
      case 3
      then show ?thesis using W by (intro disjI1) auto
    next
      case 4
      then show ?thesis using W by (intro skip [of ms] scanned_Suc [OF Suc.prems(2)]) (cases ms, auto)+
    qed
  qed
qed simp


section \<open>A movement and its bytes\<close>

text \<open>The byte offsets after the open pushes.\<close>

fun opens :: "nat \<Rightarrow> item list \<Rightarrow> nat list" where
  "opens off [] = []"
| "opens off ((c, t) # xs) = (if t = Open then [off + length (enc c)] else []) @ opens (off + length (enc c)) xs"

lemma opens_append: "opens off (xs @ ys) = opens off xs @ opens (off + length (page_bytes xs)) ys"
  by (induction xs arbitrary: off) (auto simp: algebra_simps)

lemma opens_restr [simp]: "opens off (map (restr a r) xs) = opens off xs"
proof (induction xs arbitrary: off)
  case (Cons x xs)
  then show ?case by (cases "(a, r, x)" rule: restr.cases) auto
qed simp

lemma here_item_entry: "x \<in> set vs \<Longrightarrow> here_item a r x \<Longrightarrow> \<exists>e \<in> set (entries_of a off vs). mv_info e = here r"
proof (induction vs arbitrary: off)
  case (Cons y vs)
  obtain c t where y: "y = (c, t)" by (cases y)
  show ?case
  proof (cases "x = y")
    case True
    with Cons.prems(2) show ?thesis by (simp add: y here_item_def)
  next
    case False
    with Cons.prems Cons.IH [of "off + length (enc c)"] show ?thesis by (auto simp: y)
  qed
qed simp

lemma emit_append: "emit_explicit_movement bytes w opcode = bytes @ emit_explicit_movement [] w opcode"
  by (simp add: emit_explicit_movement_def)

text \<open>What a movement does to the tagged page.\<close>

definition moved :: "axis \<Rightarrow> int \<Rightarrow> item list \<Rightarrow> item list \<Rightarrow> bool" where
  "moved a w xs ys \<longleftrightarrow> page_ok ys \<and> movement (entries_of a 0 xs) (page_bytes xs) w (opc a) = Ok (entries_of a 0 ys, page_bytes ys)
     \<and> (\<forall>a'. a' \<noteq> a \<longrightarrow> entries_of a' 0 ys = entries_of a' 0 xs) \<and> opens 0 ys = opens 0 xs
     \<and> (\<forall>st. foldl ghost1 st (cmds ys) = foldl ghost1 st (cmds xs @ [Move a w]))"

lemma holder_length: "hit_at a r w c i \<Longrightarrow> length (enc (holder a r w c i)) = length (enc c)"
  using kinds enc_move_length by metis

lemma holder_bytes:
  assumes h: "hit_at a r w c i"
  shows "snd (snd (hit_result es (page_bytes us @ enc c @ bs) p r)) = Some (p, here r)"
    and "mv_location (es ! p) = length (page_bytes us) \<Longrightarrow> mv_info (es ! p) = i
      \<Longrightarrow> fst (snd (hit_result es (page_bytes us @ enc c @ bs) p r)) = page_bytes us @ enc (holder a r w c i) @ bs"
proof -
  show "snd (snd (hit_result es (page_bytes us @ enc c @ bs) p r)) = Some (p, here r)" by (simp add: hit_result_def)
  assume loc: "mv_location (es ! p) = length (page_bytes us)" "mv_info (es ! p) = i"
  from kinds [OF h] show "fst (snd (hit_result es (page_bytes us @ enc c @ bs) p r)) = page_bytes us @ enc (holder a r w c i) @ bs"
  proof
    assume k: "c = Move a w \<and> flag r i \<and> holder a r w c i = SetMove a r w"
    have "enc c \<noteq> []" using k enc_move_length by (metis length_0_conv)
    moreover have "holder a r w (Move a w) i = SetMove a r w" using k by (simp add: holder_def)
    ultimately show ?thesis using k loc enc_patch [of a w r]
      by (simp add: hit_result_def list_update_append nth_append del: enc.simps)
  qed (use loc in \<open>auto simp: hit_result_def\<close>)
qed

lemma restrict_intervening_split:
  "restrict_intervening f (us @ e # vs @ [n]) (length us + 1 + length vs) (length us)
   = us @ e # map (\<lambda>e. e\<lparr>mv_info := f (mv_info e)\<rparr>) vs @ [n]"
  by (simp add: restrict_intervening_def)

lemma movement_hit:
  assumes ok: "page_ok (us @ (c, Live i) # vs)" and h: "hit_at a r w c i" and quiet: "\<forall>x \<in> set vs. \<not> here_item a r x"
    and q: "q = length (entries_of a 0 (us @ (c, Live i) # vs))" and p: "p = length (entries_of a 0 us)"
    and n: "n = \<lparr>mv_width = w, mv_location = length (page_bytes (us @ (c, Live i) # vs)), mv_info = YzOk\<rparr>"
    and found: "find_hit (entries_of a 0 (us @ (c, Live i) # vs) @ [n]) q w MsNone (page_bytes (us @ (c, Live i) # vs))
      = Ok (hit_result (entries_of a 0 (us @ (c, Live i) # vs) @ [n]) (page_bytes (us @ (c, Live i) # vs)) p r)"
  shows "moved a w (us @ (c, Live i) # vs) (after_hit a r w us c i vs @ [(RegMove a r w, Live (here r))])"
proof -
  let ?xs = "us @ (c, Live i) # vs" and ?ys = "after_hit a r w us c i vs @ [(RegMove a r w, Live (here r))]"
  have ax: "axis_of c = Some a" "width_of c = w" using h by (simp_all add: hit_at_def)
  have hol: "axis_of (holder a r w c i) = Some a" "width_of (holder a r w c i) = w" using holder [OF h] by auto
  note len = holder_length [OF h]
  define U where "U = entries_of a 0 us"
  define V where "V = entries_of a (length (page_bytes us) + length (enc c)) vs"
  define e where "e = \<lparr>mv_width = w, mv_location = length (page_bytes us), mv_info = i\<rparr>"
  have es: "entries_of a 0 ?xs = U @ e # V" using ax by (simp add: entries_append U_def V_def e_def)
  have pq: "p = length U" "q = length U + 1 + length V" using p q es by (simp_all add: U_def)
  have bytes: "page_bytes ?xs = page_bytes us @ enc c @ page_bytes vs" by simp
  have ei: "(U @ e # V @ [n]) ! p = e" by (simp add: pq)
  define E where "E = (if flag r i then (U @ e # V @ [n])[p := e\<lparr>mv_info := here r\<rparr>] else U @ e # V @ [n])"
  have E: "E = U @ e\<lparr>mv_info := here r\<rparr> # V @ [n]"
    using h by (auto simp: E_def pq list_update_append e_def hit_at_def)
  have hr: "hit_result (U @ e # V @ [n]) (page_bytes ?xs) p r
      = (E, page_bytes us @ enc (holder a r w c i) @ page_bytes vs, Some (p, here r))"
    using holder_bytes [OF h, where es = "U @ e # V @ [n]" and us = us and bs = "page_bytes vs" and p = p] ei
    by (auto simp: hit_result_def bytes E_def e_def prod_eq_iff)
  have Eq: "E ! q = n" "E[q := n\<lparr>mv_info := here r\<rparr>] = U @ e\<lparr>mv_info := here r\<rparr> # V @ [n\<lparr>mv_info := here r\<rparr>]"
    by (simp_all add: E pq nth_append list_update_append)
  have "movement (entries_of a 0 ?xs) (page_bytes ?xs) w (opc a)
      = Ok (restrict_intervening (restrict_info r) (U @ e\<lparr>mv_info := here r\<rparr> # V @ [n\<lparr>mv_info := here r\<rparr>]) q p,
            page_bytes us @ enc (holder a r w c i) @ page_bytes vs @ [opc a + use_offset r])"
    using found hr Eq q unfolding movement_def Let_def n by (cases r) (auto simp: es n)
  also have "\<dots> = Ok (entries_of a 0 ?ys, page_bytes ?ys)"
    unfolding pq restrict_intervening_split
    by (auto simp: after_hit_def entries_append entries_restr hol len U_def V_def e_def n)
  finally have "movement (entries_of a 0 ?xs) (page_bytes ?xs) w (opc a) = Ok (entries_of a 0 ?ys, page_bytes ?ys)" .
  moreover have "entries_of a' 0 ?ys = entries_of a' 0 ?xs" if "a' \<noteq> a" for a'
    using that hol ax by (simp add: after_hit_def entries_append entries_restr len)
  moreover have "opens 0 ?ys = opens 0 ?xs" by (simp add: after_hit_def opens_append len)
  moreover have "ghost1 st (holder a r w c i) = ghost1 st c" for st using kinds [OF h] by (cases st rule: prod_cases3) auto
  then have "foldl ghost1 st (cmds ?ys) = foldl ghost1 st (cmds ?xs @ [Move a w])" for st
    by (cases "foldl ghost1 st (cmds ?xs)" rule: prod_cases3) (simp add: after_hit_def)
  ultimately show ?thesis using page_ok_hit [OF h quiet ok] by (simp add: moved_def)
qed

lemma movement_ok: "page_ok xs \<Longrightarrow> \<exists>ys. moved a w xs ys"
proof -
  assume ok: "page_ok xs"
  define n where "n = \<lparr>mv_width = w, mv_location = length (page_bytes xs), mv_info = YzOk\<rparr>"
  define es where "es = entries_of a 0 xs @ [n]"
  let ?q = "length (entries_of a 0 xs)"
  have loc: "\<forall>j < ?q. mv_location (es ! j) < length (page_bytes xs)"
    using entries_location [of _ a 0 xs] by (auto simp: es_def nth_append)
  have "scanned MsNone es ?q ?q" by (auto simp: scanned_def)
  from find_hit_spec [OF order_refl this loc] have "find_hit es ?q w MsNone (page_bytes xs) = Ok (es, page_bytes xs, None)
      \<or> (\<exists>h r. h < ?q \<and> hit_found es ?q w h r \<and> find_hit es ?q w MsNone (page_bytes xs) = Ok (hit_result es (page_bytes xs) h r))" .
  then show ?thesis
  proof (elim disjE exE conjE)
    assume "find_hit es ?q w MsNone (page_bytes xs) = Ok (es, page_bytes xs, None)"
    then have "movement (entries_of a 0 xs) (page_bytes xs) w (opc a) = Ok (es, page_bytes xs @ enc (Move a w))"
      using emit_append [of "page_bytes xs"] by (simp add: movement_def es_def n_def nth_append list_update_append)
    moreover have "page_ok (xs @ [(Move a w, Live YzOk)])" using ok by (rule page_ok_quiet) auto
    ultimately have "moved a w xs (xs @ [(Move a w, Live YzOk)])"
      by (simp add: moved_def entries_append opens_append es_def n_def)
    then show ?thesis by blast
  next
    fix h r
    assume lt: "h < ?q" and fnd: "hit_found es ?q w h r" and res: "find_hit es ?q w MsNone (page_bytes xs) = Ok (hit_result es (page_bytes xs) h r)"
    from entry_split [OF lt] obtain us c i vs where xs: "xs = us @ (c, Live i) # vs" and c: "axis_of c = Some a"
      and h: "length (entries_of a 0 us) = h" by metis
    have eh: "es ! h = \<lparr>mv_width = width_of c, mv_location = length (page_bytes us), mv_info = i\<rparr>"
      using c h by (simp add: es_def xs entries_append nth_append)
    have "wf_item (c, Live i)" using page_okD(1) [OF ok] xs by simp
    with fnd eh c have hit: "hit_at a r w c i" by (auto simp: hit_found_def hit_at_def)
    have quiet: "\<not> here_item a r x" if "x \<in> set vs" for x
    proof
      assume "here_item a r x"
      from here_item_entry [OF that this] obtain e where e: "e \<in> set (entries_of a (length (page_bytes us) + length (enc c)) vs)" "mv_info e = here r"
        by blast
      then obtain k where k: "k < length (entries_of a (length (page_bytes us) + length (enc c)) vs)"
        "entries_of a (length (page_bytes us) + length (enc c)) vs ! k = e" by (auto simp: in_set_conv_nth)
      have "es ! (h + 1 + k) = e" "h + 1 + k < ?q" using c h k by (simp_all add: es_def xs entries_append nth_append)
      with fnd e(2) show False by (auto simp: hit_found_def)
    qed
    have "moved a w (us @ (c, Live i) # vs) (after_hit a r w us c i vs @ [(RegMove a r w, Live (here r))])"
      by (rule movement_hit [OF _ hit _ refl refl refl]) (use ok quiet res h in \<open>simp_all add: xs es_def n_def\<close>)
    then show ?thesis using xs by blast
  qed
qed


section \<open>A whole page\<close>

fun at :: "scaled \<Rightarrow> scaled \<Rightarrow> position" where
  "at h v AxH = h"
| "at h v AxV = v"

text \<open>Where the page compiler asks for the commands that are not movements.\<close>

text \<open>What a box that was entered with a push returns to.\<close>

record BoxFrame =
  save_loc :: nat
  save_h :: scaled
  save_v :: scaled

definition page_rel :: "item list \<Rightarrow> DviBodyCompiler \<times> BoxFrame list \<Rightarrow> log \<Rightarrow> bool" where
  "page_rel xs st lg \<longleftrightarrow> page_ok xs \<and> dvi_bytes (fst st) = page_bytes xs
     \<and> right_stack (fst st) = entries_of AxH 0 xs \<and> down_stack (fst st) = entries_of AxV 0 xs
     \<and> rev (opens 0 xs) = map save_loc (snd st)
     \<and> foldl ghost1 (at 0 0, [], []) (cmds xs)
       = (at (dvi_h (fst st)) (dvi_v (fst st)), map (\<lambda>f. at (save_h f) (save_v f)) (snd st), lg)"

lemma at_upd [simp]: "(at h v)(AxH := x) = at x v" "(at h v)(AxV := x) = at h x"
  by (rule ext, rename_tac a, case_tac a; simp)+

text \<open>The same without the description of the bytes.\<close>

definition page_st :: "byte list \<Rightarrow> MovementEntry list \<Rightarrow> MovementEntry list \<Rightarrow> int \<Rightarrow> int \<Rightarrow> BoxFrame list \<Rightarrow> log \<Rightarrow> bool" where
  "page_st bs rs ds h v fs lg \<longleftrightarrow>
     (\<exists>xs. page_ok xs \<and> bs = page_bytes xs \<and> rs = entries_of AxH 0 xs \<and> ds = entries_of AxV 0 xs
       \<and> rev (opens 0 xs) = map save_loc fs
       \<and> foldl ghost1 (at 0 0, [], []) (cmds xs) = (at h v, map (\<lambda>f. at (save_h f) (save_v f)) fs, lg))"

abbreviation pst :: "DviBodyCompiler \<Rightarrow> BoxFrame list \<Rightarrow> log \<Rightarrow> bool" where
  "pst c fs lg \<equiv> page_st (dvi_bytes c) (right_stack c) (down_stack c) (dvi_h c) (dvi_v c) fs lg"

lemma pst_iff: "pst c fs lg \<longleftrightarrow> (\<exists>xs. page_rel xs (c, fs) lg)"
  by (simp add: page_st_def page_rel_def)

lemma pstI: "page_rel xs (c, fs) lg \<Longrightarrow> pst c fs lg"
  by (auto simp: pst_iff)

lemma synch_h_owp:
  assumes "pst c fs lg"
    and "\<And>es bs. pst (c\<lparr>right_stack := es, dvi_bytes := bs, dvi_h := cur_h c\<rparr>) fs lg
      \<Longrightarrow> Q (c\<lparr>right_stack := es, dvi_bytes := bs, dvi_h := cur_h c\<rparr>)"
  shows "owp p (synch_h c) Q"
proof (cases "cur_h c = dvi_h c")
  case True
  have "Q (c\<lparr>right_stack := right_stack c, dvi_bytes := dvi_bytes c, dvi_h := cur_h c\<rparr>)"
    by (rule assms(2)) (use assms(1) True in simp)
  moreover have "c\<lparr>right_stack := right_stack c, dvi_bytes := dvi_bytes c, dvi_h := cur_h c\<rparr> = c" using True by simp
  ultimately show ?thesis using True by (simp add: synch_h_def)
next
  case False
  let ?m = "cur_h c - dvi_h c"
  from assms(1) obtain xs where rel: "page_rel xs (c, fs) lg" unfolding pst_iff by blast
  then have "page_ok xs" by (simp add: page_rel_def)
  from movement_ok [OF this] obtain ys where m: "moved AxH ?m xs ys" by blast
  with rel have run: "movement (right_stack c) (dvi_bytes c) ?m RIGHT1 = Ok (entries_of AxH 0 ys, page_bytes ys)"
    by (simp add: moved_def page_rel_def)
  have "page_rel ys (c\<lparr>right_stack := entries_of AxH 0 ys, dvi_bytes := page_bytes ys, dvi_h := cur_h c\<rparr>, fs) lg"
    using m rel by (simp add: moved_def page_rel_def)
  then have "Q (c\<lparr>right_stack := entries_of AxH 0 ys, dvi_bytes := page_bytes ys, dvi_h := cur_h c\<rparr>)"
    by (intro assms(2) pstI)
  with False run show ?thesis by (auto simp: synch_h_def scaled_checked_sub_def)
qed

lemma synch_v_owp:
  assumes "pst c fs lg"
    and "\<And>es bs. pst (c\<lparr>down_stack := es, dvi_bytes := bs, dvi_v := cur_v c\<rparr>) fs lg
      \<Longrightarrow> Q (c\<lparr>down_stack := es, dvi_bytes := bs, dvi_v := cur_v c\<rparr>)"
  shows "owp p (synch_v c) Q"
proof (cases "cur_v c = dvi_v c")
  case True
  have "Q (c\<lparr>down_stack := down_stack c, dvi_bytes := dvi_bytes c, dvi_v := cur_v c\<rparr>)"
    by (rule assms(2)) (use assms(1) True in simp)
  moreover have "c\<lparr>down_stack := down_stack c, dvi_bytes := dvi_bytes c, dvi_v := cur_v c\<rparr> = c" using True by simp
  ultimately show ?thesis using True by (simp add: synch_v_def)
next
  case False
  let ?m = "cur_v c - dvi_v c"
  from assms(1) obtain xs where rel: "page_rel xs (c, fs) lg" unfolding pst_iff by blast
  then have "page_ok xs" by (simp add: page_rel_def)
  from movement_ok [OF this] obtain ys where m: "moved AxV ?m xs ys" by blast
  with rel have run: "movement (down_stack c) (dvi_bytes c) ?m DOWN1 = Ok (entries_of AxV 0 ys, page_bytes ys)"
    by (simp add: moved_def page_rel_def)
  have "page_rel ys (c\<lparr>down_stack := entries_of AxV 0 ys, dvi_bytes := page_bytes ys, dvi_v := cur_v c\<rparr>, fs) lg"
    using m rel by (simp add: moved_def page_rel_def)
  then have "Q (c\<lparr>down_stack := entries_of AxV 0 ys, dvi_bytes := page_bytes ys, dvi_v := cur_v c\<rparr>)"
    by (intro assms(2) pstI)
  with False run show ?thesis by (auto simp: synch_v_def scaled_checked_sub_def)
qed

lemma last_open:
  assumes "opens off xs = os @ [k]"
  obtains us c vs where "xs = us @ (c, Open) # vs" and "\<forall>x \<in> set vs. snd x \<noteq> Open" and "opens off us = os"
    and "k = off + length (page_bytes us) + length (enc c)"
  using assms
proof (induction xs arbitrary: thesis rule: rev_induct)
  case (snoc x xs)
  obtain c t where x: "x = (c, t)" by (cases x)
  show ?case
  proof (cases "t = Open")
    case True
    then show ?thesis using snoc.prems(1) [of xs c "[]"] snoc.prems(2) by (simp add: x opens_append)
  next
    case False
    then have "opens off xs = os @ [k]" using snoc.prems(2) by (simp add: x opens_append)
    from snoc.IH [OF _ this] obtain us d vs where *: "xs = us @ (d, Open) # vs" "\<forall>x \<in> set vs. snd x \<noteq> Open" "opens off us = os"
      "k = off + length (page_bytes us) + length (enc d)" by metis
    show ?thesis by (rule snoc.prems(1) [of us d "vs @ [x]"]) (use * False x in auto)
  qed
qed simp

lemma prune_entries:
  "k = length (page_bytes us) + length (enc CPush)
   \<Longrightarrow> prune_movements (entries_of a 0 (us @ (CPush, Open) # vs)) k = entries_of a 0 us"
proof -
  assume k: "k = length (page_bytes us) + length (enc CPush)"
  have "\<forall>e \<in> set (entries_of a (length (page_bytes us) + 1) vs). k \<le> mv_location e"
    using entries_location [of _ a "length (page_bytes us) + 1" vs] k by auto
  moreover have "\<forall>e \<in> set (entries_of a 0 us). mv_location e < k"
    using entries_location [of _ a 0 us] k by force
  ultimately show ?thesis
    by (cases "rev (entries_of a 0 us)")
      (auto simp: prune_movements_def entries_append dropWhile_append3 dropWhile_append1 rev_swap)
qed

lemma entries_closed: "entries_of a 0 (closed us vs) = entries_of a 0 us" and opens_closed: "opens 0 (closed us vs) = opens 0 us"
proof -
  have "opens off (map kill vs) = []" for off
  proof (induction vs arbitrary: off)
    case (Cons x vs)
    then show ?case by (cases x) simp
  qed simp
  then show "entries_of a 0 (closed us vs) = entries_of a 0 us" "opens 0 (closed us vs) = opens 0 us"
    by (simp_all add: closed_def entries_append entries_kill opens_append)
qed

lemma pst_leave:
  assumes "pst c (f # fs) lg"
  shows "pst ((compiler_prune c (save_loc f))\<lparr>dvi_bytes := dvi_bytes c @ [OP_POP], dvi_h := save_h f, dvi_v := save_v f\<rparr>) fs lg"
proof -
  from assms obtain xs where rel: "page_rel xs (c, f # fs) lg" unfolding pst_iff by blast
  then have "opens 0 xs = rev (map save_loc fs) @ [save_loc f]" by (simp add: page_rel_def rev_swap)
  then obtain us d vs where xs: "xs = us @ (d, Open) # vs" and no: "\<forall>x \<in> set vs. snd x \<noteq> Open"
    and us: "opens 0 us = rev (map save_loc fs)" and k: "save_loc f = length (page_bytes us) + length (enc d)"
    by (rule last_open) auto
  have ok: "page_ok (us @ (d, Open) # vs)" using rel xs by (simp add: page_rel_def)
  then have d: "d = CPush" using page_okD(1) by fastforce
  have "page_ok (closed us vs)" by (rule page_ok_pop) (use ok no d in auto)
  moreover have "foldl ghost1 (at 0 0, [], []) (cmds (closed us vs)) = ghost1 (foldl ghost1 (at 0 0, [], []) (cmds xs)) CPop"
    by (simp add: closed_def xs d comp_def)
  ultimately have "page_rel (closed us vs)
      ((compiler_prune c (save_loc f))\<lparr>dvi_bytes := dvi_bytes c @ [OP_POP], dvi_h := save_h f, dvi_v := save_v f\<rparr>, fs) lg"
    using rel us k prune_entries [of "save_loc f" us AxH vs] prune_entries [of "save_loc f" us AxV vs]
    by (auto simp: page_rel_def xs d compiler_prune_def entries_closed opens_closed) (auto simp: closed_def)
  then show ?thesis by (rule pstI)
qed

lemma pst_enter:
  assumes "pst c fs lg"
  shows "pst (c\<lparr>dvi_bytes := dvi_bytes c @ [OP_PUSH]\<rparr>)
    (\<lparr>save_loc = Suc (length (dvi_bytes c)), save_h = dvi_h c, save_v = dvi_v c\<rparr> # fs) lg"
proof -
  from assms obtain xs where rel: "page_rel xs (c, fs) lg" unfolding pst_iff by blast
  then have ok: "page_ok xs" by (simp add: page_rel_def)
  have "page_ok (xs @ [(CPush, Open)])" by (rule page_ok_quiet [OF ok]) auto
  then have "page_rel (xs @ [(CPush, Open)]) (c\<lparr>dvi_bytes := dvi_bytes c @ [OP_PUSH]\<rparr>,
      \<lparr>save_loc = Suc (length (dvi_bytes c)), save_h = dvi_h c, save_v = dvi_v c\<rparr> # fs) lg"
    using rel by (simp add: page_rel_def opens_append entries_append)
  then show ?thesis by (rule pstI)
qed

lemma pst_write:
  assumes "pst c fs lg"
  shows "pst (c\<lparr>dvi_bytes := dvi_bytes c @ bs, dvi_h := dvi_h c + adv\<rparr>) fs (lg @ [(at (dvi_h c) (dvi_v c), adv, bs)])"
proof -
  from assms obtain xs where rel: "page_rel xs (c, fs) lg" unfolding pst_iff by blast
  then have ok: "page_ok xs" by (simp add: page_rel_def)
  have "page_ok (xs @ [(COther bs adv, Dead)])" by (rule page_ok_quiet [OF ok]) auto
  then have "page_rel (xs @ [(COther bs adv, Dead)])
      (c\<lparr>dvi_bytes := dvi_bytes c @ bs, dvi_h := dvi_h c + adv\<rparr>, fs) (lg @ [(at (dvi_h c) (dvi_v c), adv, bs)])"
    using rel by (simp add: page_rel_def opens_append entries_append)
  then show ?thesis by (rule pstI)
qed

lemma pst_new:
  "dvi_bytes c = [] \<Longrightarrow> right_stack c = [] \<Longrightarrow> down_stack c = [] \<Longrightarrow> dvi_h c = 0 \<Longrightarrow> dvi_v c = 0 \<Longrightarrow> pst c [] []"
  by (auto simp: page_st_def page_ok_def nested_def safe_def cut_def intro!: exI [of _ "[]"])

text \<open>The bytes of a page that was described this way replay: they are commands whose reader, with the DVI registers,
  finds every other command at its position and ends where the compiler is.\<close>

lemma pst_replay:
  assumes "pst c fs lg"
  shows "\<exists>cs. dvi_bytes c = concat (map enc cs)
    \<and> drop_registers (foldl read1 (at 0 0, \<lambda>a r. 0, [], []) cs) = (at (dvi_h c) (dvi_v c), map (\<lambda>f. at (save_h f) (save_v f)) fs, lg)"
proof -
  from assms obtain xs where rel: "page_rel xs (c, fs) lg" unfolding pst_iff by blast
  then have "drop_registers (foldl read1 (at 0 0, \<lambda>a r. 0, [], []) (cmds xs)) = foldl ghost1 (at 0 0, [], []) (cmds xs)"
    using page_okD(3) by (subst read_ghost) (auto simp: page_rel_def)
  with rel show ?thesis
    by (intro exI [of _ "cmds xs"]) (simp add: page_rel_def page_bytes_def comp_def)
qed

end
