(* ===== verification/Page_Geometry.thy ===== *)
theory Page_Geometry
  imports Dvi_Movement
begin

text \<open>
  The arithmetic of page positions: glue setting in the double precision of the reference
  (\<^verbatim>\<open>crates/tex-out/src/dvi/glue.rs\<close>), leader placement (\<^verbatim>\<open>geometry.rs\<close>) and baseline snapping
  (\<^verbatim>\<open>snapping.rs\<close>). An unsigned 128-bit value is a non-negative \<open>int\<close>: the operands are below \<open>2 ^ 32\<close> and the shifts below
  84 bits, so that no product or shift leaves 128 bits.
\<close>

section \<open>Glue in double precision\<close>

definition BILLION :: int where "BILLION = 1000000000"

text \<open>\<open>u128::ilog2\<close> of a positive number.\<close>

fun ilog2 :: "int \<Rightarrow> nat" where
  "ilog2 n = (if n \<le> 1 then 0 else Suc (ilog2 (n div 2)))"

declare ilog2.simps [simp del]

definition floor_log2_ratio :: "int \<Rightarrow> int \<Rightarrow> int" where
  "floor_log2_ratio n d =
     (let e = int (ilog2 n) - int (ilog2 d);
          below = (if e \<ge> 0 then n < d * 2 ^ nat e else n * 2 ^ nat (- e) < d)
      in if below then e - 1 else e)"

definition round_quotient_to_even :: "int \<Rightarrow> int \<Rightarrow> int" where
  "round_quotient_to_even n d =
     (let q = n div d; r = n mod d
      in if r * 2 > d then q + 1 else if r * 2 = d \<and> odd q then q + 1 else q)"

text \<open>A pair \<open>(s, e)\<close> stands for \<open>s * 2 ^ e\<close>.\<close>

definition binary64_ratio :: "int \<Rightarrow> int \<Rightarrow> int \<times> int" where
  "binary64_ratio n d =
     (if n = 0 then (0, 0)
      else let e = floor_log2_ratio n d;
               shift = 52 - e;
               s = (if shift \<ge> 0 then round_quotient_to_even (n * 2 ^ nat shift) d
                    else round_quotient_to_even n (d * 2 ^ nat (- shift)))
           in if s = 2 ^ 53 then (s div 2, e + 1 - 52) else (s, e - 52))"

definition round_power_of_two_to_even :: "int \<Rightarrow> nat \<Rightarrow> int" where
  "round_power_of_two_to_even v shift =
     (let q = v div 2 ^ shift; r = v mod 2 ^ shift; halfway = 2 ^ (shift - 1)
      in if r > halfway \<or> r = halfway \<and> odd q then q + 1 else q)"

definition binary64_multiply_integer :: "int \<Rightarrow> int \<Rightarrow> int \<Rightarrow> int \<times> int" where
  "binary64_multiply_integer s e m =
     (let p = s * m
      in if p = 0 then (0, 0)
         else let bits = ilog2 p + 1
              in if bits \<le> 53 then (p, e)
                 else let shift = bits - 53;
                          r = round_power_of_two_to_even p shift;
                          e = e + int shift
                      in if r = 2 ^ 53 then (r div 2, e + 1) else (r, e))"

definition round_binary_product :: "int \<Rightarrow> int \<Rightarrow> int" where
  "round_binary_product s e =
     (if s = 0 then 0
      else if e \<ge> 0 then min (s * 2 ^ nat e) BILLION
      else let shift = nat (- e)
           in if s \<ge> BILLION * 2 ^ shift then BILLION
              else s div 2 ^ shift + (if s mod 2 ^ shift \<ge> 2 ^ (shift - 1) then 1 else 0))"

definition rounded_glue_set :: "GlueSetRatio \<Rightarrow> scaled \<Rightarrow> scaled" where
  "rounded_glue_set glue_set cur_glue =
     (let (rs, re) = binary64_ratio \<bar>numerator glue_set\<bar> (denominator glue_set);
          negative = ((numerator glue_set < 0) \<noteq> (cur_glue < 0));
          (s, e) = binary64_multiply_integer rs re \<bar>cur_glue\<bar>;
          rounded = min (round_binary_product s e) BILLION
      in if negative then - rounded else rounded)"

definition add_scaled :: "scaled \<Rightarrow> scaled \<Rightarrow> (DviError, scaled) outcome" where
  "add_scaled l r = ok_or PositionOverflow (scaled_checked_add l r)"

definition sub_scaled :: "scaled \<Rightarrow> scaled \<Rightarrow> (DviError, scaled) outcome" where
  "sub_scaled l r = ok_or PositionOverflow (scaled_checked_sub l r)"

text \<open>The running glue total and the glue already laid out are passed and returned.\<close>

definition adjusted_glue_width :: "PageGlueSpec \<Rightarrow> PageGlueSign \<Rightarrow> PageGlueOrder \<Rightarrow> GlueSetRatio \<Rightarrow> scaled \<times> scaled
    \<Rightarrow> (DviError, scaled \<times> scaled \<times> scaled) outcome" where
  "adjusted_glue_width spec g_sign g_order glue_set st =
     (case st of (cur_glue, cur_g) \<Rightarrow>
        obind (sub_scaled (pg_width spec) cur_g) (\<lambda>base.
        obind
          (if g_sign = PsStretching \<and> pg_stretch_order spec = g_order
           then obind (add_scaled cur_glue (pg_stretch spec)) (\<lambda>cg. Ok (cg, rounded_glue_set glue_set cg))
           else if g_sign = PsShrinking \<and> pg_shrink_order spec = g_order
           then obind (sub_scaled cur_glue (pg_shrink spec)) (\<lambda>cg. Ok (cg, rounded_glue_set glue_set cg))
           else Ok (cur_glue, cur_g)) (\<lambda>(cur_glue, cur_g).
        obind (add_scaled base cur_g) (\<lambda>w. Ok (w, cur_glue, cur_g)))))"

section \<open>Leaders\<close>

definition LEADER_ROUNDING_COMPENSATION :: scaled where "LEADER_ROUNDING_COMPENSATION = 10"

datatype LeaderMode = Aligned | Centered | Expanded
datatype GeometryError = GeMissingEffect u32 | GePositionOverflow

definition geometry_add :: "scaled \<Rightarrow> scaled \<Rightarrow> (GeometryError, scaled) outcome" where
  "geometry_add l r = ok_or GePositionOverflow (scaled_checked_add l r)"

definition geometry_scaled :: "int \<Rightarrow> (GeometryError, scaled) outcome" where
  "geometry_scaled v = ok_or GePositionOverflow (checked32 v)"

fun mode_from_glue :: "PageGlueKind \<Rightarrow> LeaderMode option" where
  "mode_from_glue GkLeaders = Some Aligned"
| "mode_from_glue GkCleaders = Some Centered"
| "mode_from_glue GkXleaders = Some Expanded"
| "mode_from_glue _ = None"

definition leader_start :: "LeaderMode \<Rightarrow> scaled \<Rightarrow> scaled \<Rightarrow> scaled \<Rightarrow> scaled \<Rightarrow> (GeometryError, scaled \<times> scaled) outcome" where
  "leader_start kind cur origin available sz =
     (case kind of
        Aligned \<Rightarrow>
          let diff = cur - origin; quotient = diff sdiv sz
          in obind (geometry_scaled (origin + sz * quotient)) (\<lambda>start.
             obind (if start < cur then geometry_add start sz else Ok start) (\<lambda>start. Ok (start, 0)))
      | Centered \<Rightarrow> obind (geometry_add cur ((available smod sz) sdiv 2)) (\<lambda>start. Ok (start, 0))
      | Expanded \<Rightarrow>
          let quotient = available sdiv sz;
              remainder = available smod sz;
              extra = remainder sdiv (quotient + 1)
          in obind (geometry_scaled ((remainder - (quotient - 1) * extra) sdiv 2)) (\<lambda>lead.
             obind (geometry_add cur lead) (\<lambda>start.
             obind (geometry_scaled extra) (\<lambda>extra. Ok (start, extra)))))"

section \<open>Snapping\<close>

fun initial_reference :: "PageEffect list \<Rightarrow> scaled \<times> scaled" where
  "initial_reference [] = (0, 0)"
| "initial_reference (e # es) = (case e of PePdfSnapState x y \<Rightarrow> (x, y) | _ \<Rightarrow> initial_reference es)"

text \<open>\<open>div_euclid\<close> by a positive number is the floor quotient.\<close>

definition correction :: "scaled \<Rightarrow> scaled \<Rightarrow> PageGlueSpec \<Rightarrow> scaled option" where
  "correction current reference spec =
     (let width = pg_width spec
      in if width \<le> 0 then None
         else let relative = current - reference;
                  lower = reference + relative div width * width;
                  upper = lower + width;
                  backward = lower - current;
                  forward = upper - current;
                  backward_allowed = (pg_shrink_order spec \<noteq> PoNormal \<or> - backward < pg_shrink spec);
                  forward_allowed = (pg_stretch_order spec \<noteq> PoNormal \<or> forward < pg_stretch spec)
              in if \<not> backward_allowed \<and> \<not> forward_allowed then None
                 else checked32 (if backward_allowed \<and> (\<not> forward_allowed \<or> - backward < forward)
                                 then backward else forward))"

definition compensate :: "scaled \<Rightarrow> nat \<Rightarrow> scaled panicking" where
  "compensate c ratio = expect_some (checked32 ((c * int ratio) sdiv 1000))"

fun predict_snap_correction :: "PageNode list \<Rightarrow> PageEffect list \<Rightarrow> PageBox \<Rightarrow> scaled \<Rightarrow> scaled \<times> scaled
    \<Rightarrow> scaled \<Rightarrow> scaled \<Rightarrow> (GeometryError, scaled option) outcome" where
  "predict_snap_correction [] effects this_box current reference cur_g cur_glue = Ok None"
| "predict_snap_correction (child # following) effects this_box current reference cur_g cur_glue =
     (let go = (\<lambda>current. predict_snap_correction following effects this_box current reference cur_g cur_glue);
          box_advance = (\<lambda>n. obind (geometry_add (pb_height n) (pb_depth n)) (\<lambda>ext.
                              obind (geometry_add current ext) go))
      in case child of
           PnHList n \<Rightarrow> box_advance n
         | PnVList n \<Rightarrow> box_advance n
         | PnRule w h d \<Rightarrow>
             obind (geometry_add (case h of None \<Rightarrow> 0 | Some h \<Rightarrow> h) (case d of None \<Rightarrow> 0 | Some d \<Rightarrow> d)) (\<lambda>ext.
             obind (geometry_add current ext) go)
         | PnGlue spec kind leader \<Rightarrow>
             obind (omap_err (\<lambda>_. GePositionOverflow)
                     (adjusted_glue_width spec (pb_glue_sign this_box) (pb_glue_order this_box) (pb_glue_set this_box)
                        (cur_glue, cur_g))) (\<lambda>(w, cur_glue, cur_g).
             obind (geometry_add current w) (\<lambda>current.
               predict_snap_correction following effects this_box current reference cur_g cur_glue))
         | PnKern amount kind \<Rightarrow> obind (geometry_add current amount) go
         | PnMarginKern amount side f c \<Rightarrow> obind (geometry_add current amount) go
         | PnWhatsitAnchor i \<Rightarrow>
             if unat i < length effects
             then (case effects ! unat i of
                     PePdfSnapRefPoint \<Rightarrow>
                       predict_snap_correction following effects this_box current (fst reference, current) cur_g cur_glue
                   | PePdfSnapY spec \<Rightarrow> Ok (correction current (snd reference) spec)
                   | _ \<Rightarrow> go current)
             else Err (GeMissingEffect i)
         | _ \<Rightarrow> go current)"

end
