(* ===== verification/Dvi_Page.thy ===== *)
theory Dvi_Page
  imports Page_Geometry
begin

text \<open>
  The page compiler of the DVI writer: fonts and characters (\<^verbatim>\<open>crates/tex-out/src/dvi/fonts.rs\<close>), byte output
  (\<^verbatim>\<open>framing.rs\<close>), the traversal of a shipped page (\<^verbatim>\<open>traversal.rs\<close>) with its leaders (\<^verbatim>\<open>leaders.rs\<close>) and the page
  plan (\<^verbatim>\<open>plan.rs\<close>). A stack of the source is a list with its top first. The traversal loop is a partial
  function whose value is \<open>None\<close> when it does not end.
\<close>

section \<open>Bytes\<close>

definition SET1 :: byte where "SET1 = 128"
definition SET_RULE :: byte where "SET_RULE = 132"
definition PUT_RULE :: byte where "PUT_RULE = 137"
definition FNT_NUM_0 :: byte where "FNT_NUM_0 = 171"
definition FNT1 :: byte where "FNT1 = 235"
definition FNT2 :: byte where "FNT2 = 236"
definition FNT3 :: byte where "FNT3 = 237"
definition FNT4 :: byte where "FNT4 = 238"
definition XXX1 :: byte where "XXX1 = 239"
definition XXX4 :: byte where "XXX4 = 242"
definition FNT_DEF1 :: byte where "FNT_DEF1 = 243"
definition FNT_DEF2 :: byte where "FNT_DEF2 = 244"
definition FNT_DEF3 :: byte where "FNT_DEF3 = 245"
definition FNT_DEF4 :: byte where "FNT_DEF4 = 246"

definition out_raw :: "DviBodyCompiler \<Rightarrow> byte list \<Rightarrow> DviBodyCompiler" where
  "out_raw c bs = c\<lparr>dvi_bytes := dvi_bytes c @ bs\<rparr>"

definition out_u8 :: "DviBodyCompiler \<Rightarrow> byte \<Rightarrow> DviBodyCompiler" where
  "out_u8 c b = c\<lparr>dvi_bytes := dvi_bytes c @ [b]\<rparr>"

definition out_u16 :: "DviBodyCompiler \<Rightarrow> nat \<Rightarrow> DviBodyCompiler" where
  "out_u16 c v = c\<lparr>dvi_bytes := dvi_bytes c @ be_bytes 2 (int v)\<rparr>"

definition out_u24 :: "DviBodyCompiler \<Rightarrow> u32 \<Rightarrow> DviBodyCompiler" where
  "out_u24 c v = c\<lparr>dvi_bytes := dvi_bytes c @ be_bytes 3 (uint v)\<rparr>"

definition out_u32 :: "DviBodyCompiler \<Rightarrow> u32 \<Rightarrow> DviBodyCompiler" where
  "out_u32 c v = c\<lparr>dvi_bytes := dvi_bytes c @ be_bytes 4 (uint v)\<rparr>"

definition out_i32 :: "DviBodyCompiler \<Rightarrow> int \<Rightarrow> DviBodyCompiler" where
  "out_i32 c v = c\<lparr>dvi_bytes := dvi_bytes c @ be_bytes 4 v\<rparr>"

definition out_scaled :: "DviBodyCompiler \<Rightarrow> scaled \<Rightarrow> DviBodyCompiler" where
  "out_scaled c v = out_i32 c v"

definition reset_page_state :: "DviBodyCompiler \<Rightarrow> DviBodyCompiler" where
  "reset_page_state c =
     c\<lparr>right_stack := [], down_stack := [], dvi_h := 0, dvi_v := 0, cur_h := 0, cur_v := 0, dvi_f := None, cur_s := - 1\<rparr>"

definition limited_bytes :: "string \<Rightarrow> string \<Rightarrow> (DviError, byte list) outcome" where
  "limited_bytes field s =
     (let bs = as_bytes s in if length bs > 255 then Err (FieldTooLong field (length bs)) else Ok bs)"

section \<open>Fonts and characters\<close>

fun add_page_fonts :: "DviBodyCompiler \<Rightarrow> FontResource list \<Rightarrow> (DviError, DviBodyCompiler) outcome" where
  "add_page_fonts c [] = Ok c"
| "add_page_fonts c (font # fonts) =
     (let key = font_key font;
          existing = fonts_by_number c (fr_font_id font);
          c = c\<lparr>fonts_by_number := (fonts_by_number c)(fr_font_id font \<mapsto> key)\<rparr>
      in if existing \<noteq> None \<and> existing \<noteq> Some key then Err (InconsistentFontResource (fr_font_id font))
         else add_page_fonts (c\<lparr>page_fonts := (page_fonts c)(fr_font_id font \<mapsto> font)\<rparr>) fonts)"

definition index_fonts :: "DviBodyCompiler \<Rightarrow> FontResource list \<Rightarrow> (DviError, DviBodyCompiler) outcome" where
  "index_fonts c fonts = add_page_fonts (c\<lparr>page_fonts := Map.empty\<rparr>) fonts"

text \<open>\<open>rfind('/')\<close> and \<open>split_at\<close>: the area ends with the last slash.\<close>

definition split_area :: "string \<Rightarrow> string \<times> string" where
  "split_area s = (let name = rev (takeWhile (\<lambda>ch. ch \<noteq> CHR ''/'') (rev s)) in (take (length s - length name) s, name))"

definition fnt_def :: "DviBodyCompiler \<Rightarrow> u32 \<Rightarrow> FontResource \<Rightarrow> (DviError, DviBodyCompiler) outcome" where
  "fnt_def c number font =
     (let (area, name) = split_area (fr_name font)
      in obind (limited_bytes ''font area'' area) (\<lambda>area.
         obind (limited_bytes ''font name'' name) (\<lambda>name.
           if name = [] then Err (EmptyFontName (fr_font_id font))
           else let c = (if number \<le> 0xFF then out_u8 (out_u8 c FNT_DEF1) (ucast number)
                         else if number \<le> 0xFFFF then out_u16 (out_u8 c FNT_DEF2) (unat number)
                         else if number \<le> 0xFFFFFF then out_u24 (out_u8 c FNT_DEF3) number
                         else out_u32 (out_u8 c FNT_DEF4) number);
                    c = out_u32 c (fr_tfm_checksum font);
                    c = out_scaled c (fr_at_size font);
                    c = out_scaled c (fr_design_size font);
                    c = out_u8 c (of_nat (length area));
                    c = out_u8 c (of_nat (length name))
                in Ok (out_raw (out_raw c area) name))))"

definition ensure_font_defined :: "DviBodyCompiler \<Rightarrow> FontResource \<Rightarrow> (DviError, DviBodyCompiler \<times> u32) outcome" where
  "ensure_font_defined c font =
     (let key = font_key font
      in case map_of (dvi_fonts c) key of
           Some defined \<Rightarrow> Ok (c, df_number defined)
         | None \<Rightarrow>
             let number = fr_font_id font;
                 start = length (dvi_bytes c)
             in obind (fnt_def c number font) (\<lambda>c.
                  let c = (case font_definition_sites c of
                             None \<Rightarrow> c
                           | Some sites \<Rightarrow> c\<lparr>font_definition_sites :=
                               Some (sites @ [\<lparr>fs_font_id = number, fs_start = start, fs_end = length (dvi_bytes c)\<rparr>])\<rparr>)
                  in Ok (c\<lparr>dvi_fonts := dvi_fonts c @ [(key, \<lparr>df_number = number, df_font = font\<rparr>)]\<rparr>, number)))"

definition change_font :: "DviBodyCompiler \<Rightarrow> u32 \<Rightarrow> (DviError, DviBodyCompiler) outcome" where
  "change_font c font_id =
     (if dvi_f c = Some font_id then Ok c
      else obind (ok_or (MissingFont font_id) (page_fonts c font_id)) (\<lambda>font.
           obind (ensure_font_defined c font) (\<lambda>(c, number).
             let c = (if number \<le> 63 then out_u8 c (FNT_NUM_0 + ucast number)
                      else if number \<le> 0xFF then out_u8 (out_u8 c FNT1) (ucast number)
                      else if number \<le> 0xFFFF then out_u16 (out_u8 c FNT2) (unat number)
                      else if number \<le> 0xFFFFFF then out_u24 (out_u8 c FNT3) number
                      else out_u32 (out_u8 c FNT4) number)
             in Ok (c\<lparr>dvi_f := Some number\<rparr>))))"

definition set_char :: "DviBodyCompiler \<Rightarrow> u32 \<Rightarrow> (DviError, DviBodyCompiler) outcome" where
  "set_char c ch =
     (if ch \<le> 0xFF
      then if (ucast ch :: byte) < SET1 then Ok (out_u8 c (ucast ch)) else Ok (out_u8 (out_u8 c SET1) (ucast ch))
      else Err (CharacterOutOfRange ch))"

section \<open>Frames\<close>

datatype DirectAxis =
    AxisH (base_line: scaled) (h_left_edge: scaled) (axis_g: scaled) (axis_glue: scaled)
  | AxisV (v_left_edge: scaled) (top_edge: scaled) (axis_g: scaled) (axis_glue: scaled)

datatype DirectContinuation =
    ContRoot
  | ContH (cont_h: scaled) (cont_v: scaled) scaled scaled scaled
  | ContV (cont_h: scaled) (cont_v: scaled) scaled scaled
  | ContHLeader (cont_h: scaled) (cont_v: scaled) scaled scaled scaled
  | ContVLeader (cont_h: scaled) (cont_v: scaled) scaled scaled scaled scaled

record DirectFrame =
  dfr_fields :: PageBox
  dfr_save_loc :: nat
  dfr_axis :: DirectAxis
  dfr_cont :: DirectContinuation

type_synonym direct_state = "DviBodyCompiler \<times> DirectFrame list"

definition enter_box :: "DviBodyCompiler \<Rightarrow> DviBodyCompiler" where
  "enter_box c =
     (let c = c\<lparr>cur_s := cur_s c + 1\<rparr>
      in if 0 \<le> cur_s c \<and> cur_s c \<le> 65535
         then c\<lparr>max_stack_depth := max (max_stack_depth c) (nat (cur_s c))\<rparr> else c)"

fun without_children :: "PageBox \<Rightarrow> PageBox" where
  "without_children (PageBox w h d s r sg od cs) = PageBox w h d s r sg od []"

definition enter_direct_frame :: "direct_state \<Rightarrow> PageBox \<Rightarrow> bool \<Rightarrow> DirectContinuation \<Rightarrow> (DviError, direct_state) outcome" where
  "enter_direct_frame st bx vertical continuation =
     (case st of (c, frames) \<Rightarrow>
        let c = enter_box c;
            c = (if cur_s c > 0 then out_u8 c OP_PUSH else c);
            loc = length (dvi_bytes c);
            c = (if cur_s c > 0 then c\<lparr>dvi_pop_save_locs := dvi_pop_save_locs c @ [loc]\<rparr> else c)
        in obind (if vertical
                  then obind (sub_scaled (cur_v c) (pb_height bx)) (\<lambda>v.
                         Ok (c\<lparr>cur_v := v\<rparr>, AxisV (cur_h c) v 0 0))
                  else Ok (c, AxisH (cur_v c) (cur_h c) 0 0)) (\<lambda>(c, axis).
             Ok (c, \<lparr>dfr_fields = without_children bx, dfr_save_loc = loc, dfr_axis = axis,
                     dfr_cont = continuation\<rparr> # frames)))"

definition begin_direct_stream :: "DviBodyCompiler \<Rightarrow> scaled \<Rightarrow> scaled \<Rightarrow> PageBox \<Rightarrow> bool \<Rightarrow> (DviError, direct_state) outcome" where
  "begin_direct_stream c h_off v_off rt vertical =
     (let c = c\<lparr>cur_h := h_off\<rparr>
      in obind (ok_or PositionOverflow (scaled_checked_add (pb_height rt) v_off)) (\<lambda>v.
           enter_direct_frame (c\<lparr>cur_v := v\<rparr>, []) rt vertical ContRoot))"

definition direct_begin_box :: "direct_state \<Rightarrow> PageBox \<Rightarrow> bool \<Rightarrow> bool \<Rightarrow> (DviError, direct_state \<times> bool) outcome" where
  "direct_begin_box st bx vertical empty_box =
     (case st of (c, frames) \<Rightarrow>
        case frames of
          [] \<Rightarrow> Panic
        | parent # _ \<Rightarrow>
            if empty_box
            then (case dfr_axis parent of
                    AxisH _ _ _ _ \<Rightarrow> obind (add_scaled (cur_h c) (pb_width bx)) (\<lambda>h. Ok ((c\<lparr>cur_h := h\<rparr>, frames), False))
                  | AxisV _ _ _ _ \<Rightarrow>
                      obind (add_scaled (cur_v c) (pb_height bx)) (\<lambda>v.
                      obind (add_scaled v (pb_depth bx)) (\<lambda>v. Ok ((c\<lparr>cur_v := v\<rparr>, frames), False))))
            else obind
                   (case dfr_axis parent of
                      AxisH base left g glue \<Rightarrow>
                        let continuation = ContH (dvi_h c) (dvi_v c) (cur_h c) base (pb_width bx)
                        in obind (add_scaled base (pb_shift bx)) (\<lambda>v. Ok (c\<lparr>cur_v := v\<rparr>, continuation))
                    | AxisV left tp g glue \<Rightarrow>
                        obind (add_scaled (cur_v c) (pb_height bx)) (\<lambda>v.
                        obind (synch_v (c\<lparr>cur_v := v\<rparr>)) (\<lambda>c.
                          let continuation = ContV (dvi_h c) (dvi_v c) left (pb_depth bx)
                          in obind (add_scaled left (pb_shift bx)) (\<lambda>h. Ok (c\<lparr>cur_h := h\<rparr>, continuation)))))
                   (\<lambda>(c, continuation).
                      obind (enter_direct_frame (c, frames) bx vertical continuation) (\<lambda>st. Ok (st, True))))"

definition dvi_pop :: "DviBodyCompiler \<Rightarrow> DviBodyCompiler" where
  "dvi_pop c = out_u8 (c\<lparr>dvi_pop_sites := dvi_pop_sites c @ [\<lparr>pop_offset = length (dvi_bytes c)\<rparr>]\<rparr>) OP_POP"

definition direct_end_box :: "direct_state \<Rightarrow> (DviError, direct_state) outcome" where
  "direct_end_box st =
     (case st of (c, frames) \<Rightarrow>
        case frames of
          [] \<Rightarrow> Panic
        | frame # frames \<Rightarrow>
            let c = compiler_prune c (dfr_save_loc frame);
                c = (if cur_s c > 0 then dvi_pop c else c);
                c = c\<lparr>cur_s := cur_s c - 1\<rparr>
            in obind
                 (case dfr_cont frame of
                    ContRoot \<Rightarrow> Ok c
                  | ContH h v edge base w \<Rightarrow>
                      obind (add_scaled edge w) (\<lambda>x. Ok (c\<lparr>dvi_h := h, dvi_v := v, cur_h := x, cur_v := base\<rparr>))
                  | ContV h v left d \<Rightarrow>
                      obind (add_scaled v d) (\<lambda>y. Ok (c\<lparr>dvi_h := h, dvi_v := v, cur_v := y, cur_h := left\<rparr>))
                  | ContHLeader h v base w extra \<Rightarrow>
                      obind (add_scaled h w) (\<lambda>x.
                      obind (add_scaled x extra) (\<lambda>x. Ok (c\<lparr>dvi_h := h, dvi_v := v, cur_h := x, cur_v := base\<rparr>)))
                  | ContVLeader h v left ht d extra \<Rightarrow>
                      obind (sub_scaled v ht) (\<lambda>y.
                      obind (add_scaled ht d) (\<lambda>s.
                      obind (add_scaled s extra) (\<lambda>s.
                      obind (add_scaled y s) (\<lambda>y. Ok (c\<lparr>dvi_h := h, dvi_v := v, cur_h := left, cur_v := y\<rparr>))))))
                 (\<lambda>c. Ok (c, frames)))"

definition finish_direct_stream :: "direct_state \<Rightarrow> (DviError, direct_state) outcome" where
  "finish_direct_stream st =
     (if length (snd st) \<noteq> 1 then Err (ArtifactError ''unbalanced direct page box events'') else direct_end_box st)"

section \<open>Leaves\<close>

definition direct_char :: "direct_state \<Rightarrow> u32 \<Rightarrow> u32 \<Rightarrow> scaled \<Rightarrow> (DviError, direct_state) outcome" where
  "direct_char st font_id ch width =
     (case st of (c, frames) \<Rightarrow>
        case frames of
          [] \<Rightarrow> Panic
        | frame # _ \<Rightarrow>
            (case dfr_axis frame of
               AxisH base left g glue \<Rightarrow>
                 obind (synch_h c) (\<lambda>c.
                 obind (synch_v c) (\<lambda>c.
                 obind (change_font c font_id) (\<lambda>c.
                 obind (set_char c ch) (\<lambda>c.
                 obind (add_scaled (cur_h c) width) (\<lambda>h.
                   Ok (c\<lparr>cur_h := h, dvi_h := h, cur_v := base\<rparr>, frames))))))
             | AxisV _ _ _ _ \<Rightarrow> Ok (c, frames)))"

definition direct_kern :: "direct_state \<Rightarrow> scaled \<Rightarrow> (DviError, direct_state) outcome" where
  "direct_kern st amount =
     (case st of (c, frames) \<Rightarrow>
        case frames of
          [] \<Rightarrow> Panic
        | frame # _ \<Rightarrow>
            (case dfr_axis frame of
               AxisH _ _ _ _ \<Rightarrow> obind (add_scaled (cur_h c) amount) (\<lambda>h. Ok (c\<lparr>cur_h := h\<rparr>, frames))
             | AxisV _ _ _ _ \<Rightarrow> obind (add_scaled (cur_v c) amount) (\<lambda>v. Ok (c\<lparr>cur_v := v\<rparr>, frames))))"

definition direct_math :: "direct_state \<Rightarrow> scaled \<Rightarrow> (DviError, direct_state) outcome" where
  "direct_math st amount =
     (case st of (c, frames) \<Rightarrow>
        case frames of
          [] \<Rightarrow> Panic
        | frame # _ \<Rightarrow>
            (case dfr_axis frame of
               AxisH _ _ _ _ \<Rightarrow> obind (add_scaled (cur_h c) amount) (\<lambda>h. Ok (c\<lparr>cur_h := h\<rparr>, frames))
             | AxisV _ _ _ _ \<Rightarrow> Ok (c, frames)))"

definition output_rule_in_hlist :: "DviBodyCompiler \<Rightarrow> scaled \<Rightarrow> scaled \<Rightarrow> scaled \<Rightarrow> scaled \<Rightarrow> (DviError, DviBodyCompiler) outcome" where
  "output_rule_in_hlist c rule_ht rule_dp rule_wd base =
     obind (add_scaled rule_ht rule_dp) (\<lambda>ext.
       if ext > 0 \<and> rule_wd > 0
       then obind (synch_h c) (\<lambda>c.
            obind (add_scaled base rule_dp) (\<lambda>v.
            obind (synch_v (c\<lparr>cur_v := v\<rparr>)) (\<lambda>c.
              let c = out_scaled (out_scaled (out_u8 c SET_RULE) ext) rule_wd;
                  c = c\<lparr>cur_v := base\<rparr>
              in obind (add_scaled (dvi_h c) rule_wd) (\<lambda>h. Ok (c\<lparr>dvi_h := h\<rparr>)))))
       else Ok c)"

definition output_rule_in_vlist :: "DviBodyCompiler \<Rightarrow> scaled \<Rightarrow> scaled \<Rightarrow> (DviError, DviBodyCompiler) outcome" where
  "output_rule_in_vlist c rule_ht rule_wd =
     obind (add_scaled (cur_v c) rule_ht) (\<lambda>v.
       let c = c\<lparr>cur_v := v\<rparr>
       in if rule_ht > 0 \<and> rule_wd > 0
          then obind (synch_h c) (\<lambda>c.
               obind (synch_v c) (\<lambda>c.
                 Ok (out_scaled (out_scaled (out_u8 c PUT_RULE) rule_ht) rule_wd)))
          else Ok c)"

definition unwrap_or :: "'a option \<Rightarrow> 'a \<Rightarrow> 'a" where
  "unwrap_or x d = (case x of None \<Rightarrow> d | Some a \<Rightarrow> a)"

definition direct_rule :: "direct_state \<Rightarrow> scaled option \<Rightarrow> scaled option \<Rightarrow> scaled option \<Rightarrow> (DviError, direct_state) outcome" where
  "direct_rule st width height depth =
     (case st of (c, frames) \<Rightarrow>
        case frames of
          [] \<Rightarrow> Panic
        | frame # _ \<Rightarrow>
            (case dfr_axis frame of
               AxisH base left g glue \<Rightarrow>
                 let rule_ht = unwrap_or height (pb_height (dfr_fields frame));
                     rule_dp = unwrap_or depth (pb_depth (dfr_fields frame));
                     rule_wd = unwrap_or width 0
                 in obind (output_rule_in_hlist c rule_ht rule_dp rule_wd base) (\<lambda>c.
                    obind (add_scaled (cur_h c) rule_wd) (\<lambda>h. Ok (c\<lparr>cur_h := h, cur_v := base\<rparr>, frames)))
             | AxisV _ _ _ _ \<Rightarrow>
                 obind (add_scaled (unwrap_or height 0) (unwrap_or depth 0)) (\<lambda>rule_ht.
                 obind (output_rule_in_vlist c rule_ht (unwrap_or width (pb_width (dfr_fields frame)))) (\<lambda>c. Ok (c, frames)))))"

text \<open>The glue of the top frame: the adjusted width and the frame with its running glue updated.\<close>

definition frame_glue :: "DirectFrame \<Rightarrow> PageGlueSpec \<Rightarrow> (DviError, scaled \<times> DirectFrame) outcome" where
  "frame_glue frame spec =
     obind (adjusted_glue_width spec (pb_glue_sign (dfr_fields frame)) (pb_glue_order (dfr_fields frame))
              (pb_glue_set (dfr_fields frame)) (axis_glue (dfr_axis frame), axis_g (dfr_axis frame))) (\<lambda>(w, glue, g).
       Ok (w, frame\<lparr>dfr_axis := (case dfr_axis frame of AxisH base left _ _ \<Rightarrow> AxisH base left g glue
                                                     | AxisV left tp _ _ \<Rightarrow> AxisV left tp g glue)\<rparr>))"

definition direct_glue :: "direct_state \<Rightarrow> PageGlueSpec \<Rightarrow> (DviError, direct_state) outcome" where
  "direct_glue st spec =
     (case st of (c, frames) \<Rightarrow>
        case frames of
          [] \<Rightarrow> Panic
        | frame # frames \<Rightarrow>
            obind (frame_glue frame spec) (\<lambda>(w, frame).
              case dfr_axis frame of
                AxisH base left g glue \<Rightarrow>
                  obind (add_scaled (cur_h c) w) (\<lambda>h. Ok (c\<lparr>cur_h := h, cur_v := base\<rparr>, frame # frames))
              | AxisV _ _ _ _ \<Rightarrow> obind (add_scaled (cur_v c) w) (\<lambda>v. Ok (c\<lparr>cur_v := v\<rparr>, frame # frames))))"

definition special_out :: "DviBodyCompiler \<Rightarrow> byte list \<Rightarrow> (DviError, DviBodyCompiler) outcome" where
  "special_out c payload =
     obind (synch_h c) (\<lambda>c.
     obind (synch_v c) (\<lambda>c.
       if length payload < 256
       then Ok (out_raw (out_u8 (out_u8 c XXX1) (of_nat (length payload))) payload)
       else if int (length payload) \<le> i32_max
       then Ok (out_raw (out_i32 (out_u8 c XXX4) (int (length payload))) payload)
       else Err (SpecialTooLong (length payload))))"

definition out_what :: "DviBodyCompiler \<Rightarrow> PageEffect list \<Rightarrow> u32 \<Rightarrow> (DviError, DviBodyCompiler) outcome" where
  "out_what c effects effect_index =
     (if unat effect_index < length effects
      then (case effects ! unat effect_index of PeSpecial cls payload \<Rightarrow> special_out c payload | _ \<Rightarrow> Ok c)
      else Err (MissingEffect effect_index))"

text \<open>\<open>From<GeometryError>\<close>.\<close>

fun dvi_error :: "GeometryError \<Rightarrow> DviError" where
  "dvi_error (GeMissingEffect i) = MissingEffect i"
| "dvi_error GePositionOverflow = PositionOverflow"

definition out_what_v :: "DviBodyCompiler \<Rightarrow> PageEffect list \<Rightarrow> u32 \<Rightarrow> PageNode list \<Rightarrow> PageBox \<Rightarrow> scaled \<Rightarrow> scaled
    \<Rightarrow> (DviError, DviBodyCompiler) outcome" where
  "out_what_v c effects effect_index following this_box g glue =
     (if unat effect_index < length effects
      then (case effects ! unat effect_index of
              PePdfSnapRefPoint \<Rightarrow> Ok (c\<lparr>snap_reference := (cur_h c, cur_v c)\<rparr>)
            | PePdfSnapY spec \<Rightarrow>
                (case correction (cur_v c) (snd (snap_reference c)) spec of
                   None \<Rightarrow> Ok c
                 | Some delta \<Rightarrow> obind (add_scaled (cur_v c) delta) (\<lambda>v. Ok (c\<lparr>cur_v := v\<rparr>)))
            | PePdfSnapYComp ratio \<Rightarrow>
                obind (omap_err dvi_error
                        (predict_snap_correction following effects this_box (cur_v c) (snap_reference c) g glue)) (\<lambda>delta.
                  case delta of
                    None \<Rightarrow> Ok c
                  | Some delta \<Rightarrow>
                      obind (omap_err (\<lambda>_. PositionOverflow) (compensate delta (unat ratio))) (\<lambda>delta.
                      obind (add_scaled (cur_v c) delta) (\<lambda>v. Ok (c\<lparr>cur_v := v\<rparr>))))
            | _ \<Rightarrow> out_what c effects effect_index)
      else Err (MissingEffect effect_index))"

definition direct_whatsit :: "direct_state \<Rightarrow> PageEffect list \<Rightarrow> u32 \<Rightarrow> (DviError, direct_state) outcome" where
  "direct_whatsit st effects effect_index =
     (case st of (c, frames) \<Rightarrow>
        obind (out_what c effects effect_index) (\<lambda>c.
          case frames of
            [] \<Rightarrow> Panic
          | frame # _ \<Rightarrow>
              (case dfr_axis frame of AxisH base _ _ _ \<Rightarrow> Ok (c\<lparr>cur_v := base\<rparr>, frames) | AxisV _ _ _ _ \<Rightarrow> Ok (c, frames))))"

section \<open>Leaders\<close>

record HLeaderRepeat =
  hr_leader :: PageLeader
  hr_box :: PageBox
  hr_edge :: scaled
  hr_extra :: scaled
  hr_base_line :: scaled

record VLeaderRepeat =
  vr_leader :: PageLeader
  vr_box :: PageBox
  vr_edge :: scaled
  vr_extra :: scaled
  vr_left_edge :: scaled

text \<open>The context of the source is passed as arguments: the frame's box, the glue kind, the leader, the glue set and
  the edges.\<close>

definition move_right_or_output_leaders :: "DviBodyCompiler \<Rightarrow> PageBox \<Rightarrow> PageGlueKind \<Rightarrow> PageLeader option \<Rightarrow> scaled \<Rightarrow> scaled
    \<Rightarrow> scaled \<Rightarrow> (DviError, DviBodyCompiler \<times> HLeaderRepeat option) outcome" where
  "move_right_or_output_leaders c this_box kind leader rule_wd left base =
     (let skip = obind (add_scaled (cur_h c) rule_wd) (\<lambda>h. Ok (c\<lparr>cur_h := h\<rparr>, None));
          repeat = (\<lambda>mode payload bx.
            if pb_width bx > 0 \<and> rule_wd > 0
            then obind (add_scaled rule_wd LEADER_ROUNDING_COMPENSATION) (\<lambda>space.
                 obind (add_scaled (cur_h c) space) (\<lambda>edge.
                 obind (omap_err dvi_error (leader_start mode (cur_h c) left space (pb_width bx))) (\<lambda>(start, lx).
                   Ok (c\<lparr>cur_h := start\<rparr>,
                       Some \<lparr>hr_leader = payload, hr_box = bx, hr_edge = edge, hr_extra = lx, hr_base_line = base\<rparr>))))
            else skip)
      in case mode_from_glue kind of
           None \<Rightarrow> skip
         | Some mode \<Rightarrow>
             (case leader of
                None \<Rightarrow> skip
              | Some (PlRule w h d) \<Rightarrow>
                  obind (output_rule_in_hlist c (unwrap_or h (pb_height this_box)) (unwrap_or d (pb_depth this_box)) rule_wd base)
                    (\<lambda>c. obind (add_scaled (cur_h c) rule_wd) (\<lambda>h. Ok (c\<lparr>cur_h := h\<rparr>, None)))
              | Some (PlHList bx) \<Rightarrow> repeat mode (PlHList bx) bx
              | Some (PlVList bx) \<Rightarrow> repeat mode (PlVList bx) bx))"

definition move_down_or_output_leaders :: "DviBodyCompiler \<Rightarrow> PageBox \<Rightarrow> PageGlueKind \<Rightarrow> PageLeader option \<Rightarrow> scaled \<Rightarrow> scaled
    \<Rightarrow> scaled \<Rightarrow> (DviError, DviBodyCompiler \<times> VLeaderRepeat option) outcome" where
  "move_down_or_output_leaders c this_box kind leader rule_ht left tp =
     (let skip = obind (add_scaled (cur_v c) rule_ht) (\<lambda>v. Ok (c\<lparr>cur_v := v\<rparr>, None));
          repeat = (\<lambda>mode payload bx.
            obind (add_scaled (pb_height bx) (pb_depth bx)) (\<lambda>leader_ht.
              if leader_ht > 0 \<and> rule_ht > 0
              then obind (add_scaled rule_ht LEADER_ROUNDING_COMPENSATION) (\<lambda>space.
                   obind (add_scaled (cur_v c) space) (\<lambda>edge.
                   obind (omap_err dvi_error (leader_start mode (cur_v c) tp space leader_ht)) (\<lambda>(start, lx).
                     Ok (c\<lparr>cur_v := start\<rparr>,
                         Some \<lparr>vr_leader = payload, vr_box = bx, vr_edge = edge, vr_extra = lx, vr_left_edge = left\<rparr>))))
              else skip))
      in case mode_from_glue kind of
           None \<Rightarrow> skip
         | Some mode \<Rightarrow>
             (case leader of
                None \<Rightarrow> skip
              | Some (PlRule w h d) \<Rightarrow>
                  obind (output_rule_in_vlist c rule_ht (unwrap_or w (pb_width this_box))) (\<lambda>c. Ok (c, None))
              | Some (PlHList bx) \<Rightarrow> repeat mode (PlHList bx) bx
              | Some (PlVList bx) \<Rightarrow> repeat mode (PlVList bx) bx))"

section \<open>The traversal of a list\<close>

datatype Action =
    ActNode PageNode "PageNode list"
  | ActEndBox
  | ActHLeader HLeaderRepeat
  | ActVLeader VLeaderRepeat

fun schedule :: "PageNode list \<Rightarrow> Action list" where
  "schedule [] = []"
| "schedule (node # nodes) = ActNode node nodes # schedule nodes"

definition is_vlist_leader :: "PageLeader \<Rightarrow> bool" where
  "is_vlist_leader leader = (case leader of PlVList _ \<Rightarrow> True | _ \<Rightarrow> False)"

text \<open>The node cases that do not need the loop; the others are handled before they reach it.\<close>

definition direct_owned_leaf :: "PageEffect list \<Rightarrow> direct_state \<Rightarrow> PageNode \<Rightarrow> (DviError, direct_state) outcome" where
  "direct_owned_leaf effects st node =
     (case node of
        PnChar font_id ch width \<Rightarrow> direct_char st font_id ch width
      | PnLig font_id ch source width \<Rightarrow> direct_char st font_id ch width
      | PnKern amount kind \<Rightarrow> direct_kern st amount
      | PnMarginKern amount side font_id ch \<Rightarrow> direct_kern st amount
      | PnGlue spec kind leader \<Rightarrow> direct_glue st spec
      | PnRule width height depth \<Rightarrow> direct_rule st width height depth
      | PnWhatsitAnchor effect_index \<Rightarrow> direct_whatsit st effects effect_index
      | PnMathOn width \<Rightarrow> direct_math st width
      | PnMathOff width \<Rightarrow> direct_math st width
      | _ \<Rightarrow> Ok st)"

definition repeat_hleader :: "direct_state \<Rightarrow> HLeaderRepeat \<Rightarrow> Action list \<Rightarrow> (DviError, direct_state \<times> Action list) outcome" where
  "repeat_hleader st repeat pending =
     (case st of (c, frames) \<Rightarrow>
        let width = pb_width (hr_box repeat)
        in obind (add_scaled (cur_h c) width) (\<lambda>right.
             if right > hr_edge repeat
             then obind (sub_scaled (hr_edge repeat) LEADER_ROUNDING_COMPENSATION) (\<lambda>h.
                    Ok ((c\<lparr>cur_h := h\<rparr>, frames), pending))
             else obind (add_scaled (hr_base_line repeat) (pb_shift (hr_box repeat))) (\<lambda>v.
                  obind (synch_v (c\<lparr>cur_v := v\<rparr>)) (\<lambda>c.
                  obind (synch_h c) (\<lambda>c'.
                  obind (enter_direct_frame (c', frames) (hr_box repeat) (is_vlist_leader (hr_leader repeat))
                           (ContHLeader (dvi_h c') (dvi_v c) (hr_base_line repeat) width (hr_extra repeat))) (\<lambda>st.
                    Ok (st, schedule (pb_children (hr_box repeat)) @ ActEndBox # ActHLeader repeat # pending)))))))"

definition repeat_vleader :: "direct_state \<Rightarrow> VLeaderRepeat \<Rightarrow> Action list \<Rightarrow> (DviError, direct_state \<times> Action list) outcome" where
  "repeat_vleader st repeat pending =
     (case st of (c, frames) \<Rightarrow>
        let height = pb_height (vr_box repeat);
            depth = pb_depth (vr_box repeat)
        in obind (add_scaled height depth) (\<lambda>ext.
           obind (add_scaled (cur_v c) ext) (\<lambda>bottom.
             if bottom > vr_edge repeat
             then obind (sub_scaled (vr_edge repeat) LEADER_ROUNDING_COMPENSATION) (\<lambda>v.
                    Ok ((c\<lparr>cur_v := v\<rparr>, frames), pending))
             else obind (add_scaled (vr_left_edge repeat) (pb_shift (vr_box repeat))) (\<lambda>h.
                  obind (synch_h (c\<lparr>cur_h := h\<rparr>)) (\<lambda>c.
                  obind (add_scaled (cur_v c) height) (\<lambda>v.
                  obind (synch_v (c\<lparr>cur_v := v\<rparr>)) (\<lambda>c'.
                  obind (enter_direct_frame (c', frames) (vr_box repeat) (is_vlist_leader (vr_leader repeat))
                           (ContVLeader (dvi_h c) (dvi_v c') (vr_left_edge repeat) height depth (vr_extra repeat))) (\<lambda>st.
                    Ok (st, schedule (pb_children (vr_box repeat)) @ ActEndBox # ActVLeader repeat # pending)))))))))"

definition leader_glue :: "direct_state \<Rightarrow> PageGlueSpec \<Rightarrow> PageGlueKind \<Rightarrow> PageLeader option \<Rightarrow> Action list
    \<Rightarrow> (DviError, direct_state \<times> Action list) outcome" where
  "leader_glue st spec kind leader pending =
     (case st of (c, frames) \<Rightarrow>
        case frames of
          [] \<Rightarrow> Panic
        | frame # frames \<Rightarrow>
            obind (frame_glue frame spec) (\<lambda>(w, frame).
              case dfr_axis frame of
                AxisH base left g glue \<Rightarrow>
                  obind (move_right_or_output_leaders c (dfr_fields frame) kind leader w left base) (\<lambda>(c, again).
                    Ok ((c\<lparr>cur_v := base\<rparr>, frame # frames),
                        case again of None \<Rightarrow> pending | Some repeat \<Rightarrow> ActHLeader repeat # pending))
              | AxisV left tp g glue \<Rightarrow>
                  obind (move_down_or_output_leaders c (dfr_fields frame) kind leader w left tp) (\<lambda>(c, again).
                    Ok ((c, frame # frames),
                        case again of None \<Rightarrow> pending | Some repeat \<Rightarrow> ActVLeader repeat # pending))))"

definition box_node_action :: "direct_state \<Rightarrow> PageBox \<Rightarrow> bool \<Rightarrow> Action list \<Rightarrow> (DviError, direct_state \<times> Action list) outcome" where
  "box_node_action st bx vertical pending =
     obind (direct_begin_box st bx vertical (pb_children bx = [])) (\<lambda>(st, entered).
       Ok (st, if entered then schedule (pb_children bx) @ ActEndBox # pending else pending))"

definition node_action :: "PageEffect list \<Rightarrow> direct_state \<Rightarrow> PageNode \<Rightarrow> PageNode list \<Rightarrow> Action list
    \<Rightarrow> (DviError, direct_state \<times> Action list) outcome" where
  "node_action effects st node following pending =
     (let rest = (case node of
             PnHList bx \<Rightarrow> box_node_action st bx False pending
           | PnVList bx \<Rightarrow> box_node_action st bx True pending
           | PnGlue spec kind (Some leader) \<Rightarrow> leader_glue st spec kind (Some leader) pending
           | _ \<Rightarrow> obind (direct_owned_leaf effects st node) (\<lambda>st. Ok (st, pending)))
      in case node of
           PnWhatsitAnchor effect_index \<Rightarrow>
             (case snd st of
                [] \<Rightarrow> Panic
              | frame # _ \<Rightarrow>
                  (case dfr_axis frame of
                     AxisV left tp g glue \<Rightarrow>
                       obind (out_what_v (fst st) effects effect_index following (dfr_fields frame) g glue) (\<lambda>c.
                         Ok ((c, snd st), pending))
                   | AxisH _ _ _ _ \<Rightarrow> rest))
         | _ \<Rightarrow> rest)"

definition owned_action :: "PageEffect list \<Rightarrow> direct_state \<Rightarrow> Action \<Rightarrow> Action list
    \<Rightarrow> (DviError, direct_state \<times> Action list) outcome" where
  "owned_action effects st action pending =
     (case action of
        ActEndBox \<Rightarrow> obind (direct_end_box st) (\<lambda>st. Ok (st, pending))
      | ActHLeader repeat \<Rightarrow> repeat_hleader st repeat pending
      | ActVLeader repeat \<Rightarrow> repeat_vleader st repeat pending
      | ActNode node following \<Rightarrow> node_action effects st node following pending)"

partial_function (option) owned_loop :: "PageEffect list \<Rightarrow> direct_state \<Rightarrow> Action list \<Rightarrow> (DviError, direct_state) outcome option" where
  "owned_loop effects st pending =
     (case pending of
        [] \<Rightarrow> Some (Ok st)
      | action # pending \<Rightarrow>
          (case owned_action effects st action pending of
             Ok (st, pending) \<Rightarrow> owned_loop effects st pending
           | Err e \<Rightarrow> Some (Err e)
           | Panic \<Rightarrow> Some Panic))"

declare owned_loop.simps [code]

definition direct_owned_list :: "PageEffect list \<Rightarrow> direct_state \<Rightarrow> PageNode list \<Rightarrow> (DviError, direct_state) outcome option" where
  "direct_owned_list effects st nodes = owned_loop effects st (schedule nodes)"

definition direct_owned_node :: "PageEffect list \<Rightarrow> direct_state \<Rightarrow> PageNode \<Rightarrow> (DviError, direct_state) outcome option" where
  "direct_owned_node effects st node =
     (case node of
        PnGlue spec kind (Some leader) \<Rightarrow> direct_owned_list effects st [node]
      | PnHList bx \<Rightarrow> direct_owned_list effects st [node]
      | PnVList bx \<Rightarrow> direct_owned_list effects st [node]
      | _ \<Rightarrow> Some (direct_owned_leaf effects st node))"

section \<open>The page plan\<close>

text \<open>The parts of a validated page artifact that the DVI writer reads.\<close>

record PageArtifact =
  pa_job :: JobInfo
  pa_fonts :: "FontResource list"
  pa_counts :: "int list"
  pa_root :: PageNode
  pa_effects :: "PageEffect list"

record DviPagePlan =
  plan_banner :: string
  plan_mag :: int
  plan_counts :: "int list"
  plan_fonts :: "FontResource list"
  plan_body :: "byte list"
  plan_font_definition_sites :: "FontDefinitionSite list"
  plan_pop_save_locs :: "nat list"
  plan_pop_sites :: "DviPopSite list"
  plan_max_height_depth :: int
  plan_max_width :: int
  plan_max_stack_depth :: nat

record DviPagePlanBuilder =
  pb_writer :: DviBodyCompiler
  pb_job :: JobInfo
  pb_counts :: "int list"
  pb_state :: "DirectFrame list"
  pb_max_height_depth :: int
  pb_max_width :: int

definition builder_new :: "JobInfo \<Rightarrow> int list \<Rightarrow> PageBox \<Rightarrow> bool \<Rightarrow> (DviError, DviPagePlanBuilder) outcome" where
  "builder_new job counts rt vertical =
     (let writer = reset_page_state (compiler_new\<lparr>font_definition_sites := Some []\<rparr>)
      in obind (begin_direct_stream writer (h_offset job) (v_offset job) rt vertical) (\<lambda>(writer, frames).
         obind (ok_or PositionOverflow (Option.bind (checked32 (pb_height rt + pb_depth rt)) (\<lambda>e. checked32 (e + v_offset job)))) (\<lambda>hd.
         obind (ok_or PositionOverflow (checked32 (pb_width rt + h_offset job))) (\<lambda>w.
           Ok \<lparr>pb_writer = writer, pb_job = job, pb_counts = counts, pb_state = frames,
               pb_max_height_depth = hd, pb_max_width = w\<rparr>))))"

definition builder_finish :: "DviPagePlanBuilder \<Rightarrow> FontResource list \<Rightarrow> (DviError, DviPagePlan) outcome" where
  "builder_finish b fonts =
     obind (index_fonts (pb_writer b) fonts) (\<lambda>writer.
     obind (finish_direct_stream (writer, pb_state b)) (\<lambda>(writer, _).
     obind (expect_some (font_definition_sites writer)) (\<lambda>sites.
       Ok \<lparr>plan_banner = job_banner_field (pb_job b), plan_mag = job_mag_field (pb_job b), plan_counts = pb_counts b,
           plan_fonts = fonts, plan_body = dvi_bytes writer, plan_font_definition_sites = sites,
           plan_pop_save_locs = dvi_pop_save_locs writer,
           plan_pop_sites = sort_key pop_offset (dvi_pop_sites writer),
           plan_max_height_depth = pb_max_height_depth b, plan_max_width = pb_max_width b,
           plan_max_stack_depth = max_stack_depth writer\<rparr>)))"

text \<open>\<open>unreachable!\<close> on a root that is not a box is a panic.\<close>

definition plan_compile :: "PageArtifact \<Rightarrow> (DviError, DviPagePlan) outcome option" where
  "plan_compile page =
     (case (case pa_root page of PnHList bx \<Rightarrow> Some (False, bx) | PnVList bx \<Rightarrow> Some (True, bx) | _ \<Rightarrow> None) of
        None \<Rightarrow> Some Panic
      | Some (vertical, bx) \<Rightarrow>
          (case obind (builder_new (pa_job page) (pa_counts page) bx vertical) (\<lambda>b.
                let b = b\<lparr>pb_writer := (pb_writer b)\<lparr>snap_reference := initial_reference (pa_effects page)\<rparr>\<rparr>
                in obind (add_page_fonts (pb_writer b) (pa_fonts page)) (\<lambda>writer. Ok (b\<lparr>pb_writer := writer\<rparr>))) of
             Ok b \<Rightarrow>
               (case direct_owned_list (pa_effects page) (pb_writer b, pb_state b) (pb_children bx) of
                  Some (Ok (writer, frames)) \<Rightarrow>
                    Some (builder_finish (b\<lparr>pb_writer := writer, pb_state := frames\<rparr>) (pa_fonts page))
                | Some (Err e) \<Rightarrow> Some (Err e)
                | Some Panic \<Rightarrow> Some Panic
                | None \<Rightarrow> None)
           | Err e \<Rightarrow> Some (Err e)
           | Panic \<Rightarrow> Some Panic))"

end
