(* ===== verification/Page_Draw.thy ===== *)
theory Page_Draw
  imports Page_Geometry Dvi_Page
begin

text \<open>
  What a page draws, written as TeX describes it: a recursion over boxes with the position of the reference point,
  no bytes, no registers and no stacks. This is the specification of the DVI page compiler. Positions are unbounded
  integers.
\<close>

text \<open>A character in a font with its width, rules that advance the position or not with their height and width, and
  specials.\<close>

datatype draw_item = DrawChar u32 u32 int | DrawSetRule int int | DrawPutRule int int | DrawSpecial "byte list"

type_synonym drawing = "((int \<times> int) \<times> draw_item) list"

text \<open>The state while a list is laid out: the position, the glue already set and its running total, and the
  reference point of snapping.\<close>

record layout =
  ly_h :: int
  ly_v :: int
  ly_g :: int
  ly_glue :: int
  ly_snap :: "int \<times> int"

text \<open>The box whose list is laid out: its direction, its fields, and its left edge with its baseline or top edge.\<close>

record enclosing =
  en_vert :: bool
  en_box :: PageBox
  en_x :: int
  en_y :: int

definition glue_matches :: "PageBox \<Rightarrow> PageGlueSpec \<Rightarrow> bool" where
  "glue_matches bx g \<longleftrightarrow>
     pb_glue_sign bx = PsStretching \<and> pg_stretch_order g = pb_glue_order bx
     \<or> pb_glue_sign bx = PsShrinking \<and> pg_shrink_order g = pb_glue_order bx"

definition set_layout_glue :: "PageBox \<Rightarrow> PageGlueSpec \<Rightarrow> layout \<Rightarrow> int \<times> layout" where
  "set_layout_glue bx g ly =
     (let glue = (if glue_matches bx g
                  then ly_glue ly + (if pb_glue_sign bx = PsStretching then pg_stretch g else - pg_shrink g)
                  else ly_glue ly);
          set = (if glue_matches bx g then rounded_glue_set (pb_glue_set bx) glue else ly_g ly)
      in (pg_width g - ly_g ly + set, ly\<lparr>ly_g := set, ly_glue := glue\<rparr>))"

text \<open>Advance along the direction of the list.\<close>

definition advance :: "enclosing \<Rightarrow> int \<Rightarrow> layout \<Rightarrow> layout" where
  "advance en w ly = (if en_vert en then ly\<lparr>ly_v := ly_v ly + w\<rparr> else ly\<lparr>ly_h := ly_h ly + w\<rparr>)"

text \<open>A rule of the given height, depth and width; in a vertical list it hangs below the current position.\<close>

definition draw_rule :: "enclosing \<Rightarrow> layout \<Rightarrow> int \<Rightarrow> int \<Rightarrow> int \<Rightarrow> layout \<times> drawing" where
  "draw_rule en ly ht dp wd =
     (if en_vert en
      then let ly = advance en (ht + dp) ly
           in (ly, if ht + dp > 0 \<and> wd > 0 then [((ly_h ly, ly_v ly), DrawPutRule (ht + dp) wd)] else [])
      else (advance en wd ly,
            if ht + dp > 0 \<and> wd > 0 then [((ly_h ly, en_y en + dp), DrawSetRule (ht + dp) wd)] else []))"

definition draw_special :: "PageEffect list \<Rightarrow> u32 \<Rightarrow> layout \<Rightarrow> drawing" where
  "draw_special effects i ly =
     (case effects ! unat i of PeSpecial cls payload \<Rightarrow> [((ly_h ly, ly_v ly), DrawSpecial payload)] | _ \<Rightarrow> [])"

text \<open>A snapping effect in a vertical list.\<close>

definition snap_layout :: "PageEffect list \<Rightarrow> PageEffect \<Rightarrow> PageNode list \<Rightarrow> enclosing \<Rightarrow> layout \<Rightarrow> layout" where
  "snap_layout effects e following en ly =
     (case e of
        PePdfSnapRefPoint \<Rightarrow> ly\<lparr>ly_snap := (ly_h ly, ly_v ly)\<rparr>
      | PePdfSnapY spec \<Rightarrow>
          (case correction (ly_v ly) (snd (ly_snap ly)) spec of None \<Rightarrow> ly | Some d \<Rightarrow> advance en d ly)
      | PePdfSnapYComp ratio \<Rightarrow>
          (case predict_snap_correction following effects (en_box en) (ly_v ly) (ly_snap ly) (ly_g ly) (ly_glue ly) of
             Ok (Some d) \<Rightarrow> advance en (d * int (unat ratio) sdiv 1000) ly
           | _ \<Rightarrow> ly)
      | _ \<Rightarrow> ly)"

text \<open>Material without a list of its own.\<close>

definition draw_leaf :: "PageEffect list \<Rightarrow> enclosing \<Rightarrow> layout \<Rightarrow> PageNode \<Rightarrow> PageNode list \<Rightarrow> layout \<times> drawing" where
  "draw_leaf effects en ly node following =
     (let char = (\<lambda>f ch w. if en_vert en then (ly, []) else (advance en w ly, [((ly_h ly, ly_v ly), DrawChar f ch w)]))
      in case node of
           PnChar f ch w \<Rightarrow> char f ch w
         | PnLig f ch source w \<Rightarrow> char f ch w
         | PnKern amount kind \<Rightarrow> (advance en amount ly, [])
         | PnMarginKern amount side f ch \<Rightarrow> (advance en amount ly, [])
         | PnGlue spec kind leader \<Rightarrow> let (w, ly) = set_layout_glue (en_box en) spec ly in (advance en w ly, [])
         | PnRule w h d \<Rightarrow>
             if en_vert en
             then draw_rule en ly (unwrap_or h 0) (unwrap_or d 0) (unwrap_or w (pb_width (en_box en)))
             else draw_rule en ly (unwrap_or h (pb_height (en_box en))) (unwrap_or d (pb_depth (en_box en))) (unwrap_or w 0)
         | PnWhatsitAnchor i \<Rightarrow>
             (if en_vert en then snap_layout effects (effects ! unat i) following en ly else ly, draw_special effects i ly)
         | PnMathOn w \<Rightarrow> (if en_vert en then ly else advance en w ly, [])
         | PnMathOff w \<Rightarrow> (if en_vert en then ly else advance en w ly, [])
         | _ \<Rightarrow> (ly, []))"

text \<open>Where copies of a leader are put: as many as end before the edge.\<close>

function leader_stops :: "int \<Rightarrow> int \<Rightarrow> int \<Rightarrow> int \<Rightarrow> int list" where
  "leader_stops p sz extra edge =
     (if 0 < sz \<and> 0 \<le> extra \<and> p + sz \<le> edge then p # leader_stops (p + sz + extra) sz extra edge else [])"
  by pat_completeness auto

termination leader_stops
  by (relation "measure (\<lambda>(p, sz, extra, edge). nat (edge - p))") auto

declare leader_stops.simps [simp del]

definition along :: "enclosing \<Rightarrow> layout \<Rightarrow> int" where
  "along en ly = (if en_vert en then ly_v ly else ly_h ly)"

text \<open>The positions of the copies of a box of the given size in glue of the given width, and the position after
  the glue; no copies when the glue is not a leader or nothing fits.\<close>

definition leader_copies :: "enclosing \<Rightarrow> layout \<Rightarrow> PageGlueKind \<Rightarrow> int \<Rightarrow> int \<Rightarrow> int list \<times> layout" where
  "leader_copies en ly kind sz w =
     (case mode_from_glue kind of
        Some mode \<Rightarrow>
          if sz > 0 \<and> w > 0
          then (case leader_start mode (along en ly) (if en_vert en then en_y en else en_x en)
                       (w + LEADER_ROUNDING_COMPENSATION) sz of
                  Ok (start, extra) \<Rightarrow>
                    (leader_stops start sz extra (along en ly + w + LEADER_ROUNDING_COMPENSATION), advance en w ly)
                | _ \<Rightarrow> ([], advance en w ly))
          else ([], advance en w ly)
      | None \<Rightarrow> ([], advance en w ly))"

text \<open>The reference point of a box at the current position, and the position after the box.\<close>

definition box_origin :: "enclosing \<Rightarrow> layout \<Rightarrow> PageBox \<Rightarrow> int \<times> int" where
  "box_origin en ly b =
     (if en_vert en then (en_x en + pb_shift b, ly_v ly + pb_height b) else (ly_h ly, en_y en + pb_shift b))"

definition box_size :: "enclosing \<Rightarrow> PageBox \<Rightarrow> int" where
  "box_size en b = (if en_vert en then pb_height b + pb_depth b else pb_width b)"

definition box_start :: "bool \<Rightarrow> PageBox \<Rightarrow> int \<times> int \<Rightarrow> int \<times> int \<Rightarrow> enclosing \<times> layout" where
  "box_start vert b pos snap =
     (let y = (if vert then snd pos - pb_height b else snd pos)
      in (\<lparr>en_vert = vert, en_box = b, en_x = fst pos, en_y = y\<rparr>,
          \<lparr>ly_h = fst pos, ly_v = y, ly_g = 0, ly_glue = 0, ly_snap = snap\<rparr>))"

fun draw_nodes :: "PageEffect list \<Rightarrow> enclosing \<Rightarrow> layout \<Rightarrow> PageNode list \<Rightarrow> layout \<times> drawing"
and draw_node :: "PageEffect list \<Rightarrow> enclosing \<Rightarrow> layout \<Rightarrow> PageNode \<Rightarrow> PageNode list \<Rightarrow> layout \<times> drawing"
and draw_box :: "PageEffect list \<Rightarrow> bool \<Rightarrow> PageBox \<Rightarrow> int \<times> int \<Rightarrow> int \<times> int \<Rightarrow> (int \<times> int) \<times> drawing"
and draw_leader :: "PageEffect list \<Rightarrow> enclosing \<Rightarrow> layout \<Rightarrow> PageGlueKind \<Rightarrow> int \<Rightarrow> PageLeader \<Rightarrow> layout \<times> drawing"
where
  "draw_nodes effects en ly [] = (ly, [])"
| "draw_nodes effects en ly (node # nodes) =
     (let (ly, d) = draw_node effects en ly node nodes; (ly, d') = draw_nodes effects en ly nodes in (ly, d @ d'))"
| "draw_node effects en ly (PnHList b) following =
     (let (snap, d) = draw_box effects False b (box_origin en ly b) (ly_snap ly)
      in (advance en (box_size en b) (ly\<lparr>ly_snap := snap\<rparr>), d))"
| "draw_node effects en ly (PnVList b) following =
     (let (snap, d) = draw_box effects True b (box_origin en ly b) (ly_snap ly)
      in (advance en (box_size en b) (ly\<lparr>ly_snap := snap\<rparr>), d))"
| "draw_node effects en ly (PnGlue spec kind (Some leader)) following =
     (let (w, ly) = set_layout_glue (en_box en) spec ly in draw_leader effects en ly kind w leader)"
| "draw_node effects en ly node following = draw_leaf effects en ly node following"
| "draw_leader effects en ly kind w (PlRule rw rh rd) =
     (if mode_from_glue kind = None then (advance en w ly, [])
      else if en_vert en then draw_rule en ly w 0 (unwrap_or rw (pb_width (en_box en)))
      else draw_rule en ly (unwrap_or rh (pb_height (en_box en))) (unwrap_or rd (pb_depth (en_box en))) w)"
| "draw_leader effects en ly kind w (PlHList b) =
     (let (ps, ly') = leader_copies en ly kind (box_size en b) w;
          (snap, d) = foldl (\<lambda>(snap, d) p.
             let (snap, d') = draw_box effects False b
                   (box_origin en (if en_vert en then ly\<lparr>ly_v := p\<rparr> else ly\<lparr>ly_h := p\<rparr>) b) snap in (snap, d @ d'))
           (ly_snap ly, []) ps
      in (ly'\<lparr>ly_snap := snap\<rparr>, d))"
| "draw_leader effects en ly kind w (PlVList b) =
     (let (ps, ly') = leader_copies en ly kind (box_size en b) w;
          (snap, d) = foldl (\<lambda>(snap, d) p.
             let (snap, d') = draw_box effects True b
                   (box_origin en (if en_vert en then ly\<lparr>ly_v := p\<rparr> else ly\<lparr>ly_h := p\<rparr>) b) snap in (snap, d @ d'))
           (ly_snap ly, []) ps
      in (ly'\<lparr>ly_snap := snap\<rparr>, d))"
| "draw_box effects vert (PageBox w h d s r sg od nodes) pos snap =
     (let (en, ly) = box_start vert (PageBox w h d s r sg od []) pos snap;
          (ly, out) = draw_nodes effects en ly nodes
      in (ly_snap ly, out))"

definition draw_page :: "PageArtifact \<Rightarrow> drawing" where
  "draw_page page =
     (let at_origin = (\<lambda>b. (h_offset (pa_job page), pb_height b + v_offset (pa_job page)));
          snap = initial_reference (pa_effects page)
      in case pa_root page of
           PnHList b \<Rightarrow> snd (draw_box (pa_effects page) False b (at_origin b) snap)
         | PnVList b \<Rightarrow> snd (draw_box (pa_effects page) True b (at_origin b) snap)
         | _ \<Rightarrow> [])"

end
