(* ===== verification/Dvi_Traversal.thy ===== *)
theory Dvi_Traversal
  imports Dvi_Replay Page_Draw
begin

text \<open>
  The page compiler implements the drawing of a page: its loop over a stack of pending actions ends, and reading its
  bytes draws what the recursive specification draws, each item at its position and each character in its font.
\<close>

section \<open>Reading a log as a drawing\<close>

definition char_bytes :: "u32 \<Rightarrow> byte list" where
  "char_bytes ch = (if (ucast ch :: byte) < SET1 then [ucast ch] else [SET1, ucast ch])"

definition font_bytes :: "u32 \<Rightarrow> byte list" where
  "font_bytes f =
     (if f \<le> 63 then [FNT_NUM_0 + ucast f]
      else if f \<le> 0xFF then [FNT1, ucast f]
      else if f \<le> 0xFFFF then FNT2 # be_bytes 2 (uint f)
      else if f \<le> 0xFFFFFF then FNT3 # be_bytes 3 (uint f)
      else FNT4 # be_bytes 4 (uint f))"

definition special_bytes :: "byte list \<Rightarrow> byte list" where
  "special_bytes payload =
     (if length payload < 256 then XXX1 # of_nat (length payload) # payload
      else XXX4 # be_bytes 4 (int (length payload)) @ payload)"

definition definition_bytes :: "FontResource \<Rightarrow> byte list" where
  "definition_bytes font = (case fnt_def compiler_new (fr_font_id font) font of Ok c \<Rightarrow> dvi_bytes c | _ \<Rightarrow> [])"

text \<open>The bytes that draw an item and the distance they move the position. The fonts defined so far and the font in
  force are passed: a font is defined where it is first used, and selected when another one is in force.\<close>

type_synonym font_state = "u32 list \<times> u32 option"

fun ink1 :: "(u32 \<rightharpoonup> FontResource) \<Rightarrow> font_state \<Rightarrow> draw_item \<Rightarrow> font_state \<times> int \<times> byte list" where
  "ink1 pf (D, fo) (DrawChar f ch w) =
     (if fo = Some f then ((D, fo), w, char_bytes ch)
      else if f \<in> set D then ((D, Some f), w, font_bytes f @ char_bytes ch)
      else ((D @ [f], Some f), w, definition_bytes (the (pf f)) @ font_bytes f @ char_bytes ch))"
| "ink1 pf fs (DrawSetRule ht wd) = (fs, wd, SET_RULE # be_bytes 4 ht @ be_bytes 4 wd)"
| "ink1 pf fs (DrawPutRule ht wd) = (fs, 0, PUT_RULE # be_bytes 4 ht @ be_bytes 4 wd)"
| "ink1 pf fs (DrawSpecial payload) = (fs, 0, special_bytes payload)"

fun ink :: "(u32 \<rightharpoonup> FontResource) \<Rightarrow> font_state \<Rightarrow> drawing \<Rightarrow> font_state \<times> log" where
  "ink pf fs [] = (fs, [])"
| "ink pf fs (((h, v), it) # items) =
     (let (fs, adv, bs) = ink1 pf fs it; (fs, lg) = ink pf fs items in (fs, (at h v, adv, bs) # lg))"

lemma ink_snoc:
  assumes "ink pf fs items = (fs1, lg)" and "ink1 pf fs1 it = (fs2, adv, bs)"
  shows "ink pf fs (items @ [((h, v), it)]) = (fs2, lg @ [(at h v, adv, bs)])"
  using assms by (induction pf fs items arbitrary: lg rule: ink.induct) (auto split: prod.splits)

section \<open>The compiler on its frames\<close>

abbreviation ids :: "(FontKey \<times> DefinedFont) list \<Rightarrow> u32 list" where
  "ids df \<equiv> map (\<lambda>x. fk_font_id (fst x)) df"

text \<open>The defined fonts are fonts of the page under their own numbers, and definition sites are recorded.\<close>

definition fonts_ok :: "(FontKey \<times> DefinedFont) list \<Rightarrow> (u32 \<rightharpoonup> FontResource) \<Rightarrow> FontDefinitionSite list option \<Rightarrow> bool" where
  "fonts_ok df pf si \<longleftrightarrow>
     (\<forall>(k, d) \<in> set df. df_number d = fk_font_id k \<and> map_option font_key (pf (fk_font_id k)) = Some k)
     \<and> (\<forall>f r. pf f = Some r \<longrightarrow> fr_font_id r = f) \<and> si \<noteq> None"

definition box_of :: "DirectFrame \<Rightarrow> BoxFrame" where
  "box_of fr = \<lparr>save_loc = dfr_save_loc fr, save_h = cont_h (dfr_cont fr), save_v = cont_v (dfr_cont fr)\<rparr>"

text \<open>Every frame but the root was entered with a push.\<close>

definition boxes :: "DirectFrame list \<Rightarrow> BoxFrame list" where
  "boxes frames = map box_of (butlast frames)"

lemma boxes_Cons [simp]: "boxes (fr # frs) = (if frs = [] then [] else box_of fr # boxes frs)"
  by (simp add: boxes_def)

definition drawn_st :: "(u32 \<rightharpoonup> FontResource) \<Rightarrow> FontDefinitionSite list option \<Rightarrow> (FontKey \<times> DefinedFont) list \<Rightarrow> (u32 \<rightharpoonup> FontResource) \<Rightarrow> byte list \<Rightarrow> MovementEntry list
    \<Rightarrow> MovementEntry list \<Rightarrow> int \<Rightarrow> int \<Rightarrow> u32 option \<Rightarrow> int \<Rightarrow> BoxFrame list \<Rightarrow> nat \<Rightarrow> drawing \<Rightarrow> bool" where
  "drawn_st PF si df pf bs rs ds h v fo s bxs n items \<longleftrightarrow>
     pf = PF \<and> fonts_ok df pf si \<and> s = int n - 1 \<and> (\<exists>lg. page_st bs rs ds h v bxs lg \<and> ink pf ([], None) items = ((ids df, fo), lg))"

lemmas drawn_def = drawn_st_def

abbreviation drawn_in :: "(u32 \<rightharpoonup> FontResource) \<Rightarrow> DviBodyCompiler \<Rightarrow> BoxFrame list \<Rightarrow> nat \<Rightarrow> drawing \<Rightarrow> bool" where
  "drawn_in PF c \<equiv> drawn_st PF (font_definition_sites c) (dvi_fonts c) (page_fonts c) (dvi_bytes c) (right_stack c) (down_stack c) (dvi_h c) (dvi_v c)
     (dvi_f c) (cur_s c)"

lemma drawn_synch_h:
  assumes "drawn_in PF c bxs n items"
    and "\<And>es bs. drawn_in PF (c\<lparr>right_stack := es, dvi_bytes := bs, dvi_h := cur_h c\<rparr>) bxs n items
      \<Longrightarrow> Q (c\<lparr>right_stack := es, dvi_bytes := bs, dvi_h := cur_h c\<rparr>)"
  shows "owp p (synch_h c) Q"
proof -
  obtain lg where lg: "pst c bxs lg" "ink (page_fonts c) ([], None) items = ((ids (dvi_fonts c), dvi_f c), lg)" using assms(1) by (auto simp: drawn_def)
  show ?thesis by (rule synch_h_owp [OF lg(1)], rule assms(2)) (use assms(1) lg(2) in \<open>auto simp: drawn_def\<close>)
qed

lemma drawn_synch_v:
  assumes "drawn_in PF c bxs n items"
    and "\<And>es bs. drawn_in PF (c\<lparr>down_stack := es, dvi_bytes := bs, dvi_v := cur_v c\<rparr>) bxs n items
      \<Longrightarrow> Q (c\<lparr>down_stack := es, dvi_bytes := bs, dvi_v := cur_v c\<rparr>)"
  shows "owp p (synch_v c) Q"
proof -
  obtain lg where lg: "pst c bxs lg" "ink (page_fonts c) ([], None) items = ((ids (dvi_fonts c), dvi_f c), lg)" using assms(1) by (auto simp: drawn_def)
  show ?thesis by (rule synch_v_owp [OF lg(1)], rule assms(2)) (use assms(1) lg(2) in \<open>auto simp: drawn_def\<close>)
qed

abbreviation drawn :: "(u32 \<rightharpoonup> FontResource) \<Rightarrow> DviBodyCompiler \<Rightarrow> DirectFrame list \<Rightarrow> drawing \<Rightarrow> bool" where
  "drawn PF c frames \<equiv> drawn_in PF c (boxes frames) (length frames)"

text \<open>Writing an item where the reader is.\<close>

lemma drawn_write:
  assumes dr: "drawn_st PF si df pf bs rs ds h v fo s bxs n items" and "fonts_ok df' pf si'"
    and "ink1 pf (ids df, fo) it = ((ids df', fo'), adv, w)"
  shows "drawn_st PF si' df' pf (bs @ w) rs ds (h + adv) v fo' s bxs n (items @ [((h, v), it)])"
proof -
  from dr obtain lg where lg: "page_st bs rs ds h v bxs lg" "ink pf ([], None) items = ((ids df, fo), lg)" by (auto simp: drawn_def)
  have "page_st (bs @ w) rs ds (h + adv) v bxs (lg @ [(at h v, adv, w)])"
    using pst_write [of "compiler_new\<lparr>dvi_bytes := bs, right_stack := rs, down_stack := ds, dvi_h := h, dvi_v := v\<rparr>" bxs lg adv w]
      lg(1) by simp
  with ink_snoc [OF lg(2) assms(3)] dr assms(2) show ?thesis by (auto simp: drawn_def)
qed

section \<open>Fonts\<close>

lemma fnt_def_not_Panic [simp]: "fnt_def c f font \<noteq> Panic"
  by (auto simp: fnt_def_def outcome_simps Let_def limited_bytes_def split: prod.splits if_splits)

lemma fnt_def_fixed:
  assumes "fnt_def c (fr_font_id font) font = Ok c'"
  shows "c' = c\<lparr>dvi_bytes := dvi_bytes c @ definition_bytes font\<rparr>"
proof -
  obtain area name where sp: "split_area (fr_name font) = (area, name)" by fastforce
  then obtain a n where an: "limited_bytes ''font area'' area = Ok a" "limited_bytes ''font name'' name = Ok n" "n \<noteq> []"
    using assms by (auto simp: fnt_def_def outcome_simps split: if_splits)
  have "dvi_bytes compiler_new = []" by (simp add: compiler_new_def)
  with assms show ?thesis
    by (simp add: definition_bytes_def fnt_def_def sp an Let_def out_u8_def out_u16_def out_u24_def
        out_u32_def out_scaled_def out_i32_def out_raw_def) (auto simp: out_u8_def out_u16_def out_u24_def out_u32_def)
qed

lemma fonts_ok_defined:
  assumes "fonts_ok df pf si" and "pf f = Some font"
  shows "fr_font_id font = f" and "map_of df (font_key font) = Some d \<Longrightarrow> f \<in> set (ids df) \<and> df_number d = f"
    and "map_of df (font_key font) = None \<Longrightarrow> f \<notin> set (ids df)"
    and "fonts_ok (df @ [(font_key font, \<lparr>df_number = f, df_font = font\<rparr>)]) pf (Some sites)"
proof -
  show id: "fr_font_id font = f" using assms by (simp add: fonts_ok_def)
  have key: "fk_font_id (font_key font) = f" using id by (simp add: font_key_def)
  have mem: "df_number d' = fk_font_id k \<and> map_option font_key (pf (fk_font_id k)) = Some k" if "(k, d') \<in> set df" for k d'
    using assms(1) that unfolding fonts_ok_def by blast
  show "f \<in> set (ids df) \<and> df_number d = f" if "map_of df (font_key font) = Some d"
    using mem [OF map_of_SomeD [OF that]] imageI [OF map_of_SomeD [OF that], of "\<lambda>x. fk_font_id (fst x)"] by (simp add: key)
  show "f \<notin> set (ids df)" if "map_of df (font_key font) = None"
  proof
    assume "f \<in> set (ids df)"
    then obtain k d' where "(k, d') \<in> set df" "f = fk_font_id k" by auto
    with mem [OF this(1)] assms(2) that show False by (auto simp: map_of_eq_None_iff rev_image_eqI)
  qed
  show "fonts_ok (df @ [(font_key font, \<lparr>df_number = f, df_font = font\<rparr>)]) pf (Some sites)"
    using assms key by (simp add: fonts_ok_def)
qed

lemma change_font_owp:
  assumes ok: "fonts_ok (dvi_fonts c) (page_fonts c) (font_definition_sites c)"
  shows "owp p (change_font c f) (\<lambda>c'. \<exists>pre df si. c' = c\<lparr>dvi_bytes := dvi_bytes c @ pre, dvi_fonts := df,
      font_definition_sites := si, dvi_f := Some f\<rparr> \<and> fonts_ok df (page_fonts c) si
      \<and> (\<forall>ch w. ink1 (page_fonts c) (ids (dvi_fonts c), dvi_f c) (DrawChar f ch w) = ((ids df, Some f), w, pre @ char_bytes ch)))"
proof (cases "dvi_f c = Some f")
  case True
  with ok show ?thesis unfolding change_font_def
    by (simp, intro exI [of _ "[]"] conjI exI [of _ "dvi_fonts c"] exI [of _ "font_definition_sites c"]) simp_all
next
  case sel: False
  have select: "(let c = (if number \<le> 63 then out_u8 c (FNT_NUM_0 + ucast number)
                      else if number \<le> 0xFF then out_u8 (out_u8 c FNT1) (ucast number)
                      else if number \<le> 0xFFFF then out_u16 (out_u8 c FNT2) (unat number)
                      else if number \<le> 0xFFFFFF then out_u24 (out_u8 c FNT3) number
                      else out_u32 (out_u8 c FNT4) number) in Ok (c\<lparr>dvi_f := Some number\<rparr>))
    = (Ok (c\<lparr>dvi_bytes := dvi_bytes c @ font_bytes number, dvi_f := Some number\<rparr>) :: (DviError, DviBodyCompiler) outcome)" for c number
    by (simp add: font_bytes_def out_u8_def out_u16_def out_u24_def out_u32_def)
  show ?thesis
  proof (cases "page_fonts c f")
    case (Some font)
    note d = fonts_ok_defined [OF ok Some]
    show ?thesis
    proof (cases "map_of (dvi_fonts c) (font_key font)")
      case (Some d')
      with d(2) sel ok show ?thesis unfolding change_font_def select ensure_font_defined_def
        by (simp add: \<open>page_fonts c f = Some font\<close> Let_def)
          (intro exI [of _ "font_bytes f"] exI [of _ "dvi_fonts c"] exI [of _ "font_definition_sites c"] conjI, simp_all)
    next
      case None
      obtain sites where si: "font_definition_sites c = Some sites" using ok by (auto simp: fonts_ok_def)
      show ?thesis
      proof (cases "fnt_def c f font")
        case (Ok c')
        then have c': "c' = c\<lparr>dvi_bytes := dvi_bytes c @ definition_bytes font\<rparr>" using fnt_def_fixed d(1) by simp
        have "fk_font_id (font_key font) = f" using d(1) by (simp add: font_key_def)
        then show ?thesis using d None sel ok si Ok Some unfolding change_font_def select ensure_font_defined_def
          by (simp add: \<open>page_fonts c f = Some font\<close> Let_def c')
            (intro exI [of _ "dvi_fonts c @ [(font_key font, \<lparr>df_number = f, df_font = font\<rparr>)]"]
              exI [of _ "Some (sites @ [\<lparr>fs_font_id = f, fs_start = length (dvi_bytes c),
                fs_end = length (dvi_bytes c) + length (definition_bytes font)\<rparr>])"] conjI, simp_all)
      qed (use d(1) None sel Some in \<open>simp_all add: change_font_def select ensure_font_defined_def Let_def\<close>)
    qed
  qed (use sel in \<open>simp add: change_font_def\<close>)
qed

section \<open>Leaves\<close>

definition frame_of :: "enclosing \<Rightarrow> layout \<Rightarrow> nat \<Rightarrow> DirectContinuation \<Rightarrow> DirectFrame" where
  "frame_of en ly loc cont = \<lparr>dfr_fields = en_box en, dfr_save_loc = loc,
     dfr_axis = (if en_vert en then AxisV (en_x en) (en_y en) (ly_g ly) (ly_glue ly)
                 else AxisH (en_y en) (en_x en) (ly_g ly) (ly_glue ly)),
     dfr_cont = cont\<rparr>"

lemma frame_of_simps [simp]:
  "dfr_fields (frame_of en ly loc cont) = en_box en"
  "dfr_save_loc (frame_of en ly loc cont) = loc"
  "dfr_cont (frame_of en ly loc cont) = cont"
  "box_of (frame_of en ly loc cont) = \<lparr>save_loc = loc, save_h = cont_h cont, save_v = cont_v cont\<rparr>"
  "dfr_axis (frame_of en ly loc cont) = (if en_vert en then AxisV (en_x en) (en_y en) (ly_g ly) (ly_glue ly)
                 else AxisH (en_y en) (en_x en) (ly_g ly) (ly_glue ly))"
  by (simp_all add: frame_of_def box_of_def)

text \<open>A list of the top frame has been laid out up to \<open>ly\<close> and \<open>items\<close> have been drawn.\<close>

definition laid_out :: "(u32 \<rightharpoonup> FontResource) \<Rightarrow> enclosing \<Rightarrow> layout \<Rightarrow> nat \<Rightarrow> DirectContinuation \<Rightarrow> DirectFrame list \<Rightarrow> drawing \<Rightarrow> direct_state \<Rightarrow> bool" where
  "laid_out PF en ly loc cont frs items st \<longleftrightarrow>
     snd st = frame_of en ly loc cont # frs \<and> drawn PF (fst st) (snd st) items
     \<and> cur_h (fst st) = ly_h ly \<and> cur_v (fst st) = ly_v ly \<and> snap_reference (fst st) = ly_snap ly
     \<and> (if en_vert en then ly_h ly = en_x en else ly_v ly = en_y en)"

lemma add_scaled_owp [simp]: "owp p (add_scaled a b) Q \<longleftrightarrow> (in_i32 (a + b) \<longrightarrow> Q (a + b))"
  by (auto simp: add_scaled_def scaled_checked_add_def)

lemma sub_scaled_owp [simp]: "owp p (sub_scaled a b) Q \<longleftrightarrow> (in_i32 (a - b) \<longrightarrow> Q (a - b))"
  by (auto simp: sub_scaled_def scaled_checked_sub_def)

text \<open>Characters.\<close>

lemma set_char_owp: "owp p (set_char c ch) (\<lambda>c'. c' = c\<lparr>dvi_bytes := dvi_bytes c @ char_bytes ch\<rparr>)"
  by (simp add: set_char_def out_u8_def char_bytes_def)

lemma direct_char_owp:
  assumes "laid_out PF en ly loc cont frs items st"
  shows "owp p (direct_char st f ch w) (\<lambda>st'. 
     let (ly', d) = (if en_vert en then (ly, []) else (advance en w ly, [((ly_h ly, ly_v ly), DrawChar f ch w)]))
     in laid_out PF en ly' loc cont frs (items @ d) st')"
proof (cases "en_vert en")
  case True
  with assms show ?thesis by (cases st) (simp add: laid_out_def direct_char_def)
next
  case False
  obtain c where st: "st = (c, frame_of en ly loc cont # frs)" and dr: "drawn PF c (snd st) items"
    and pos: "cur_h c = ly_h ly" "cur_v c = ly_v ly" "snap_reference c = ly_snap ly" "ly_v ly = en_y en"
    using assms False by (cases st) (auto simp: laid_out_def)
  have "owp p (change_font c2 f) (\<lambda>c. owp p (set_char c ch) (\<lambda>c. in_i32 (cur_h c + w) \<longrightarrow>
      laid_out PF en (advance en w ly) loc cont frs (items @ [((ly_h ly, ly_v ly), DrawChar f ch w)])
        (c\<lparr>cur_h := cur_h c + w, dvi_h := cur_h c + w, cur_v := en_y en\<rparr>, snd st)))"
    if dr: "drawn PF c2 (snd st) items" and c2: "dvi_h c2 = ly_h ly" "cur_h c2 = ly_h ly" "dvi_v c2 = ly_v ly" "snap_reference c2 = ly_snap ly"
    for c2
  proof (rule owp_mono [OF change_font_owp])
    show "fonts_ok (dvi_fonts c2) (page_fonts c2) (font_definition_sites c2)" using dr by (auto simp: drawn_def)
    fix c3
    assume "\<exists>pre df si. c3 = c2\<lparr>dvi_bytes := dvi_bytes c2 @ pre, dvi_fonts := df, font_definition_sites := si, dvi_f := Some f\<rparr>
      \<and> fonts_ok df (page_fonts c2) si
      \<and> (\<forall>ch w. ink1 (page_fonts c2) (ids (dvi_fonts c2), dvi_f c2) (DrawChar f ch w) = ((ids df, Some f), w, pre @ char_bytes ch))"
    then obtain pre df si where
      c3: "c3 = c2\<lparr>dvi_bytes := dvi_bytes c2 @ pre, dvi_fonts := df, font_definition_sites := si, dvi_f := Some f\<rparr>"
      and ok: "fonts_ok df (page_fonts c2) si" and pre: "\<And>ch w. ink1 (page_fonts c2) (ids (dvi_fonts c2), dvi_f c2) (DrawChar f ch w)
        = ((ids df, Some f), w, pre @ char_bytes ch)" by blast
    have "drawn_st PF si df (page_fonts c2) (dvi_bytes c2 @ pre @ char_bytes ch) (right_stack c2) (down_stack c2) (dvi_h c2 + w) (dvi_v c2)
        (Some f) (cur_s c2) (boxes (snd st)) (length (snd st)) (items @ [((dvi_h c2, dvi_v c2), DrawChar f ch w)])"
      by (rule drawn_write [OF dr ok pre])
    then show "owp p (set_char c3 ch) (\<lambda>c. in_i32 (cur_h c + w) \<longrightarrow>
      laid_out PF en (advance en w ly) loc cont frs (items @ [((ly_h ly, ly_v ly), DrawChar f ch w)])
        (c\<lparr>cur_h := cur_h c + w, dvi_h := cur_h c + w, cur_v := en_y en\<rparr>, snd st))"
      by (intro owp_mono [OF set_char_owp]) (use False pos c2 in \<open>auto simp: c3 st laid_out_def advance_def frame_of_def\<close>)
  qed
  then show ?thesis unfolding direct_char_def st using False pos dr
    by (simp add: st) (rule drawn_synch_h, assumption, rule drawn_synch_v, assumption, simp)
qed

text \<open>Skips, kerns and glue.\<close>

lemma laid_outE:
  assumes "laid_out PF en ly loc cont frs items st"
  obtains c where "st = (c, frame_of en ly loc cont # frs)" and "drawn PF c (frame_of en ly loc cont # frs) items"
    and "cur_h c = ly_h ly" and "cur_v c = ly_v ly" and "snap_reference c = ly_snap ly"
    and "if en_vert en then ly_h ly = en_x en else ly_v ly = en_y en"
  using assms by (cases st) (auto simp: laid_out_def)

lemma frame_of_upd [simp]:
  "frame_of en (ly\<lparr>ly_h := x\<rparr>) loc cont = frame_of en ly loc cont" "frame_of en (ly\<lparr>ly_v := x\<rparr>) loc cont = frame_of en ly loc cont"
  "frame_of en (ly\<lparr>ly_snap := sn\<rparr>) loc cont = frame_of en ly loc cont"
  by (simp_all add: frame_of_def)

lemma direct_kern_owp:
  "laid_out PF en ly loc cont frs items st \<Longrightarrow> owp p (direct_kern st w) (laid_out PF en (advance en w ly) loc cont frs items)"
  by (erule laid_outE) (auto simp: direct_kern_def laid_out_def advance_def)

lemma direct_math_owp:
  "laid_out PF en ly loc cont frs items st
   \<Longrightarrow> owp p (direct_math st w) (laid_out PF en (if en_vert en then ly else advance en w ly) loc cont frs items)"
  by (erule laid_outE) (auto simp: direct_math_def laid_out_def advance_def)

lemma frame_glue_owp:
  "Q (fst (set_layout_glue (en_box en) spec ly), frame_of en (snd (set_layout_glue (en_box en) spec ly)) loc cont)
   \<Longrightarrow> owp p (frame_glue (frame_of en ly loc cont) spec) Q"
  by (auto simp: frame_glue_def adjusted_glue_width_def set_layout_glue_def glue_matches_def Let_def frame_of_def)

lemma set_layout_glue_pos [simp]:
  "ly_h (snd (set_layout_glue bx g ly)) = ly_h ly" "ly_v (snd (set_layout_glue bx g ly)) = ly_v ly"
  "ly_snap (snd (set_layout_glue bx g ly)) = ly_snap ly"
  by (simp_all add: set_layout_glue_def Let_def)

lemma direct_glue_owp:
  assumes "laid_out PF en ly loc cont frs items st"
  shows "owp p (direct_glue st spec) (\<lambda>st'. let (w, ly') = set_layout_glue (en_box en) spec ly in
    laid_out PF en (advance en w ly') loc cont frs items st')"
  using assms
proof (rule laid_outE)
  fix c assume "st = (c, frame_of en ly loc cont # frs)" "drawn PF c (frame_of en ly loc cont # frs) items"
    "cur_h c = ly_h ly" "cur_v c = ly_v ly" "snap_reference c = ly_snap ly"
    "if en_vert en then ly_h ly = en_x en else ly_v ly = en_y en"
  then show ?thesis
    by (simp add: direct_glue_def) (rule frame_glue_owp, auto simp: laid_out_def advance_def case_prod_unfold)
qed

text \<open>Rules.\<close>

lemma out_rule: "out_scaled (out_scaled (out_u8 c b) x) y = c\<lparr>dvi_bytes := dvi_bytes c @ b # be_bytes 4 x @ be_bytes 4 y\<rparr>"
  by (simp add: out_scaled_def out_i32_def out_u8_def)

lemma rule_in_hlist_owp:
  assumes "laid_out PF en ly loc cont frs items (c, frames)" and "\<not> en_vert en"
  shows "owp p (output_rule_in_hlist c ht dp wd (en_y en)) (\<lambda>c. in_i32 (cur_h c + wd) \<longrightarrow>
    (let (ly', d) = draw_rule en ly ht dp wd in laid_out PF en ly' loc cont frs (items @ d) (c\<lparr>cur_h := cur_h c + wd, cur_v := en_y en\<rparr>, frames)))"
  using assms(1)
proof (rule laid_outE)
  fix c'
  let ?fr = "frame_of en ly loc cont # frs"
  assume st: "(c, frames) = (c', ?fr)" and dr: "drawn PF c' ?fr items" and pos: "cur_h c' = ly_h ly" "cur_v c' = ly_v ly"
    "snap_reference c' = ly_snap ly" "if en_vert en then ly_h ly = en_x en else ly_v ly = en_y en"
  let ?item = "((ly_h ly, en_y en + dp), DrawSetRule (ht + dp) wd)"
  have wrote: "laid_out PF en (advance en wd ly) loc cont frs (items @ [?item])
      (c2\<lparr>dvi_bytes := dvi_bytes c2 @ SET_RULE # be_bytes 4 (ht + dp) @ be_bytes 4 wd, dvi_h := dvi_h c2 + wd,
          cur_h := cur_h c2 + wd, cur_v := en_y en\<rparr>, ?fr)"
    if dr: "drawn PF c2 ?fr items" and c2: "dvi_h c2 = ly_h ly" "cur_h c2 = ly_h ly" "dvi_v c2 = en_y en + dp" "snap_reference c2 = ly_snap ly"
    for c2
  proof -
    have "drawn_st PF (font_definition_sites c2) (dvi_fonts c2) (page_fonts c2) (dvi_bytes c2 @ SET_RULE # be_bytes 4 (ht + dp) @ be_bytes 4 wd) (right_stack c2)
        (down_stack c2) (dvi_h c2 + wd) (dvi_v c2) (dvi_f c2) (cur_s c2) (boxes ?fr) (length ?fr)
        (items @ [((dvi_h c2, dvi_v c2), DrawSetRule (ht + dp) wd)])"
      by (rule drawn_write [OF dr]) (use dr in \<open>auto simp: drawn_def\<close>)
    with c2 pos assms(2) show ?thesis by (simp add: laid_out_def advance_def)
  qed
  show ?thesis
  proof (cases "ht + dp > 0 \<and> wd > 0")
    case True
    have "owp p (synch_h c') (\<lambda>c. in_i32 (en_y en + dp) \<longrightarrow> owp p (synch_v (c\<lparr>cur_v := en_y en + dp\<rparr>))
        (\<lambda>c. in_i32 (dvi_h c + wd) \<longrightarrow> laid_out PF en (advance en wd ly) loc cont frs (items @ [?item])
      (c\<lparr>dvi_bytes := dvi_bytes c @ SET_RULE # be_bytes 4 (ht + dp) @ be_bytes 4 wd, dvi_h := dvi_h c + wd,
          cur_h := cur_h c + wd, cur_v := en_y en\<rparr>, ?fr)))"
      using dr
      by - (rule drawn_synch_h, assumption, rule impI, rule drawn_synch_v, simp, rule impI, rule wrote; simp add: pos)
    with True assms(2) st pos show ?thesis
      by (auto simp: output_rule_in_hlist_def draw_rule_def Let_def out_rule elim!: owp_mono)
  next
    case False
    with assms(2) st dr pos show ?thesis
      by (auto simp: output_rule_in_hlist_def draw_rule_def Let_def laid_out_def advance_def)
  qed
qed

lemma rule_in_vlist_owp:
  assumes "laid_out PF en ly loc cont frs items (c, frames)" and "en_vert en" and "ht + dp = ext"
  shows "owp p (output_rule_in_vlist c ext wd)
    (\<lambda>c. let (ly', d) = draw_rule en ly ht dp wd in laid_out PF en ly' loc cont frs (items @ d) (c, frames))"
  using assms(1)
proof (rule laid_outE)
  fix c'
  let ?fr = "frame_of en ly loc cont # frs"
  assume st: "(c, frames) = (c', ?fr)" and dr: "drawn PF c' ?fr items" and pos: "cur_h c' = ly_h ly" "cur_v c' = ly_v ly"
    "snap_reference c' = ly_snap ly" "if en_vert en then ly_h ly = en_x en else ly_v ly = en_y en"
  let ?item = "((ly_h ly, ly_v ly + ext), DrawPutRule ext wd)"
  have wrote: "laid_out PF en (advance en ext ly) loc cont frs (items @ [?item])
      (c2\<lparr>dvi_bytes := dvi_bytes c2 @ PUT_RULE # be_bytes 4 ext @ be_bytes 4 wd\<rparr>, ?fr)"
    if dr: "drawn PF c2 ?fr items" and c2: "dvi_h c2 = ly_h ly" "cur_h c2 = ly_h ly" "dvi_v c2 = ly_v ly + ext"
      "cur_v c2 = ly_v ly + ext" "snap_reference c2 = ly_snap ly" for c2
  proof -
    have "drawn_st PF (font_definition_sites c2) (dvi_fonts c2) (page_fonts c2) (dvi_bytes c2 @ PUT_RULE # be_bytes 4 ext @ be_bytes 4 wd) (right_stack c2)
        (down_stack c2) (dvi_h c2 + 0) (dvi_v c2) (dvi_f c2) (cur_s c2) (boxes ?fr) (length ?fr)
        (items @ [((dvi_h c2, dvi_v c2), DrawPutRule ext wd)])"
      by (rule drawn_write [OF dr]) (use dr in \<open>auto simp: drawn_def\<close>)
    with c2 pos assms(2) show ?thesis by (simp add: laid_out_def advance_def)
  qed
  show ?thesis
  proof (cases "ext > 0 \<and> wd > 0")
    case True
    have "owp p (synch_h (c'\<lparr>cur_v := ly_v ly + ext\<rparr>)) (\<lambda>c. owp p (synch_v c)
        (\<lambda>c. laid_out PF en (advance en ext ly) loc cont frs (items @ [?item])
      (c\<lparr>dvi_bytes := dvi_bytes c @ PUT_RULE # be_bytes 4 ext @ be_bytes 4 wd\<rparr>, ?fr)))"
      using dr by - (rule drawn_synch_h, simp, rule drawn_synch_v, simp, rule wrote; simp add: pos)
    with True assms(2,3) st pos show ?thesis
      by (auto simp: output_rule_in_vlist_def draw_rule_def Let_def out_rule advance_def)
  next
    case False
    with assms(2,3) st dr pos show ?thesis
      by (auto simp: output_rule_in_vlist_def draw_rule_def Let_def laid_out_def advance_def)
  qed
qed

lemma direct_rule_owp:
  assumes "laid_out PF en ly loc cont frs items st"
  shows "owp p (direct_rule st w h d) (\<lambda>st'. let (ly', dr) = draw_leaf effects en ly (PnRule w h d) following in
    laid_out PF en ly' loc cont frs (items @ dr) st')"
proof -
  obtain c where st: "st = (c, frame_of en ly loc cont # frs)" using assms by (rule laid_outE)
  show ?thesis
  proof (cases "en_vert en")
    case True
    then show ?thesis using rule_in_vlist_owp [OF assms [unfolded st] True refl]
      by (auto simp: st direct_rule_def draw_leaf_def)
  next
    case False
    then show ?thesis using rule_in_hlist_owp [OF assms [unfolded st] False]
      by (auto simp: st direct_rule_def draw_leaf_def Let_def)
  qed
qed

text \<open>Specials and snapping.\<close>

lemma special_out_owp:
  assumes "laid_out PF en ly loc cont frs items (c, frames)"
  shows "owp p (special_out c payload) (\<lambda>c. laid_out PF en ly loc cont frs (items @ [((ly_h ly, ly_v ly), DrawSpecial payload)]) (c, frames))"
  using assms
proof (rule laid_outE)
  fix c'
  let ?fr = "frame_of en ly loc cont # frs"
  assume st: "(c, frames) = (c', ?fr)" and dr: "drawn PF c' ?fr items" and pos: "cur_h c' = ly_h ly" "cur_v c' = ly_v ly"
    "snap_reference c' = ly_snap ly" "if en_vert en then ly_h ly = en_x en else ly_v ly = en_y en"
  let ?Q = "\<lambda>c. laid_out PF en ly loc cont frs (items @ [((ly_h ly, ly_v ly), DrawSpecial payload)])
      (c\<lparr>dvi_bytes := dvi_bytes c @ special_bytes payload\<rparr>, ?fr)"
  have wrote: "?Q c2"
    if dr: "drawn PF c2 ?fr items" and c2: "dvi_h c2 = ly_h ly" "cur_h c2 = ly_h ly" "dvi_v c2 = ly_v ly"
      "cur_v c2 = ly_v ly" "snap_reference c2 = ly_snap ly" for c2
  proof -
    have "drawn_st PF (font_definition_sites c2) (dvi_fonts c2) (page_fonts c2) (dvi_bytes c2 @ special_bytes payload) (right_stack c2)
        (down_stack c2) (dvi_h c2 + 0) (dvi_v c2) (dvi_f c2) (cur_s c2) (boxes ?fr) (length ?fr)
        (items @ [((dvi_h c2, dvi_v c2), DrawSpecial payload)])"
      by (rule drawn_write [OF dr]) (use dr in \<open>auto simp: drawn_def\<close>)
    with c2 pos show ?thesis by (simp add: laid_out_def)
  qed
  have "owp p (synch_h c') (\<lambda>c. owp p (synch_v c) ?Q)"
    using dr by - (rule drawn_synch_h, assumption, rule drawn_synch_v, assumption, rule wrote; simp add: pos)
  then show ?thesis using st
    by (auto simp: special_out_def special_bytes_def out_raw_def out_u8_def out_i32_def elim!: owp_mono)
qed

lemma out_what_owp:
  assumes "laid_out PF en ly loc cont frs items (c, frames)"
  shows "owp p (out_what c effects i) (\<lambda>c. laid_out PF en ly loc cont frs (items @ draw_special effects i ly) (c, frames))"
  using assms special_out_owp [OF assms]
  by (cases "effects ! unat i") (simp_all add: out_what_def draw_special_def)

lemma direct_whatsit_owp:
  assumes "laid_out PF en ly loc cont frs items st" and "\<not> en_vert en"
  shows "owp p (direct_whatsit st effects i) (laid_out PF en ly loc cont frs (items @ draw_special effects i ly))"
proof -
  obtain c where st: "st = (c, frame_of en ly loc cont # frs)" using assms(1) by (rule laid_outE)
  then show ?thesis using assms(2)
    by (simp add: direct_whatsit_def) (rule owp_mono [OF out_what_owp [OF assms(1) [unfolded st]]], auto simp: laid_out_def)
qed

text \<open>The compensation ratios that do not overflow.\<close>

definition ratios_ok :: "PageEffect list \<Rightarrow> bool" where
  "ratios_ok effects \<longleftrightarrow> (\<forall>e \<in> set effects. case e of PePdfSnapYComp ratio \<Rightarrow> ratio \<le> 1000 | _ \<Rightarrow> True)"

lemma geometry_add_owp [simp]: "owp p (geometry_add a b) Q \<longleftrightarrow> (in_i32 (a + b) \<longrightarrow> Q (a + b))"
  by (auto simp: geometry_add_def scaled_checked_add_def)

lemma adjusted_glue_width_owp:
  "(\<And>w cg g. Q (w, cg, g)) \<Longrightarrow> owp p (adjusted_glue_width s sg od r st) Q"
  by (auto simp: adjusted_glue_width_def split: prod.splits)

lemma correction_in_i32: "correction cur ref spec = Some d \<Longrightarrow> in_i32 d"
  by (auto simp: correction_def Let_def checked32_def split: if_splits)

lemma predict_snap_correction_owp:
  "owp False (predict_snap_correction ns effects b cur ref g glue) (\<lambda>d. \<forall>x. d = Some x \<longrightarrow> in_i32 x)"
proof (induction ns arbitrary: cur ref g glue)
  case (Cons n ns)
  obtain x y where "ref = (x, y)" by fastforce
  with Cons show ?case
    by (cases n) (auto simp: Let_def correction_in_i32 split: PageEffect.splits intro!: adjusted_glue_width_owp)
qed simp

lemma compensate_owp:
  assumes "in_i32 d"
  shows "owp (1000 < r) (compensate d r) (\<lambda>x. x = d * int r sdiv 1000)"
proof (cases "1000 < r")
  case False
  have between: "min d 0 \<le> d * int r sdiv 1000 \<and> d * int r sdiv 1000 \<le> max d 0"
  proof (cases "0 \<le> d")
    case True
    have "d * int r div 1000 \<le> d * 1000 div 1000" using True False by (intro zdiv_mono1 mult_left_mono) auto
    moreover have "d * int r sdiv 1000 = d * int r div 1000" using True by (simp add: sdiv_nonneg)
    moreover have "0 \<le> d * int r div 1000" using True by (simp add: pos_imp_zdiv_nonneg_iff)
    ultimately show ?thesis using True by simp
  next
    case neg: False
    have "(- d) * int r div 1000 \<le> (- d) * 1000 div 1000" using neg False by (intro zdiv_mono1 mult_left_mono) auto
    moreover have "d * int r sdiv 1000 = - ((- d) * int r div 1000)"
      using neg by (cases "r = 0") (simp_all add: sdiv_neg mult_neg_pos)
    moreover have "0 \<le> (- d) * int r div 1000" using neg by (simp add: pos_imp_zdiv_nonneg_iff mult_nonpos_nonneg)
    ultimately show ?thesis using neg by simp
  qed
  with assms have "in_i32 (d * int r sdiv 1000)" by (auto simp: in_i32_iff min_def max_def split: if_splits)
  then show ?thesis by (simp add: compensate_def checked32_def)
qed (simp add: compensate_def checked32_def)

lemma out_what_v_owp:
  assumes lo: "laid_out PF en ly loc cont frs items (c, frames)" and v: "en_vert en"
  shows "owp (\<not> ratios_ok effects) (out_what_v c effects i following (en_box en) (ly_g ly) (ly_glue ly))
    (\<lambda>c. laid_out PF en (snap_layout effects (effects ! unat i) following en ly) loc cont frs (items @ draw_special effects i ly) (c, frames))"
proof (cases "unat i < length effects")
  case False
  then show ?thesis by (simp add: out_what_v_def)
next
  case True
  have pos: "cur_h c = ly_h ly" "cur_v c = ly_v ly" "snap_reference c = ly_snap ly" using lo by (auto simp: laid_out_def)
  have moved: "laid_out PF en (advance en d ly) loc cont frs items (c\<lparr>cur_v := ly_v ly + d\<rparr>, frames)" for d
    using lo v by (auto simp: laid_out_def advance_def)
  show ?thesis
  proof (cases "effects ! unat i")
    case (PePdfSnapYComp ratio)
    have mem: "ratios_ok effects \<Longrightarrow> unat ratio \<le> 1000"
      using True PePdfSnapYComp nth_mem [OF True] by (auto simp: ratios_ok_def word_le_nat_alt split: PageEffect.splits)
    let ?pred = "predict_snap_correction following effects (en_box en) (ly_v ly) (ly_snap ly) (ly_g ly) (ly_glue ly)"
    show ?thesis
    proof (cases ?pred)
      case (Ok dd)
      show ?thesis
      proof (cases dd)
        case None
        then show ?thesis using True PePdfSnapYComp Ok lo pos by (simp add: out_what_v_def snap_layout_def draw_special_def)
      next
        case (Some d)
        have "in_i32 d" using predict_snap_correction_owp [of following effects "en_box en" "ly_v ly" "ly_snap ly" "ly_g ly" "ly_glue ly"] Ok Some
          by simp
        from compensate_owp [OF this, of "unat ratio"] show ?thesis
          using True PePdfSnapYComp Ok Some pos moved mem
          by (cases "compensate d (unat ratio)") (auto simp: out_what_v_def snap_layout_def draw_special_def)
      qed
    next
      case Panic
      then show ?thesis using predict_snap_correction_owp [of following effects "en_box en" "ly_v ly" "ly_snap ly" "ly_g ly" "ly_glue ly"] by simp
    qed (use True PePdfSnapYComp pos in \<open>simp add: out_what_v_def\<close>)
  next
    case (PePdfSnapY spec)
    then show ?thesis using True lo moved pos
      by (cases "correction (ly_v ly) (snd (ly_snap ly)) spec") (auto simp: out_what_v_def snap_layout_def draw_special_def)
  next
    case PePdfSnapRefPoint
    then show ?thesis using True lo by (auto simp: out_what_v_def snap_layout_def draw_special_def laid_out_def)
  qed (use True out_what_owp [OF lo] in \<open>simp_all add: out_what_v_def snap_layout_def\<close>)
qed

section \<open>One leaf\<close>

fun is_leaf :: "PageNode \<Rightarrow> bool" where
  "is_leaf (PnHList b) = False"
| "is_leaf (PnVList b) = False"
| "is_leaf (PnGlue g k (Some l)) = False"
| "is_leaf n = True"

lemma draw_node_leaf: "is_leaf n \<Longrightarrow> draw_node effects en ly n following = draw_leaf effects en ly n following"
  by (cases n rule: is_leaf.cases) auto

lemma leaf_action_owp:
  assumes lo: "laid_out PF en ly loc cont frs items st" and leaf: "is_leaf n"
  shows "owp (\<not> ratios_ok effects) (node_action effects st n following pending) (\<lambda>(st', pending').
    pending' = pending \<and> (let (ly', d) = draw_node effects en ly n following in laid_out PF en ly' loc cont frs (items @ d) st'))"
proof -
  obtain c where st: "st = (c, frame_of en ly loc cont # frs)" using lo by (rule laid_outE)
  show ?thesis
  proof (cases n)
    case (PnWhatsitAnchor i)
    then show ?thesis
    proof (cases "en_vert en")
      case True
      then show ?thesis using PnWhatsitAnchor out_what_v_owp [OF lo [unfolded st] True, of effects i following]
        by (auto simp: node_action_def st draw_leaf_def elim!: owp_mono)
    next
      case False
      then show ?thesis using PnWhatsitAnchor direct_whatsit_owp [OF lo False, of _ effects i]
        by (auto simp: node_action_def direct_owned_leaf_def draw_leaf_def st elim!: owp_mono)
    qed
  next
    case (PnGlue g k l)
    then show ?thesis using leaf direct_glue_owp [OF lo, of _ g]
      by (cases l) (auto simp: node_action_def direct_owned_leaf_def draw_leaf_def Let_def case_prod_unfold elim!: owp_mono)
  next
    case (PnRule w h d)
    then show ?thesis using direct_rule_owp [OF lo, of _ w h d effects following]
      by (auto simp: node_action_def direct_owned_leaf_def Let_def case_prod_unfold elim!: owp_mono)
  next
    case (PnChar f ch w)
    then show ?thesis using direct_char_owp [OF lo, of _ f ch w]
      by (auto simp: node_action_def direct_owned_leaf_def draw_leaf_def Let_def case_prod_unfold elim!: owp_mono)
  next
    case (PnLig f ch src w)
    then show ?thesis using direct_char_owp [OF lo, of _ f ch w]
      by (auto simp: node_action_def direct_owned_leaf_def draw_leaf_def Let_def case_prod_unfold elim!: owp_mono)
  qed (use leaf lo direct_kern_owp [OF lo] direct_math_owp [OF lo] in
    \<open>auto simp: node_action_def direct_owned_leaf_def draw_leaf_def elim!: owp_mono\<close>)
qed

section \<open>Boxes\<close>

lemma drawn_enter:
  assumes "drawn_st PF si df pf bs rs ds h v fo s bxs n items"
  shows "drawn_st PF si df pf (bs @ [OP_PUSH]) rs ds h v fo (s + 1) (\<lparr>save_loc = Suc (length bs), save_h = h, save_v = v\<rparr> # bxs) (Suc n) items"
  using assms pst_enter [of "compiler_new\<lparr>dvi_bytes := bs, right_stack := rs, down_stack := ds, dvi_h := h, dvi_v := v\<rparr>" bxs]
  by (auto simp: drawn_def)

lemma drawn_leave:
  assumes "drawn_st PF si df pf bs rs ds h v fo s (f # bxs) (Suc n) items"
  shows "drawn_st PF si df pf (bs @ [OP_POP]) (prune_movements rs (save_loc f)) (prune_movements ds (save_loc f)) (save_h f) (save_v f)
    fo (s - 1) bxs n items"
  using assms pst_leave [of "compiler_new\<lparr>dvi_bytes := bs, right_stack := rs, down_stack := ds, dvi_h := h, dvi_v := v\<rparr>" f bxs]
  by (auto simp: drawn_def compiler_prune_def)

lemma without_children_simps [simp]:
  "pb_width (without_children b) = pb_width b" "pb_height (without_children b) = pb_height b"
  "pb_depth (without_children b) = pb_depth b" "pb_shift (without_children b) = pb_shift b"
  by (cases b; simp)+

lemma enter_owp:
  assumes dr: "drawn PF c frames items" and cont: "frames \<noteq> [] \<Longrightarrow> cont_h cont = dvi_h c \<and> cont_v cont = dvi_v c"
  shows "owp p (enter_direct_frame (c, frames) bx vert cont) (\<lambda>st. \<exists>loc.
    case box_start vert (without_children bx) (cur_h c, cur_v c) (snap_reference c) of (en, ly) \<Rightarrow>
      laid_out PF en ly loc cont frames items st)"
proof (cases "frames = []")
  case True
  have "cur_s c = -1" using dr True by (simp add: drawn_def)
  moreover have "drawn_st PF (font_definition_sites c) (dvi_fonts c) (page_fonts c) (dvi_bytes c) (right_stack c) (down_stack c) (dvi_h c) (dvi_v c) (dvi_f c) 0 [] 1 items"
    using dr True by (auto simp: drawn_def boxes_def)
  ultimately show ?thesis using True
    by (auto simp: enter_direct_frame_def enter_box_def Let_def box_start_def laid_out_def frame_of_def)
next
  case False
  have s: "cur_s c + 1 = int (length frames)" "0 < length frames" using dr False by (simp_all add: drawn_def)
  have d: "drawn_st PF (font_definition_sites c) (dvi_fonts c) (page_fonts c) (dvi_bytes c @ [OP_PUSH]) (right_stack c) (down_stack c) (dvi_h c) (dvi_v c)
      (dvi_f c) (int (length frames)) (\<lparr>save_loc = Suc (length (dvi_bytes c)), save_h = cont_h cont, save_v = cont_v cont\<rparr> # boxes frames)
      (Suc (length frames)) items"
    using drawn_enter [OF dr] cont [OF False] s by simp
  define loc where "loc = Suc (length (dvi_bytes c))"
  show ?thesis using False s d unfolding loc_def [symmetric]
    by (auto simp: enter_direct_frame_def enter_box_def Let_def box_start_def laid_out_def frame_of_def out_u8_def box_of_def
      simp flip: loc_def intro!: exI [of _ loc])
qed

text \<open>Where the compiler is after leaving a frame.\<close>

fun resumed :: "DirectContinuation \<Rightarrow> DviBodyCompiler \<Rightarrow> bool" where
  "resumed ContRoot c = False"
| "resumed (ContH h v edge base w) c = (dvi_h c = h \<and> dvi_v c = v \<and> cur_h c = edge + w \<and> cur_v c = base)"
| "resumed (ContV h v left d) c = (dvi_h c = h \<and> dvi_v c = v \<and> cur_h c = left \<and> cur_v c = v + d)"
| "resumed (ContHLeader h v base w x) c = (dvi_h c = h \<and> dvi_v c = v \<and> cur_h c = h + w + x \<and> cur_v c = base)"
| "resumed (ContVLeader h v left ht d x) c = (dvi_h c = h \<and> dvi_v c = v \<and> cur_h c = left \<and> cur_v c = v + d + x)"

lemma end_box_owp:
  assumes "laid_out PF en ly loc cont frs items st" and "frs \<noteq> []" and "cont \<noteq> ContRoot"
  shows "owp p (direct_end_box st) (\<lambda>(c, frames). frames = frs \<and> drawn PF c frs items \<and> snap_reference c = ly_snap ly \<and> resumed cont c)"
proof -
  obtain c where st: "st = (c, frame_of en ly loc cont # frs)" and dr: "drawn PF c (frame_of en ly loc cont # frs) items"
    and snap: "snap_reference c = ly_snap ly" using assms(1) by (rule laid_outE)
  have s: "cur_s c = int (length frs)" "0 < length frs" using dr assms(2) by (simp_all add: drawn_def)
  have d: "drawn_st PF (font_definition_sites c) (dvi_fonts c) (page_fonts c) (dvi_bytes c @ [OP_POP]) (prune_movements (right_stack c) loc)
      (prune_movements (down_stack c) loc) (cont_h cont) (cont_v cont) (dvi_f c) (int (length frs) - 1) (boxes frs) (length frs) items"
    using drawn_leave [of _ _ _ _ _ _ _ _ _ _ _ "box_of (frame_of en ly loc cont)"] dr assms(2) s by auto
  with s snap assms(3) show ?thesis
    by (cases cont) (auto simp: direct_end_box_def st Let_def compiler_prune_def dvi_pop_def out_u8_def)
qed

section \<open>The loop\<close>

text \<open>The loop works off \<open>pending\<close> down to \<open>rest\<close> and reaches a state that satisfies \<open>Q\<close>, or it ends with an error, or
  with a panic that only an excessive compensation ratio can cause.\<close>

definition settles :: "PageEffect list \<Rightarrow> direct_state \<Rightarrow> Action list \<Rightarrow> Action list \<Rightarrow> (direct_state \<Rightarrow> bool) \<Rightarrow> bool" where
  "settles effects st pending rest Q \<longleftrightarrow>
     (\<exists>e. owned_loop effects st pending = Some (Err e))
     \<or> (\<not> ratios_ok effects \<and> owned_loop effects st pending = Some Panic)
     \<or> (\<exists>st'. owned_loop effects st pending = owned_loop effects st' rest \<and> Q st')"

lemma settles_refl: "Q st \<Longrightarrow> settles effects st rest rest Q"
  unfolding settles_def by blast

lemma settles_step:
  assumes "owp (\<not> ratios_ok effects) (owned_action effects st a pending) (\<lambda>(st1, p1). settles effects st1 p1 rest Q)"
  shows "settles effects st (a # pending) rest Q"
proof (cases "owned_action effects st a pending")
  case (Ok x)
  then show ?thesis using assms by (cases x) (simp add: settles_def owned_loop.simps [of effects st "a # pending"])
qed (use assms in \<open>simp_all add: settles_def owned_loop.simps [of effects st "a # pending"]\<close>)

lemma settles_trans:
  assumes "settles effects st pending mid Q" and "\<And>st'. Q st' \<Longrightarrow> settles effects st' mid rest Q'"
  shows "settles effects st pending rest Q'"
  using assms by (fastforce simp: settles_def)

definition list_draws :: "PageEffect list \<Rightarrow> PageNode list \<Rightarrow> bool" where
  "list_draws effects ns \<longleftrightarrow> (\<forall>PF en ly loc cont frs items st rest. laid_out PF en ly loc cont frs items st \<longrightarrow>
     settles effects st (schedule ns @ rest) rest (\<lambda>st'. case draw_nodes effects en ly ns of (ly', d) \<Rightarrow>
       laid_out PF en ly' loc cont frs (items @ d) st'))"

text \<open>Enter a box, draw its list and leave it.\<close>

lemma framed_owp:
  assumes "list_draws effects (pb_children bx)" and dr: "drawn PF c frames items" and ne: "frames \<noteq> []"
    and cont: "cont \<noteq> ContRoot" "cont_h cont = dvi_h c" "cont_v cont = dvi_v c"
  shows "owp (\<not> ratios_ok effects) (enter_direct_frame (c, frames) bx vert cont) (\<lambda>st.
    settles effects st (schedule (pb_children bx) @ ActEndBox # rest) rest (\<lambda>(c', frames').
      case draw_box effects vert bx (cur_h c, cur_v c) (snap_reference c) of (snap, d) \<Rightarrow>
        frames' = frames \<and> drawn PF c' frames (items @ d) \<and> snap_reference c' = snap \<and> resumed cont c'))"
proof (rule owp_mono [OF enter_owp [OF dr]])
  show "cont_h cont = dvi_h c \<and> cont_v cont = dvi_v c" using cont by simp
  fix st
  obtain en ly where start: "box_start vert (without_children bx) (cur_h c, cur_v c) (snap_reference c) = (en, ly)" by fastforce
  obtain ly' d where dn: "draw_nodes effects en ly (pb_children bx) = (ly', d)" by fastforce
  have db: "draw_box effects vert bx (cur_h c, cur_v c) (snap_reference c) = (ly_snap ly', d)"
    using start dn by (cases bx) simp
  assume "\<exists>loc. case box_start vert (without_children bx) (cur_h c, cur_v c) (snap_reference c) of (en, ly) \<Rightarrow>
      laid_out PF en ly loc cont frames items st"
  then obtain loc where "laid_out PF en ly loc cont frames items st" using start by auto
  then have "settles effects st (schedule (pb_children bx) @ ActEndBox # rest) (ActEndBox # rest)
      (laid_out PF en ly' loc cont frames (items @ d))"
    using assms(1) dn unfolding list_draws_def by fastforce
  then show "settles effects st (schedule (pb_children bx) @ ActEndBox # rest) rest (\<lambda>(c', frames').
      case draw_box effects vert bx (cur_h c, cur_v c) (snap_reference c) of (snap, d) \<Rightarrow>
        frames' = frames \<and> drawn PF c' frames (items @ d) \<and> snap_reference c' = snap \<and> resumed cont c')"
  proof (rule settles_trans)
    fix st' assume "laid_out PF en ly' loc cont frames (items @ d) st'"
    from end_box_owp [OF this ne cont(1), where p = "\<not> ratios_ok effects"]
    show "settles effects st' (ActEndBox # rest) rest (\<lambda>(c', frames').
      case draw_box effects vert bx (cur_h c, cur_v c) (snap_reference c) of (snap, d) \<Rightarrow>
        frames' = frames \<and> drawn PF c' frames (items @ d) \<and> snap_reference c' = snap \<and> resumed cont c')"
      by - (rule settles_step, simp add: owned_action_def db, erule owp_mono, rule settles_refl, auto)
  qed
qed

lemma box_action_owp:
  assumes lo: "laid_out PF en ly loc cont frs items st" and "list_draws effects (pb_children bx)"
  shows "owp (\<not> ratios_ok effects) (box_node_action st bx vert rest) (\<lambda>(st1, p1). settles effects st1 p1 rest (\<lambda>st'.
    case draw_box effects vert bx (box_origin en ly bx) (ly_snap ly) of (snap, d) \<Rightarrow>
      laid_out PF en (advance en (box_size en bx) (ly\<lparr>ly_snap := snap\<rparr>)) loc cont frs (items @ d) st'))"
proof -
  let ?fr = "frame_of en ly loc cont # frs"
  obtain c where st: "st = (c, ?fr)" and dr: "drawn PF c ?fr items"
    and pos: "cur_h c = ly_h ly" "cur_v c = ly_v ly" "snap_reference c = ly_snap ly"
      "if en_vert en then ly_h ly = en_x en else ly_v ly = en_y en"
    using lo by (rule laid_outE)
  show ?thesis
  proof (cases "pb_children bx = []")
    case True
    then have db: "draw_box effects vert bx x s = (s, [])" for x s by (cases bx) (simp add: box_start_def Let_def)
    show ?thesis using True dr pos
      by (auto simp: box_node_action_def direct_begin_box_def st db laid_out_def advance_def box_size_def intro!: settles_refl)
  next
    case False
    show ?thesis
    proof (cases "en_vert en")
      case True
      have "owp (\<not> ratios_ok effects) (synch_v (c\<lparr>cur_v := ly_v ly + pb_height bx\<rparr>)) (\<lambda>c. in_i32 (en_x en + pb_shift bx) \<longrightarrow>
        owp (\<not> ratios_ok effects) (enter_direct_frame (c\<lparr>cur_h := en_x en + pb_shift bx\<rparr>, ?fr) bx vert
            (ContV (dvi_h c) (dvi_v c) (en_x en) (pb_depth bx))) (\<lambda>st1.
        settles effects st1 (schedule (pb_children bx) @ ActEndBox # rest) rest (\<lambda>st'.
          case draw_box effects vert bx (box_origin en ly bx) (ly_snap ly) of (snap, d) \<Rightarrow>
            laid_out PF en (advance en (box_size en bx) (ly\<lparr>ly_snap := snap\<rparr>)) loc cont frs (items @ d) st')))"
        apply (rule drawn_synch_v [where bxs = "boxes ?fr" and n = "length ?fr" and items = items and PF = PF])
        using dr apply simp
        apply (rule impI)
        apply (rule owp_mono)
         apply (rule framed_owp [OF assms(2), where items = items and PF = PF])
        using True pos
        by (auto simp: box_origin_def box_size_def laid_out_def advance_def split: prod.splits elim!: settles_trans intro!: settles_refl)
      with True False pos show ?thesis by (simp add: box_node_action_def direct_begin_box_def st Let_def)
    next
      case H: False
      have "in_i32 (en_y en + pb_shift bx) \<Longrightarrow> owp (\<not> ratios_ok effects) (enter_direct_frame (c\<lparr>cur_v := en_y en + pb_shift bx\<rparr>, ?fr) bx vert
            (ContH (dvi_h c) (dvi_v c) (ly_h ly) (en_y en) (pb_width bx))) (\<lambda>st1.
        settles effects st1 (schedule (pb_children bx) @ ActEndBox # rest) rest (\<lambda>st'.
          case draw_box effects vert bx (box_origin en ly bx) (ly_snap ly) of (snap, d) \<Rightarrow>
            laid_out PF en (advance en (box_size en bx) (ly\<lparr>ly_snap := snap\<rparr>)) loc cont frs (items @ d) st'))"
        apply (rule owp_mono)
         apply (rule framed_owp [OF assms(2), where items = items and PF = PF])
        using H pos dr
        by (auto simp: box_origin_def box_size_def laid_out_def advance_def split: prod.splits elim!: settles_trans intro!: settles_refl)
      with H False pos show ?thesis by (simp add: box_node_action_def direct_begin_box_def st Let_def)
    qed
  qed
qed

section \<open>Leaders\<close>

lemma leader_extra_nonneg:
  assumes "0 < available" and "0 < sz" and "leader_start kind cur origin available sz = Ok (start, extra)"
  shows "0 \<le> extra"
proof (cases kind)
  case Expanded
  have "extra = available smod sz sdiv (available sdiv sz + 1)"
    using assms(3) Expanded by (auto simp: leader_start_def outcome_simps Let_def geometry_scaled_def checked32_def split: if_splits)
  moreover have "0 \<le> available div sz" using assms by (simp add: pos_imp_zdiv_nonneg_iff)
  ultimately show ?thesis using assms(1,2) by (simp add: rust_div_simps pos_imp_zdiv_nonneg_iff)
qed (use assms(3) in \<open>auto simp: leader_start_def outcome_simps Let_def split: if_splits\<close>)

text \<open>The layout with the position along the list replaced.\<close>

definition placed :: "enclosing \<Rightarrow> int \<Rightarrow> layout \<Rightarrow> layout" where
  "placed en p ly = (if en_vert en then ly\<lparr>ly_v := p\<rparr> else ly\<lparr>ly_h := p\<rparr>)"

fun copies :: "PageEffect list \<Rightarrow> bool \<Rightarrow> PageBox \<Rightarrow> enclosing \<Rightarrow> layout \<Rightarrow> int \<times> int \<Rightarrow> int list \<Rightarrow> (int \<times> int) \<times> drawing" where
  "copies effects vert b en ly snap [] = (snap, [])"
| "copies effects vert b en ly snap (p # ps) =
     (let (snap, d) = draw_box effects vert b (box_origin en (placed en p ly) b) snap;
          (snap, d') = copies effects vert b en ly snap ps
      in (snap, d @ d'))"

lemma foldl_copies:
  "foldl (\<lambda>(snap, d) p. case draw_box effects vert b
       (box_origin en (if en_vert en then ly\<lparr>ly_v := p\<rparr> else ly\<lparr>ly_h := p\<rparr>) b) snap of (snap, d') \<Rightarrow> (snap, d @ d')) (snap, d0) ps
   = (case copies effects vert b en ly snap ps of (s, d) \<Rightarrow> (s, d0 @ d))"
  by (induction ps arbitrary: snap d0) (auto simp: placed_def Let_def split: prod.splits)

lemma hleader_settles:
  assumes ld: "list_draws effects (pb_children bx)" and H: "\<not> en_vert en" and "0 < sz" and "0 \<le> extra" and "sz = pb_width bx"
    and "laid_out PF en (ly\<lparr>ly_h := p, ly_snap := s\<rparr>) loc cont frs items st"
  shows "settles effects st
    (ActHLeader \<lparr>hr_leader = l, hr_box = bx, hr_edge = edge, hr_extra = extra, hr_base_line = en_y en\<rparr> # rest) rest (\<lambda>st'.
      case copies effects (is_vlist_leader l) bx en ly s (leader_stops p sz extra edge) of (snap, d) \<Rightarrow>
        laid_out PF en (ly\<lparr>ly_h := edge - LEADER_ROUNDING_COMPENSATION, ly_snap := snap\<rparr>) loc cont frs (items @ d) st')"
  using assms(3-)
proof (induction p sz extra edge arbitrary: s items st rule: leader_stops.induct)
  case (1 p sz extra edge)
  let ?fr = "frame_of en ly loc cont # frs"
  let ?rep = "\<lparr>hr_leader = l, hr_box = bx, hr_edge = edge, hr_extra = extra, hr_base_line = en_y en\<rparr>"
  let ?Q = "\<lambda>items s p st'. case copies effects (is_vlist_leader l) bx en ly s (leader_stops p sz extra edge) of (snap, d) \<Rightarrow>
        laid_out PF en (ly\<lparr>ly_h := edge - LEADER_ROUNDING_COMPENSATION, ly_snap := snap\<rparr>) loc cont frs (items @ d) st'"
  obtain c where st: "st = (c, ?fr)" and dr: "drawn PF c ?fr items"
    and pos: "cur_h c = p" "cur_v c = ly_v ly" "snap_reference c = s" "ly_v ly = en_y en"
    using "1.prems"(4) H by (auto elim: laid_outE)
  show ?case
  proof (cases "p + sz \<le> edge")
    case False
    then show ?thesis using "1.prems" dr pos H
      by (intro settles_step) (auto simp: owned_action_def repeat_hleader_def st Let_def leader_stops.simps [of p] laid_out_def
          intro!: settles_refl)
  next
    case True
    have stops: "leader_stops p sz extra edge = p # leader_stops (p + sz + extra) sz extra edge"
      using True "1.prems" by (simp add: leader_stops.simps [of p])
    have org: "box_origin en (placed en p ly) bx = (p, en_y en + pb_shift bx)" using H by (simp add: box_origin_def placed_def)
    have again: "settles effects st1 (ActHLeader ?rep # rest) rest (?Q items s p)"
      if "case draw_box effects (is_vlist_leader l) bx (p, en_y en + pb_shift bx) s of (snap, d) \<Rightarrow>
        snd st1 = ?fr \<and> drawn PF (fst st1) ?fr (items @ d) \<and> snap_reference (fst st1) = snap \<and> cur_h (fst st1) = p + sz + extra
        \<and> cur_v (fst st1) = en_y en" for st1
    proof -
      obtain snap d where db: "draw_box effects (is_vlist_leader l) bx (p, en_y en + pb_shift bx) s = (snap, d)" by fastforce
      have "laid_out PF en (ly\<lparr>ly_h := p + sz + extra, ly_snap := snap\<rparr>) loc cont frs (items @ d) st1"
        using that db H pos by (simp add: laid_out_def)
      from "1.IH" [OF _ "1.prems"(1-3) this] True "1.prems"(1,2) show ?thesis
        by (simp add: stops org db case_prod_unfold Let_def)
    qed
    have "owp (\<not> ratios_ok effects) (synch_v (c\<lparr>cur_v := en_y en + pb_shift bx\<rparr>)) (\<lambda>c.
      owp (\<not> ratios_ok effects) (synch_h c) (\<lambda>c'.
      owp (\<not> ratios_ok effects) (enter_direct_frame (c', ?fr) bx (is_vlist_leader l) (ContHLeader (dvi_h c') (dvi_v c) (en_y en) sz extra))
        (\<lambda>st1. settles effects st1 (schedule (pb_children bx) @ ActEndBox # ActHLeader ?rep # rest) rest (?Q items s p))))"
      apply (rule drawn_synch_v [where bxs = "boxes ?fr" and n = "length ?fr" and items = items and PF = PF])
      using dr apply simp
      apply (rule drawn_synch_h [where bxs = "boxes ?fr" and n = "length ?fr" and items = items and PF = PF])
       apply simp
      apply (rule owp_mono)
       apply (rule framed_owp [OF ld, where items = items and PF = PF and rest = "ActHLeader ?rep # rest"])
            apply (simp_all add: pos)
      apply (erule settles_trans, rule again)
      using pos by (auto split: prod.splits)
    then show ?thesis using True "1.prems" pos
      by (intro settles_step) (auto simp: owned_action_def repeat_hleader_def st Let_def)
  qed
qed

lemma vleader_settles:
  assumes ld: "list_draws effects (pb_children bx)" and V: "en_vert en" and "0 < sz" and "0 \<le> extra" and "sz = pb_height bx + pb_depth bx"
    and "laid_out PF en (ly\<lparr>ly_v := p, ly_snap := s\<rparr>) loc cont frs items st"
  shows "settles effects st
    (ActVLeader \<lparr>vr_leader = l, vr_box = bx, vr_edge = edge, vr_extra = extra, vr_left_edge = en_x en\<rparr> # rest) rest (\<lambda>st'.
      case copies effects (is_vlist_leader l) bx en ly s (leader_stops p sz extra edge) of (snap, d) \<Rightarrow>
        laid_out PF en (ly\<lparr>ly_v := edge - LEADER_ROUNDING_COMPENSATION, ly_snap := snap\<rparr>) loc cont frs (items @ d) st')"
  using assms(3-)
proof (induction p sz extra edge arbitrary: s items st rule: leader_stops.induct)
  case (1 p sz extra edge)
  let ?fr = "frame_of en ly loc cont # frs"
  let ?rep = "\<lparr>vr_leader = l, vr_box = bx, vr_edge = edge, vr_extra = extra, vr_left_edge = en_x en\<rparr>"
  let ?Q = "\<lambda>items s p st'. case copies effects (is_vlist_leader l) bx en ly s (leader_stops p sz extra edge) of (snap, d) \<Rightarrow>
        laid_out PF en (ly\<lparr>ly_v := edge - LEADER_ROUNDING_COMPENSATION, ly_snap := snap\<rparr>) loc cont frs (items @ d) st'"
  obtain c where st: "st = (c, ?fr)" and dr: "drawn PF c ?fr items"
    and pos: "cur_v c = p" "cur_h c = ly_h ly" "snap_reference c = s" "ly_h ly = en_x en"
    using "1.prems"(4) V by (auto elim: laid_outE)
  show ?case
  proof (cases "p + sz \<le> edge")
    case False
    then show ?thesis using "1.prems" dr pos V
      by (intro settles_step) (auto simp: owned_action_def repeat_vleader_def st Let_def leader_stops.simps [of p] laid_out_def
          intro!: settles_refl)
  next
    case True
    have stops: "leader_stops p sz extra edge = p # leader_stops (p + sz + extra) sz extra edge"
      using True "1.prems" by (simp add: leader_stops.simps [of p])
    have org: "box_origin en (placed en p ly) bx = (en_x en + pb_shift bx, p + pb_height bx)" using V by (simp add: box_origin_def placed_def)
    have again: "settles effects st1 (ActVLeader ?rep # rest) rest (?Q items s p)"
      if "case draw_box effects (is_vlist_leader l) bx (en_x en + pb_shift bx, p + pb_height bx) s of (snap, d) \<Rightarrow>
        snd st1 = ?fr \<and> drawn PF (fst st1) ?fr (items @ d) \<and> snap_reference (fst st1) = snap \<and> cur_v (fst st1) = p + sz + extra
        \<and> cur_h (fst st1) = en_x en" for st1
    proof -
      obtain snap d where db: "draw_box effects (is_vlist_leader l) bx (en_x en + pb_shift bx, p + pb_height bx) s = (snap, d)" by fastforce
      have "laid_out PF en (ly\<lparr>ly_v := p + sz + extra, ly_snap := snap\<rparr>) loc cont frs (items @ d) st1"
        using that db V pos by (simp add: laid_out_def)
      from "1.IH" [OF _ "1.prems"(1-3) this] True "1.prems"(1,2) show ?thesis
        by (simp add: stops org db case_prod_unfold Let_def)
    qed
    have "owp (\<not> ratios_ok effects) (synch_h (c\<lparr>cur_h := en_x en + pb_shift bx\<rparr>)) (\<lambda>c. in_i32 (cur_v c + pb_height bx) \<longrightarrow>
      owp (\<not> ratios_ok effects) (synch_v (c\<lparr>cur_v := cur_v c + pb_height bx\<rparr>)) (\<lambda>c'.
      owp (\<not> ratios_ok effects) (enter_direct_frame (c', ?fr) bx (is_vlist_leader l)
          (ContVLeader (dvi_h c) (dvi_v c') (en_x en) (pb_height bx) (pb_depth bx) extra))
        (\<lambda>st1. settles effects st1 (schedule (pb_children bx) @ ActEndBox # ActVLeader ?rep # rest) rest (?Q items s p))))"
      apply (rule drawn_synch_h [where bxs = "boxes ?fr" and n = "length ?fr" and items = items and PF = PF])
      using dr apply simp
      apply (rule impI)
      apply (rule drawn_synch_v [where bxs = "boxes ?fr" and n = "length ?fr" and items = items and PF = PF])
       apply simp
      apply (rule owp_mono)
       apply (rule framed_owp [OF ld, where items = items and PF = PF and rest = "ActVLeader ?rep # rest"])
            apply (simp_all add: pos)
      apply (erule settles_trans, rule again)
      using pos "1.prems"(3) by (auto split: prod.splits)
    then show ?thesis using True "1.prems" pos
      by (intro settles_step) (auto simp: owned_action_def repeat_vleader_def st Let_def)
  qed
qed

lemma leader_start_not_Panic [simp]: "leader_start kind cur origin available sz \<noteq> Panic"
  by (auto simp: leader_start_def outcome_simps Let_def geometry_scaled_def geometry_add_def split: LeaderMode.splits if_splits)

fun leader_box :: "PageLeader \<Rightarrow> PageBox option" where
  "leader_box (PlRule w h d) = None"
| "leader_box (PlHList b) = Some b"
| "leader_box (PlVList b) = Some b"

lemma draw_leader_box:
  "leader_box leader = Some b \<Longrightarrow> draw_leader effects en ly kind w leader =
     (let (ps, ly') = leader_copies en ly kind (box_size en b) w;
          (snap, d) = copies effects (is_vlist_leader leader) b en ly (ly_snap ly) ps
      in (ly'\<lparr>ly_snap := snap\<rparr>, d))"
  by (cases leader) (auto simp: foldl_copies is_vlist_leader_def split: prod.splits)

lemma laid_out_glue:
  "laid_out PF en ly loc cont frs items (c, frame_of en ly loc cont # frs)
   \<Longrightarrow> laid_out PF en (snd (set_layout_glue (en_box en) g ly)) loc cont frs items
     (c, frame_of en (snd (set_layout_glue (en_box en) g ly)) loc cont # frs)"
  by (auto simp: laid_out_def)

text \<open>A leader box in glue of width \<open>w\<close>: the copies it starts, and what they draw.\<close>

lemma hleader_owp:
  assumes lo: "laid_out PF en ly loc cont frs items (c, frames)" and H: "\<not> en_vert en"
    and b: "leader_box leader = Some b" and ld: "list_draws effects (pb_children b)"
  shows "owp (\<not> ratios_ok effects) (move_right_or_output_leaders c (en_box en) kind (Some leader) w (en_x en) (en_y en)) (\<lambda>(c, again).
    settles effects (c\<lparr>cur_v := en_y en\<rparr>, frames) (case again of None \<Rightarrow> rest | Some repeat \<Rightarrow> ActHLeader repeat # rest) rest (\<lambda>st'.
      case draw_leader effects en ly kind w leader of (ly', d) \<Rightarrow> laid_out PF en ly' loc cont frs (items @ d) st'))"
proof -
  have pos: "cur_h c = ly_h ly" "cur_v c = en_y en" "snap_reference c = ly_snap ly" "along en ly = ly_h ly" using lo H by (auto simp: laid_out_def along_def)
  have skip: "settles effects (c\<lparr>cur_h := ly_h ly + w, cur_v := en_y en\<rparr>, frames) rest rest (laid_out PF en (advance en w ly) loc cont frs items)"
    using lo H by (intro settles_refl) (auto simp: laid_out_def advance_def)
  have sz: "box_size en b = pb_width b" using H by (simp add: box_size_def)
  show ?thesis
  proof (cases "\<exists>mode. mode_from_glue kind = Some mode \<and> 0 < pb_width b \<and> 0 < w")
    case False
    then have "leader_copies en ly kind (pb_width b) w = ([], advance en w ly)" by (auto simp: leader_copies_def split: option.splits)
    then have "draw_leader effects en ly kind w leader = (advance en w ly, [])"
      using b sz by (simp add: draw_leader_box advance_def)
    then show ?thesis using False skip b pos
      by (cases leader; cases "mode_from_glue kind") (auto simp: move_right_or_output_leaders_def Let_def)
  next
    case True
    then obtain mode where mode: "mode_from_glue kind = Some mode" "0 < pb_width b" "0 < w" by blast
    let ?av = "w + LEADER_ROUNDING_COMPENSATION"
    have "owp (\<not> ratios_ok effects) (omap_err dvi_error (leader_start mode (ly_h ly) (en_x en) ?av (pb_width b))) (\<lambda>(start, lx).
      settles effects (c\<lparr>cur_h := start, cur_v := en_y en\<rparr>, frames)
        (ActHLeader \<lparr>hr_leader = leader, hr_box = b, hr_edge = ly_h ly + ?av, hr_extra = lx, hr_base_line = en_y en\<rparr> # rest) rest (\<lambda>st'.
        case draw_leader effects en ly kind w leader of (ly', d) \<Rightarrow> laid_out PF en ly' loc cont frs (items @ d) st'))"
    proof (cases "leader_start mode (ly_h ly) (en_x en) ?av (pb_width b)")
      case (Ok x)
      then obtain start lx where ls: "leader_start mode (ly_h ly) (en_x en) ?av (pb_width b) = Ok (start, lx)" by (cases x) auto
      have "0 \<le> lx" using leader_extra_nonneg [OF _ mode(2) ls] mode(3) by (simp add: LEADER_ROUNDING_COMPENSATION_def)
      moreover have "laid_out PF en (ly\<lparr>ly_h := start, ly_snap := ly_snap ly\<rparr>) loc cont frs items (c\<lparr>cur_h := start, cur_v := en_y en\<rparr>, frames)"
        using lo H by (auto simp: laid_out_def)
      ultimately have "settles effects (c\<lparr>cur_h := start, cur_v := en_y en\<rparr>, frames)
        (ActHLeader \<lparr>hr_leader = leader, hr_box = b, hr_edge = ly_h ly + ?av, hr_extra = lx, hr_base_line = en_y en\<rparr> # rest) rest (\<lambda>st'.
        case copies effects (is_vlist_leader leader) b en ly (ly_snap ly) (leader_stops start (pb_width b) lx (ly_h ly + ?av)) of (snap, d) \<Rightarrow>
        laid_out PF en (ly\<lparr>ly_h := ly_h ly + ?av - LEADER_ROUNDING_COMPENSATION, ly_snap := snap\<rparr>) loc cont frs (items @ d) st')"
        by (intro hleader_settles [OF ld H mode(2)]) auto
      then show ?thesis using ls mode b H pos
        by (simp add: draw_leader_box leader_copies_def sz advance_def add.assoc case_prod_unfold Let_def)
    qed simp_all
    then show ?thesis using b mode pos by (cases leader) (auto simp: move_right_or_output_leaders_def Let_def elim!: owp_mono)
  qed
qed

lemma vleader_owp:
  assumes lo: "laid_out PF en ly loc cont frs items (c, frames)" and V: "en_vert en"
    and b: "leader_box leader = Some b" and ld: "list_draws effects (pb_children b)"
  shows "owp (\<not> ratios_ok effects) (move_down_or_output_leaders c (en_box en) kind (Some leader) w (en_x en) (en_y en)) (\<lambda>(c, again).
    settles effects (c, frames) (case again of None \<Rightarrow> rest | Some repeat \<Rightarrow> ActVLeader repeat # rest) rest (\<lambda>st'.
      case draw_leader effects en ly kind w leader of (ly', d) \<Rightarrow> laid_out PF en ly' loc cont frs (items @ d) st'))"
proof -
  have pos: "cur_v c = ly_v ly" "cur_h c = en_x en" "snap_reference c = ly_snap ly" "along en ly = ly_v ly" using lo V by (auto simp: laid_out_def along_def)
  have skip: "settles effects (c\<lparr>cur_v := ly_v ly + w\<rparr>, frames) rest rest (laid_out PF en (advance en w ly) loc cont frs items)"
    using lo V by (intro settles_refl) (auto simp: laid_out_def advance_def)
  have sz: "box_size en b = pb_height b + pb_depth b" using V by (simp add: box_size_def)
  show ?thesis
  proof (cases "\<exists>mode. mode_from_glue kind = Some mode \<and> 0 < pb_height b + pb_depth b \<and> 0 < w")
    case False
    then have "leader_copies en ly kind (pb_height b + pb_depth b) w = ([], advance en w ly)" by (auto simp: leader_copies_def split: option.splits)
    then have "draw_leader effects en ly kind w leader = (advance en w ly, [])"
      using b sz by (simp add: draw_leader_box advance_def)
    then show ?thesis using False skip b pos
      by (cases leader; cases "mode_from_glue kind") (auto simp: move_down_or_output_leaders_def Let_def)
  next
    case True
    then obtain mode where mode: "mode_from_glue kind = Some mode" "0 < pb_height b + pb_depth b" "0 < w" by blast
    let ?av = "w + LEADER_ROUNDING_COMPENSATION"
    have "owp (\<not> ratios_ok effects) (omap_err dvi_error (leader_start mode (ly_v ly) (en_y en) ?av (pb_height b + pb_depth b))) (\<lambda>(start, lx).
      settles effects (c\<lparr>cur_v := start\<rparr>, frames)
        (ActVLeader \<lparr>vr_leader = leader, vr_box = b, vr_edge = ly_v ly + ?av, vr_extra = lx, vr_left_edge = en_x en\<rparr> # rest) rest (\<lambda>st'.
        case draw_leader effects en ly kind w leader of (ly', d) \<Rightarrow> laid_out PF en ly' loc cont frs (items @ d) st'))"
    proof (cases "leader_start mode (ly_v ly) (en_y en) ?av (pb_height b + pb_depth b)")
      case (Ok x)
      then obtain start lx where ls: "leader_start mode (ly_v ly) (en_y en) ?av (pb_height b + pb_depth b) = Ok (start, lx)" by (cases x) auto
      have "0 \<le> lx" using leader_extra_nonneg [OF _ mode(2) ls] mode(3) by (simp add: LEADER_ROUNDING_COMPENSATION_def)
      moreover have "laid_out PF en (ly\<lparr>ly_v := start, ly_snap := ly_snap ly\<rparr>) loc cont frs items (c\<lparr>cur_v := start\<rparr>, frames)"
        using lo V by (auto simp: laid_out_def)
      ultimately have "settles effects (c\<lparr>cur_v := start\<rparr>, frames)
        (ActVLeader \<lparr>vr_leader = leader, vr_box = b, vr_edge = ly_v ly + ?av, vr_extra = lx, vr_left_edge = en_x en\<rparr> # rest) rest (\<lambda>st'.
        case copies effects (is_vlist_leader leader) b en ly (ly_snap ly) (leader_stops start (pb_height b + pb_depth b) lx (ly_v ly + ?av)) of (snap, d) \<Rightarrow>
        laid_out PF en (ly\<lparr>ly_v := ly_v ly + ?av - LEADER_ROUNDING_COMPENSATION, ly_snap := snap\<rparr>) loc cont frs (items @ d) st')"
        by (intro vleader_settles [OF ld V mode(2)]) auto
      then show ?thesis using ls mode b V pos
        by (simp add: draw_leader_box leader_copies_def sz advance_def add.assoc case_prod_unfold Let_def)
    qed simp_all
    then show ?thesis using b mode pos by (cases leader) (auto simp: move_down_or_output_leaders_def Let_def elim!: owp_mono)
  qed
qed

lemma leader_glue_owp:
  assumes lo: "laid_out PF en ly loc cont frs items st" and ld: "\<And>b. leader_box leader = Some b \<Longrightarrow> list_draws effects (pb_children b)"
  shows "owp (\<not> ratios_ok effects) (leader_glue st spec kind (Some leader) rest) (\<lambda>(st1, p1). settles effects st1 p1 rest (\<lambda>st'.
    case draw_node effects en ly (PnGlue spec kind (Some leader)) following of (ly', d) \<Rightarrow> laid_out PF en ly' loc cont frs (items @ d) st'))"
proof -
  obtain c where st: "st = (c, frame_of en ly loc cont # frs)" using lo by (rule laid_outE)
  obtain w ly1 where g: "set_layout_glue (en_box en) spec ly = (w, ly1)" by fastforce
  let ?fr = "frame_of en ly1 loc cont # frs"
  have lo1: "laid_out PF en ly1 loc cont frs items (c, ?fr)" using laid_out_glue [of PF en ly loc cont frs items c spec] lo g by (simp add: st)
  have dn: "draw_node effects en ly (PnGlue spec kind (Some leader)) following = draw_leader effects en ly1 kind w leader"
    by (simp add: g)
  have "if en_vert en
    then owp (\<not> ratios_ok effects) (move_down_or_output_leaders c (en_box en) kind (Some leader) w (en_x en) (en_y en)) (\<lambda>(c, again).
      settles effects (c, ?fr) (case again of None \<Rightarrow> rest | Some repeat \<Rightarrow> ActVLeader repeat # rest) rest (\<lambda>st'.
        case draw_leader effects en ly1 kind w leader of (ly', d) \<Rightarrow> laid_out PF en ly' loc cont frs (items @ d) st'))
    else owp (\<not> ratios_ok effects) (move_right_or_output_leaders c (en_box en) kind (Some leader) w (en_x en) (en_y en)) (\<lambda>(c, again).
      settles effects (c\<lparr>cur_v := en_y en\<rparr>, ?fr) (case again of None \<Rightarrow> rest | Some repeat \<Rightarrow> ActHLeader repeat # rest) rest (\<lambda>st'.
        case draw_leader effects en ly1 kind w leader of (ly', d) \<Rightarrow> laid_out PF en ly' loc cont frs (items @ d) st'))"
  proof (cases "leader_box leader")
    case (Some b)
    then show ?thesis using hleader_owp [OF lo1 _ Some ld] vleader_owp [OF lo1 _ Some ld] by simp
  next
    case None
    then obtain rw rh rd where l: "leader = PlRule rw rh rd" by (cases leader) auto
    have skip: "laid_out PF en (advance en w ly1) loc cont frs items (if en_vert en then c\<lparr>cur_v := cur_v c + w\<rparr> else c\<lparr>cur_h := cur_h c + w, cur_v := en_y en\<rparr>, ?fr)"
      using lo1 by (auto simp: laid_out_def advance_def)
    show ?thesis
    proof (cases "mode_from_glue kind")
      case None
      with skip show ?thesis by (auto simp: move_down_or_output_leaders_def move_right_or_output_leaders_def Let_def l intro!: settles_refl)
    next
      case (Some mode)
      then show ?thesis
        using rule_in_vlist_owp [OF lo1, of w 0 w "\<not> ratios_ok effects" "unwrap_or rw (pb_width (en_box en))"]
          rule_in_hlist_owp [OF lo1, of "\<not> ratios_ok effects" "unwrap_or rh (pb_height (en_box en))" "unwrap_or rd (pb_depth (en_box en))" w]
        by (auto simp: move_down_or_output_leaders_def move_right_or_output_leaders_def Let_def l case_prod_unfold
            intro!: settles_refl elim!: owp_mono)
    qed
  qed
  then show ?thesis unfolding dn leader_glue_def st
    by (auto simp: g case_prod_unfold intro!: frame_glue_owp elim!: owp_mono)
qed

fun inner_box :: "PageNode \<Rightarrow> PageBox option" where
  "inner_box (PnHList b) = Some b"
| "inner_box (PnVList b) = Some b"
| "inner_box (PnGlue g k (Some l)) = leader_box l"
| "inner_box n = None"

lemma node_action_owp:
  assumes lo: "laid_out PF en ly loc cont frs items st" and ld: "\<And>b. inner_box n = Some b \<Longrightarrow> list_draws effects (pb_children b)"
  shows "owp (\<not> ratios_ok effects) (node_action effects st n following rest) (\<lambda>(st1, p1). settles effects st1 p1 rest (\<lambda>st'.
    case draw_node effects en ly n following of (ly', d) \<Rightarrow> laid_out PF en ly' loc cont frs (items @ d) st'))"
proof (cases n rule: is_leaf.cases)
  case (1 b)
  then show ?thesis using box_action_owp [OF lo, of effects b False rest] ld by (simp add: node_action_def case_prod_unfold Let_def)
next
  case (2 b)
  then show ?thesis using box_action_owp [OF lo, of effects b True rest] ld by (simp add: node_action_def case_prod_unfold Let_def)
next
  case (3 g k l)
  then show ?thesis using leader_glue_owp [OF lo, of l effects g k rest following] ld by (simp add: node_action_def)
qed (use leaf_action_owp [OF lo, of n effects following rest] in \<open>auto elim!: owp_mono intro!: settles_refl\<close>)

lemma inner_box_size: "inner_box n = Some b \<Longrightarrow> n \<in> set ns \<Longrightarrow> size_list size (pb_children b) < size_list size ns"
proof -
  have b: "size_list size (pb_children b) < size b" for b by (cases b) simp
  have l: "leader_box l = Some b \<Longrightarrow> size b < size l" for l by (cases l) auto
  assume "inner_box n = Some b"
  then have "size_list size (pb_children b) < size n"
    using b [of b] l by (cases n rule: inner_box.cases) (fastforce dest: l)+
  also assume "n \<in> set ns"
  then have "size n < size_list size ns" by (induction ns) auto
  finally show ?thesis .
qed

lemma list_draws_all: "list_draws effects ns"
proof (induction "size_list size ns" arbitrary: ns rule: less_induct)
  case less
  have "settles effects st (schedule ms @ rest) rest (\<lambda>st'. case draw_nodes effects en ly ms of (ly', d) \<Rightarrow>
       laid_out PF en ly' loc cont frs (items @ d) st')"
    if "set ms \<subseteq> set ns" "laid_out PF en ly loc cont frs items st" for ms PF en ly loc cont frs items st rest
    using that
  proof (induction ms arbitrary: ly items st)
    case (Cons n ms)
    let ?d = "draw_node effects en ly n ms"
    have ld: "list_draws effects (pb_children b)" if "inner_box n = Some b" for b
      using less [OF inner_box_size [OF that]] Cons.prems by auto
    have "settles effects st (schedule (n # ms) @ rest) (schedule ms @ rest) (laid_out PF en (fst ?d) loc cont frs (items @ snd ?d))"
      using node_action_owp [OF Cons.prems(2) ld, of n ms "schedule ms @ rest"]
      by (auto simp: owned_action_def case_prod_unfold intro!: settles_step)
    then show ?case by (rule settles_trans)
      (use Cons.IH [of "fst ?d" "items @ snd ?d"] Cons.prems in \<open>auto simp: case_prod_unfold Let_def\<close>)
  qed (auto intro: settles_refl)
  then show ?case by (simp add: list_draws_def)
qed

section \<open>The page\<close>

text \<open>A later resource of a page replaces an earlier one with its number.\<close>

definition font_table :: "FontResource list \<Rightarrow> (u32 \<rightharpoonup> FontResource)" where
  "font_table fonts = map_of (rev (map (\<lambda>r. (fr_font_id r, r)) fonts))"

lemma add_page_fonts_owp:
  "owp p (add_page_fonts c fonts) (\<lambda>c'. \<exists>fb. c' = c\<lparr>fonts_by_number := fb, page_fonts := page_fonts c ++ font_table fonts\<rparr>)"
proof (induction fonts arbitrary: c)
  case Nil
  then show ?case by (auto simp: font_table_def intro!: exI [of _ "fonts_by_number c"])
next
  case (Cons font fonts)
  let ?c = "c\<lparr>fonts_by_number := (fonts_by_number c)(fr_font_id font \<mapsto> font_key font),
      page_fonts := (page_fonts c)(fr_font_id font \<mapsto> font)\<rparr>"
  have eq: "(page_fonts c)(fr_font_id font \<mapsto> font) ++ font_table fonts = page_fonts c ++ font_table (font # fonts)"
    by (simp add: font_table_def)
  from Cons.IH [of ?c] have "owp p (add_page_fonts ?c fonts) (\<lambda>c'. \<exists>fb. c' = c\<lparr>fonts_by_number := fb,
      page_fonts := page_fonts c ++ font_table (font # fonts)\<rparr>)"
    by (rule owp_mono) (auto simp: eq simp del: fun_upd_apply)
  then show ?case by (simp add: Let_def)
qed

lemma font_table_id: "font_table fonts f = Some r \<Longrightarrow> fr_font_id r = f"
  by (auto simp: font_table_def dest!: map_of_SomeD)

fun root_box :: "PageNode \<Rightarrow> (bool \<times> PageBox) option" where
  "root_box (PnHList bx) = Some (False, bx)"
| "root_box (PnVList bx) = Some (True, bx)"
| "root_box _ = None"

text \<open>What a page plan has to draw.\<close>

definition draws :: "PageArtifact \<Rightarrow> byte list \<Rightarrow> bool" where
  "draws page body \<longleftrightarrow> (\<exists>cs pos. body = concat (map enc cs)
     \<and> drop_registers (foldl read1 (at 0 0, \<lambda>a r. 0, [], []) cs)
       = (pos, [], snd (ink (font_table (pa_fonts page)) ([], None) (draw_page page))))"

lemma laid_out_fonts:
  assumes "laid_out Map.empty en ly loc ContRoot [] [] (c, frames)" and "dvi_fonts c = []"
  shows "laid_out (font_table fonts) en (ly\<lparr>ly_snap := sn\<rparr>) loc ContRoot [] []
    (c\<lparr>snap_reference := sn, fonts_by_number := fb, page_fonts := font_table fonts\<rparr>, frames)"
  using assms font_table_id by (auto simp: laid_out_def drawn_def fonts_ok_def)

lemma builder_new_owp:
  "owp p (builder_new job counts bx vert) (\<lambda>b. \<exists>loc. case box_start vert (without_children bx) (h_offset job, pb_height bx + v_offset job) (0, 0) of (en, ly) \<Rightarrow>
     laid_out Map.empty en ly loc ContRoot [] [] (pb_writer b, pb_state b)
     \<and> page_fonts (pb_writer b) = Map.empty \<and> dvi_fonts (pb_writer b) = [])"
proof -
  define c where "c = reset_page_state (compiler_new\<lparr>font_definition_sites := Some []\<rparr>)"
  define d where "d = c\<lparr>cur_h := h_offset job, cur_v := pb_height bx + v_offset job\<rparr>"
  have d: "cur_h d = h_offset job" "cur_v d = pb_height bx + v_offset job" "snap_reference d = (0, 0)"
    by (simp_all add: d_def c_def reset_page_state_def compiler_new_def)
  have "drawn Map.empty d [] []" using pst_new [of d]
    by (simp add: drawn_def d_def c_def reset_page_state_def compiler_new_def fonts_ok_def boxes_def)
  from enter_owp [OF this, of ContRoot p bx vert] d
  have "owp p (enter_direct_frame (d, []) bx vert ContRoot) (\<lambda>st. \<exists>loc.
      case box_start vert (without_children bx) (h_offset job, pb_height bx + v_offset job) (0, 0) of (en, ly) \<Rightarrow>
      laid_out Map.empty en ly loc ContRoot [] [] st)" by simp
  moreover have "owp p (enter_direct_frame (d, []) bx vert ContRoot) (\<lambda>st. page_fonts (fst st) = Map.empty \<and> dvi_fonts (fst st) = [])"
    by (simp add: enter_direct_frame_def enter_box_def out_u8_def Let_def d_def c_def reset_page_state_def compiler_new_def)
  ultimately have "owp p (enter_direct_frame (d, []) bx vert ContRoot) (\<lambda>st. (\<exists>loc.
      case box_start vert (without_children bx) (h_offset job, pb_height bx + v_offset job) (0, 0) of (en, ly) \<Rightarrow>
      laid_out Map.empty en ly loc ContRoot [] [] st) \<and> page_fonts (fst st) = Map.empty \<and> dvi_fonts (fst st) = [])" by (rule owp_conj)
  then show ?thesis
    by (auto simp: builder_new_def begin_direct_stream_def Let_def scaled_checked_add_def c_def [symmetric] d_def elim!: owp_mono)
qed

lemma finish_owp:
  assumes "laid_out PF en ly loc ContRoot [] items (pb_writer b, pb_state b)"
  shows "owp p (builder_finish b fonts) (\<lambda>plan. \<exists>lg fs. ink PF ([], None) items = (fs, lg) \<and> 
     (\<exists>cs pos. plan_body plan = concat (map enc cs) \<and> drop_registers (foldl read1 (at 0 0, \<lambda>a r. 0, [], []) cs) = (pos, [], lg)))"
proof -
  obtain c where b: "pb_writer b = c" "pb_state b = [frame_of en ly loc ContRoot]" and dr: "drawn PF c [frame_of en ly loc ContRoot] items"
    using assms by (auto elim: laid_outE)
  from dr obtain lg where lg: "pst c [] lg" "ink PF ([], None) items = ((ids (dvi_fonts c), dvi_f c), lg)"
    by (auto simp: drawn_def)
  have s: "cur_s c = 0" "font_definition_sites c \<noteq> None" using dr by (simp_all add: drawn_def fonts_ok_def)
  obtain cs where cs: "dvi_bytes c = concat (map enc cs)"
      "drop_registers (foldl read1 (at 0 0, \<lambda>a r. 0, [], []) cs) = (at (dvi_h c) (dvi_v c), [], lg)"
    using pst_replay [OF lg(1)] by auto
  show ?thesis using s lg cs unfolding builder_finish_def index_fonts_def b
    by (auto simp: finish_direct_stream_def direct_end_box_def compiler_prune_def Let_def
        intro!: owp_mono [OF add_page_fonts_owp] exI [of _ cs])
qed


lemma owned_list_owp:
  assumes lo: "laid_out PF en ly loc ContRoot [] [] st" and dn: "draw_nodes effects en ly ns = (ly', d)"
  shows "\<exists>r. direct_owned_list effects st ns = Some r \<and> owp (\<not> ratios_ok effects) r (laid_out PF en ly' loc ContRoot [] d)"
proof -
  have "settles effects st (schedule ns @ []) [] (laid_out PF en ly' loc ContRoot [] d)"
    using list_draws_all [of effects ns, unfolded list_draws_def, rule_format, OF lo, of "[]"] dn by simp
  then show ?thesis by (auto simp: settles_def direct_owned_list_def owned_loop.simps [of effects _ "[]"])
qed

lemma prepare_owp:
  assumes "box_start vert (without_children bx) (h_offset job, pb_height bx + v_offset job) (0, 0) = (en, ly)"
  shows "owp p (obind (builder_new job counts bx vert) (\<lambda>b.
      let b = b\<lparr>pb_writer := (pb_writer b)\<lparr>snap_reference := sn\<rparr>\<rparr>
      in obind (add_page_fonts (pb_writer b) fonts) (\<lambda>writer. Ok (b\<lparr>pb_writer := writer\<rparr>))))
    (\<lambda>b. \<exists>loc. laid_out (font_table fonts) en (ly\<lparr>ly_snap := sn\<rparr>) loc ContRoot [] [] (pb_writer b, pb_state b))"
  unfolding owp_obind Let_def
proof (rule owp_mono [OF builder_new_owp], unfold assms prod.case, elim exE conjE, rule owp_mono [OF add_page_fonts_owp], elim exE)
  fix b loc c' fb
  let ?b = "b\<lparr>pb_writer := (pb_writer b)\<lparr>snap_reference := sn\<rparr>\<rparr>"
  assume lo: "laid_out Map.empty en ly loc ContRoot [] [] (pb_writer b, pb_state b)"
    and e: "page_fonts (pb_writer b) = Map.empty" "dvi_fonts (pb_writer b) = []"
    and c': "c' = (pb_writer ?b)\<lparr>fonts_by_number := fb, page_fonts := page_fonts (pb_writer ?b) ++ font_table fonts\<rparr>"
  show "owp p (Ok (?b\<lparr>pb_writer := c'\<rparr>)) (\<lambda>b. \<exists>loc.
      laid_out (font_table fonts) en (ly\<lparr>ly_snap := sn\<rparr>) loc ContRoot [] [] (pb_writer b, pb_state b))"
    using laid_out_fonts [OF lo e(2), of fonts sn fb] e(1) by (auto simp: c')
qed

lemma plan_compile_owp:
  "\<exists>r. plan_compile page = Some r \<and>
     owp (root_box (pa_root page) = None \<or> \<not> ratios_ok (pa_effects page)) r (\<lambda>plan. draws page (plan_body plan))"
proof (cases "root_box (pa_root page)")
  case None
  then show ?thesis by (cases "pa_root page") (auto simp: plan_compile_def)
next
  case (Some x)
  then obtain vert bx where rb: "root_box (pa_root page) = Some (vert, bx)" by (cases x) auto
  let ?p = "\<not> ratios_ok (pa_effects page)" and ?snap = "initial_reference (pa_effects page)"
  define prepare where "prepare = obind (builder_new (pa_job page) (pa_counts page) bx vert) (\<lambda>b.
      let b = b\<lparr>pb_writer := (pb_writer b)\<lparr>snap_reference := ?snap\<rparr>\<rparr>
      in obind (add_page_fonts (pb_writer b) (pa_fonts page)) (\<lambda>writer. Ok (b\<lparr>pb_writer := writer\<rparr>)))"
  have pc: "plan_compile page = (case prepare of
      Ok b \<Rightarrow> (case direct_owned_list (pa_effects page) (pb_writer b, pb_state b) (pb_children bx) of
                Some (Ok (writer, frames)) \<Rightarrow> Some (builder_finish (b\<lparr>pb_writer := writer, pb_state := frames\<rparr>) (pa_fonts page))
              | Some (Err e) \<Rightarrow> Some (Err e) | Some Panic \<Rightarrow> Some Panic | None \<Rightarrow> None)
    | Err e \<Rightarrow> Some (Err e) | Panic \<Rightarrow> Some Panic)"
    using rb by (cases "pa_root page") (simp_all add: plan_compile_def prepare_def)
  let ?pos = "(h_offset (pa_job page), pb_height bx + v_offset (pa_job page))"
  obtain en ly0 where start0: "box_start vert (without_children bx) ?pos (0, 0) = (en, ly0)" by fastforce
  define ly where "ly = ly0\<lparr>ly_snap := ?snap\<rparr>"
  have start: "box_start vert (without_children bx) ?pos ?snap = (en, ly)" using start0 by (auto simp: box_start_def ly_def Let_def)
  obtain ly' d where dn: "draw_nodes (pa_effects page) en ly (pb_children bx) = (ly', d)" by fastforce
  have dp: "draw_page page = d" using rb start dn by (cases "pa_root page"; cases bx) (auto simp: draw_page_def)
  have prep: "owp ?p prepare (\<lambda>b. \<exists>loc. laid_out (font_table (pa_fonts page)) en ly loc ContRoot [] [] (pb_writer b, pb_state b))"
    unfolding prepare_def ly_def by (rule prepare_owp [OF start0])
  show ?thesis
  proof (cases prepare)
    case (Ok b)
    then obtain loc where lo: "laid_out (font_table (pa_fonts page)) en ly loc ContRoot [] [] (pb_writer b, pb_state b)" using prep by auto
    obtain r where r: "direct_owned_list (pa_effects page) (pb_writer b, pb_state b) (pb_children bx) = Some r"
      "owp ?p r (laid_out (font_table (pa_fonts page)) en ly' loc ContRoot [] d)" using owned_list_owp [OF lo dn] by blast
    show ?thesis
    proof (cases r)
      case (Ok st)
      then obtain c frames where st: "st = (c, frames)" and lo': "laid_out (font_table (pa_fonts page)) en ly' loc ContRoot [] d (c, frames)"
        using r(2) by (cases st) auto
      let ?b = "b\<lparr>pb_writer := c, pb_state := frames\<rparr>"
      have "owp ?p (builder_finish ?b (pa_fonts page)) (\<lambda>plan. draws page (plan_body plan))"
        using lo' by (intro owp_mono [OF finish_owp]) (auto simp: draws_def dp)
      then show ?thesis using r(1) rb by (simp add: pc \<open>prepare = Ok b\<close> Ok st)
    qed (use r \<open>prepare = Ok b\<close> in \<open>auto simp: pc\<close>)
  qed (use prep in \<open>auto simp: pc\<close>)
qed

section \<open>Properties of the page compiler\<close>

text \<open>A page with two lines of characters and leaders, a special and fonts, on which the properties are evaluated.\<close>

definition demo_font :: FontResource where
  "demo_font = \<lparr>fr_font_id = 7, fr_name = ''cmr10'', fr_tfm_content_hash = [], fr_tfm_checksum = 1, fr_design_size = 655360,
     fr_at_size = 655360, fr_layout_policy = PolicyClassicTfmExact, fr_mapping_fallback = None, fr_semantic_identity = [],
     fr_construction = Loaded\<rparr>"

definition demo_line :: "scaled \<Rightarrow> PageBox" where
  "demo_line shift = PageBox 100 7 2 shift \<lparr>numerator = 0, denominator = 1\<rparr> PsNormal PoNormal
     [PnChar 7 65 50, PnKern 30 PkExplicit, PnGlue \<lparr>pg_width = 40, pg_stretch = 0, pg_stretch_order = PoNormal,
      pg_shrink = 0, pg_shrink_order = PoNormal\<rparr> GkXleaders (Some (PlHList (PageBox 9 5 0 0
        \<lparr>numerator = 0, denominator = 1\<rparr> PsNormal PoNormal [PnRule (Some 3) (Some 2) (Some 0)]))), PnChar 7 66 20]"

definition demo_page :: PageArtifact where
  "demo_page = \<lparr>pa_job = job_default, pa_fonts = [demo_font], pa_counts = [1], pa_root = PnVList (PageBox 100 40 0 0
     \<lparr>numerator = 0, denominator = 1\<rparr> PsNormal PoNormal
     [PnHList (demo_line 0), PnPenalty 100, PnKern 11 PkExplicit, PnWhatsitAnchor 0, PnHList (demo_line 5)]),
     pa_effects = [PeSpecial ''dvips'' [1, 2, 3]]\<rparr>"




text \<open>C10. Compiling a page always ends: the loop over pending actions, which pushes the children of boxes and the copies of
  leaders, has no infinite run, for any page.\<close>

theorem dvi_page_terminates: "\<exists>r. plan_compile page = Some r"
  using plan_compile_owp [of page] by blast

text \<open>C11. Compiling a page whose root is a box does not panic when its compensation ratios are at most 1000: the frames
  are never missing, the movement stacks are never indexed out of range and the definition sites are there.
  Everything that can go wrong is an error value.\<close>

theorem dvi_page_no_panic:
  assumes "root_box (pa_root page) \<noteq> None" and "ratios_ok (pa_effects page)"
  shows "plan_compile page \<noteq> Some Panic"
  using plan_compile_owp [of page] assms by auto

theorem dvi_page_no_panic_witness:
  "root_box (pa_root demo_page) \<noteq> None \<and> ratios_ok (pa_effects demo_page) \<and> plan_compile demo_page \<noteq> Some Panic"
proof -
  have "root_box (pa_root demo_page) \<noteq> None" "ratios_ok (pa_effects demo_page)" by (simp_all add: demo_page_def ratios_ok_def)
  with dvi_page_no_panic [OF this] show ?thesis by blast
qed

end
