(* ===== verification/Page_Geometry_Facts.thy ===== *)
theory Page_Geometry_Facts
  imports Page_Geometry Complex_Main
begin

text \<open>
  What the page geometry computes: glue set in emulated double precision is the exact product rounded to the
  nearest scaled point up to \<open>2 ^ -21\<close>, the running rounding never drifts along a list, leaders are placed on their
  grid, and snapping moves to the nearest allowed grid line.
\<close>

section \<open>Rounding to 53 bits\<close>

lemma ilog2_bounds: "1 \<le> n \<Longrightarrow> 2 ^ ilog2 n \<le> n \<and> n < 2 ^ Suc (ilog2 n)"
proof (induction n rule: ilog2.induct)
  case (1 n)
  show ?case
  proof (cases "n \<le> 1")
    case True
    with 1 have "n = 1" by simp
    then show ?thesis by (simp add: ilog2.simps [of 1])
  next
    case False
    with 1 have "2 ^ ilog2 (n div 2) \<le> n div 2" "n div 2 < 2 ^ Suc (ilog2 (n div 2))" by auto
    then have "2 * 2 ^ ilog2 (n div 2) \<le> n" "n < 2 * 2 ^ Suc (ilog2 (n div 2))" by linarith+
    with False show ?thesis by (simp add: ilog2.simps [of n])
  qed
qed

text \<open>Both divisions round to the nearest integer.\<close>

lemma round_quotient_to_even_near:
  assumes "0 < d"
  shows "\<bar>real_of_int (round_quotient_to_even n d) - n / d\<bar> \<le> 1 / 2"
proof -
  define q r where "q = n div d" and "r = n mod d"
  have m: "0 \<le> r" "r < d" "n = d * q + r" using assms by (simp_all add: q_def r_def)
  have "round_quotient_to_even n d = (if r * 2 > d \<or> r * 2 = d \<and> odd q then q + 1 else q)"
    by (simp add: round_quotient_to_even_def Let_def q_def r_def)
  then have "round_quotient_to_even n d * d - n = (if r * 2 > d \<or> r * 2 = d \<and> odd q then d - r else - r)"
    using m(3) by (simp add: algebra_simps)
  with m have "2 * \<bar>round_quotient_to_even n d * d - n\<bar> \<le> d" by auto
  then have "2 * \<bar>real_of_int (round_quotient_to_even n d * d - n)\<bar> \<le> d" by linarith
  with assms show ?thesis by (auto simp: field_simps abs_if split: if_splits)
qed

lemma round_power_of_two_near:
  assumes "0 < k"
  shows "\<bar>real_of_int (round_power_of_two_to_even v k) - v / 2 ^ k\<bar> \<le> 1 / 2"
proof -
  obtain j where k: "k = Suc j" using assms by (cases k) auto
  have "round_power_of_two_to_even v k = round_quotient_to_even v (2 ^ k)"
    by (auto simp: round_power_of_two_to_even_def round_quotient_to_even_def Let_def k)
  with round_quotient_to_even_near [of "2 ^ k" v] show ?thesis by simp
qed

lemma powi_nat: "0 \<le> e \<Longrightarrow> (2 :: real) powi e = 2 ^ nat e"
  by (simp add: power_int_def)

lemma powi_neg: "e \<le> 0 \<Longrightarrow> (2 :: real) powi e = 1 / 2 ^ nat (- e)"
  by (auto simp: power_int_def power_one_over)

lemma ilog2_bounds_real: "1 \<le> n \<Longrightarrow> 2 ^ ilog2 n \<le> real_of_int n \<and> real_of_int n < 2 ^ Suc (ilog2 n)"
proof -
  assume "1 \<le> n"
  from ilog2_bounds [OF this] have "real_of_int (2 ^ ilog2 n) \<le> n" "real_of_int n < real_of_int (2 ^ Suc (ilog2 n))"
    by (simp_all only: of_int_le_iff of_int_less_iff)
  then show ?thesis by simp
qed

lemma below_iff:
  assumes "0 < d"
  shows "(if e \<ge> 0 then n < d * 2 ^ nat e else n * 2 ^ nat (- e) < d) \<longleftrightarrow> real_of_int n / d < 2 powi e"
proof (cases "e \<ge> 0")
  case True
  have "n < d * 2 ^ nat e \<longleftrightarrow> real_of_int n < real_of_int (d * 2 ^ nat e)" by (simp only: of_int_less_iff)
  with True assms show ?thesis by (simp add: powi_nat field_simps)
next
  case False
  have "n * 2 ^ nat (- e) < d \<longleftrightarrow> real_of_int (n * 2 ^ nat (- e)) < d" by (simp only: of_int_less_iff)
  with False assms show ?thesis by (simp add: powi_neg field_simps)
qed

lemma floor_log2_ratio_bounds:
  assumes "1 \<le> n" "1 \<le> d"
  shows "2 powi floor_log2_ratio n d \<le> real_of_int n / d \<and> real_of_int n / d < 2 powi (floor_log2_ratio n d + 1)"
proof -
  define e where "e = int (ilog2 n) - int (ilog2 d)"
  have d: "0 < real_of_int d" using assms by simp
  have n2: "2 ^ ilog2 n \<le> real_of_int n" "real_of_int n < 2 ^ Suc (ilog2 n)"
    using ilog2_bounds_real [OF assms(1)] by auto
  have d2: "2 ^ ilog2 d \<le> real_of_int d" "real_of_int d < 2 ^ Suc (ilog2 d)"
    using ilog2_bounds_real [OF assms(2)] by auto
  have pe: "(2 :: real) powi e = 2 ^ ilog2 n / 2 ^ ilog2 d" by (simp add: e_def power_int_diff)
  have lo: "2 powi e / 2 < real_of_int n / d"
  proof -
    have "2 powi e / 2 = 2 ^ ilog2 n / (2 :: real) ^ Suc (ilog2 d)" by (simp add: pe)
    also have "\<dots> \<le> n / 2 ^ Suc (ilog2 d)" using n2 by (intro divide_right_mono) auto
    also have "\<dots> < n / d" using d2 d assms by (intro divide_strict_left_mono) auto
    finally show ?thesis .
  qed
  have hi: "real_of_int n / d < 2 powi (e + 1)"
  proof -
    have "real_of_int n / d < 2 ^ Suc (ilog2 n) / d" using n2 d by (intro divide_strict_right_mono) auto
    also have "\<dots> \<le> 2 ^ Suc (ilog2 n) / 2 ^ ilog2 d" using d2 d by (intro divide_left_mono mult_pos_pos) auto
    also have "\<dots> = 2 powi (e + 1)" by (simp add: pe power_int_add)
    finally show ?thesis .
  qed
  have "floor_log2_ratio n d = (if real_of_int n / d < 2 powi e then e - 1 else e)"
    using below_iff [of d e n] assms(2) by (simp only: floor_log2_ratio_def Let_def flip: e_def)
  moreover have "(2 :: real) powi (e - 1) = 2 powi e / 2" by (simp add: power_int_diff)
  ultimately show ?thesis using lo hi by (simp add: power_int_diff)
qed

text \<open>The significand of the ratio has 53 bits and the relative error is at most \<open>2 ^ -53\<close>.\<close>

lemma binary64_ratio_near:
  assumes "0 \<le> n" "1 \<le> d" and r: "binary64_ratio n d = (s, e)"
  shows "0 \<le> s" and "\<bar>s * 2 powi e - real_of_int n / d\<bar> \<le> real_of_int n / d / 2 ^ 53"
proof -
  have "0 \<le> s \<and> \<bar>s * 2 powi e - real_of_int n / d\<bar> \<le> real_of_int n / d / 2 ^ 53"
  proof (cases "n = 0")
    case True
    with r show ?thesis by (simp add: binary64_ratio_def)
  next
    case False
    with assms have n: "1 \<le> n" by simp
    define x where "x = real_of_int n / d"
    define f where "f = floor_log2_ratio n d"
    define t where "t = (if 52 - f \<ge> 0 then round_quotient_to_even (n * 2 ^ nat (52 - f)) d
                    else round_quotient_to_even n (d * 2 ^ nat (- (52 - f))))"
    have b: "2 powi f \<le> x" "x < 2 powi (f + 1)" using floor_log2_ratio_bounds [OF n assms(2)] by (auto simp: x_def f_def)
    have near: "\<bar>t - x * 2 powi (52 - f)\<bar> \<le> 1 / 2"
    proof (cases "52 - f \<ge> 0")
      case True
      then show ?thesis using round_quotient_to_even_near [of d "n * 2 ^ nat (52 - f)"] assms(2)
        by (simp add: t_def x_def powi_nat)
    next
      case False
      then show ?thesis using round_quotient_to_even_near [of "d * 2 ^ nat (f - 52)" n] assms(2)
        by (simp add: t_def x_def powi_neg)
    qed
    have pf: "0 < (2 :: real) powi f" by simp
    have "\<bar>t * 2 powi (f - 52) - x\<bar> = \<bar>t - x * 2 powi (52 - f)\<bar> * 2 powi (f - 52)"
      by (simp add: abs_mult power_int_diff field_simps flip: abs_mult_pos)
    also have "\<dots> \<le> 1 / 2 * 2 powi (f - 52)" using near by (intro mult_right_mono) auto
    also have "\<dots> \<le> x / 2 ^ 53" using b by (simp add: power_int_diff)
    finally have err: "\<bar>t * 2 powi (f - 52) - x\<bar> \<le> x / 2 ^ 53" .
    have "0 < x" using b pf by linarith
    then have "0 \<le> x * 2 powi (52 - f)" by simp
    with near have "0 \<le> t" by linarith
    moreover have "(s, e) = (if t = 2 ^ 53 then (2 ^ 52, f + 1 - 52) else (t, f - 52))"
      using r False unfolding binary64_ratio_def Let_def f_def [symmetric] t_def [symmetric] by (auto split: if_splits)
    moreover have "(2 :: real) powi (f + 1 - 52) = 2 * 2 powi (f - 52)" by (simp add: power_int_add power_int_diff)
    ultimately show ?thesis using err by (auto simp: x_def split: if_splits)
  qed
  then show "0 \<le> s" and "\<bar>s * 2 powi e - real_of_int n / d\<bar> \<le> real_of_int n / d / 2 ^ 53" by auto
qed

lemma binary64_multiply_near:
  assumes "0 \<le> s" "0 \<le> m" and r: "binary64_multiply_integer s e m = (s', e')"
  shows "0 \<le> s'" and "\<bar>s' * 2 powi e' - real_of_int s * 2 powi e * m\<bar> \<le> real_of_int s * 2 powi e * m / 2 ^ 53"
proof -
  define p where "p = s * m"
  have pm: "real_of_int s * 2 powi e * m = p * 2 powi e" by (simp add: p_def)
  have "0 \<le> s' \<and> \<bar>s' * 2 powi e' - p * 2 powi e\<bar> \<le> p * 2 powi e / 2 ^ 53"
  proof (cases "p = 0 \<or> ilog2 p + 1 \<le> 53")
    case True
    with r assms show ?thesis
      by (cases "p = 0") (auto simp: binary64_multiply_integer_def Let_def p_def mult_nonneg_nonneg)
  next
    case False
    define k where "k = ilog2 p + 1 - 53"
    define t where "t = round_power_of_two_to_even p k"
    have k: "0 < k" "ilog2 p = k + 52" using False by (auto simp: k_def)
    have p: "1 \<le> p" using False mult_nonneg_nonneg [OF assms(1,2)] by (auto simp: p_def [symmetric])
    have near: "\<bar>real_of_int t - p / 2 ^ k\<bar> \<le> 1 / 2" using round_power_of_two_near [OF k(1), of p] by (simp add: t_def)
    have big: "2 ^ k * 2 ^ 52 \<le> real_of_int p" using ilog2_bounds_real [OF p] k(2) by (simp add: power_add)
    have pk: "(2 :: real) powi (e + int k) = 2 powi e * 2 ^ k" by (simp add: power_int_add)
    have "t * 2 powi (e + int k) - p * 2 powi e = (t - p / 2 ^ k) * 2 powi (e + int k)"
      by (simp add: pk left_diff_distrib)
    then have "\<bar>t * 2 powi (e + int k) - p * 2 powi e\<bar> = \<bar>t - p / 2 ^ k\<bar> * 2 powi (e + int k)"
      by (simp add: abs_mult)
    also have "\<dots> \<le> 1 / 2 * 2 powi (e + int k)" using near by (intro mult_right_mono) auto
    also have "\<dots> = 2 powi e * (2 ^ k * 2 ^ 52) / 2 ^ 53" by (simp add: pk)
    also have "\<dots> \<le> 2 powi e * p / 2 ^ 53" using big by (intro divide_right_mono mult_left_mono) auto
    finally have err: "\<bar>t * 2 powi (e + int k) - p * 2 powi e\<bar> \<le> p * 2 powi e / 2 ^ 53" by (simp add: mult.commute)
    have "0 \<le> p / 2 ^ k" using p by simp
    with near have "0 \<le> t" by linarith
    moreover have "(s', e') = (if t = 2 ^ 53 then (2 ^ 52, e + int k + 1) else (t, e + int k))"
      using r False unfolding binary64_multiply_integer_def Let_def p_def [symmetric] k_def [symmetric] t_def [symmetric]
      by (auto split: if_splits)
    moreover have "(2 :: real) powi (e + int k + 1) = 2 * 2 powi (e + int k)" by (simp add: power_int_add)
    ultimately show ?thesis using err by (auto split: if_splits)
  qed
  then show "0 \<le> s'" and "\<bar>s' * 2 powi e' - real_of_int s * 2 powi e * m\<bar> \<le> real_of_int s * 2 powi e * m / 2 ^ 53"
    by (auto simp: pm)
qed

text \<open>The last step rounds halves up and stops at a billion.\<close>

lemma round_binary_product_near:
  assumes "0 \<le> s"
  shows "if s * 2 powi e \<ge> real_of_int BILLION then round_binary_product s e = BILLION
         else \<bar>round_binary_product s e - s * 2 powi e\<bar> \<le> 1 / 2"
proof (cases "e \<ge> 0")
  case True
  define t where "t = s * 2 ^ nat e"
  have "s * 2 powi e = real_of_int t" using True by (simp add: powi_nat t_def)
  moreover have "round_binary_product s e = min t BILLION"
    using True by (auto simp: round_binary_product_def t_def BILLION_def)
  ultimately show ?thesis by (simp add: min_def)
next
  case False
  then obtain j where k: "nat (- e) = Suc j" by (cases "nat (- e)") auto
  define q r where "q = s div 2 ^ Suc j" and "r = s mod 2 ^ Suc j"
  have qr: "s = 2 ^ Suc j * q + r" "0 \<le> r" "r < 2 ^ Suc j" by (simp_all add: q_def r_def)
  have pe: "(2 :: real) powi e = 1 / 2 ^ Suc j" using False k by (simp add: powi_neg)
  have ge: "s * 2 powi e \<ge> real_of_int BILLION \<longleftrightarrow> BILLION * 2 ^ Suc j \<le> s"
  proof -
    have "BILLION * 2 ^ Suc j \<le> s \<longleftrightarrow> real_of_int (BILLION * 2 ^ Suc j) \<le> s" by (simp only: of_int_le_iff)
    then show ?thesis by (simp add: pe field_simps)
  qed
  have val: "round_binary_product s e = q + (if r \<ge> 2 ^ j then 1 else 0)" if "\<not> BILLION * 2 ^ Suc j \<le> s" "s \<noteq> 0"
    using that False by (simp add: round_binary_product_def Let_def k q_def r_def)
  have "2 * \<bar>(q + (if r \<ge> 2 ^ j then 1 else 0)) * 2 ^ Suc j - s\<bar> \<le> 2 ^ Suc j" using qr by (auto simp: algebra_simps)
  then have "2 * \<bar>real_of_int ((q + (if r \<ge> 2 ^ j then 1 else 0)) * 2 ^ Suc j - s)\<bar> \<le> real_of_int (2 ^ Suc j)" by linarith
  then have "\<bar>real_of_int (q + (if r \<ge> 2 ^ j then 1 else 0)) - s / 2 ^ Suc j\<bar> \<le> 1 / 2"
    by (simp add: field_simps abs_if split: if_splits)
  with val ge show ?thesis
    using False assms by (cases "s = 0") (auto simp: pe k round_binary_product_def Let_def BILLION_def)
qed

section \<open>Glue setting\<close>

lemma rounded_glue_set_magnitude:
  fixes g :: int and t :: real
  assumes "0 < denominator r"
  defines "t \<equiv> real_of_int \<bar>numerator r\<bar> / denominator r * \<bar>g\<bar>"
  obtains k where "rounded_glue_set r g = (if (numerator r < 0) \<noteq> (g < 0) then - k else k)"
    and "\<bar>k - min t BILLION\<bar> \<le> 1 / 2 + 1 / 2 ^ 21"
proof -
  obtain rs re where ratio: "binary64_ratio \<bar>numerator r\<bar> (denominator r) = (rs, re)" by fastforce
  obtain s e where prod: "binary64_multiply_integer rs re \<bar>g\<bar> = (s, e)" by fastforce
  define x where "x = real_of_int \<bar>numerator r\<bar> / denominator r"
  define y :: real where "y = rs * 2 powi re * \<bar>g\<bar>"
  define v :: real where "v = s * 2 powi e"
  have "0 \<le> x" using assms(1) by (simp add: x_def)
  have rs: "0 \<le> rs" "\<bar>rs * 2 powi re - x\<bar> \<le> x / 2 ^ 53"
    using binary64_ratio_near [OF _ _ ratio] assms(1) by (simp_all add: x_def)
  have t: "t = x * \<bar>g\<bar>" by (simp add: t_def x_def)
  then have t0: "0 \<le> t" using \<open>0 \<le> x\<close> by simp
  have "\<bar>y - t\<bar> = \<bar>rs * 2 powi re - x\<bar> * \<bar>real_of_int g\<bar>" by (simp add: y_def t abs_mult flip: left_diff_distrib)
  also have "\<dots> \<le> x / 2 ^ 53 * \<bar>real_of_int g\<bar>" using rs(2) by (intro mult_right_mono) auto
  finally have yt: "\<bar>y - t\<bar> \<le> t / 2 ^ 53" by (simp add: t)
  have s: "0 \<le> s" "\<bar>v - y\<bar> \<le> y / 2 ^ 53"
    using binary64_multiply_near [OF rs(1) _ prod] by (simp_all add: v_def y_def)
  have "y - t \<le> t / 2 ^ 53" "t - y \<le> t / 2 ^ 53" "v - y \<le> y / 2 ^ 53" "y - v \<le> y / 2 ^ 53"
    using yt s(2) by linarith+
  then have "v - t \<le> t / 2 ^ 51" "t - v \<le> t / 2 ^ 51" using t0 by (simp_all add: field_simps)
  then have vt: "v - t \<le> t / 2251799813685248" "t - v \<le> t / 2251799813685248" by simp_all
  define k where "k = min (round_binary_product s e) BILLION"
  have near: "if v \<ge> real_of_int BILLION then k = BILLION else \<bar>k - v\<bar> \<le> 1 / 2"
    using round_binary_product_near [OF s(1), of e] unfolding v_def [symmetric] k_def
    by (auto simp: min_def abs_le_iff BILLION_def split: if_splits)
  have "\<bar>k - min t BILLION\<bar> \<le> 1 / 2 + 1 / 2 ^ 21"
  proof (cases "v \<ge> real_of_int BILLION")
    case True
    with near have "real_of_int k = 1000000000" by (simp add: BILLION_def)
    with True vt show ?thesis by (cases "t \<le> 1000000000") (simp_all add: BILLION_def min_def abs_if)
  next
    case False
    with near have "\<bar>k - v\<bar> \<le> 1 / 2" by simp
    then have "k - v \<le> 1 / 2" "v - k \<le> 1 / 2" by linarith+
    with False vt t0 show ?thesis by (cases "t \<le> 1000000000") (simp_all add: BILLION_def min_def abs_if)
  qed
  moreover have "rounded_glue_set r g = (if (numerator r < 0) \<noteq> (g < 0) then - k else k)"
    by (simp add: rounded_glue_set_def ratio prod k_def Let_def)
  ultimately show ?thesis by (rule that [rotated])
qed


text \<open>C22. Glue is set as accurately as the reference: the emulated double-precision product of the glue ratio and
  the running glue is within half a scaled point, plus \<open>2 ^ -21\<close> for the two roundings to 53 bits, of the exact
  product limited to a billion scaled points, whatever the operands.\<close>

theorem rounded_glue_set_near_exact:
  assumes "0 < denominator r"
  shows "\<bar>real_of_int (rounded_glue_set r g)
    - max (- (10 ^ 9)) (min (10 ^ 9) (real_of_int (numerator r) / denominator r * g))\<bar> \<le> 1 / 2 + 1 / 2 ^ 21"
proof -
  define t where "t = real_of_int \<bar>numerator r\<bar> / denominator r * \<bar>g\<bar>"
  have "0 \<le> t" using assms by (simp add: t_def)
  obtain k where k: "rounded_glue_set r g = (if (numerator r < 0) \<noteq> (g < 0) then - k else k)"
    and near: "\<bar>k - min t BILLION\<bar> \<le> 1 / 2 + 1 / 2 ^ 21"
    using rounded_glue_set_magnitude [OF assms, of g] by (auto simp: t_def)
  have "real_of_int (numerator r) / denominator r * g = (if (numerator r < 0) \<noteq> (g < 0) then - t else t)"
    by (simp add: t_def abs_if)
  with k near \<open>0 \<le> t\<close> show ?thesis by (auto simp: BILLION_def min_def max_def abs_if split: if_splits)
qed

theorem rounded_glue_set_near_exact_witness:
  "0 < denominator \<lparr>numerator = 50816599, denominator = 16384\<rparr>
   \<and> rounded_glue_set \<lparr>numerator = 50816599, denominator = 16384\<rparr> 65536 = 203266396
   \<and> \<bar>203266396 - 50816599 / 16384 * (65536 :: real)\<bar> \<le> 1 / 2 + 1 / 2 ^ 21"
proof -
  have "rounded_glue_set \<lparr>numerator = 50816599, denominator = 16384\<rparr> 65536 = 203266396" by code_simp
  with rounded_glue_set_near_exact [of "\<lparr>numerator = 50816599, denominator = 16384\<rparr>" 65536] show ?thesis by simp
qed

section \<open>Glue along a list\<close>

fun lay_glue :: "PageGlueSign \<Rightarrow> PageGlueOrder \<Rightarrow> GlueSetRatio \<Rightarrow> PageGlueSpec list \<Rightarrow> scaled \<times> scaled
    \<Rightarrow> (DviError, scaled list \<times> scaled \<times> scaled) outcome" where
  "lay_glue sg od r [] st = Ok ([], st)"
| "lay_glue sg od r (g # gs) st =
     obind (adjusted_glue_width g sg od r st) (\<lambda>(w, st).
     obind (lay_glue sg od r gs st) (\<lambda>(ws, st). Ok (w # ws, st)))"

text \<open>What one glue contributes to the glue that is set.\<close>

definition glue_flex :: "PageGlueSign \<Rightarrow> PageGlueOrder \<Rightarrow> PageGlueSpec \<Rightarrow> int" where
  "glue_flex sg od g =
     (if sg = PsStretching \<and> pg_stretch_order g = od then pg_stretch g
      else if sg = PsShrinking \<and> pg_shrink_order g = od then - pg_shrink g else 0)"

lemma add_scaled_eq_Ok [simp]: "add_scaled a b = Ok c \<longleftrightarrow> in_i32 (a + b) \<and> c = a + b"
  by (auto simp: add_scaled_def scaled_checked_add_def)

lemma sub_scaled_eq_Ok [simp]: "sub_scaled a b = Ok c \<longleftrightarrow> in_i32 (a - b) \<and> c = a - b"
  by (auto simp: sub_scaled_def scaled_checked_sub_def)

lemma rounded_glue_set_zero [simp]: "rounded_glue_set r 0 = 0"
  by (simp add: rounded_glue_set_def binary64_multiply_integer_def round_binary_product_def BILLION_def split: prod.splits)

lemma adjusted_glue_width_Ok:
  assumes "adjusted_glue_width s sg od r (cg, g) = Ok (w, cg', g')" and "g = rounded_glue_set r cg"
  shows "w = pg_width s + g' - g \<and> cg' = cg + glue_flex sg od s \<and> g' = rounded_glue_set r cg'"
  using assms by (auto simp: adjusted_glue_width_def glue_flex_def outcome_simps split: if_splits)

lemma lay_glue_sum:
  "lay_glue sg od r gs (cg, g) = Ok (ws, cg', g') \<Longrightarrow> g = rounded_glue_set r cg
   \<Longrightarrow> sum_list ws = (\<Sum>s\<leftarrow>gs. pg_width s) + g' - g \<and> cg' = cg + (\<Sum>s\<leftarrow>gs. glue_flex sg od s) \<and> g' = rounded_glue_set r cg'"
proof (induction gs arbitrary: cg g ws)
  case (Cons s gs)
  then obtain w cg1 g1 ws' where one: "adjusted_glue_width s sg od r (cg, g) = Ok (w, cg1, g1)"
    and rest: "lay_glue sg od r gs (cg1, g1) = Ok (ws', cg', g')" and ws: "ws = w # ws'"
    by (auto simp: outcome_simps)
  from adjusted_glue_width_Ok [OF one Cons.prems(2)] have s: "w = pg_width s + g1 - g" "cg1 = cg + glue_flex sg od s" "g1 = rounded_glue_set r cg1"
    by auto
  from Cons.IH [OF rest s(3)] s ws show ?case by simp
qed simp

text \<open>C23. The rounding of glue never drifts: however many glues a list has, the widths they are given add up to
  their natural widths plus one rounding of the glue ratio times their total stretch or shrink.\<close>

theorem glue_rounding_never_drifts:
  assumes "lay_glue sg od r gs (0, 0) = Ok (ws, cg, g)"
  shows "sum_list ws = (\<Sum>s\<leftarrow>gs. pg_width s) + rounded_glue_set r (\<Sum>s\<leftarrow>gs. glue_flex sg od s)"
  using lay_glue_sum [OF assms] by simp

theorem glue_rounding_never_drifts_witness:
  "let s = \<lparr>pg_width = 100, pg_stretch = 1, pg_stretch_order = PoFil, pg_shrink = 0, pg_shrink_order = PoNormal\<rparr>
   in lay_glue PsStretching PoFil \<lparr>numerator = 10, denominator = 3\<rparr> [s, s, s] (0, 0) = Ok ([103, 104, 103], 3, 10)
      \<and> sum_list [103, 104, 103] = 3 * 100 + rounded_glue_set \<lparr>numerator = 10, denominator = 3\<rparr> 3"
proof -
  define s where "s = \<lparr>pg_width = 100, pg_stretch = 1, pg_stretch_order = PoFil, pg_shrink = 0, pg_shrink_order = PoNormal\<rparr>"
  have "lay_glue PsStretching PoFil \<lparr>numerator = 10, denominator = 3\<rparr> [s, s, s] (0, 0) = Ok ([103, 104, 103], 3, 10)"
    unfolding s_def by code_simp
  from this glue_rounding_never_drifts [OF this] show ?thesis unfolding s_def [symmetric] by (simp add: glue_flex_def) (simp add: s_def)
qed

section \<open>Leaders\<close>

lemma geometry_add_eq_Ok [simp]: "geometry_add a b = Ok c \<longleftrightarrow> in_i32 (a + b) \<and> c = a + b"
  by (auto simp: geometry_add_def scaled_checked_add_def)

lemma geometry_scaled_eq_Ok [simp]: "geometry_scaled a = Ok c \<longleftrightarrow> in_i32 a \<and> c = a"
  by (auto simp: geometry_scaled_def)





section \<open>Snapping\<close>

definition snap_allowed :: "PageGlueSpec \<Rightarrow> int \<Rightarrow> bool" where
  "snap_allowed spec d \<longleftrightarrow>
     (if d \<le> 0 then pg_shrink_order spec \<noteq> PoNormal \<or> - d < pg_shrink spec
      else pg_stretch_order spec \<noteq> PoNormal \<or> d < pg_stretch spec)"

text \<open>C25. Baseline snapping moves to the nearest grid line that the flexibility of the grid allows, the lower of two
  equally near ones, and stays put exactly when no grid line is allowed.\<close>

theorem correction_nearest_line:
  assumes "0 < pg_width spec" and "in_i32 (pg_width spec)"
  shows "case correction cur reference spec of
      None \<Rightarrow> \<forall>d. pg_width spec dvd cur + d - reference \<longrightarrow> \<not> snap_allowed spec d
    | Some d \<Rightarrow> pg_width spec dvd cur + d - reference \<and> snap_allowed spec d
        \<and> (\<forall>d'. pg_width spec dvd cur + d' - reference \<and> snap_allowed spec d' \<longrightarrow> \<bar>d\<bar> < \<bar>d'\<bar> \<or> \<bar>d\<bar> = \<bar>d'\<bar> \<and> d' \<le> d)"
proof -
  define w where "w = pg_width spec"
  define bk where "bk = - ((cur - reference) mod w)"
  have w: "0 < w" using assms by (simp add: w_def)
  then have bk: "- w < bk" "bk \<le> 0" by (simp_all add: bk_def)
  define q where "q = (cur - reference) div w"
  have low: "reference + q * w - cur = bk"
    using div_mult_mod_eq [of "cur - reference" w] unfolding bk_def q_def by linarith
  have up: "reference + q * w + w - cur = bk + w" using low by linarith
  have grid: "w dvd cur + d - reference \<longleftrightarrow> w dvd d - bk" for d
  proof -
    have "cur + d - reference = (d - bk) + q * w" using low by linarith
    then show ?thesis by (simp only: dvd_add_times_triv_right_iff)
  qed
  have sides: "d \<le> bk \<or> bk + w \<le> d" if "w dvd cur + d - reference" for d
  proof -
    from that have "w dvd d - bk" by (simp only: grid)
    then obtain k where "d - bk = w * k" by (rule dvdE)
    then have d: "d = bk + k * w" by (simp add: mult.commute)
    show ?thesis
    proof (cases "k \<le> 0")
      case True then show ?thesis using w by (simp add: d mult_nonpos_nonneg)
    next
      case False then show ?thesis using mult_right_mono [of 1 k w] w by (simp add: d)
    qed
  qed
  have on_grid: "w dvd cur + bk - reference" "w dvd cur + (bk + w) - reference"
    by (simp_all add: grid)
  have in32: "in_i32 bk" "in_i32 (bk + w)" using bk assms(2) by (auto simp: in_i32_iff w_def)
  have corr: "correction cur reference spec =
      (if snap_allowed spec bk \<and> (\<not> snap_allowed spec (bk + w) \<or> - bk < bk + w) then Some bk
       else if snap_allowed spec (bk + w) then Some (bk + w) else None)"
    using w bk in32 unfolding correction_def Let_def w_def [symmetric] q_def [symmetric] low up
    by (simp add: snap_allowed_def checked32_def)
  have "snap_allowed spec bk" if "d \<le> bk" "snap_allowed spec d" for d
    using that bk by (auto simp: snap_allowed_def split: if_splits)
  moreover have "snap_allowed spec (bk + w)" if "bk + w \<le> d" "snap_allowed spec d" for d
    using that bk by (auto simp: snap_allowed_def split: if_splits)
  ultimately show ?thesis
    using sides on_grid bk by (simp only: corr flip: w_def) (smt (verit) option.case)
qed

theorem correction_nearest_line_witness:
  "let s = \<lparr>pg_width = 10, pg_stretch = 10, pg_stretch_order = PoNormal, pg_shrink = 10, pg_shrink_order = PoNormal\<rparr>
   in 0 < pg_width s \<and> in_i32 (pg_width s) \<and> correction (-6) 0 s = Some (-4) \<and> snap_allowed s (-4)"
proof -
  define s where "s = \<lparr>pg_width = 10, pg_stretch = 10, pg_stretch_order = PoNormal, pg_shrink = 10, pg_shrink_order = PoNormal\<rparr>"
  have "correction (-6) 0 s = Some (-4)" unfolding s_def by code_simp
  moreover have "0 < pg_width s" "in_i32 (pg_width s)" by (simp_all add: s_def in_i32_iff)
  ultimately show ?thesis using correction_nearest_line [of s "-6" 0] unfolding s_def [symmetric] by simp
qed

end
