(* ===== verification/Font_Expansion.thy ===== *)
theory Font_Expansion
  imports Scaled_Arith
begin

text \<open>
  pdfTeX font expansion: \<^verbatim>\<open>crates/tex-typeset/src/expansion.rs\<close>. The \<open>u16\<close> and \<open>u8\<close> fields of an expansion
  specification hold clamped values and are integers here. The 128-bit products of the source cannot overflow and
  are exact.
\<close>

section \<open>Definitions\<close>

definition clamp :: "int \<Rightarrow> int \<Rightarrow> int \<Rightarrow> int" where
  "clamp v lo hi = (if v < lo then lo else if v > hi then hi else v)"

record FontExpansionSpec =
  fe_stretch :: int
  fe_shrink :: int
  fe_step :: int
  fe_auto_expand :: bool

datatype FontExpansionError =
  InvalidStep | InvalidLimits | DifferentStep | DifferentStretchLimit | DifferentShrinkLimit

definition expansion_spec_new :: "int \<Rightarrow> int \<Rightarrow> int \<Rightarrow> bool \<Rightarrow> (FontExpansionError, FontExpansionSpec) outcome" where
  "expansion_spec_new stretch shrink step auto_expand =
     (let step = clamp step 0 100
      in if step = 0 then Err InvalidStep
         else let stretch = clamp stretch 0 1000;
                  shrink = clamp shrink 0 500;
                  stretch = stretch - stretch smod step;
                  shrink = shrink - shrink smod step
              in if stretch = 0 \<and> shrink = 0 then Err InvalidLimits
                 else Ok \<lparr>fe_stretch = stretch, fe_shrink = shrink, fe_step = step, fe_auto_expand = auto_expand\<rparr>)"

definition round_ratio :: "int \<Rightarrow> int \<Rightarrow> int \<Rightarrow> int panicking" where
  "round_ratio value numerator denominator =
     (let product = value * numerator;
          rounded = (\<bar>product\<bar> + denominator sdiv 2) sdiv denominator
      in expect_some (checked64 (if product < 0 then - rounded else rounded)))"

definition nearest_step :: "int \<Rightarrow> int \<Rightarrow> int \<Rightarrow> int panicking" where
  "nearest_step requested step limit =
     (let magnitude = min \<bar>requested\<bar> limit
      in obind (if magnitude < limit \<and> magnitude smod step \<noteq> 0
                then obind (round_ratio magnitude 1 step) (\<lambda>r. Ok (step * \<bar>r\<bar>))
                else Ok magnitude) (\<lambda>magnitude.
         let magnitude = min magnitude limit
         in Ok (if requested < 0 then - magnitude else magnitude)))"

definition discrete_ratio :: "FontExpansionSpec \<Rightarrow> int \<Rightarrow> int \<Rightarrow> int panicking" where
  "discrete_ratio spec line_ratio efcode =
     (if line_ratio = 0 \<or> efcode \<le> 0 then Ok 0
      else let limit = (if line_ratio > 0 then fe_stretch spec else fe_shrink spec)
           in if limit = 0 then Ok 0
              else obind (round_ratio (line_ratio * clamp efcode 0 1000) limit 1000000) (\<lambda>requested.
                   nearest_step requested (fe_step spec) limit))"

record ParagraphExpansion =
  pe_step :: "int option"
  pe_stretch :: "int option"
  pe_shrink :: "int option"

definition paragraph_expansion_default :: ParagraphExpansion where
  "paragraph_expansion_default = \<lparr>pe_step = None, pe_stretch = None, pe_shrink = None\<rparr>"

definition observe_equal :: "int option \<Rightarrow> int \<Rightarrow> FontExpansionError \<Rightarrow> (FontExpansionError, int option) outcome" where
  "observe_equal current value err =
     (case current of
        Some existing \<Rightarrow> if existing \<noteq> value then Err err else Ok current
      | None \<Rightarrow> Ok (Some value))"

definition expansion_observe :: "ParagraphExpansion \<Rightarrow> FontExpansionSpec \<Rightarrow> (FontExpansionError, ParagraphExpansion) outcome" where
  "expansion_observe p spec =
     obind (observe_equal (pe_step p) (fe_step spec) DifferentStep) (\<lambda>st.
     obind (if fe_stretch spec \<noteq> 0 then observe_equal (pe_stretch p) (fe_stretch spec) DifferentStretchLimit
            else Ok (pe_stretch p)) (\<lambda>str.
     obind (if fe_shrink spec \<noteq> 0 then observe_equal (pe_shrink p) (fe_shrink spec) DifferentShrinkLimit
            else Ok (pe_shrink p)) (\<lambda>shr.
       Ok \<lparr>pe_step = st, pe_stretch = str, pe_shrink = shr\<rparr>)))"

definition expansion_steps_of :: "ParagraphExpansion \<Rightarrow> (int \<times> int) option" where
  "expansion_steps_of p =
     map_option (\<lambda>step. ((case pe_stretch p of None \<Rightarrow> 0 | Some v \<Rightarrow> v) sdiv step,
                          (case pe_shrink p of None \<Rightarrow> 0 | Some v \<Rightarrow> v) sdiv step)) (pe_step p)"

record ExpansionCapacity =
  ec_stretch :: scaled
  ec_shrink :: scaled

definition scaled_ratio :: "int \<Rightarrow> int \<Rightarrow> int \<Rightarrow> scaled panicking" where
  "scaled_ratio value numerator denominator =
     obind (round_ratio value numerator denominator) (\<lambda>r. expect_some (checked32 r))"

definition scaled_at_ratio :: "scaled \<Rightarrow> int \<Rightarrow> scaled panicking" where
  "scaled_at_ratio value ratio = scaled_ratio value (1000 + ratio) 1000"

definition positive_scaled_ratio :: "int \<Rightarrow> int \<Rightarrow> int \<Rightarrow> scaled panicking" where
  "positive_scaled_ratio value numerator denominator =
     (if value \<le> 0 then Ok 0 else scaled_ratio value numerator denominator)"

definition capacity_for_metric :: "scaled \<Rightarrow> FontExpansionSpec \<Rightarrow> int \<Rightarrow> ExpansionCapacity panicking" where
  "capacity_for_metric natural spec efcode =
     (let efcode = clamp efcode 0 1000
      in if efcode = 0 then Ok \<lparr>ec_stretch = 0, ec_shrink = 0\<rparr>
         else obind (scaled_at_ratio natural (fe_stretch spec)) (\<lambda>stretched.
              obind (scaled_at_ratio natural (- fe_shrink spec)) (\<lambda>shrunk.
              obind (positive_scaled_ratio (wrap32 (stretched - natural)) efcode 1000) (\<lambda>st.
              obind (positive_scaled_ratio (wrap32 (natural - shrunk)) efcode 1000) (\<lambda>sh.
                Ok \<lparr>ec_stretch = st, ec_shrink = sh\<rparr>)))))"

definition divide_scaled :: "int \<Rightarrow> int \<Rightarrow> nat \<Rightarrow> int panicking" where
  "divide_scaled value divisor decimal_digits =
     (let numerator = value * 10 ^ decimal_digits;
          negative = ((numerator < 0) \<noteq> (divisor < 0));
          rounded = (\<bar>numerator\<bar> + \<bar>divisor\<bar> sdiv 2) sdiv \<bar>divisor\<bar>
      in expect_some (checked32 (if negative then - rounded else rounded)))"

definition line_expansion_ratio :: "scaled \<Rightarrow> ExpansionCapacity \<Rightarrow> bool \<Rightarrow> int panicking" where
  "line_expansion_ratio shortfall capacity has_infinite_adjustment =
     (if shortfall = 0 \<or> has_infinite_adjustment then Ok 0
      else let available = (if shortfall > 0 then ec_stretch capacity else ec_shrink capacity)
           in if available \<le> 0 then Ok 0
              else obind (divide_scaled shortfall available 3) (\<lambda>r. Ok (clamp r (- 1000) 1000)))"

section \<open>Specifications and ratios\<close>

definition expansion_spec_ok :: "FontExpansionSpec \<Rightarrow> bool" where
  "expansion_spec_ok spec \<longleftrightarrow> 0 < fe_step spec \<and> fe_step spec \<le> 100
     \<and> 0 \<le> fe_stretch spec \<and> fe_stretch spec \<le> 1000 \<and> 0 \<le> fe_shrink spec \<and> fe_shrink spec \<le> 500
     \<and> fe_step spec dvd fe_stretch spec \<and> fe_step spec dvd fe_shrink spec
     \<and> (fe_stretch spec \<noteq> 0 \<or> fe_shrink spec \<noteq> 0)"

lemma floor_to_step:
  assumes "0 < step" and "0 \<le> (v :: int)"
  shows "0 \<le> v - v smod step" and "v - v smod step \<le> v" and "step dvd v - v smod step"
proof -
  have "v - v smod step = step * (v div step)" using assms by (simp add: smod_nonneg minus_mod_eq_mult_div)
  moreover have "0 \<le> v smod step" using assms by (simp add: smod_nonneg)
  ultimately show "0 \<le> v - v smod step" and "v - v smod step \<le> v" and "step dvd v - v smod step"
    using assms by (simp_all add: pos_imp_zdiv_nonneg_iff)
qed

lemma expansion_spec_new_ok:
  assumes "expansion_spec_new stretch shrink step auto = Ok spec"
  shows "expansion_spec_ok spec"
proof -
  define st where "st = clamp step 0 100"
  define v where "v = clamp stretch 0 1000"
  define w where "w = clamp shrink 0 500"
  have st: "0 \<le> st" "st \<le> 100" and v: "0 \<le> v" "v \<le> 1000" and w: "0 \<le> w" "w \<le> 500"
    by (simp_all add: st_def v_def w_def clamp_def)
  have spec: "st \<noteq> 0" "v - v smod st \<noteq> 0 \<or> w - w smod st \<noteq> 0"
      "spec = \<lparr>fe_stretch = v - v smod st, fe_shrink = w - w smod st, fe_step = st, fe_auto_expand = auto\<rparr>"
    using assms by (auto simp: expansion_spec_new_def Let_def st_def v_def w_def split: if_splits)
  with st have "0 < st" by simp
  from floor_to_step [OF this v(1)] floor_to_step [OF this w(1)] spec v w st show ?thesis by (auto simp: expansion_spec_ok_def)
qed

lemma round_ratio_small:
  assumes "0 < d" and "\<bar>v * n\<bar> < 2 ^ 62"
  shows "round_ratio v n d = Ok (if v * n < 0 then - ((\<bar>v * n\<bar> + d div 2) div d) else (\<bar>v * n\<bar> + d div 2) div d)"
proof -
  let ?q = "(\<bar>v * n\<bar> + d div 2) div d"
  have "?q * d \<le> \<bar>v * n\<bar> + d div 2" using le_div_iff_mult_le [of d ?q "\<bar>v * n\<bar> + d div 2"] assms(1) by (simp add: mult.commute)
  have "d div 2 < d" using assms(1) by simp
  have "?q < 2 ^ 62 + 1"
  proof (rule ccontr)
    assume "\<not> ?q < 2 ^ 62 + 1"
    then have "d * (2 ^ 62 + 1) \<le> d * ?q" using assms(1) by (intro mult_left_mono) auto
    moreover have "2 ^ 62 \<le> d * (2 ^ 62)" using assms(1) by simp
    ultimately show False using \<open>?q * d \<le> \<bar>v * n\<bar> + d div 2\<close> \<open>d div 2 < d\<close> assms(2) by (simp add: algebra_simps)
  qed
  moreover have "0 \<le> ?q" using assms(1) by (intro pos_imp_zdiv_nonneg_iff [THEN iffD2]) auto
  ultimately have "in_i64 ?q" "in_i64 (- ?q)" by (simp_all add: in_i64_iff)
  moreover have "(\<bar>v * n\<bar> + d sdiv 2) sdiv d = ?q" using assms(1) by (simp add: rust_div_simps)
  ultimately show ?thesis unfolding round_ratio_def Let_def by (simp only: checked64_def expect_some.simps if_True split: if_split) simp
qed

text \<open>Rounding a magnitude to a multiple of the step stays within half a step, and within the limit.\<close>

lemma nearest_step_near:
  assumes "0 < step" and "step \<le> 100" and "step dvd limit" and "\<bar>requested\<bar> \<le> limit" and "limit \<le> 1000"
  shows "\<exists>r. nearest_step requested step limit = Ok r \<and> step dvd r \<and> \<bar>r\<bar> \<le> limit \<and> 2 * \<bar>r - requested\<bar> \<le> step
    \<and> (requested \<le> 0 \<longrightarrow> r \<le> 0) \<and> (0 \<le> requested \<longrightarrow> 0 \<le> r) \<and> (\<bar>requested\<bar> = limit \<longrightarrow> \<bar>r\<bar> = limit)"
proof -
  let ?m = "\<bar>requested\<bar>"
  have m: "min ?m limit = ?m" using assms(4) by simp
  show ?thesis
  proof (cases "?m < limit \<and> ?m smod step \<noteq> 0")
    case False
    then have "step dvd ?m"
      using assms by (auto simp: smod_nonneg dvd_eq_mod_eq_0)
    with False show ?thesis using assms by (auto simp: nearest_step_def m Let_def)
  next
    case True
    define q where "q = (?m + step div 2) div step"
    have q: "step * q \<le> ?m + step div 2" "?m + step div 2 < step * q + step"
      using div_eq_iff_bounds [of step "?m + step div 2" q] assms(1) by (simp_all add: q_def)
    have "0 \<le> q" using assms(1) by (simp add: q_def pos_imp_zdiv_nonneg_iff)
    obtain k where k: "limit = step * k" using assms(3) by (auto simp: dvd_def)
    have "step * q < step * (k + 1)" using q(1) True k assms(1) by (simp add: algebra_simps) linarith
    then have qk: "step * q \<le> limit" using assms(1) k by simp
    have "round_ratio ?m 1 step = Ok q" using round_ratio_small [of step ?m 1] assms by (simp add: q_def)
    then have ns: "nearest_step requested step limit = Ok (if requested < 0 then - (step * q) else step * q)"
      using True qk \<open>0 \<le> q\<close> assms(1) by (simp add: nearest_step_def m Let_def)
    have "2 * \<bar>x - m\<bar> \<le> step" if "x \<le> m + step div 2" "m + step div 2 < x + step" for x m :: int using that by presburger
    from this [OF q] have "2 * \<bar>step * q - ?m\<bar> \<le> step" .
    moreover have "0 \<le> step * q" using \<open>0 \<le> q\<close> assms(1) by simp
    moreover have "requested \<noteq> 0" using True by auto
    ultimately show ?thesis using ns qk True by (cases "requested < 0") (auto simp: abs_if split: if_splits)
  qed
qed

text \<open>The expansion of a glyph is one of the font's steps. For a valid specification and a line ratio and code in
  their ranges, the ratio that is selected never panics, is a multiple of the step, stays within the stretch or
  shrink limit, has the direction of the line, and is within half a step of the exact request rounded to an
  integer; the full ratio selects the limit itself.\<close>

lemma discrete_ratio_nearest:
  assumes "expansion_spec_ok spec" and "\<bar>line_ratio\<bar> \<le> 1000" and "0 \<le> efcode" and "efcode \<le> 1000"
  shows "\<exists>r. discrete_ratio spec line_ratio efcode = Ok r \<and> fe_step spec dvd r
    \<and> (let limit = (if line_ratio > 0 then fe_stretch spec else fe_shrink spec);
           exact = line_ratio * efcode * limit
       in \<bar>r\<bar> \<le> limit \<and> 0 \<le> r * line_ratio \<and> \<bar>r * 1000000 - exact\<bar> \<le> (fe_step spec + 1) * 500000
          \<and> (\<bar>line_ratio\<bar> = 1000 \<and> efcode = 1000 \<longrightarrow> \<bar>r\<bar> = limit))"
proof -
  define limit where "limit = (if line_ratio > 0 then fe_stretch spec else fe_shrink spec)"
  define x where "x = line_ratio * efcode * limit"
  have spec: "0 < fe_step spec" "fe_step spec \<le> 100" "fe_step spec dvd limit" "0 \<le> limit" "limit \<le> 1000"
    using assms(1) by (auto simp: expansion_spec_ok_def limit_def)
  have le: "\<bar>line_ratio * efcode\<bar> \<le> 1000 * 1000" unfolding abs_mult using assms by (intro mult_mono) auto
  have x: "\<bar>x\<bar> \<le> 1000000 * limit" unfolding x_def abs_mult [of "line_ratio * efcode"] using le spec(4) by (intro mult_mono) auto
  have ef: "clamp efcode 0 1000 = efcode" using assms by (simp add: clamp_def)
  show ?thesis
  proof (cases "line_ratio = 0 \<or> efcode = 0 \<or> limit = 0")
    case True
    then have "discrete_ratio spec line_ratio efcode = Ok 0" using assms(3)
      by (auto simp: discrete_ratio_def Let_def limit_def)
    with True spec show ?thesis by (auto simp: limit_def [symmetric] Let_def)
  next
    case False
    define req where "req = (if x < 0 then - ((\<bar>x\<bar> + 500000) div 1000000) else (\<bar>x\<bar> + 500000) div 1000000)"
    have sgn: "x < 0 \<longleftrightarrow> line_ratio < 0" using False assms(3) spec(4) by (auto simp: x_def mult_less_0_iff zero_less_mult_iff)
    have "\<bar>x\<bar> < 2 ^ 62" using x spec(5) by simp
    then have "round_ratio (line_ratio * efcode) limit 1000000 = Ok req"
      using round_ratio_small [of 1000000 "line_ratio * efcode" limit] by (simp add: req_def x_def)
    then have dr: "discrete_ratio spec line_ratio efcode = nearest_step req (fe_step spec) limit"
      using False assms(3) by (simp add: discrete_ratio_def ef limit_def [symmetric] Let_def)
    have req: "\<bar>req\<bar> \<le> limit" "\<bar>req * 1000000 - x\<bar> \<le> 500000" "x < 0 \<Longrightarrow> req \<le> 0" "\<not> x < 0 \<Longrightarrow> 0 \<le> req"
      using x by (auto simp: req_def abs_if split: if_splits)
    obtain r where r: "nearest_step req (fe_step spec) limit = Ok r" "fe_step spec dvd r" "\<bar>r\<bar> \<le> limit" "2 * \<bar>r - req\<bar> \<le> fe_step spec"
        "req \<le> 0 \<longrightarrow> r \<le> 0" "0 \<le> req \<longrightarrow> 0 \<le> r" "\<bar>req\<bar> = limit \<longrightarrow> \<bar>r\<bar> = limit"
      using nearest_step_near [OF spec(1-3) req(1) spec(5)] by blast
    have near: "\<bar>r * 1000000 - x\<bar> \<le> (fe_step spec + 1) * 500000" using r(4) req(2) by (simp add: abs_if algebra_simps split: if_splits)
    have "0 \<le> r * line_ratio" using r(5,6) req(3,4) sgn by (cases "x < 0") (auto simp: mult_nonpos_nonpos)
    moreover have "\<bar>r\<bar> = limit" if "\<bar>line_ratio\<bar> = 1000" "efcode = 1000"
    proof -
      have "\<bar>x\<bar> = 1000000 * limit" using that spec(4) by (simp add: x_def abs_mult)
      then have "\<bar>req\<bar> = limit" using spec(4) by (auto simp: req_def)
      with r(7) show ?thesis by simp
    qed
    ultimately show ?thesis using dr r(1-3) near unfolding limit_def [symmetric] x_def Let_def by (intro exI [of _ r]) simp
  qed
qed

lemma discrete_ratio_nearest_witness:
  "\<exists>r. discrete_ratio \<lparr>fe_stretch = 20, fe_shrink = 20, fe_step = 5, fe_auto_expand = True\<rparr> (- 400) 1000 = Ok r \<and> 5 dvd r
    \<and> \<bar>r\<bar> \<le> 20 \<and> \<bar>r * 1000000 + 8000000\<bar> \<le> 3000000"
  using discrete_ratio_nearest [of "\<lparr>fe_stretch = 20, fe_shrink = 20, fe_step = 5, fe_auto_expand = True\<rparr>" "- 400" 1000]
  by (auto simp: expansion_spec_ok_def Let_def)

end
