(* ===== verification/Line_Widths.thy ===== *)
theory Line_Widths
  imports Packing Font_Expansion
begin

text \<open>
  The widths of candidate lines: \<^verbatim>\<open>crates/tex-typeset/src/linebreak/widths.rs\<close>, with the horizontal projection of a node
  from \<^verbatim>\<open>crates/tex-state/src/node_view/cursor.rs\<close>. A character code is a number below 256. Unchecked 64-bit
  subtractions wrap around.
\<close>

section \<open>What line breaking reads\<close>

definition wrap64 :: "int \<Rightarrow> int" where
  "wrap64 x = (x + 2 ^ 63) mod 2 ^ 64 - 2 ^ 63"

datatype PdfFontCode = FcLp | FcRp | FcEf | FcTag | FcKnbs | FcStbs | FcShbs | FcKnbc | FcKnac

text \<open>The remaining queries of the trait \<open>TypesetState\<close>.\<close>

record LineState = TypesetState +
  font_widths :: "FontId \<Rightarrow> scaled list"
  font_parameter_value :: "FontId \<Rightarrow> nat \<Rightarrow> scaled"
  pdf_font_code :: "PdfFontCode \<Rightarrow> FontId \<Rightarrow> nat \<Rightarrow> int"
  font_kern :: "FontId \<Rightarrow> nat \<Rightarrow> nat \<Rightarrow> scaled option"
  font_expansion_spec :: "FontId \<Rightarrow> FontExpansionSpec option"

datatype 'l HorizontalNode =
  HzGlyph FontId nat
| HzKern scaled "KernKind option"
| HzGlue GlueSpec
| HzRule "scaled option"
| HzBox scaled
| HzUnset scaled
| HzDisc 'l
| HzImage scaled
| HzMath scaled
| HzIgnored

fun horizontal :: "'l Node \<Rightarrow> 'l HorizontalNode" where
  "horizontal (CharNode font ch origin) = HzGlyph font ch"
| "horizontal (Lig font ch orig lh rh origins) = HzGlyph font ch"
| "horizontal (Kern amount kind) = HzKern amount (Some kind)"
| "horizontal (MarginKern amount side font c) = HzKern amount None"
| "horizontal (Glue spec kind origin leader) = HzGlue spec"
| "horizontal (Rule w h d) = HzRule w"
| "horizontal (HList b) = HzBox (box_width b)"
| "horizontal (VList b) = HzBox (box_width b)"
| "horizontal (Unset u) = HzUnset (unset_width u)"
| "horizontal (Disc kind pre post replace count) = HzDisc replace"
| "horizontal (WhatsitNode whatsit) =
     (case whatsit of
        PdfRefXForm object w h d \<Rightarrow> HzImage w
      | PdfRefXImage object w h d \<Rightarrow> HzImage w
      | _ \<Rightarrow> HzIgnored)"
| "horizontal (MathOn w) = HzMath w"
| "horizontal (MathOff w) = HzMath w"
| "horizontal _ = HzIgnored"

fun node_glyph :: "'l Node \<Rightarrow> (FontId \<times> nat) option" where
  "node_glyph (CharNode font ch origin) = Some (font, ch)"
| "node_glyph (Lig font ch orig lh rh origins) = Some (font, ch)"
| "node_glyph _ = None"

text \<open>A node that has a glyph with a byte code.\<close>

definition direct_glyph :: "'l Node \<Rightarrow> (FontId \<times> nat) option" where
  "direct_glyph node = (case node_glyph node of Some (font, ch) \<Rightarrow> if ch < 256 then Some (font, ch) else None | None \<Rightarrow> None)"

section \<open>Widths\<close>

record Widths =
  w_base :: WideMetricTotals
  w_font_stretch :: int
  w_font_shrink :: int

datatype DiscretionaryWidths = DwReplacement | DwIgnore

definition widths_zero :: Widths where
  "widths_zero = \<lparr>w_base = totals_ZERO, w_font_stretch = 0, w_font_shrink = 0\<rparr>"

definition widths_add_assign :: "Widths \<Rightarrow> Widths \<Rightarrow> Widths panicking" where
  "widths_add_assign a b =
     obind (totals_add_assign (w_base a) (w_base b)) (\<lambda>t.
     obind (wide_add (w_font_stretch a) (w_font_stretch b)) (\<lambda>st.
     obind (wide_add (w_font_shrink a) (w_font_shrink b)) (\<lambda>sh.
       Ok \<lparr>w_base = t, w_font_stretch = st, w_font_shrink = sh\<rparr>)))"

definition widths_sub :: "Widths \<Rightarrow> Widths \<Rightarrow> Widths panicking" where
  "widths_sub a b =
     obind (totals_sub (w_base a) (w_base b)) (\<lambda>t.
     obind (wide_sub (w_font_stretch a) (w_font_stretch b)) (\<lambda>st.
     obind (wide_sub (w_font_shrink a) (w_font_shrink b)) (\<lambda>sh.
       Ok \<lparr>w_base = t, w_font_stretch = st, w_font_shrink = sh\<rparr>)))"

definition widths_add_glue :: "Widths \<Rightarrow> GlueSpec \<Rightarrow> Widths panicking" where
  "widths_add_glue w spec = obind (totals_observe (w_base w) (EvGlue spec)) (\<lambda>t. Ok (w\<lparr>w_base := t\<rparr>))"

definition widths_from_glue :: "GlueSpec \<Rightarrow> Widths panicking" where
  "widths_from_glue spec = widths_add_glue widths_zero spec"

definition normal_stretch :: "Widths \<Rightarrow> int" where
  "normal_stretch w = t_stretch (w_base w) ONormal"

definition normal_shrink :: "Widths \<Rightarrow> int" where
  "normal_shrink w = t_shrink (w_base w) ONormal"

definition add_normal_stretch :: "Widths \<Rightarrow> scaled \<Rightarrow> Widths panicking" where
  "add_normal_stretch w amount =
     obind (wide_add (normal_stretch w) (wide_from_scaled amount)) (\<lambda>s.
       Ok (w\<lparr>w_base := (w_base w)\<lparr>t_stretch := (t_stretch (w_base w))(ONormal := s)\<rparr>\<rparr>))"

definition add_font_variation :: "Widths \<Rightarrow> scaled \<Rightarrow> scaled \<Rightarrow> Widths panicking" where
  "add_font_variation w stretch shrink =
     obind (wide_add_scaled (w_font_stretch w) stretch) (\<lambda>st.
     obind (wide_add_scaled (w_font_shrink w) shrink) (\<lambda>sh.
       Ok (w\<lparr>w_font_stretch := st, w_font_shrink := sh\<rparr>)))"

definition infinite_stretch :: "Widths \<Rightarrow> int list" where
  "infinite_stretch w = map (t_stretch (w_base w)) [Fil, Fill, Filll]"

definition infinite_stretch_is_zero :: "Widths \<Rightarrow> bool" where
  "infinite_stretch_is_zero w \<longleftrightarrow> list_all (\<lambda>v. v = 0) (infinite_stretch w)"

definition has_infinite_adjustment :: "Widths \<Rightarrow> int \<Rightarrow> bool" where
  "has_infinite_adjustment w shortfall =
     (if shortfall > 0 then \<not> infinite_stretch_is_zero w
      else if shortfall < 0 then list_ex (\<lambda>v. v \<noteq> 0) (map (t_shrink (w_base w)) [Fil, Fill, Filll])
      else False)"

definition w_add_natural :: "Widths \<Rightarrow> scaled \<Rightarrow> Widths panicking" where
  "w_add_natural w v =
     obind (wide_add_scaled (t_natural (w_base w)) v) (\<lambda>n. Ok (w\<lparr>w_base := (w_base w)\<lparr>t_natural := n\<rparr>\<rparr>))"

section \<open>Expansion capacities\<close>

definition add_char_expansion :: "LineState \<Rightarrow> Widths \<Rightarrow> FontId \<Rightarrow> nat \<Rightarrow> scaled \<Rightarrow> Widths panicking" where
  "add_char_expansion st w font code natural =
     (case font_expansion_spec st font of
        None \<Rightarrow> Ok w
      | Some spec \<Rightarrow>
          obind (capacity_for_metric natural spec (pdf_font_code st FcEf font code)) (\<lambda>capacity.
            add_font_variation w (ec_stretch capacity) (ec_shrink capacity)))"

definition add_font_kern_capacity :: "LineState \<Rightarrow> Widths \<Rightarrow> FontId \<Rightarrow> nat \<Rightarrow> FontId \<Rightarrow> nat \<Rightarrow> scaled \<Rightarrow> Widths panicking" where
  "add_font_kern_capacity st w left_font left right_font right natural =
     (if left_font \<noteq> right_font then Ok w
      else case font_expansion_spec st left_font of
        None \<Rightarrow> Ok w
      | Some spec \<Rightarrow>
          let efcode = clamp (pdf_font_code st FcEf left_font left) 0 1000;
              pair_kern = (case font_kern st left_font left right of None \<Rightarrow> 0 | Some k \<Rightarrow> k)
          in obind (scaled_at_ratio pair_kern (fe_stretch spec)) (\<lambda>stretched.
             obind (scaled_at_ratio pair_kern (- fe_shrink spec)) (\<lambda>shrunk.
               let stretch = (if fe_stretch spec > 0 then wrap32 (stretched - natural) else 0);
                   shrink = (if fe_shrink spec > 0 then wrap32 (natural - shrunk) else 0)
               in obind (scaled_ratio stretch efcode 1000) (\<lambda>stretch.
                  obind (wide_add_scaled (w_font_stretch w) stretch) (\<lambda>st.
                  obind (scaled_ratio shrink efcode 1000) (\<lambda>shrink.
                  obind (wide_add_scaled (w_font_shrink w) shrink) (\<lambda>sh.
                    Ok (w\<lparr>w_font_stretch := st, w_font_shrink := sh\<rparr>))))))))"

definition add_direct_font_kern_expansion :: "LineState \<Rightarrow> Widths \<Rightarrow> 'l Node option \<Rightarrow> 'l Node option \<Rightarrow> scaled \<Rightarrow> Widths panicking" where
  "add_direct_font_kern_expansion st w prev following natural =
     (case (Option.bind prev direct_glyph, Option.bind following direct_glyph) of
        (Some (left_font, left), Some (right_font, right)) \<Rightarrow>
          add_font_kern_capacity st w left_font left right_font right natural
      | _ \<Rightarrow> Ok w)"

section \<open>The width of a node\<close>

text \<open>The cases of a node that is not a discretionary.\<close>

definition add_plain_node_width :: "LineState \<Rightarrow> Widths \<Rightarrow> 'l Node \<Rightarrow> 'l Node option \<Rightarrow> 'l Node option \<Rightarrow> bool \<Rightarrow> Widths panicking" where
  "add_plain_node_width st w node prev following include_font_expansion =
     (case horizontal node of
        HzGlyph font ch \<Rightarrow>
          (case font_character_metrics st font ch of
             None \<Rightarrow> Ok w
           | Some metrics \<Rightarrow>
               obind (w_add_natural w (c_width metrics)) (\<lambda>w.
                 if include_font_expansion \<and> ch < 256 then add_char_expansion st w font ch (c_width metrics) else Ok w))
      | HzKern amount kind \<Rightarrow>
          obind (w_add_natural w amount) (\<lambda>w.
            if include_font_expansion \<and> kind = Some KFont
            then add_direct_font_kern_expansion st w prev following amount else Ok w)
      | HzMath width \<Rightarrow> w_add_natural w width
      | HzGlue spec \<Rightarrow> widths_add_glue w spec
      | HzRule (Some width) \<Rightarrow> w_add_natural w width
      | HzBox width \<Rightarrow> w_add_natural w width
      | HzUnset width \<Rightarrow> w_add_natural w width
      | HzImage width \<Rightarrow> w_add_natural w width
      | _ \<Rightarrow> Ok w)"

text \<open>A frame of the explicit stack: the node before the cursor, the nodes from it on, and the successor of the
  list.\<close>

type_synonym width_frame = "page_list Node option \<times> page_list Node list \<times> page_list Node option"

lemma horizontal_HzDiscE:
  assumes "horizontal n = HzDisc r"
  obtains kind pre post count where "n = Disc kind pre post r count"
  using assms by (cases n) (auto split: Whatsit.splits)

lemma horizontal_disc_size:
  "horizontal n = HzDisc r \<Longrightarrow> size_list (size_NodeOf size (\<lambda>x. 0) (\<lambda>x. 0)) (page_nodes r) < size_NodeOf size (\<lambda>x. 0) (\<lambda>x. 0) n"
  by (cases r) (auto elim!: horizontal_HzDiscE)

function add_nested_list_widths :: "LineState \<Rightarrow> bool \<Rightarrow> DiscretionaryWidths \<Rightarrow> width_frame list \<Rightarrow> Widths \<Rightarrow> Widths panicking" where
  "add_nested_list_widths st fe dw [] w = Ok w"
| "add_nested_list_widths st fe dw ((prev, [], succ) # stack) w = add_nested_list_widths st fe dw stack w"
| "add_nested_list_widths st fe dw ((prev, node # nodes, succ) # stack) w =
     (let following = (case nodes of n # _ \<Rightarrow> Some n | [] \<Rightarrow> succ)
      in case horizontal node of
           HzDisc replace \<Rightarrow>
             if dw = DwReplacement
             then add_nested_list_widths st fe dw ((None, page_nodes replace, following) # (Some node, nodes, succ) # stack) w
             else add_nested_list_widths st fe dw ((Some node, nodes, succ) # stack) w
         | _ \<Rightarrow>
             obind (add_plain_node_width st w node prev following fe) (\<lambda>w.
               add_nested_list_widths st fe dw ((Some node, nodes, succ) # stack) w))"
  by pat_completeness auto
termination
  by (relation "measure (\<lambda>(st, fe, dw, stack, w). sum_list (map (\<lambda>(p, ns, s). size (PageList ns)) stack))")
     (auto dest: horizontal_disc_size)

definition add_direct_node_width_value :: "LineState \<Rightarrow> Widths \<Rightarrow> page_list Node \<Rightarrow> page_list Node option \<Rightarrow> page_list Node option
    \<Rightarrow> bool \<Rightarrow> DiscretionaryWidths \<Rightarrow> Widths panicking" where
  "add_direct_node_width_value st w node prev following include_font_expansion dw =
     (case horizontal node of
        HzDisc replace \<Rightarrow>
          if dw = DwReplacement
          then add_nested_list_widths st include_font_expansion dw [(None, page_nodes replace, following)] w
          else Ok w
      | _ \<Rightarrow> add_plain_node_width st w node prev following include_font_expansion)"

text \<open>One character of a run of byte characters.\<close>

definition add_run_char :: "LineState \<Rightarrow> Widths \<Rightarrow> FontId \<Rightarrow> nat \<Rightarrow> bool \<Rightarrow> Widths panicking" where
  "add_run_char st w font code include_font_expansion =
     obind (if font_uses_tfm_metrics st font
            then (if code < length (font_widths st font) then Ok (font_widths st font ! code) else Panic)
            else Ok (case font_character_metrics st font code of None \<Rightarrow> 0 | Some m \<Rightarrow> c_width m)) (\<lambda>natural.
     obind (w_add_natural w natural) (\<lambda>w.
       if include_font_expansion then add_char_expansion st w font code natural else Ok w))"

fun line_widths_loop :: "LineState \<Rightarrow> bool \<Rightarrow> DiscretionaryWidths \<Rightarrow> page_list Node option \<Rightarrow> page_list Node list \<Rightarrow> nat
    \<Rightarrow> Widths \<Rightarrow> Widths panicking" where
  "line_widths_loop st fe dw prev [] n w = Ok w"
| "line_widths_loop st fe dw prev (node # nodes) 0 w = Ok w"
| "line_widths_loop st fe dw prev (node # nodes) (Suc n) w =
     obind (case node of
              CharNode font ch origin \<Rightarrow>
                if ch < 256 then add_run_char st w font ch fe
                else add_direct_node_width_value st w node prev (case nodes of [] \<Rightarrow> None | f # _ \<Rightarrow> Some f) fe dw
            | _ \<Rightarrow> add_direct_node_width_value st w node prev (case nodes of [] \<Rightarrow> None | f # _ \<Rightarrow> Some f) fe dw)
       (line_widths_loop st fe dw (Some node) nodes n)"

definition line_widths_cursor :: "LineState \<Rightarrow> page_list Node list \<Rightarrow> nat \<Rightarrow> nat \<Rightarrow> bool \<Rightarrow> DiscretionaryWidths \<Rightarrow> Widths panicking" where
  "line_widths_cursor st nodes start stop include_font_expansion dw =
     (let limit = min stop (length nodes);
          index = min start limit
      in line_widths_loop st include_font_expansion dw (if index = 0 then None else Some (nodes ! (index - 1)))
           (drop index nodes) (limit - index) widths_zero)"

definition line_widths_view :: "LineState \<Rightarrow> page_list \<Rightarrow> nat \<Rightarrow> nat \<Rightarrow> bool \<Rightarrow> Widths panicking" where
  "line_widths_view st l start stop include_font_expansion =
     line_widths_cursor st (page_nodes l) start stop include_font_expansion DwReplacement"

section \<open>Badness of a line\<close>

definition expansion_adjusted_shortfall :: "int \<Rightarrow> int \<Rightarrow> int \<Rightarrow> int panicking" where
  "expansion_adjusted_shortfall shortfall capacity steps =
     (if capacity > shortfall \<and> steps > 0 then Ok ((capacity sdiv steps) sdiv 2)
      else expect_some (checked64 (shortfall - capacity)))"

definition tex_badness_wide :: "int \<Rightarrow> int \<Rightarrow> int panicking" where
  "tex_badness_wide t s =
     (if t = 0 then Ok 0
      else if s \<le> 0 then Ok INF_BAD
      else let r = (if t \<le> 7230584 then (t * 297) sdiv s
                    else if s \<ge> 1663497 then t sdiv (s sdiv 297)
                    else t)
           in if r > 1290 then Ok INF_BAD
              else obind (expect_some (checked32 ((r * r * r + 131072) sdiv 262144))) (\<lambda>b. Ok (min b INF_BAD)))"

definition line_badness :: "Widths \<Rightarrow> scaled \<Rightarrow> scaled \<Rightarrow> (int \<times> int) option \<Rightarrow> int panicking" where
  "line_badness w target emergency expansion_steps =
     (let diff = wrap64 (target - t_natural (w_base w))
      in obind (case expansion_steps of
                  None \<Rightarrow> Ok diff
                | Some (stretch_steps, shrink_steps) \<Rightarrow>
                    if diff > 0 \<and> w_font_stretch w > 0
                    then expansion_adjusted_shortfall diff (w_font_stretch w) stretch_steps
                    else if diff < 0 \<and> w_font_shrink w > 0
                    then obind (expansion_adjusted_shortfall (- diff) (w_font_shrink w) shrink_steps) (\<lambda>d. Ok (- d))
                    else Ok diff) (\<lambda>diff.
         if diff \<ge> 0
         then let stretch_order = highest_order (t_stretch (w_base w))
              in if stretch_order \<noteq> ONormal \<and> t_stretch (w_base w) stretch_order > 0 then Ok 0
                 else obind (wide_add_scaled (normal_stretch w) emergency) (\<lambda>s. tex_badness_wide diff s)
         else let shrink_order = highest_order (t_shrink (w_base w))
              in if shrink_order \<noteq> ONormal \<and> t_shrink (w_base w) shrink_order > 0 then Ok 0
                 else if \<bar>diff\<bar> > normal_shrink w then Ok (INF_BAD + 1)
                 else tex_badness_wide \<bar>diff\<bar> (normal_shrink w)))"

end
