(* ===== verification/Protrusion.thy ===== *)
theory Protrusion
  imports Line_Widths
begin

text \<open>
  pdfTeX character protrusion: \<^verbatim>\<open>crates/tex-typeset/src/protrusion.rs\<close>. The edge cache of a pass is a pair of maps; its
  lookups return the updated cache.
\<close>

section \<open>Edges of a line\<close>

datatype Edge = ELeft | ERight

record Glyph =
  gl_font :: FontId
  gl_code :: nat
  gl_is_ligature :: bool

datatype Search = SGlyph Glyph | SSkip | SBlock

text \<open>The first search result that is not a skip.\<close>

fun first_search :: "Search list \<Rightarrow> Search option" where
  "first_search [] = None"
| "first_search (s # ss) = (if s = SSkip then first_search ss else Some s)"

definition edge_order :: "Edge \<Rightarrow> 'a list \<Rightarrow> 'a list" where
  "edge_order edge xs = (case edge of ELeft \<Rightarrow> xs | ERight \<Rightarrow> rev xs)"

text \<open>What a list shows at an edge, from the results of its nodes.\<close>

definition found_search :: "Search option \<Rightarrow> Search" where
  "found_search found = (case found of Some s \<Rightarrow> s | None \<Rightarrow> SSkip)"

definition search_glyph :: "Search \<Rightarrow> Glyph option" where
  "search_glyph s = (case s of SGlyph g \<Rightarrow> Some g | _ \<Rightarrow> None)"

definition byte_glyph :: "FontId \<Rightarrow> nat \<Rightarrow> bool \<Rightarrow> Search" where
  "byte_glyph font ch ligature =
     (if ch < 256 then SGlyph \<lparr>gl_font = font, gl_code = ch, gl_is_ligature = ligature\<rparr> else SBlock)"

function search_node :: "Edge \<Rightarrow> page_list Node \<Rightarrow> Search" where
  "search_node edge node =
     (case node of
        CharNode font ch origin \<Rightarrow> byte_glyph font ch False
      | Lig font ch orig lh rh origins \<Rightarrow> byte_glyph font ch True
      | HList b \<Rightarrow>
          let nodes = page_nodes (children b)
          in if nodes = []
             then (if box_width b = 0 \<and> box_height b = 0 \<and> box_depth b = 0 then SSkip else SBlock)
             else found_search (first_search (map (search_node edge) (edge_order edge nodes)))
      | Disc kind pre post replace count \<Rightarrow>
          let l = (if edge = ELeft \<and> page_nodes post \<noteq> [] then post
                   else if edge = ERight \<and> page_nodes pre \<noteq> [] then pre
                   else replace)
          in (case search_glyph (found_search (first_search (map (search_node edge) (edge_order edge (page_nodes l))))) of
                Some g \<Rightarrow> SGlyph g
              | None \<Rightarrow> SSkip)
      | Kern amount kind \<Rightarrow> if amount = 0 \<or> kind = KFont \<or> kind = KAuto then SSkip else SBlock
      | MathOn amount \<Rightarrow> if amount = 0 then SSkip else SBlock
      | MathOff amount \<Rightarrow> if amount = 0 then SSkip else SBlock
      | Glue spec kind origin leader \<Rightarrow> if origin = SharedZero then SSkip else SBlock
      | Penalty p \<Rightarrow> SSkip
      | MarginKern amount side font c \<Rightarrow> SSkip
      | Mark class tokens \<Rightarrow> SSkip
      | Ins class sz sts smd fp content \<Rightarrow> SSkip
      | WhatsitNode w \<Rightarrow> SSkip
      | Direction d \<Rightarrow> SSkip
      | Adjust a \<Rightarrow> SSkip
      | Nonscript \<Rightarrow> SSkip
      | _ \<Rightarrow> SBlock)"
  by pat_completeness auto

lemma size_member_list: "n \<in> set ns \<Longrightarrow> f n < size_list f ns"
  by (induction ns) auto

lemma page_nodes_member_size:
  "n \<in> set (page_nodes l) \<Longrightarrow> size_NodeOf size (\<lambda>x. 0) (\<lambda>x. 0) n < size l"
  by (cases l) (auto dest: size_member_list [where f = "size_NodeOf size (\<lambda>x. 0) (\<lambda>x. 0)"])

lemma size_children: "size (children b) < Suc (size_BoxNode size b)"
  by (cases b) simp

lemma set_edge_order [simp]: "set (edge_order edge xs) = set xs"
  by (cases edge) (simp_all add: edge_order_def)

termination search_node
  by (relation "measure (\<lambda>(edge, n). size_NodeOf size (\<lambda>x. 0) (\<lambda>x. 0) n)")
     (auto dest!: page_nodes_member_size intro: less_trans [OF _ size_children] split: if_splits)

declare search_node.simps [simp del]

definition search_nodes :: "Edge \<Rightarrow> page_list Node list \<Rightarrow> Search option" where
  "search_nodes edge nodes = first_search (map (search_node edge) nodes)"

text \<open>The nodes of a half-open range, with both ends clamped to the list.\<close>

definition iter_range :: "'a list \<Rightarrow> nat \<Rightarrow> nat \<Rightarrow> 'a list" where
  "iter_range nodes start stop =
     (let stop = min stop (length nodes); start = min start stop in take (stop - start) (drop start nodes))"

definition edge_search_cursor :: "page_list Node list \<Rightarrow> nat \<Rightarrow> nat \<Rightarrow> Edge \<Rightarrow> Search" where
  "edge_search_cursor nodes start stop edge =
     found_search (search_nodes edge (edge_order edge (iter_range nodes start stop)))"

definition edge_glyph_cursor :: "page_list Node list \<Rightarrow> nat \<Rightarrow> nat \<Rightarrow> Edge \<Rightarrow> Glyph option" where
  "edge_glyph_cursor nodes start stop edge = search_glyph (edge_search_cursor nodes start stop edge)"

section \<open>Protrusion amounts\<close>

record LineProtrusion =
  lp_left :: scaled
  lp_right :: scaled
  margin_stretch :: scaled
  margin_shrink :: scaled

definition round_scaled_ratio :: "scaled \<Rightarrow> int \<Rightarrow> int \<Rightarrow> scaled" where
  "round_scaled_ratio v n d =
     (let p = v * n;
          rounded = (if n < 0 then p sdiv d
                     else if p \<ge> 0 then (p + d sdiv 2) sdiv d
                     else - ((- p + d sdiv 2) sdiv d))
      in case checked32 rounded of Some r \<Rightarrow> r | None \<Rightarrow> if rounded < 0 then - (2 ^ 31) else 2 ^ 31 - 1)"

definition glyph_width :: "LineState \<Rightarrow> Glyph \<Rightarrow> Edge \<Rightarrow> scaled" where
  "glyph_width st glyph edge =
     (let code = pdf_font_code st (case edge of ELeft \<Rightarrow> FcLp | ERight \<Rightarrow> FcRp) (gl_font glyph) (gl_code glyph)
      in round_scaled_ratio (font_parameter_value st (gl_font glyph) 6) code 1000)"

definition margin_kern_variation :: "LineState \<Rightarrow> Glyph \<Rightarrow> (scaled \<times> scaled) panicking" where
  "margin_kern_variation st glyph =
     (if \<not> gl_is_ligature glyph then Ok (0, 0)
      else case font_expansion_spec st (gl_font glyph) of
        None \<Rightarrow> Ok (0, 0)
      | Some spec \<Rightarrow>
          let efcode = pdf_font_code st FcEf (gl_font glyph) (gl_code glyph);
              amount = glyph_width st glyph ELeft
          in obind (discrete_ratio spec 1000 efcode) (\<lambda>up.
             obind (if up = 0 then Ok 0 else expect_some (checked32 (- amount))) (\<lambda>stretch.
             obind (discrete_ratio spec (- 1000) efcode) (\<lambda>down.
               Ok (stretch, if down = 0 then 0 else amount)))))"

definition edge_variation :: "LineState \<Rightarrow> Glyph option \<Rightarrow> (scaled \<times> scaled) panicking" where
  "edge_variation st glyph = (case glyph of None \<Rightarrow> Ok (0, 0) | Some g \<Rightarrow> margin_kern_variation st g)"

definition line_protrusion_from_edges :: "LineState \<Rightarrow> Glyph option \<Rightarrow> Glyph option \<Rightarrow> LineProtrusion panicking" where
  "line_protrusion_from_edges st left right =
     obind (edge_variation st left) (\<lambda>(left_stretch, left_shrink).
     obind (edge_variation st right) (\<lambda>(right_stretch, right_shrink).
     obind (expect_some (checked32 (left_stretch + right_stretch))) (\<lambda>stretch.
     obind (expect_some (checked32 (left_shrink + right_shrink))) (\<lambda>shrink.
       Ok \<lparr>lp_left = (case left of None \<Rightarrow> 0 | Some g \<Rightarrow> glyph_width st g ELeft),
           lp_right = (case right of None \<Rightarrow> 0 | Some g \<Rightarrow> glyph_width st g ERight),
           margin_stretch = stretch, margin_shrink = shrink\<rparr>))))"

definition line_protrusion_cursor :: "LineState \<Rightarrow> page_list Node list \<Rightarrow> nat \<Rightarrow> nat \<Rightarrow> LineProtrusion panicking" where
  "line_protrusion_cursor st nodes start stop =
     line_protrusion_from_edges st (edge_glyph_cursor nodes start stop ELeft) (edge_glyph_cursor nodes start stop ERight)"

definition line_protrusion :: "LineState \<Rightarrow> page_list Node list \<Rightarrow> LineProtrusion panicking" where
  "line_protrusion st nodes = line_protrusion_cursor st nodes 0 (length nodes)"

definition protrusion_total :: "LineProtrusion \<Rightarrow> scaled panicking" where
  "protrusion_total p = expect_some (checked32 (lp_left p + lp_right p))"

definition margin_variation :: "LineProtrusion \<Rightarrow> scaled \<times> scaled" where
  "margin_variation p = (margin_stretch p, margin_shrink p)"

section \<open>The edge cache of a pass\<close>

record EdgeHit =
  hit_position :: nat
  hit_glyph :: "Glyph option"

record LineEdgeCache =
  cache_left :: "nat \<rightharpoonup> EdgeHit option"
  cache_right :: "nat \<rightharpoonup> EdgeHit option"

definition edge_cache_default :: LineEdgeCache where
  "edge_cache_default = \<lparr>cache_left = Map.empty, cache_right = Map.empty\<rparr>"

fun edge_hit :: "Edge \<Rightarrow> (nat \<times> page_list Node) list \<Rightarrow> EdgeHit option" where
  "edge_hit edge [] = None"
| "edge_hit edge ((position, node) # nodes) =
     (case search_node edge node of
        SGlyph glyph \<Rightarrow> Some \<lparr>hit_position = position, hit_glyph = Some glyph\<rparr>
      | SBlock \<Rightarrow> Some \<lparr>hit_position = position, hit_glyph = None\<rparr>
      | SSkip \<Rightarrow> edge_hit edge nodes)"

definition or_insert :: "('k \<rightharpoonup> 'v) \<Rightarrow> 'k \<Rightarrow> 'v \<Rightarrow> ('k \<rightharpoonup> 'v) \<times> 'v" where
  "or_insert m k v = (case m k of Some old \<Rightarrow> (m, old) | None \<Rightarrow> (m(k \<mapsto> v), v))"

definition left_edge_hit :: "page_list Node list \<Rightarrow> nat \<Rightarrow> EdgeHit option" where
  "left_edge_hit nodes start =
     (let range = iter_range nodes start (length nodes) in edge_hit ELeft (zip [start..<start + length range] range))"

definition right_edge_hit :: "page_list Node list \<Rightarrow> nat \<Rightarrow> EdgeHit option" where
  "right_edge_hit nodes stop = edge_hit ERight (zip (rev [0..<stop]) (rev (iter_range nodes 0 stop)))"

definition cached_glyph :: "(nat \<Rightarrow> bool) \<Rightarrow> EdgeHit option \<Rightarrow> Glyph option" where
  "cached_glyph inside hit = (case hit of Some h \<Rightarrow> if inside (hit_position h) then hit_glyph h else None | None \<Rightarrow> None)"

definition cached_line_protrusion :: "LineEdgeCache \<Rightarrow> LineState \<Rightarrow> page_list Node list \<Rightarrow> nat \<Rightarrow> nat
    \<Rightarrow> LineEdgeCache \<times> LineProtrusion panicking" where
  "cached_line_protrusion cache st nodes start stop =
     (let (lefts, left) = or_insert (cache_left cache) start (left_edge_hit nodes start);
          (rights, right) = or_insert (cache_right cache) stop (right_edge_hit nodes stop)
      in (\<lparr>cache_left = lefts, cache_right = rights\<rparr>,
          line_protrusion_from_edges st (cached_glyph (\<lambda>p. p < stop) left) (cached_glyph (\<lambda>p. start \<le> p) right)))"

section \<open>Margin kerns\<close>

fun is_margin_boundary :: "'l Node \<Rightarrow> bool" where
  "is_margin_boundary (Glue spec kind origin leader) \<longleftrightarrow> kind = ParFillSkip \<or> kind = RightSkip"
| "is_margin_boundary (Direction d) \<longleftrightarrow> True"
| "is_margin_boundary _ \<longleftrightarrow> False"

text \<open>The position of the last boundary node, and then the first of the boundary nodes that end there.\<close>

fun boundary_run_start :: "'l Node list \<Rightarrow> nat \<Rightarrow> nat" where
  "boundary_run_start nodes 0 = 0"
| "boundary_run_start nodes (Suc i) = (if is_margin_boundary (nodes ! i) then boundary_run_start nodes i else Suc i)"

fun last_boundary :: "'l Node list \<Rightarrow> nat \<Rightarrow> nat option" where
  "last_boundary nodes 0 = None"
| "last_boundary nodes (Suc i) = (if is_margin_boundary (nodes ! i) then Some i else last_boundary nodes i)"

definition right_margin_position :: "'l Node list \<Rightarrow> nat" where
  "right_margin_position nodes =
     (case last_boundary nodes (length nodes) of None \<Rightarrow> length nodes | Some i \<Rightarrow> boundary_run_start nodes i)"

text \<open>The cursor form walks the reversed list once.\<close>

fun continue_boundary :: "(nat \<times> 'l Node) list \<Rightarrow> nat \<Rightarrow> nat" where
  "continue_boundary [] index = index"
| "continue_boundary ((position, node) # rest) index =
     (if is_margin_boundary node then continue_boundary rest position else index)"

fun find_boundary :: "(nat \<times> 'l Node) list \<Rightarrow> nat option" where
  "find_boundary [] = None"
| "find_boundary ((position, node) # rest) =
     (if is_margin_boundary node then Some (continue_boundary rest position) else find_boundary rest)"

definition right_margin_position_cursor :: "'l Node list \<Rightarrow> nat" where
  "right_margin_position_cursor nodes =
     (case find_boundary (zip (rev [0..<length nodes]) (rev nodes)) of None \<Rightarrow> length nodes | Some i \<Rightarrow> i)"

definition margin_kern :: "LineState \<Rightarrow> Glyph option \<Rightarrow> Edge \<Rightarrow> page_list Node option panicking" where
  "margin_kern st glyph edge =
     (case glyph of
        None \<Rightarrow> Ok None
      | Some g \<Rightarrow>
          let amount = glyph_width st g edge
          in if amount = 0 then Ok None
             else obind (expect_some (checked32 (- amount))) (\<lambda>neg.
               Ok (Some (MarginKern neg (case edge of ELeft \<Rightarrow> MLeft | ERight \<Rightarrow> MRight) (gl_font g) (of_nat (gl_code g))))))"

definition insert_at :: "'a list \<Rightarrow> nat \<Rightarrow> 'a \<Rightarrow> 'a list panicking" where
  "insert_at xs i x = (if i \<le> length xs then Ok (take i xs @ x # drop i xs) else Panic)"

definition insert_margin_kerns :: "LineState \<Rightarrow> page_list Node list \<Rightarrow> nat \<Rightarrow> page_list Node list panicking" where
  "insert_margin_kerns st nodes material_start =
     (let right_boundary = right_margin_position nodes
      in obind (margin_kern st (edge_glyph_cursor nodes 0 right_boundary ERight) ERight) (\<lambda>right.
         obind (case right of Some k \<Rightarrow> insert_at nodes right_boundary k | None \<Rightarrow> Ok nodes) (\<lambda>nodes.
         obind (margin_kern st (edge_glyph_cursor nodes material_start (length nodes) ELeft) ELeft) (\<lambda>left.
           case left of Some k \<Rightarrow> insert_at nodes material_start k | None \<Rightarrow> Ok nodes))))"

record MarginKernPlan =
  plan_left :: "(nat \<times> page_list Node) option"
  plan_right :: "(nat \<times> page_list Node) option"

definition plan_margin_kerns :: "LineState \<Rightarrow> page_list Node list \<Rightarrow> nat \<Rightarrow> MarginKernPlan panicking" where
  "plan_margin_kerns st nodes material_start =
     (let right_boundary = right_margin_position_cursor nodes
      in obind (margin_kern st (edge_glyph_cursor nodes 0 right_boundary ERight) ERight) (\<lambda>right.
         obind (margin_kern st (edge_glyph_cursor nodes material_start (length nodes) ELeft) ELeft) (\<lambda>left.
           Ok \<lparr>plan_left = map_option (\<lambda>k. (material_start, k)) left,
               plan_right = map_option (\<lambda>k. (right_boundary, k)) right\<rparr>)))"

section \<open>The cache agrees with the bounded search\<close>

fun hit_search :: "EdgeHit option \<Rightarrow> Search" where
  "hit_search None = SSkip"
| "hit_search (Some h) = (case hit_glyph h of Some g \<Rightarrow> SGlyph g | None \<Rightarrow> SBlock)"

lemma first_search_append:
  "first_search (xs @ ys) = (case first_search xs of Some s \<Rightarrow> Some s | None \<Rightarrow> first_search ys)"
  by (induction xs) auto

lemma edge_hit_search:
  "found_search (search_nodes edge (map snd xs)) = hit_search (edge_hit edge xs)"
  by (induction edge xs rule: edge_hit.induct)
     (auto simp: search_nodes_def found_search_def split: Search.splits)

lemma edge_hit_position: "edge_hit edge xs = Some h \<Longrightarrow> hit_position h \<in> fst ` set xs"
  by (induction edge xs rule: edge_hit.induct) (auto split: Search.splits)

lemma edge_hit_append:
  "edge_hit edge (xs @ ys) = (case edge_hit edge xs of Some h \<Rightarrow> Some h | None \<Rightarrow> edge_hit edge ys)"
  by (induction edge xs rule: edge_hit.induct) (auto split: Search.splits)

text \<open>A search that stops inside the visible part of the list is the search of that part.\<close>

lemma cached_glyph_bounded:
  assumes "\<forall>p\<in>fst ` set xs. inside p" and "\<forall>p\<in>fst ` set ys. \<not> inside p"
  shows "cached_glyph inside (edge_hit edge (xs @ ys)) = search_glyph (found_search (search_nodes edge (map snd xs)))"
proof (cases "edge_hit edge xs")
  case None
  then show ?thesis using assms(2)
    by (auto simp: edge_hit_append edge_hit_search search_glyph_def cached_glyph_def dest!: edge_hit_position split: option.splits)
next
  case (Some h)
  then show ?thesis using assms(1)
    by (auto simp: edge_hit_append edge_hit_search search_glyph_def cached_glyph_def dest!: edge_hit_position split: option.splits)
qed

lemma upt_split: "start \<le> stop \<Longrightarrow> stop \<le> n \<Longrightarrow> [start..<n] = [start..<stop] @ [stop..<n]"
  using upt_add_eq_append [of start stop "n - stop"] by simp

lemma drop_split: "start \<le> stop \<Longrightarrow> drop start xs = take (stop - start) (drop start xs) @ drop stop xs"
  by (metis append_take_drop_id drop_drop le_add_diff_inverse2)

lemma zip_upt_split:
  assumes "start \<le> stop" and "stop \<le> length nodes"
  shows "zip [start..<length nodes] (drop start nodes)
    = zip [start..<stop] (take (stop - start) (drop start nodes)) @ zip [stop..<length nodes] (drop stop nodes)"
proof -
  have "zip ([start..<stop] @ [stop..<length nodes]) (take (stop - start) (drop start nodes) @ drop stop nodes)
      = zip [start..<stop] (take (stop - start) (drop start nodes)) @ zip [stop..<length nodes] (drop stop nodes)"
    using assms by (intro zip_append) simp
  then show ?thesis using assms by (simp add: upt_split [symmetric] drop_split [symmetric])
qed

lemma fst_zip_upt: "fst ` set (zip [a..<b] xs) \<subseteq> {a..<b}"
  by (auto dest!: set_zip_leftD)

lemma iter_range_inside: "start \<le> stop \<Longrightarrow> stop \<le> length nodes \<Longrightarrow> iter_range nodes start stop = take (stop - start) (drop start nodes)"
  by (simp add: iter_range_def)

lemma left_cached_glyph:
  assumes "start \<le> stop" and "stop \<le> length nodes"
  shows "cached_glyph (\<lambda>p. p < stop) (left_edge_hit nodes start) = edge_glyph_cursor nodes start stop ELeft"
proof -
  let ?xs = "zip [start..<stop] (take (stop - start) (drop start nodes))" and ?ys = "zip [stop..<length nodes] (drop stop nodes)"
  have hit: "left_edge_hit nodes start = edge_hit ELeft (?xs @ ?ys)"
    using assms by (simp add: left_edge_hit_def iter_range_inside zip_upt_split [OF assms])
  have "cached_glyph (\<lambda>p. p < stop) (edge_hit ELeft (?xs @ ?ys)) = search_glyph (found_search (search_nodes ELeft (map snd ?xs)))"
    by (rule cached_glyph_bounded) (use fst_zip_upt in fastforce)+
  moreover have "map snd ?xs = iter_range nodes start stop" using assms by (simp add: iter_range_inside)
  ultimately show ?thesis using hit
    by (simp only: edge_glyph_cursor_def edge_search_cursor_def edge_order_def Edge.case)
qed

lemma right_cached_glyph:
  assumes "start \<le> stop" and "stop \<le> length nodes"
  shows "cached_glyph (\<lambda>p. start \<le> p) (right_edge_hit nodes stop) = edge_glyph_cursor nodes start stop ERight"
proof -
  let ?ns = "take stop nodes"
  let ?xs = "rev (zip [start..<stop] (drop start ?ns))" and ?ys = "rev (zip [0..<start] (take start ?ns))"
  have "zip [0..<stop] ?ns = zip [0..<start] (take start ?ns) @ zip [start..<stop] (drop start ?ns)"
    using zip_upt_split [of 0 start ?ns] assms by simp
  then have hit: "right_edge_hit nodes stop = edge_hit ERight (?xs @ ?ys)"
    using assms by (simp add: right_edge_hit_def iter_range_inside zip_rev del: zip_rev [symmetric])
  have "cached_glyph (\<lambda>p. start \<le> p) (edge_hit ERight (?xs @ ?ys)) = search_glyph (found_search (search_nodes ERight (map snd ?xs)))"
    by (rule cached_glyph_bounded) (use fst_zip_upt in fastforce)+
  moreover have "map snd ?xs = rev (iter_range nodes start stop)"
    using assms by (simp add: iter_range_inside rev_map [symmetric] drop_take)
  ultimately show ?thesis using hit
    by (simp only: edge_glyph_cursor_def edge_search_cursor_def edge_order_def Edge.case)
qed

definition memo_of :: "('k \<Rightarrow> 'v) \<Rightarrow> ('k \<rightharpoonup> 'v) \<Rightarrow> bool" where
  "memo_of f m \<longleftrightarrow> (\<forall>k v. m k = Some v \<longrightarrow> v = f k)"

lemma or_insert_memo:
  assumes "memo_of f m" and "or_insert m k (f k) = (m', v)"
  shows "memo_of f m'" and "v = f k"
  using assms by (auto simp: memo_of_def or_insert_def split: option.splits if_splits)

definition cache_ok :: "page_list Node list \<Rightarrow> LineEdgeCache \<Rightarrow> bool" where
  "cache_ok nodes cache \<longleftrightarrow> memo_of (left_edge_hit nodes) (cache_left cache) \<and> memo_of (right_edge_hit nodes) (cache_right cache)"

lemma cache_ok_default [simp]: "cache_ok nodes edge_cache_default"
  by (simp add: cache_ok_def edge_cache_default_def memo_of_def)

lemma cached_line_protrusion_cursor:
  assumes "cache_ok nodes cache" and "start \<le> stop" and "stop \<le> length nodes"
    and "cached_line_protrusion cache st nodes start stop = (cache', p)"
  shows "p = line_protrusion_cursor st nodes start stop" and "cache_ok nodes cache'"
proof -
  obtain lefts left where l: "or_insert (cache_left cache) start (left_edge_hit nodes start) = (lefts, left)" by force
  obtain rights right where r: "or_insert (cache_right cache) stop (right_edge_hit nodes stop) = (rights, right)" by force
  have "memo_of (left_edge_hit nodes) lefts" "left = left_edge_hit nodes start"
    using assms(1) or_insert_memo [where f = "left_edge_hit nodes", OF _ l] by (simp_all add: cache_ok_def)
  moreover have "memo_of (right_edge_hit nodes) rights" "right = right_edge_hit nodes stop"
    using assms(1) or_insert_memo [where f = "right_edge_hit nodes", OF _ r] by (simp_all add: cache_ok_def)
  ultimately show "p = line_protrusion_cursor st nodes start stop" and "cache_ok nodes cache'"
    using assms(2-4) l r
    by (auto simp: cached_line_protrusion_def cache_ok_def line_protrusion_cursor_def left_cached_glyph right_cached_glyph)
qed

text \<open>The requests of a pass, in order.\<close>

fun cached_line_protrusions :: "LineEdgeCache \<Rightarrow> LineState \<Rightarrow> page_list Node list \<Rightarrow> (nat \<times> nat) list \<Rightarrow> LineProtrusion panicking list" where
  "cached_line_protrusions cache st nodes [] = []"
| "cached_line_protrusions cache st nodes ((start, stop) # requests) =
     (let (cache', p) = cached_line_protrusion cache st nodes start stop
      in p # cached_line_protrusions cache' st nodes requests)"

lemma cached_line_protrusions_from:
  "cache_ok nodes cache \<Longrightarrow> \<forall>(start, stop)\<in>set requests. start \<le> stop \<and> stop \<le> length nodes \<Longrightarrow>
     cached_line_protrusions cache st nodes requests = map (\<lambda>(start, stop). line_protrusion_cursor st nodes start stop) requests"
  by (induction cache st nodes requests rule: cached_line_protrusions.induct)
     (auto dest: cached_line_protrusion_cursor split: prod.splits)

section \<open>Margin positions\<close>

lemma continue_boundary_run:
  "i \<le> length nodes \<Longrightarrow> continue_boundary (zip (rev [0..<i]) (rev (take i nodes))) i = boundary_run_start nodes i"
proof (induction i)
  case (Suc i)
  then show ?case by (simp add: take_Suc_conv_app_nth)
qed simp

lemma find_boundary_last:
  "i \<le> length nodes \<Longrightarrow> find_boundary (zip (rev [0..<i]) (rev (take i nodes))) = map_option (boundary_run_start nodes) (last_boundary nodes i)"
proof (induction i)
  case (Suc i)
  then show ?case using continue_boundary_run [of i nodes] by (simp add: take_Suc_conv_app_nth)
qed simp

lemma right_margin_position_agree: "right_margin_position_cursor nodes = right_margin_position nodes"
  using find_boundary_last [of "length nodes" nodes]
  by (simp add: right_margin_position_cursor_def right_margin_position_def split: option.splits)

section \<open>Inserting margin kerns\<close>

text \<open>What the plan of a line stands for: the right kern is inserted first, so that its coordinate is the source's.\<close>

definition insert_planned :: "page_list Node list \<Rightarrow> (nat \<times> page_list Node) option \<Rightarrow> page_list Node list panicking" where
  "insert_planned nodes planned = (case planned of None \<Rightarrow> Ok nodes | Some (i, node) \<Rightarrow> insert_at nodes i node)"

definition apply_margin_plan :: "page_list Node list \<Rightarrow> MarginKernPlan \<Rightarrow> page_list Node list panicking" where
  "apply_margin_plan nodes plan = obind (insert_planned nodes (plan_right plan)) (\<lambda>nodes. insert_planned nodes (plan_left plan))"

lemma search_margin_kern [simp]: "search_node edge (MarginKern amount side font c) = SSkip"
  by (simp add: search_node.simps)

lemma first_search_skip: "first_search (xs @ SSkip # ys) = first_search (xs @ ys)"
  by (induction xs) simp_all

lemma edge_glyph_insert_margin_kern:
  assumes "m \<le> i" and "i \<le> length nodes"
  shows "edge_glyph_cursor (take i nodes @ MarginKern amount side font c # drop i nodes) m (Suc (length nodes)) ELeft
    = edge_glyph_cursor nodes m (length nodes) ELeft"
proof -
  have "drop m nodes = drop m (take i nodes) @ drop i nodes"
    using assms by (metis append_take_drop_id diff_is_0_eq drop0 drop_append length_take min.absorb2)
  then show ?thesis using assms
    by (simp add: edge_glyph_cursor_def edge_search_cursor_def iter_range_inside edge_order_def search_nodes_def first_search_skip)
qed

lemma right_margin_position_le: "right_margin_position nodes \<le> length nodes"
proof -
  have run: "boundary_run_start nodes i \<le> i" for i by (induction i) auto
  have "last_boundary nodes i = Some j \<Longrightarrow> j \<le> i" for i j by (induction i) (auto split: if_splits)
  then show ?thesis using run order_trans by (simp add: right_margin_position_def split: option.splits) blast
qed

lemma margin_kern_shape: "margin_kern st g edge = Ok (Some k) \<Longrightarrow> \<exists>amount side font c. k = MarginKern amount side font c"
  by (auto simp: margin_kern_def Let_def outcome_simps split: option.splits if_splits)


lemmas margin_plan_defs = insert_margin_kerns_def plan_margin_kerns_def apply_margin_plan_def insert_planned_def
  right_margin_position_agree Let_def

lemma insert_margin_kerns_planned:
  assumes "material_start \<le> right_margin_position nodes"
  shows "insert_margin_kerns st nodes material_start = obind (plan_margin_kerns st nodes material_start) (apply_margin_plan nodes)"
proof (cases "margin_kern st (edge_glyph_cursor nodes 0 (right_margin_position nodes) ERight) ERight")
  case (Ok right)
  show ?thesis
  proof (cases right)
    case None
    then show ?thesis using Ok
      by (cases "margin_kern st (edge_glyph_cursor nodes material_start (length nodes) ELeft) ELeft")
         (simp_all add: margin_plan_defs split: option.splits)
  next
    case (Some k)
    then obtain amount side font c where k: "k = MarginKern amount side font c" using Ok margin_kern_shape by blast
    show ?thesis using Ok Some assms right_margin_position_le [of nodes]
      by (cases "margin_kern st (edge_glyph_cursor nodes material_start (length nodes) ELeft) ELeft")
         (simp_all add: margin_plan_defs insert_at_def k edge_glyph_insert_margin_kern split: option.splits)
  qed
qed (simp_all add: margin_plan_defs)

section \<open>Properties\<close>

text \<open>C15. The edge cache of a break pass changes nothing: for any sequence of candidate lines of a paragraph, requested in any
  order from a fresh cache, the cached unbounded searches give exactly the protrusion that a bounded search of each line
  gives.
\<close>

theorem edge_cache_exact:
  assumes "\<forall>(start, stop)\<in>set requests. start \<le> stop \<and> stop \<le> length nodes"
  shows "cached_line_protrusions edge_cache_default st nodes requests
    = map (\<lambda>(start, stop). line_protrusion_cursor st nodes start stop) requests"
  using assms by (simp add: cached_line_protrusions_from)

definition edge_state :: LineState where
  "edge_state = \<lparr>font_character_metrics = (\<lambda>f c. None), font_uses_tfm_metrics = (\<lambda>f. False), font_characters = (\<lambda>f. []), font_widths = (\<lambda>f. []),
     font_parameter_value = (\<lambda>f i. 10000), pdf_font_code = (\<lambda>t f c. 100), font_kern = (\<lambda>f a b. None),
     font_expansion_spec = (\<lambda>f. None)\<rparr>"

definition edge_paragraph :: "page_list Node list" where
  "edge_paragraph = [Penalty 0, CharNode 1 65 0, Glue glue_ZERO GNormal Owned None, CharNode 1 300 0]"

theorem edge_cache_exact_witness:
  "cached_line_protrusions edge_cache_default edge_state edge_paragraph [(0, 4), (2, 4), (0, 2), (0, 4)]
     = map (\<lambda>(start, stop). line_protrusion_cursor edge_state edge_paragraph start stop) [(0, 4), (2, 4), (0, 2), (0, 4)]
   \<and> line_protrusion_cursor edge_state edge_paragraph 0 2
       = Ok \<lparr>lp_left = 1000, lp_right = 1000, margin_stretch = 0, margin_shrink = 0\<rparr>"
  using edge_cache_exact [of "[(0, 4), (2, 4), (0, 2), (0, 4)]" edge_paragraph edge_state]
  by (simp add: edge_paragraph_def edge_state_def) code_simp

text \<open>C18. Planning the margin kerns of an arena-backed line agrees with inserting them into an owned list: inserting the
  planned right kern and then the planned left kern gives the list that direct insertion gives, panics included, as long
  as the line's material starts before its right boundary.
\<close>

theorem margin_kern_plan_exact:
  assumes "material_start \<le> right_margin_position nodes"
  shows "insert_margin_kerns st nodes material_start = obind (plan_margin_kerns st nodes material_start) (apply_margin_plan nodes)"
  using assms by (rule insert_margin_kerns_planned)

definition margin_line :: "page_list Node list" where
  "margin_line = [Glue glue_ZERO LeftSkip Owned None, CharNode 1 65 0, CharNode 1 66 0, Glue glue_ZERO RightSkip Owned None]"

theorem margin_kern_plan_exact_witness:
  "insert_margin_kerns edge_state margin_line 1 = obind (plan_margin_kerns edge_state margin_line 1) (apply_margin_plan margin_line)
   \<and> obind (insert_margin_kerns edge_state margin_line 1) (\<lambda>ns. Ok (take 2 (drop 1 ns)))
       = Ok [MarginKern (- 1000) MLeft 1 65, CharNode 1 65 0]"
  using margin_kern_plan_exact [of 1 margin_line edge_state]
  by (simp add: right_margin_position_def margin_line_def) code_simp

end
