(* ===== verification/Break_Sites.thy ===== *)
theory Break_Sites
  imports Protrusion
begin

text \<open>
  The analysis of a paragraph before its breaks are chosen: the parameters, the line shape, the legal breakpoints and the
  paragraph tape of \<^verbatim>\<open>crates/tex-typeset/src/linebreak/mod.rs\<close>. A \<open>BreakSite\<close> of the source holds a breakpoint and nothing
  else, so a tape holds breakpoints. The high-cell lineages of an arena-backed tape are evidence for diagnostics and are
  left out. A \<open>usize\<close> is a natural number, with the checked additions of the source.
\<close>

section \<open>Parameters\<close>

definition EJECT_PENALTY_lb :: int where "EJECT_PENALTY_lb = - 10000"
definition INF_PENALTY_lb :: int where "INF_PENALTY_lb = 10000"
definition AWFUL_BAD_lb :: int where "AWFUL_BAD_lb = 1073741823"

definition usize_add :: "nat \<Rightarrow> nat \<Rightarrow> nat panicking" where
  "usize_add a b = (if int a + int b < 2 ^ 64 then Ok (a + b) else Panic)"

definition add_lb :: "scaled \<Rightarrow> scaled \<Rightarrow> scaled panicking" where
  "add_lb left right = expect_some (checked32 (left + right))"

definition sub_scaled_lb :: "scaled \<Rightarrow> scaled \<Rightarrow> scaled panicking" where
  "sub_scaled_lb left right = expect_some (checked32 (left - right))"

record LineShapeEntry =
  entry_indent :: scaled
  entry_width :: scaled

record LineShape =
  shape_hsize :: scaled
  parshape :: "LineShapeEntry list option"
  hang_indent :: scaled
  hang_after :: int
  line_offset :: nat

record LineDimensions =
  ld_indent :: scaled
  ld_width :: scaled

definition natural_shape :: "scaled \<Rightarrow> LineShape" where
  "natural_shape hsize = \<lparr>shape_hsize = hsize, parshape = None, hang_indent = 0, hang_after = 1, line_offset = 0\<rparr>"

definition saturating_abs_usize :: "int \<Rightarrow> nat" where
  "saturating_abs_usize v = nat (if v = - (2 ^ 31) then 2 ^ 31 - 1 else \<bar>v\<bar>)"

definition hanging_applies :: "nat \<Rightarrow> int \<Rightarrow> bool" where
  "hanging_applies line_no after =
     (if after < 0 then line_no \<le> saturating_abs_usize after else line_no > nat after)"

definition hanging_dimensions :: "LineShape \<Rightarrow> nat \<Rightarrow> LineDimensions panicking" where
  "hanging_dimensions shape one_based =
     (if hang_indent shape = 0 \<or> \<not> hanging_applies one_based (hang_after shape)
      then Ok \<lparr>ld_indent = 0, ld_width = shape_hsize shape\<rparr>
      else let amount = hang_indent shape
           in if amount \<ge> 0
              then obind (sub_scaled_lb (shape_hsize shape) amount) (\<lambda>w. Ok \<lparr>ld_indent = amount, ld_width = w\<rparr>)
              else obind (add_lb (shape_hsize shape) amount) (\<lambda>w. Ok \<lparr>ld_indent = 0, ld_width = w\<rparr>))"

definition dimensions :: "LineShape \<Rightarrow> nat \<Rightarrow> LineDimensions panicking" where
  "dimensions shape line_no =
     obind (usize_add (max line_no 1) (line_offset shape)) (\<lambda>one_based.
       case parshape shape of
         Some lines \<Rightarrow>
           if lines \<noteq> []
           then let entry = lines ! min (one_based - 1) (length lines - 1)
                in Ok \<lparr>ld_indent = entry_indent entry, ld_width = entry_width entry\<rparr>
           else hanging_dimensions shape one_based
       | None \<Rightarrow> hanging_dimensions shape one_based)"

record LineBreakParams =
  pretolerance :: int
  tolerance :: int
  line_penalty :: int
  hyphen_penalty :: int
  ex_hyphen_penalty :: int
  adj_demerits :: int
  double_hyphen_demerits :: int
  final_hyphen_demerits :: int
  emergency_stretch :: scaled
  looseness :: int
  last_line_fit :: int
  pdf_adjust_spacing :: int
  expansion_steps :: "(int \<times> int) option"
  pdf_protrude_chars :: int
  left_skip :: GlueSpec
  right_skip :: GlueSpec
  par_fill_skip :: GlueSpec
  shape :: LineShape

section \<open>Legal breakpoints\<close>

record Breakpoint =
  bp_position :: nat
  protrusion_end :: nat
  bp_penalty :: int
  bp_hyphenated :: bool
  add_width :: Widths
  line_width :: Widths
  next_position :: nat
  next_width :: Widths

datatype MaterializationAction = CopyNode | DiscretionaryAction | BreakDiscardable | BreakMath

fun is_direct_discardable :: "'l Node \<Rightarrow> bool" where
  "is_direct_discardable (Glue spec kind origin leader) \<longleftrightarrow> True"
| "is_direct_discardable (Penalty p) \<longleftrightarrow> True"
| "is_direct_discardable (MathOn w) \<longleftrightarrow> True"
| "is_direct_discardable (MathOff w) \<longleftrightarrow> True"
| "is_direct_discardable (Kern amount kind) \<longleftrightarrow> kind = KExplicit \<or> kind = KMu"
| "is_direct_discardable _ \<longleftrightarrow> False"

fun is_glue_kind :: "'l Node \<Rightarrow> bool" where
  "is_glue_kind (Glue spec kind origin leader) \<longleftrightarrow> True"
| "is_glue_kind _ \<longleftrightarrow> False"

fun is_explicit_kern :: "'l Node \<Rightarrow> bool" where
  "is_explicit_kern (Kern amount kind) \<longleftrightarrow> kind = KExplicit"
| "is_explicit_kern _ \<longleftrightarrow> False"

definition some_and :: "('a \<Rightarrow> bool) \<Rightarrow> 'a option \<Rightarrow> bool" where
  "some_and p v = (case v of None \<Rightarrow> False | Some a \<Rightarrow> p a)"

definition discretionary_penalty :: "bool \<Rightarrow> LineBreakParams \<Rightarrow> int" where
  "discretionary_penalty pre_is_empty params = (if pre_is_empty then ex_hyphen_penalty params else hyphen_penalty params)"

record LegalBreakpoints =
  lb_prefix :: Widths
  auto_breaking :: bool
  materialization :: "MaterializationAction list"
  lb_output :: "Breakpoint list"
  pending_start :: "nat option"

definition legal_breakpoints_new :: LegalBreakpoints where
  "legal_breakpoints_new = \<lparr>lb_prefix = widths_zero, auto_breaking = True, materialization = [], lb_output = [], pending_start = None\<rparr>"

definition zero_penalty_break :: "LegalBreakpoints \<Rightarrow> nat \<Rightarrow> 'l Node \<Rightarrow> 'l Node option \<Rightarrow> 'l Node option \<Rightarrow> bool" where
  "zero_penalty_break lb index node prev following \<longleftrightarrow> auto_breaking lb
     \<and> ((is_glue_kind node \<and> index > 0 \<and> some_and (\<lambda>n. \<not> is_direct_discardable n) prev)
        \<or> (is_explicit_kern node \<and> some_and is_glue_kind following))"

text \<open>
  A break before the node: its position, the end of the material visible at the right edge, the penalty, whether it is a
  hyphen, the width it adds and the list that a break leaves for the next line; with the new value of \<open>auto_breaking\<close>.
\<close>

type_synonym break_definition = "nat \<times> nat \<times> int \<times> bool \<times> Widths \<times> page_list option"

definition break_definition_of :: "LineState \<Rightarrow> LineBreakParams \<Rightarrow> LegalBreakpoints \<Rightarrow> nat \<Rightarrow> page_list Node
    \<Rightarrow> page_list Node option \<Rightarrow> page_list Node option \<Rightarrow> (break_definition option \<times> bool) panicking" where
  "break_definition_of st params lb index node prev following =
     (let plain = (\<lambda>p. Some (index + 1, index, p, False, widths_zero, None))
      in if zero_penalty_break lb index node prev following then Ok (plain 0, auto_breaking lb)
         else case node of
           Penalty p \<Rightarrow> if p < INF_PENALTY_lb then Ok (plain (max p EJECT_PENALTY_lb), auto_breaking lb) else Ok (None, auto_breaking lb)
         | Disc kind pre post replace count \<Rightarrow>
             obind (line_widths_view st pre 0 (length (page_nodes pre)) (pdf_adjust_spacing params > 1)) (\<lambda>w.
               Ok (Some (index + 1, index + 1, discretionary_penalty (page_nodes pre = []) params, True, w, Some post),
                   auto_breaking lb))
         | MathOff w \<Rightarrow> if some_and is_glue_kind following then Ok (plain 0, True) else Ok (None, True)
         | MathOn w \<Rightarrow> Ok (None, False)
         | _ \<Rightarrow> Ok (None, auto_breaking lb))"

definition materialization_action :: "'l Node \<Rightarrow> bool \<Rightarrow> MaterializationAction" where
  "materialization_action node breaks =
     (case node of
        Disc kind pre post replace count \<Rightarrow> DiscretionaryAction
      | Glue spec kind origin leader \<Rightarrow> if breaks then BreakDiscardable else CopyNode
      | Kern amount kind \<Rightarrow> if breaks \<and> kind = KExplicit then BreakDiscardable else CopyNode
      | MathOff w \<Rightarrow> if breaks then BreakMath else CopyNode
      | _ \<Rightarrow> CopyNode)"

text \<open>The site of a break and whether it waits for the end of the discardable nodes that follow.\<close>

definition break_site_of :: "LineState \<Rightarrow> LineBreakParams \<Rightarrow> Widths \<Rightarrow> Widths \<Rightarrow> break_definition \<Rightarrow> (Breakpoint \<times> bool) panicking" where
  "break_site_of st params width_before prefix d =
     (case d of (position, visible_end, penalty, hyphenated, added, post) \<Rightarrow>
        obind (case post of
                 Some l \<Rightarrow>
                   if page_nodes l \<noteq> []
                   then obind (line_widths_view st l 0 (length (page_nodes l)) (pdf_adjust_spacing params > 1)) (\<lambda>w.
                        obind (widths_sub prefix w) (\<lambda>n. Ok (n, False)))
                   else Ok (prefix, True)
               | None \<Rightarrow> Ok (prefix, True)) (\<lambda>(n, awaits).
          Ok (\<lparr>bp_position = position, protrusion_end = visible_end, bp_penalty = penalty, bp_hyphenated = hyphenated,
               add_width = added, line_width = width_before, next_position = position, next_width = n\<rparr>, awaits)))"

definition advance_breakpoints :: "LegalBreakpoints \<Rightarrow> Widths \<Rightarrow> bool \<Rightarrow> page_list Node \<Rightarrow> break_definition option \<Rightarrow> LegalBreakpoints" where
  "advance_breakpoints lb prefix auto node d =
     lb\<lparr>lb_prefix := prefix, auto_breaking := auto,
        materialization := materialization lb @ [materialization_action node (d \<noteq> None)]\<rparr>"

definition observe_node :: "LineState \<Rightarrow> LineBreakParams \<Rightarrow> LegalBreakpoints \<Rightarrow> nat \<Rightarrow> page_list Node
    \<Rightarrow> page_list Node option \<Rightarrow> page_list Node option \<Rightarrow> (LegalBreakpoints \<times> (Breakpoint \<times> bool) option) panicking" where
  "observe_node st params lb index node prev following =
     obind (add_direct_node_width_value st (lb_prefix lb) node prev following (pdf_adjust_spacing params > 1) DwReplacement) (\<lambda>prefix.
     obind (break_definition_of st params lb index node prev following) (\<lambda>(d, auto).
       case d of
         None \<Rightarrow> Ok (advance_breakpoints lb prefix auto node d, None)
       | Some bd \<Rightarrow>
           obind (break_site_of st params (lb_prefix lb) prefix bd) (\<lambda>site.
             Ok (advance_breakpoints lb prefix auto node d, Some site))))"

definition finalize_pending :: "LegalBreakpoints \<Rightarrow> nat \<Rightarrow> LegalBreakpoints" where
  "finalize_pending lb position =
     (case pending_start lb of
        None \<Rightarrow> lb
      | Some start \<Rightarrow>
          lb\<lparr>lb_output := take start (lb_output lb)
               @ map (\<lambda>bp. bp\<lparr>next_position := position, next_width := lb_prefix lb\<rparr>) (drop start (lb_output lb)),
             pending_start := None\<rparr>)"

definition push_site :: "LegalBreakpoints \<Rightarrow> Breakpoint \<times> bool \<Rightarrow> LegalBreakpoints" where
  "push_site lb found =
     (let (site, awaits) = found;
          pending = (if awaits \<and> pending_start lb = None then Some (length (lb_output lb)) else pending_start lb)
      in lb\<lparr>pending_start := pending, lb_output := lb_output lb @ [site]\<rparr>)"

definition observe_direct_node :: "LineState \<Rightarrow> LineBreakParams \<Rightarrow> LegalBreakpoints \<Rightarrow> nat \<Rightarrow> page_list Node
    \<Rightarrow> page_list Node option \<Rightarrow> page_list Node option \<Rightarrow> LegalBreakpoints panicking" where
  "observe_direct_node st params lb index node prev following =
     obind (observe_node st params (if is_direct_discardable node then lb else finalize_pending lb index) index node prev following)
       (\<lambda>(lb, found). Ok (case found of None \<Rightarrow> lb | Some site \<Rightarrow> push_site lb site))"

fun collect_nodes :: "LineState \<Rightarrow> LineBreakParams \<Rightarrow> nat \<Rightarrow> page_list Node option \<Rightarrow> page_list Node list
    \<Rightarrow> LegalBreakpoints \<Rightarrow> LegalBreakpoints panicking" where
  "collect_nodes st params index prev [] lb = Ok lb"
| "collect_nodes st params index prev (node # nodes) lb =
     obind (observe_direct_node st params lb index node prev (case nodes of [] \<Rightarrow> None | n # _ \<Rightarrow> Some n))
       (collect_nodes st params (Suc index) (Some node) nodes)"

definition paragraph_end_site :: "nat \<Rightarrow> Widths \<Rightarrow> Breakpoint" where
  "paragraph_end_site n prefix =
     \<lparr>bp_position = n, protrusion_end = n, bp_penalty = EJECT_PENALTY_lb, bp_hyphenated = False, add_width = widths_zero,
      line_width = prefix, next_position = n, next_width = prefix\<rparr>"

definition collect_direct :: "LineState \<Rightarrow> LineBreakParams \<Rightarrow> page_list Node list \<Rightarrow> LegalBreakpoints panicking" where
  "collect_direct st params nodes =
     obind (collect_nodes st params 0 None nodes legal_breakpoints_new) (\<lambda>lb.
       let lb = finalize_pending lb (length nodes); n = length nodes
       in Ok (if lb_output lb = [] \<or> bp_position (last (lb_output lb)) < n
              then lb\<lparr>lb_output := lb_output lb @ [paragraph_end_site n (lb_prefix lb)]\<rparr>
              else lb))"

section \<open>The paragraph tape\<close>

record ParagraphTape =
  tape_nodes :: "page_list Node list"
  break_sites :: "Breakpoint list"
  tape_materialization :: "MaterializationAction list"
  par_fill_override :: "GlueSpec option"

definition analyze_borrowed :: "LineState \<Rightarrow> page_list Node list \<Rightarrow> LineBreakParams \<Rightarrow> ParagraphTape panicking" where
  "analyze_borrowed st nodes params =
     obind (collect_direct st params nodes) (\<lambda>lb.
       Ok \<lparr>tape_nodes = nodes, break_sites = lb_output lb, tape_materialization = materialization lb, par_fill_override = None\<rparr>)"

definition replace_last_par_fill :: "ParagraphTape \<Rightarrow> GlueSpec \<Rightarrow> ParagraphTape" where
  "replace_last_par_fill tape spec = tape\<lparr>par_fill_override := Some spec\<rparr>"

section \<open>Paragraph-wide expansion\<close>

function observe_expansion_fonts :: "LineState \<Rightarrow> page_list Node list \<Rightarrow> ParagraphExpansion
    \<Rightarrow> (FontExpansionError, ParagraphExpansion) outcome" where
  "observe_expansion_fonts st [] paragraph = Ok paragraph"
| "observe_expansion_fonts st (node # nodes) paragraph =
     (case node_glyph node of
        Some (font, ch) \<Rightarrow>
          obind (case font_expansion_spec st font of None \<Rightarrow> Ok paragraph | Some spec \<Rightarrow> expansion_observe paragraph spec)
            (observe_expansion_fonts st nodes)
      | None \<Rightarrow>
          (case node of
             Disc kind pre post replace count \<Rightarrow>
               obind (observe_expansion_fonts st (page_nodes pre) paragraph) (\<lambda>p.
               obind (observe_expansion_fonts st (page_nodes post) p) (\<lambda>p.
               obind (observe_expansion_fonts st (page_nodes replace) p) (observe_expansion_fonts st nodes)))
           | _ \<Rightarrow> observe_expansion_fonts st nodes paragraph))"
  by pat_completeness auto

lemma size_page_nodes: "size_list (size_NodeOf size (\<lambda>x. 0) (\<lambda>x. 0)) (page_nodes l) < size l"
  by (cases l) simp

termination observe_expansion_fonts
  by (relation "measure (\<lambda>(st, nodes, p). size (PageList nodes))") (auto intro!: less_le_trans [OF size_page_nodes])

definition validate_paragraph_expansion :: "LineState \<Rightarrow> page_list Node list \<Rightarrow> (FontExpansionError, (int \<times> int) option) outcome" where
  "validate_paragraph_expansion st nodes =
     obind (observe_expansion_fonts st nodes paragraph_expansion_default) (\<lambda>p. Ok (expansion_steps_of p))"

definition plan_line_expansion_cursor :: "LineState \<Rightarrow> page_list Node list \<Rightarrow> scaled \<Rightarrow> int panicking" where
  "plan_line_expansion_cursor st nodes target =
     obind (line_widths_cursor st nodes 0 (length nodes) True DwIgnore) (\<lambda>w.
     obind (wide_sub (wide_from_scaled target) (t_natural (w_base w))) (\<lambda>wide.
     obind (expect_some (wide_to_scaled wide)) (\<lambda>shortfall.
     obind (expect_some (wide_to_scaled (w_font_stretch w))) (\<lambda>stretch.
     obind (expect_some (wide_to_scaled (w_font_shrink w))) (\<lambda>shrink.
       line_expansion_ratio shortfall \<lparr>ec_stretch = stretch, ec_shrink = shrink\<rparr> (has_infinite_adjustment w shortfall))))))"

section \<open>The order of break sites\<close>

text \<open>A break site of the first \<open>i\<close> nodes.\<close>

definition site_within :: "nat \<Rightarrow> Breakpoint \<Rightarrow> bool" where
  "site_within i bp \<longleftrightarrow> 0 < bp_position bp \<and> bp_position bp \<le> i \<and> protrusion_end bp \<le> bp_position bp
     \<and> bp_position bp \<le> next_position bp \<and> next_position bp \<le> i"

definition sites_sorted :: "Breakpoint list \<Rightarrow> bool" where
  "sites_sorted sites \<longleftrightarrow> sorted_wrt (\<lambda>a b. bp_position a < bp_position b) sites"

definition lb_inv :: "nat \<Rightarrow> LegalBreakpoints \<Rightarrow> bool" where
  "lb_inv i lb \<longleftrightarrow> sites_sorted (lb_output lb) \<and> (\<forall>bp\<in>set (lb_output lb). site_within i bp)
     \<and> length (materialization lb) = i"

lemma site_within_mono: "site_within i bp \<Longrightarrow> i \<le> j \<Longrightarrow> site_within j bp"
  by (auto simp: site_within_def)

lemma sites_sorted_map:
  assumes "\<forall>bp. bp_position (f bp) = bp_position bp" and "sites_sorted (xs @ ys)"
  shows "sites_sorted (xs @ map f ys)"
  using assms by (auto simp: sites_sorted_def sorted_wrt_append sorted_wrt_map)

lemma finalize_pending_inv:
  assumes "lb_inv i lb" and "i \<le> j"
  shows "sites_sorted (lb_output (finalize_pending lb j))" and "\<forall>bp\<in>set (lb_output (finalize_pending lb j)). site_within j bp"
    and "materialization (finalize_pending lb j) = materialization lb"
proof -
  have sorted: "sites_sorted (lb_output lb)" and within: "\<And>bp. bp \<in> set (lb_output lb) \<Longrightarrow> site_within j bp"
    using assms by (auto simp: lb_inv_def intro: site_within_mono)
  let ?f = "\<lambda>bp. bp\<lparr>next_position := j, next_width := lb_prefix lb\<rparr>"
  have "site_within j (?f bp)" if "bp \<in> set (lb_output lb)" for bp using within [OF that] by (simp add: site_within_def)
  moreover have "sites_sorted (take k (lb_output lb) @ map ?f (drop k (lb_output lb)))" for k
    using sorted by (intro sites_sorted_map) simp_all
  ultimately show "sites_sorted (lb_output (finalize_pending lb j))"
    and "\<forall>bp\<in>set (lb_output (finalize_pending lb j)). site_within j bp"
    and "materialization (finalize_pending lb j) = materialization lb"
    using sorted within by (auto simp: finalize_pending_def split: option.split dest: in_set_takeD in_set_dropD)
qed

lemma break_definition_position:
  assumes "break_definition_of st params lb i node prev following = Ok (Some (position, visible_end, rest), auto)"
  shows "position = Suc i" and "visible_end \<le> Suc i"
  using assms by (auto simp: break_definition_of_def Let_def obind_eq_Ok split: if_splits NodeOf.splits)

lemma observe_node_site:
  assumes "observe_node st params lb i node prev following = Ok (lb', found)"
  shows "lb_output lb' = lb_output lb" and "length (materialization lb') = Suc (length (materialization lb))"
    and "found = Some site \<Longrightarrow> bp_position (fst site) = Suc i \<and> protrusion_end (fst site) \<le> Suc i \<and> next_position (fst site) = Suc i"
proof -
  obtain prefix d auto where d: "break_definition_of st params lb i node prev following = Ok (d, auto)"
      and rest: "(case d of None \<Rightarrow> Ok (advance_breakpoints lb prefix auto node d, None)
         | Some bd \<Rightarrow> obind (break_site_of st params (lb_prefix lb) prefix bd) (\<lambda>site.
             Ok (advance_breakpoints lb prefix auto node d, Some site))) = Ok (lb', found)"
    using assms by (auto simp: observe_node_def obind_eq_Ok)
  show "lb_output lb' = lb_output lb" and "length (materialization lb') = Suc (length (materialization lb))"
    using rest by (auto simp: obind_eq_Ok advance_breakpoints_def split: option.splits)
  show "bp_position (fst site) = Suc i \<and> protrusion_end (fst site) \<le> Suc i \<and> next_position (fst site) = Suc i" if "found = Some site"
    using rest that break_definition_position d by (fastforce simp: break_site_of_def obind_eq_Ok split: option.splits prod.splits)
qed

lemma observe_direct_node_inv:
  assumes "lb_inv i lb" and "observe_direct_node st params lb i node prev following = Ok lb'"
  shows "lb_inv (Suc i) lb'"
proof -
  define lb1 where "lb1 = (if is_direct_discardable node then lb else finalize_pending lb i)"
  have one: "sites_sorted (lb_output lb1)" "\<forall>bp\<in>set (lb_output lb1). site_within i bp" "length (materialization lb1) = i"
    using finalize_pending_inv [OF assms(1), of i] assms(1) by (auto simp: lb1_def lb_inv_def)
  obtain lb2 found where two: "observe_node st params lb1 i node prev following = Ok (lb2, found)"
      and lb': "lb' = (case found of None \<Rightarrow> lb2 | Some site \<Rightarrow> push_site lb2 site)"
    using assms(2) by (auto simp: observe_direct_node_def obind_eq_Ok lb1_def [symmetric])
  note obs = observe_node_site [OF two]
  show ?thesis
  proof (cases found)
    case None
    then show ?thesis using lb' one obs(1,2) by (auto simp: lb_inv_def intro: site_within_mono)
  next
    case (Some site)
    have "site_within (Suc i) (fst site)" using obs(3) [OF Some] by (simp add: site_within_def)
    moreover have "\<forall>bp\<in>set (lb_output lb1). bp_position bp < bp_position (fst site)"
      using one(2) obs(3) [OF Some] by (auto simp: site_within_def less_Suc_eq_le)
    ultimately show ?thesis using Some lb' one obs(1,2)
      by (auto simp: lb_inv_def push_site_def Let_def sites_sorted_def sorted_wrt_append intro: site_within_mono split: prod.splits)
  qed
qed

lemma collect_nodes_inv:
  "collect_nodes st params i prev nodes lb = Ok lb' \<Longrightarrow> lb_inv i lb \<Longrightarrow> lb_inv (i + length nodes) lb'"
proof (induction nodes arbitrary: i prev lb)
  case (Cons node nodes)
  from Cons.prems(1) obtain lb1 where one: "observe_direct_node st params lb i node prev (case nodes of [] \<Rightarrow> None | n # _ \<Rightarrow> Some n) = Ok lb1"
      and two: "collect_nodes st params (Suc i) (Some node) nodes lb1 = Ok lb'" by (auto simp: obind_eq_Ok)
  then show ?case using Cons.IH [OF two] observe_direct_node_inv [OF Cons.prems(2) one] by simp
qed simp

text \<open>What the analysis of a paragraph of \<open>n\<close> nodes gives.\<close>

definition break_sites_ok :: "nat \<Rightarrow> Breakpoint list \<Rightarrow> bool" where
  "break_sites_ok n sites \<longleftrightarrow> sites \<noteq> [] \<and> sites_sorted sites \<and> (\<forall>bp\<in>set sites. site_within n bp)
     \<and> bp_position (last sites) = n"

lemma analyze_borrowed_sites:
  assumes "analyze_borrowed st nodes params = Ok tape" and "nodes \<noteq> []"
  shows "break_sites_ok (length nodes) (break_sites tape)" and "length (tape_materialization tape) = length nodes"
    and "tape_nodes tape = nodes"
proof -
  let ?n = "length nodes"
  obtain lb where lb: "collect_nodes st params 0 None nodes legal_breakpoints_new = Ok lb"
      and tape: "break_sites tape = (let lb = finalize_pending lb ?n in
         if lb_output lb = [] \<or> bp_position (last (lb_output lb)) < ?n then lb_output lb @ [paragraph_end_site ?n (lb_prefix lb)]
         else lb_output lb)"
      and mat: "tape_materialization tape = materialization (finalize_pending lb ?n)" "tape_nodes tape = nodes"
    using assms(1) by (auto simp: analyze_borrowed_def collect_direct_def obind_eq_Ok Let_def)
  have inv: "lb_inv ?n lb" using collect_nodes_inv [OF lb] by (simp add: lb_inv_def legal_breakpoints_new_def sites_sorted_def)
  note fin = finalize_pending_inv [OF inv order_refl]
  show "length (tape_materialization tape) = ?n" and "tape_nodes tape = nodes" using mat fin(3) inv by (simp_all add: lb_inv_def)
  let ?out = "lb_output (finalize_pending lb ?n)"
  show "break_sites_ok ?n (break_sites tape)"
  proof (cases "?out = [] \<or> bp_position (last ?out) < ?n")
    case True
    have "bp_position bp \<le> bp_position (last ?out)" if "bp \<in> set ?out" for bp
      using fin(1) that by (cases ?out rule: rev_cases) (auto simp: sites_sorted_def sorted_wrt_append less_imp_le)
    then have "\<forall>bp\<in>set ?out. bp_position bp < ?n" using True by fastforce
    then show ?thesis using True fin assms(2) tape
      by (auto simp: break_sites_ok_def sites_sorted_def sorted_wrt_append paragraph_end_site_def site_within_def Let_def)
  next
    case False
    then have "bp_position (last ?out) \<le> ?n" using fin(2) by (meson last_in_set site_within_def)
    then have "bp_position (last ?out) = ?n" using False by linarith
    then show ?thesis using False fin tape by (simp add: break_sites_ok_def Let_def)
  qed
qed

lemma break_sites_ok_length:
  assumes "break_sites_ok n sites"
  shows "length sites \<le> n"
proof -
  have "distinct (map bp_position sites)"
    using assms by (auto simp: break_sites_ok_def sites_sorted_def distinct_conv_nth sorted_wrt_iff_nth_less neq_iff)
  then have "length sites = card (bp_position ` set sites)" by (metis distinct_card length_map set_map)
  also have "\<dots> \<le> card {1..n}" using assms by (intro card_mono) (auto simp: break_sites_ok_def site_within_def)
  finally show ?thesis by simp
qed

section \<open>Properties\<close>

text \<open>C19. The analysis of a paragraph gives its break sites in strictly increasing order, each inside the paragraph and none at
  its start, the last at its end; the line after a break starts at or after the break, the material visible at a break's
  right edge ends at or before it, and there is one materialization action for every node.
\<close>

theorem break_sites_ordered:
  assumes "analyze_borrowed st nodes params = Ok tape" and "nodes \<noteq> []"
  shows "break_sites_ok (length nodes) (break_sites tape) \<and> length (tape_materialization tape) = length nodes"
  using analyze_borrowed_sites [OF assms] by simp

definition demo_state :: LineState where
  "demo_state = \<lparr>font_character_metrics = (\<lambda>f c. Some \<lparr>c_width = 100, c_height = 50, c_depth = 0, c_italic_correction = 0, c_tag = CtNone\<rparr>),
     font_uses_tfm_metrics = (\<lambda>f. False), font_characters = (\<lambda>f. []), font_widths = (\<lambda>f. []), font_parameter_value = (\<lambda>f i. 10000),
     pdf_font_code = (\<lambda>t f c. 100), font_kern = (\<lambda>f a b. None), font_expansion_spec = (\<lambda>f. None)\<rparr>"

definition demo_params :: LineBreakParams where
  "demo_params = \<lparr>pretolerance = 100, tolerance = 200, line_penalty = 10, hyphen_penalty = 50, ex_hyphen_penalty = 50,
     adj_demerits = 10000, double_hyphen_demerits = 10000, final_hyphen_demerits = 5000, emergency_stretch = 0, looseness = 0,
     last_line_fit = 0, pdf_adjust_spacing = 0, expansion_steps = None, pdf_protrude_chars = 0, left_skip = glue_ZERO,
     right_skip = glue_ZERO, par_fill_skip = glue_ZERO, shape = natural_shape 250\<rparr>"

definition par_fill_node :: "page_list Node" where
  "par_fill_node = Glue \<lparr>g_width = 0, g_stretch = 1, g_stretch_order = Fil, g_shrink = 0, g_shrink_order = ONormal\<rparr> ParFillSkip Owned None"

text \<open>A word, an explicit hyphen, a word, and the end of a paragraph.\<close>

definition hyphen_paragraph :: "page_list Node list" where
  "hyphen_paragraph = replicate 3 (CharNode 1 65 0) @ [Disc ExplicitHyphen (PageList []) (PageList []) (PageList []) 0,
     CharNode 1 65 0, Penalty 10000, par_fill_node]"

theorem break_sites_ordered_witness:
  "\<exists>tape. analyze_borrowed demo_state hyphen_paragraph demo_params = Ok tape \<and> break_sites_ok 7 (break_sites tape)
     \<and> map bp_position (break_sites tape) = [4, 7]"
proof -
  obtain tape where tape: "analyze_borrowed demo_state hyphen_paragraph demo_params = Ok tape"
      "map bp_position (break_sites tape) = [4, 7]"
  proof -
    have "(case analyze_borrowed demo_state hyphen_paragraph demo_params of
         Ok tape \<Rightarrow> map bp_position (break_sites tape) = [4, 7] | _ \<Rightarrow> False)" by code_simp
    then show ?thesis using that by (auto split: outcome.splits)
  qed
  then show ?thesis using break_sites_ordered [OF tape(1)] by (auto simp: hyphen_paragraph_def)
qed

end
