(* ===== verification/Line_Break.thy ===== *)
theory Line_Break
  imports Break_Sites
begin

text \<open>
  The choice of a paragraph's breaks: \<open>run_pass\<close> and what it calls, from \<^verbatim>\<open>crates/tex-typeset/src/linebreak/mod.rs\<close>. The
  source keeps survivors, unread candidates and winners in one vector, in three regions; here they are three lists. The
  runs with a trace repeat a run without one and add diagnostics; the model is of the run without. Accumulated
  demerits, line counts and serial numbers keep the checks of the source.
\<close>

section \<open>Candidates\<close>

datatype Fitness = Tight | Decent | Loose | VeryLoose

fun fitness_code :: "Fitness \<Rightarrow> int" where
  "fitness_code Tight = 0"
| "fitness_code Decent = 1"
| "fitness_code Loose = 2"
| "fitness_code VeryLoose = 3"

definition trace_fitness :: "Fitness \<Rightarrow> int" where
  "trace_fitness fitness = (case fitness of VeryLoose \<Rightarrow> 0 | Loose \<Rightarrow> 1 | Decent \<Rightarrow> 2 | Tight \<Rightarrow> 3)"

definition fitness_class :: "int \<Rightarrow> int \<Rightarrow> int \<Rightarrow> Fitness" where
  "fitness_class bad natural target =
     (if bad > 12 then (if natural > target then Tight else if bad > 99 then VeryLoose else Loose) else Decent)"

definition incompatible :: "Fitness \<Rightarrow> Fitness \<Rightarrow> bool" where
  "incompatible left right \<longleftrightarrow> \<bar>fitness_code left - fitness_code right\<bar> > 1"

record Candidate =
  serial :: nat
  position :: nat
  break_site :: int
  penalty :: int
  line :: nat
  fitness :: Fitness
  path_demerits :: int
  cand_passive :: "nat option"
  cand_previous :: "nat option"
  hyphenated :: bool
  line_shortfall :: scaled
  line_glue :: scaled

definition INITIAL_BREAK_SITE :: int where "INITIAL_BREAK_SITE = 2 ^ 32 - 1"

definition to_u32 :: "nat \<Rightarrow> int panicking" where
  "to_u32 n = (if int n < 2 ^ 32 then Ok (int n) else Panic)"

definition candidate_breakpoint :: "Candidate \<Rightarrow> Breakpoint list \<Rightarrow> Breakpoint option panicking" where
  "candidate_breakpoint c sites =
     (if break_site c \<noteq> INITIAL_BREAK_SITE
      then (if nat (break_site c) < length sites then Ok (Some (sites ! nat (break_site c))) else Panic)
      else Ok None)"

definition width_position :: "Candidate \<Rightarrow> Breakpoint list \<Rightarrow> nat panicking" where
  "width_position c sites =
     obind (candidate_breakpoint c sites) (\<lambda>b. Ok (case b of None \<Rightarrow> 0 | Some bp \<Rightarrow> next_position bp))"

definition start_width :: "Candidate \<Rightarrow> Breakpoint list \<Rightarrow> Widths panicking" where
  "start_width c sites =
     obind (candidate_breakpoint c sites) (\<lambda>b. Ok (case b of None \<Rightarrow> widths_zero | Some bp \<Rightarrow> next_width bp))"

record BreakDecision =
  bd_position :: nat
  bd_penalty :: int
  bd_hyphenated :: bool

record PassiveRoute =
  decision :: BreakDecision
  route_previous :: "nat option"
  route_serial :: nat

datatype BreakMemoryOwner = ActiveNode int | PassiveNode int
datatype BreakMemoryEvent = Allocate BreakMemoryOwner nat | Free BreakMemoryOwner

record BreakMemoryPlan =
  mem_search :: "BreakMemoryEvent list"
  mem_cleanup :: "BreakMemoryEvent list"

record BreakPlan =
  breaks :: "BreakDecision list"
  plan_demerits :: int
  last_line_fill :: "GlueSpec option"
  plan_memory :: BreakMemoryPlan

section \<open>Line classes and the order of active candidates\<close>

definition line_number_class :: "nat \<Rightarrow> nat \<Rightarrow> nat" where
  "line_number_class l easy_line = min l (if int easy_line < 2 ^ 64 - 1 then easy_line + 1 else easy_line)"

text \<open>The unchecked \<open>len () - 1\<close> of an empty shape wraps around.\<close>

definition tex_easy_line :: "LineBreakParams \<Rightarrow> nat" where
  "tex_easy_line params =
     (if looseness params \<noteq> 0 then 2 ^ 64 - 1
      else case parshape (shape params) of
        Some lines \<Rightarrow> if lines = [] then 2 ^ 64 - 1 else length lines - 1
      | None \<Rightarrow> if hang_indent (shape params) = 0 then 0 else saturating_abs_usize (hang_after (shape params)))"

text \<open>The slot of a winner of the same class and fitness, searched from the end while the class is the same.\<close>

fun winner_slot :: "nat \<Rightarrow> nat \<Rightarrow> Fitness \<Rightarrow> Candidate list \<Rightarrow> nat option" where
  "winner_slot easy_line cls fit [] = None"
| "winner_slot easy_line cls fit (c # rest) =
     (if line_number_class (line c) easy_line \<noteq> cls then None
      else if fitness c = fit then Some (length rest)
      else winner_slot easy_line cls fit rest)"

definition record_best_route :: "Candidate list \<Rightarrow> Candidate \<Rightarrow> nat \<Rightarrow> Candidate list" where
  "record_best_route winners candidate easy_line =
     (case winner_slot easy_line (line_number_class (line candidate) easy_line) (fitness candidate) (rev winners) of
        Some slot \<Rightarrow>
          if path_demerits candidate \<le> path_demerits (winners ! slot) then winners[slot := candidate] else winners
      | None \<Rightarrow> winners @ [candidate])"

definition class_minimum :: "Candidate list \<Rightarrow> nat \<Rightarrow> nat \<Rightarrow> int" where
  "class_minimum winners cls easy_line =
     Min (path_demerits ` set (filter (\<lambda>c. line_number_class (line c) easy_line = cls) winners))"

definition competitive :: "Candidate list \<Rightarrow> int \<Rightarrow> nat \<Rightarrow> Candidate \<Rightarrow> bool" where
  "competitive winners margin easy_line c \<longleftrightarrow>
     path_demerits c \<le> min (class_minimum winners (line_number_class (line c) easy_line) easy_line + margin) (AWFUL_BAD_lb - 1)"

text \<open>
  The source sorts by class and fitness with an unstable sort; two winners of one class and fitness would be in an
  unspecified order. The insertion sort keeps the order of such winners.
\<close>

definition retain_competitive_routes :: "Candidate list \<Rightarrow> int \<Rightarrow> nat \<Rightarrow> Candidate list" where
  "retain_competitive_routes winners adj easy_line =
     sort_key (\<lambda>c. int (line_number_class (line c) easy_line) * 4 + trace_fitness (fitness c))
       (filter (competitive winners \<bar>adj\<bar> easy_line) winners)"

definition effective_line :: "LineBreakParams \<Rightarrow> Candidate \<Rightarrow> nat panicking" where
  "effective_line params c =
     obind (usize_add (line c) 1) (\<lambda>l. usize_add l (line_offset (shape params)))"

text \<open>Whether the comparison of two candidates is greater.\<close>

definition active_candidate_gt :: "LineBreakParams \<Rightarrow> nat \<Rightarrow> Candidate \<Rightarrow> Candidate \<Rightarrow> bool panicking" where
  "active_candidate_gt params easy_line left right =
     obind (effective_line params left) (\<lambda>left_line.
     obind (effective_line params right) (\<lambda>right_line.
       let left_class = line_number_class left_line easy_line;
           right_class = line_number_class right_line easy_line
       in Ok (if left_class \<noteq> right_class then left_class > right_class
              else if position left \<noteq> position right
              then (if left_line > easy_line then position left > position right else position right > position left)
              else if trace_fitness (fitness left) \<noteq> trace_fitness (fitness right)
              then trace_fitness (fitness left) > trace_fitness (fitness right)
              else serial left > serial right)))"

text \<open>The winners are sorted by that comparison, whose equal elements are indistinguishable.\<close>

fun insert_active :: "LineBreakParams \<Rightarrow> nat \<Rightarrow> Candidate \<Rightarrow> Candidate list \<Rightarrow> Candidate list panicking" where
  "insert_active params easy_line c [] = Ok [c]"
| "insert_active params easy_line c (d # ds) =
     obind (active_candidate_gt params easy_line c d) (\<lambda>gt.
       if gt then obind (insert_active params easy_line c ds) (\<lambda>rest. Ok (d # rest)) else Ok (c # d # ds))"

fun sort_active_candidates :: "LineBreakParams \<Rightarrow> nat \<Rightarrow> Candidate list \<Rightarrow> Candidate list panicking" where
  "sort_active_candidates params easy_line [] = Ok []"
| "sort_active_candidates params easy_line (c # cs) =
     obind (sort_active_candidates params easy_line cs) (insert_active params easy_line c)"

text \<open>The backward merge, on reversed lists: the greater of the two ends is written first.\<close>

function merge_backward :: "LineBreakParams \<Rightarrow> nat \<Rightarrow> Candidate list \<Rightarrow> Candidate list \<Rightarrow> Candidate list \<Rightarrow> Candidate list panicking" where
  "merge_backward params easy_line survivors [] out = Ok (rev survivors @ out)"
| "merge_backward params easy_line [] (w # winners) out = Ok (rev (w # winners) @ out)"
| "merge_backward params easy_line (s # survivors) (w # winners) out =
     obind (active_candidate_gt params easy_line s w) (\<lambda>gt.
       if gt then merge_backward params easy_line survivors (w # winners) (s # out)
       else merge_backward params easy_line (s # survivors) winners (w # out))"
  by pat_completeness auto
termination
  by (relation "measure (\<lambda>(params, easy_line, survivors, winners, out). length survivors + length winners)") auto

definition merge_active_candidates :: "LineBreakParams \<Rightarrow> nat \<Rightarrow> Candidate list \<Rightarrow> Candidate list \<Rightarrow> Candidate list panicking" where
  "merge_active_candidates params easy_line survivors winners =
     (if winners = [] then Ok survivors
      else obind (sort_active_candidates params easy_line winners) (\<lambda>sorted.
        if survivors = [] then Ok sorted else merge_backward params easy_line (rev survivors) (rev sorted) []))"

section \<open>Fitting the last line\<close>

record LastLineFit =
  llf_amount :: int
  llf_par_fill :: GlueSpec
  fill_width :: "int list"
  llf_enabled :: bool

definition last_line_fit_new :: "LineBreakParams \<Rightarrow> Widths \<Rightarrow> LastLineFit" where
  "last_line_fit_new params background =
     (let par_fill = par_fill_skip params;
          enabled = (last_line_fit params > 0 \<and> g_stretch par_fill > 0 \<and> g_stretch_order par_fill \<noteq> ONormal
            \<and> infinite_stretch_is_zero background)
      in \<lparr>llf_amount = last_line_fit params, llf_par_fill = par_fill,
          fill_width = (if enabled then map (\<lambda>o1. if o1 = g_stretch_order par_fill then wide_from_scaled (g_stretch par_fill) else 0) [Fil, Fill, Filll]
                        else [0, 0, 0]),
          llf_enabled = enabled\<rparr>)"

definition rounded_fraction :: "int \<Rightarrow> int \<Rightarrow> int \<Rightarrow> int" where
  "rounded_fraction x n d =
     (if d = 0 then (if x * n < 0 then - MAX_DIMEN else MAX_DIMEN)
      else let p = x * n;
               rounded = (\<bar>p\<bar> + \<bar>d\<bar> sdiv 2) sdiv \<bar>d\<bar>
           in clamp (if (p < 0) \<noteq> (d < 0) then - rounded else rounded) (- MAX_DIMEN) MAX_DIMEN)"

text \<open>The adjustment of the last line, before it is limited.\<close>

definition last_line_adjustment :: "LastLineFit \<Rightarrow> Candidate \<Rightarrow> scaled \<Rightarrow> int" where
  "last_line_adjustment fit prev available =
     (let adjustment = rounded_fraction available (line_shortfall prev) (line_glue prev)
      in if llf_amount fit < 1000 then rounded_fraction adjustment (llf_amount fit) 1000 else adjustment)"

definition last_line_badness :: "LastLineFit \<Rightarrow> Candidate \<Rightarrow> Widths \<Rightarrow> scaled \<Rightarrow> (int \<times> Fitness \<times> scaled) option panicking" where
  "last_line_badness fit prev w target =
     (let natural = t_natural (w_base w);
          available = (if line_shortfall prev > 0 then normal_stretch w else normal_shrink w)
      in if \<not> llf_enabled fit \<or> line_shortfall prev = 0 \<or> line_glue prev \<le> 0 \<or> natural \<ge> target
            \<or> infinite_stretch w \<noteq> fill_width fit \<or> available \<le> 0
         then Ok None
         else obind (expect_some (wide_to_scaled available)) (\<lambda>available.
           let adjustment = last_line_adjustment fit prev available
           in if adjustment > 0
              then obind (expect_some (checked32 (wrap64 (target - natural)))) (\<lambda>remaining.
                     let adjustment = min adjustment remaining;
                         bad = badness adjustment available;
                         fitn = (if bad > 99 then VeryLoose else if bad > 12 then Loose else Decent)
                     in Ok (Some (bad, fitn, adjustment)))
              else if adjustment < 0
              then let adjustment = max adjustment (- available);
                       bad = badness (- adjustment) available
                   in Ok (Some (bad, if bad > 12 then Tight else Decent, adjustment))
              else Ok None))"

definition adjusted_fill :: "LastLineFit \<Rightarrow> Candidate \<Rightarrow> GlueSpec option panicking" where
  "adjusted_fill fit chosen =
     (if llf_enabled fit \<and> line_shortfall chosen \<noteq> 0
      then obind (expect_some (checked32 (g_width (llf_par_fill fit) + line_shortfall chosen))) (\<lambda>w.
           obind (expect_some (checked32 (w - line_glue chosen))) (\<lambda>w.
             Ok (Some ((llf_par_fill fit)\<lparr>g_width := w, g_stretch := 0\<rparr>))))
      else Ok None)"

section \<open>Demerits\<close>

definition compute_route_demerits :: "LineBreakParams \<Rightarrow> bool \<Rightarrow> Fitness \<Rightarrow> int \<Rightarrow> int \<Rightarrow> Fitness \<Rightarrow> Breakpoint \<Rightarrow> bool \<Rightarrow> int panicking" where
  "compute_route_demerits params active_hyphenated active_fitness bad pen fit bp terminal =
     (let line_bad = line_penalty params + bad;
          dem = (if \<bar>line_bad\<bar> \<ge> INF_BAD then 100000000 else line_bad * line_bad);
          dem = (if pen > 0 then dem + pen * pen else if pen > EJECT_PENALTY_lb then dem - pen * pen else dem);
          dem = (if active_hyphenated
                 then (if terminal then dem + final_hyphen_demerits params
                       else if bp_hyphenated bp then dem + double_hyphen_demerits params else dem)
                 else dem);
          dem = (if incompatible active_fitness fit then dem + adj_demerits params else dem)
      in expect_some (checked32 dem))"

definition compute_demerits :: "LineBreakParams \<Rightarrow> Candidate \<Rightarrow> int \<Rightarrow> int \<Rightarrow> Fitness \<Rightarrow> Breakpoint \<Rightarrow> bool \<Rightarrow> int panicking" where
  "compute_demerits params active bad pen fit bp terminal =
     obind (compute_route_demerits params (hyphenated active) (fitness active) bad pen fit bp terminal) (\<lambda>route.
       Ok (clamp (route + path_demerits active) (- (2 ^ 31)) AWFUL_BAD_lb))"

definition candidate_line_glue :: "Widths \<Rightarrow> scaled \<Rightarrow> int \<Rightarrow> scaled panicking" where
  "candidate_line_glue w target bad =
     (let shortfall = wrap64 (target - t_natural (w_base w))
      in if bad > INF_BAD \<or> has_infinite_adjustment w shortfall then Ok 0
         else if shortfall > 0 then expect_some (wide_to_scaled (normal_stretch w))
         else if shortfall < 0 then expect_some (wide_to_scaled (normal_shrink w))
         else Ok 0)"

definition line_shortfall_for_route :: "scaled \<Rightarrow> int \<Rightarrow> scaled panicking" where
  "line_shortfall_for_route target natural =
     obind (wide_sub (wide_from_scaled target) natural) (\<lambda>d. Ok (case wide_to_scaled d of Some v \<Rightarrow> v | None \<Rightarrow> 0))"

section \<open>One pass\<close>

text \<open>What a pass computes before it visits the first breakpoint.\<close>

record PassEnv =
  env_state :: LineState
  env_nodes :: "page_list Node list"
  env_sites :: "Breakpoint list"
  env_params :: LineBreakParams
  env_tolerance :: int
  env_emergency :: bool
  env_final :: bool
  env_background :: Widths
  env_last_line_fit :: LastLineFit
  env_easy_line :: nat
  env_expansion_steps :: "(int \<times> int) option"

record PassState =
  ps_active :: "Candidate list"
  ps_passive :: "PassiveRoute list"
  ps_next_serial :: nat
  ps_search :: "BreakMemoryEvent list"
  ps_edges :: LineEdgeCache

record VisitState =
  vs_survivors :: "Candidate list"
  vs_winners :: "Candidate list"
  vs_next_serial :: nat
  vs_search :: "BreakMemoryEvent list"
  vs_edges :: LineEdgeCache

text \<open>The widths of the line from a candidate to a breakpoint, before protrusion, and the width of its line.\<close>

definition candidate_widths :: "PassEnv \<Rightarrow> Widths \<Rightarrow> Candidate \<Rightarrow> (Widths \<times> scaled) panicking" where
  "candidate_widths env breakpoint_width c =
     obind (start_width c (env_sites env)) (\<lambda>sw.
     obind (widths_sub breakpoint_width sw) (\<lambda>w.
     obind (dimensions (shape (env_params env)) (line c + 1)) (\<lambda>dims.
     obind (add_normal_stretch w (if env_emergency env then emergency_stretch (env_params env) else 0)) (\<lambda>w.
       Ok (w, ld_width dims)))))"

text \<open>The part of the line that protrusion looks at.\<close>

definition protrusion_range :: "PassEnv \<Rightarrow> Breakpoint \<Rightarrow> Candidate \<Rightarrow> (nat \<times> nat) panicking" where
  "protrusion_range env bp c =
     obind (width_position c (env_sites env)) (\<lambda>p.
       let start = min p (length (env_nodes env))
       in Ok (start, max (min (protrusion_end bp) (length (env_nodes env))) start))"

definition protruded_target :: "PassEnv \<Rightarrow> LineProtrusion \<Rightarrow> Widths \<Rightarrow> scaled \<Rightarrow> (Widths \<times> scaled) panicking" where
  "protruded_target env protrusion w target =
     obind (if env_expansion_steps env \<noteq> None
            then let (stretch, shrink) = margin_variation protrusion in add_font_variation w stretch shrink
            else Ok w) (\<lambda>w.
     obind (protrusion_total protrusion) (\<lambda>t.
     obind (expect_some (checked32 (target + t))) (\<lambda>target. Ok (w, target))))"

definition scoring_target :: "PassEnv \<Rightarrow> LineEdgeCache \<Rightarrow> Breakpoint \<Rightarrow> Candidate \<Rightarrow> Widths \<Rightarrow> scaled
    \<Rightarrow> (LineEdgeCache \<times> Widths \<times> scaled) panicking" where
  "scoring_target env cache bp c w target =
     (if pdf_protrude_chars (env_params env) > 1
      then obind (protrusion_range env bp c) (\<lambda>(start, stop).
           let (cache, found) = cached_line_protrusion cache (env_state env) (env_nodes env) start stop
           in obind found (\<lambda>protrusion.
              obind (protruded_target env protrusion w target) (\<lambda>(w, target). Ok (cache, w, target))))
      else Ok (cache, w, target))"

text \<open>Badness, fitness and the fitted adjustment of a line.\<close>

definition score_line :: "PassEnv \<Rightarrow> Candidate \<Rightarrow> bool \<Rightarrow> Widths \<Rightarrow> scaled \<Rightarrow> (int \<times> Fitness \<times> scaled option) panicking" where
  "score_line env c terminal w target =
     obind (line_badness w target 0 (env_expansion_steps env)) (\<lambda>normal_b.
     obind (if terminal then last_line_badness (env_last_line_fit env) c w target else Ok None) (\<lambda>fitted.
       Ok (case fitted of
             Some (bad, fit, adjustment) \<Rightarrow> (bad, fit, Some adjustment)
           | None \<Rightarrow> (normal_b, fitness_class (min normal_b INF_BAD) (t_natural (w_base w)) target, None))))"

definition is_forced :: "Breakpoint \<Rightarrow> bool" where
  "is_forced bp \<longleftrightarrow> bp_penalty bp \<le> EJECT_PENALTY_lb"

definition is_terminal :: "PassEnv \<Rightarrow> Breakpoint \<Rightarrow> bool" where
  "is_terminal env bp \<longleftrightarrow> is_forced bp \<and> bp_position bp \<ge> length (env_nodes env)"

text \<open>The candidate that a feasible line gives.\<close>

definition new_candidate :: "PassEnv \<Rightarrow> int \<Rightarrow> Breakpoint \<Rightarrow> nat \<Rightarrow> Candidate \<Rightarrow> bool \<Rightarrow> Widths \<Rightarrow> scaled
    \<Rightarrow> int \<times> Fitness \<times> scaled option \<Rightarrow> Candidate panicking" where
  "new_candidate env site bp next_serial c artificial w target score =
     (case score of (b, fit, fitted) \<Rightarrow>
       let terminal = is_terminal env bp
       in obind (if artificial then Ok (path_demerits c)
                 else compute_demerits (env_params env) c (min b INF_BAD) (bp_penalty bp) fit bp terminal) (\<lambda>dem.
          obind (if terminal \<and> fitted = None then Ok 0
                 else line_shortfall_for_route target (t_natural (w_base w))) (\<lambda>shortfall.
          obind (case fitted of None \<Rightarrow> candidate_line_glue w target b | Some adjustment \<Rightarrow> Ok adjustment) (\<lambda>glue.
            Ok \<lparr>serial = next_serial, position = bp_position bp, break_site = site, penalty = bp_penalty bp,
                line = line c + 1, fitness = fit, path_demerits = dem, cand_passive = None, cand_previous = cand_passive c,
                hyphenated = bp_hyphenated bp, line_shortfall = shortfall, line_glue = glue\<rparr>))))"

text \<open>
  What happens to an active candidate whose line has been scored; \<open>last_one\<close> says that no candidate follows it.
\<close>

definition settle_candidate :: "PassEnv \<Rightarrow> int \<Rightarrow> Breakpoint \<Rightarrow> bool \<Rightarrow> Candidate \<Rightarrow> Widths \<Rightarrow> scaled
    \<Rightarrow> int \<times> Fitness \<times> scaled option \<Rightarrow> VisitState \<Rightarrow> VisitState panicking" where
  "settle_candidate env site bp last_one c w target score vs =
     (let b = fst score;
          deactivates = (b > INF_BAD \<or> is_forced bp);
          artificial = (env_final env \<and> vs_survivors vs = [] \<and> vs_winners vs = [] \<and> last_one \<and> deactivates);
          feasible = (bp_penalty bp < INF_PENALTY_lb \<and> (artificial \<or> b \<le> env_tolerance env))
      in obind (if feasible
                then obind (new_candidate env site bp (vs_next_serial vs) c artificial w target score) (\<lambda>new.
                     Ok (vs\<lparr>vs_next_serial := vs_next_serial vs + 1,
                            vs_winners := record_best_route (vs_winners vs) new (env_easy_line env)\<rparr>))
                else Ok vs) (\<lambda>vs.
         if \<not> deactivates then Ok (vs\<lparr>vs_survivors := vs_survivors vs @ [c]\<rparr>)
         else obind (to_u32 (serial c)) (\<lambda>s.
                Ok (vs\<lparr>vs_search := vs_search vs @ [Free (ActiveNode s)]\<rparr>))))"

text \<open>One active candidate at a breakpoint.\<close>

definition visit_candidate :: "PassEnv \<Rightarrow> int \<Rightarrow> Breakpoint \<Rightarrow> Widths \<Rightarrow> bool \<Rightarrow> Candidate \<Rightarrow> VisitState \<Rightarrow> VisitState panicking" where
  "visit_candidate env site bp breakpoint_width last_one c vs =
     (if position c \<ge> bp_position bp then Ok (vs\<lparr>vs_survivors := vs_survivors vs @ [c]\<rparr>)
      else
       obind (candidate_widths env breakpoint_width c) (\<lambda>(w, target).
       obind (scoring_target env (vs_edges vs) bp c w target) (\<lambda>(cache, w, target).
       obind (score_line env c (is_terminal env bp) w target) (\<lambda>score.
         settle_candidate env site bp last_one c w target score (vs\<lparr>vs_edges := cache\<rparr>)))))"

fun visit_active :: "PassEnv \<Rightarrow> int \<Rightarrow> Breakpoint \<Rightarrow> Widths \<Rightarrow> Candidate list \<Rightarrow> VisitState \<Rightarrow> VisitState panicking" where
  "visit_active env site bp breakpoint_width [] vs = Ok vs"
| "visit_active env site bp breakpoint_width (c # cs) vs =
     obind (visit_candidate env site bp breakpoint_width (cs = []) c vs) (visit_active env site bp breakpoint_width cs)"

text \<open>The winners get passive nodes in order.\<close>

definition passive_route :: "PassEnv \<Rightarrow> Candidate \<Rightarrow> PassiveRoute" where
  "passive_route env c = \<lparr>decision = \<lparr>bd_position = min (position c) (length (env_nodes env)), bd_penalty = penalty c,
                                    bd_hyphenated = hyphenated c\<rparr>,
     route_previous = cand_previous c, route_serial = serial c\<rparr>"

fun admit_winners :: "PassEnv \<Rightarrow> Candidate list \<Rightarrow> PassiveRoute list \<Rightarrow> BreakMemoryEvent list
    \<Rightarrow> (Candidate list \<times> PassiveRoute list \<times> BreakMemoryEvent list) panicking" where
  "admit_winners env [] routes search = Ok ([], routes, search)"
| "admit_winners env (c # cs) routes search =
     obind (to_u32 (length routes)) (\<lambda>passive_id.
     obind (to_u32 (serial c)) (\<lambda>active_id.
     obind (admit_winners env cs (routes @ [passive_route env c])
              (search @ [Allocate (PassiveNode passive_id) 2, Allocate (ActiveNode active_id) 3])) (\<lambda>(cs, all_routes, search).
       Ok (c\<lparr>cand_passive := Some (length routes)\<rparr> # cs, all_routes, search))))"

definition pass_site :: "PassEnv \<Rightarrow> nat \<Rightarrow> Breakpoint \<Rightarrow> PassState \<Rightarrow> PassState panicking" where
  "pass_site env site bp ps =
     obind (to_u32 site) (\<lambda>site.
     obind (widths_add_assign (line_width bp) (env_background env)) (\<lambda>bw.
     obind (widths_add_assign bw (add_width bp)) (\<lambda>bw.
     obind (visit_active env site bp bw (ps_active ps)
              \<lparr>vs_survivors = [], vs_winners = [], vs_next_serial = ps_next_serial ps, vs_search = ps_search ps,
               vs_edges = ps_edges ps\<rparr>) (\<lambda>vs.
     obind (admit_winners env (retain_competitive_routes (vs_winners vs) (adj_demerits (env_params env)) (env_easy_line env))
              (ps_passive ps) (vs_search vs)) (\<lambda>(winners, routes, search).
     obind (merge_active_candidates (env_params env) (env_easy_line env) (vs_survivors vs) winners) (\<lambda>active.
       Ok \<lparr>ps_active = active, ps_passive = routes, ps_next_serial = vs_next_serial vs, ps_search = search,
           ps_edges = vs_edges vs\<rparr>))))))"

fun pass_sites :: "PassEnv \<Rightarrow> nat \<Rightarrow> Breakpoint list \<Rightarrow> PassState \<Rightarrow> PassState panicking" where
  "pass_sites env site [] ps = Ok ps"
| "pass_sites env site (bp # bps) ps = obind (pass_site env site bp ps) (pass_sites env (Suc site) bps)"

definition initial_candidate :: Candidate where
  "initial_candidate = \<lparr>serial = 0, position = 0, break_site = INITIAL_BREAK_SITE, penalty = 0, line = 0, fitness = Decent,
     path_demerits = 0, cand_passive = None, cand_previous = None, hyphenated = False, line_shortfall = 0, line_glue = 0\<rparr>"

definition initial_pass_state :: PassState where
  "initial_pass_state = \<lparr>ps_active = [initial_candidate], ps_passive = [], ps_next_serial = 1,
     ps_search = [Allocate (ActiveNode 0) 3], ps_edges = edge_cache_default\<rparr>"

definition pass_env :: "LineState \<Rightarrow> ParagraphTape \<Rightarrow> LineBreakParams \<Rightarrow> int \<Rightarrow> bool \<Rightarrow> bool \<Rightarrow> PassEnv panicking" where
  "pass_env st tape params tol emergency final_pass =
     obind (widths_from_glue (left_skip params)) (\<lambda>left.
     obind (widths_from_glue (right_skip params)) (\<lambda>right.
     obind (widths_add_assign left right) (\<lambda>background.
       Ok \<lparr>env_state = st, env_nodes = tape_nodes tape, env_sites = break_sites tape, env_params = params,
           env_tolerance = tol, env_emergency = emergency, env_final = final_pass, env_background = background,
           env_last_line_fit = last_line_fit_new params background, env_easy_line = tex_easy_line params,
           env_expansion_steps = (if pdf_adjust_spacing params > 1 then expansion_steps params else None)\<rparr>)))"

section \<open>The chosen route\<close>

text \<open>The first element with the least key.\<close>

fun first_min :: "('a \<Rightarrow> 'k::linorder) \<Rightarrow> 'a list \<Rightarrow> 'a option" where
  "first_min key [] = None"
| "first_min key (x # xs) =
     (case first_min key xs of None \<Rightarrow> Some x | Some y \<Rightarrow> if key y < key x then Some y else Some x)"

definition line_i32 :: "Candidate \<Rightarrow> int" where
  "line_i32 c = wrap32 (int (line c))"

text \<open>The key (difference, demerits) of the source, compared componentwise.\<close>

fun first_min2 :: "('a \<Rightarrow> int) \<Rightarrow> ('a \<Rightarrow> int) \<Rightarrow> 'a list \<Rightarrow> 'a option" where
  "first_min2 k1 k2 [] = None"
| "first_min2 k1 k2 (x # xs) =
     (case first_min2 k1 k2 xs of
        None \<Rightarrow> Some x
      | Some y \<Rightarrow> if k1 y < k1 x \<or> (k1 y = k1 x \<and> k2 y < k2 x) then Some y else Some x)"

definition choose_final :: "Candidate list \<Rightarrow> int \<Rightarrow> Candidate option" where
  "choose_final finals loose =
     (case first_min path_demerits finals of
        None \<Rightarrow> None
      | Some best \<Rightarrow>
          let target = wrap32 (line_i32 best + loose)
          in first_min2 (\<lambda>c. wrap32 \<bar>wrap32 (line_i32 c - target)\<bar>) path_demerits finals)"

text \<open>The chain of passive nodes; a chain that does not end would run out of fuel, and one that leaves the vector panics.\<close>

fun passive_chain :: "nat \<Rightarrow> PassiveRoute list \<Rightarrow> nat option \<Rightarrow> BreakDecision list panicking" where
  "passive_chain fuel routes None = Ok []"
| "passive_chain 0 routes (Some i) = Panic"
| "passive_chain (Suc fuel) routes (Some i) =
     (if i < length routes
      then obind (passive_chain fuel routes (route_previous (routes ! i))) (\<lambda>ds. Ok (ds @ [decision (routes ! i)]))
      else Panic)"

definition reconstruct :: "Candidate \<Rightarrow> PassiveRoute list \<Rightarrow> LastLineFit \<Rightarrow> BreakMemoryPlan \<Rightarrow> BreakPlan panicking" where
  "reconstruct chosen routes fit memory =
     obind (adjusted_fill fit chosen) (\<lambda>fill.
     obind (passive_chain (Suc (length routes)) routes (cand_passive chosen)) (\<lambda>ds.
       Ok \<lparr>breaks = ds, plan_demerits = min (path_demerits chosen) AWFUL_BAD_lb, last_line_fill = fill, plan_memory = memory\<rparr>))"

fun free_all :: "(int \<Rightarrow> BreakMemoryOwner) \<Rightarrow> nat list \<Rightarrow> BreakMemoryEvent list panicking" where
  "free_all owner [] = Ok []"
| "free_all owner (n # ns) =
     obind (to_u32 n) (\<lambda>m. obind (free_all owner ns) (\<lambda>rest. Ok (Free (owner m) # rest)))"

definition finish_pass :: "PassEnv \<Rightarrow> PassState \<Rightarrow> BreakPlan option panicking" where
  "finish_pass env ps =
     (let params = env_params env
      in case (choose_final (ps_active ps) (looseness params), first_min path_demerits (ps_active ps)) of
        (Some chosen, Some best) \<Rightarrow>
          if \<not> env_final env \<and> wrap32 (line_i32 chosen - line_i32 best) \<noteq> looseness params then Ok None
          else obind (free_all ActiveNode (map serial (ps_active ps))) (\<lambda>active_frees.
               obind (free_all PassiveNode (rev [0..<length (ps_passive ps)])) (\<lambda>passive_frees.
               obind (reconstruct chosen (ps_passive ps) (env_last_line_fit env)
                        \<lparr>mem_search = ps_search ps, mem_cleanup = active_frees @ passive_frees\<rparr>) (\<lambda>plan. Ok (Some plan))))
      | _ \<Rightarrow> Ok None)"

definition run_pass :: "LineState \<Rightarrow> ParagraphTape \<Rightarrow> LineBreakParams \<Rightarrow> int \<Rightarrow> bool \<Rightarrow> bool \<Rightarrow> BreakPlan option panicking" where
  "run_pass st tape params tol emergency final_pass =
     obind (pass_env st tape params tol emergency final_pass) (\<lambda>env.
     obind (pass_sites env 0 (break_sites tape) initial_pass_state) (finish_pass env))"

section \<open>The passes of a paragraph\<close>

definition try_tape_without_hyphenation :: "LineState \<Rightarrow> ParagraphTape \<Rightarrow> LineBreakParams \<Rightarrow> BreakPlan option panicking" where
  "try_tape_without_hyphenation st tape params =
     (if pretolerance params \<ge> 0 then run_pass st tape params (pretolerance params) False False else Ok None)"

definition break_hyphenated_tape :: "LineState \<Rightarrow> ParagraphTape \<Rightarrow> LineBreakParams \<Rightarrow> BreakPlan panicking" where
  "break_hyphenated_tape st tape params =
     obind (run_pass st tape params (tolerance params) False (emergency_stretch params \<le> 0)) (\<lambda>second.
       case second of
         Some result \<Rightarrow> Ok result
       | None \<Rightarrow> obind (run_pass st tape params (tolerance params) True True) expect_some)"

text \<open>The hyphenation of the paragraph is a parameter.\<close>

definition line_break :: "LineState \<Rightarrow> page_list Node list \<Rightarrow> LineBreakParams
    \<Rightarrow> (page_list Node list \<Rightarrow> page_list Node list) \<Rightarrow> BreakPlan panicking" where
  "line_break st nodes params hyphenate =
     obind (analyze_borrowed st nodes params) (\<lambda>tape.
     obind (try_tape_without_hyphenation st tape params) (\<lambda>first.
       case first of
         Some plan \<Rightarrow> Ok plan
       | None \<Rightarrow> obind (analyze_borrowed st (hyphenate nodes) params) (\<lambda>tape. break_hyphenated_tape st tape params)))"

definition no_hyphenation :: "page_list Node list \<Rightarrow> page_list Node list" where
  "no_hyphenation nodes = nodes"

definition try_line_break_without_hyphenation :: "LineState \<Rightarrow> page_list Node list \<Rightarrow> LineBreakParams \<Rightarrow> BreakPlan option panicking" where
  "try_line_break_without_hyphenation st nodes params =
     obind (analyze_borrowed st nodes params) (\<lambda>tape. try_tape_without_hyphenation st tape params)"

definition line_break_hyphenated :: "LineState \<Rightarrow> page_list Node list \<Rightarrow> LineBreakParams \<Rightarrow> BreakPlan panicking" where
  "line_break_hyphenated st nodes params =
     obind (analyze_borrowed st nodes params) (\<lambda>tape. break_hyphenated_tape st tape params)"

record LineBreakResult =
  result_breaks :: "BreakDecision list"
  result_demerits :: int
  result_tape :: ParagraphTape
  result_last_line_fill :: "GlueSpec option"
  result_memory :: BreakMemoryPlan

definition plan_with_tape :: "BreakPlan \<Rightarrow> ParagraphTape \<Rightarrow> LineBreakResult" where
  "plan_with_tape plan tape = \<lparr>result_breaks = breaks plan, result_demerits = plan_demerits plan, result_tape = tape,
     result_last_line_fill = last_line_fill plan, result_memory = plan_memory plan\<rparr>"

end
