(* ===== verification/Line_Optimal.thy ===== *)
theory Line_Optimal
  imports Line_Break
begin

text \<open>
  What a pass computes: feasible routes through the break sites of a paragraph, and that a pass which is not the final one
  returns a feasible route of least demerits, or nothing when there is no feasible route.
\<close>

section \<open>Winners of a break site\<close>

definition better_winner :: "nat \<Rightarrow> Candidate \<Rightarrow> Candidate \<Rightarrow> bool" where
  "better_winner easy_line w c \<longleftrightarrow> line_number_class (line w) easy_line = line_number_class (line c) easy_line
     \<and> fitness w = fitness c \<and> path_demerits w \<le> path_demerits c"

lemma better_winner_refl [simp]: "better_winner e c c"
  by (simp add: better_winner_def)

lemma better_winner_trans: "better_winner e a b \<Longrightarrow> better_winner e b c \<Longrightarrow> better_winner e a c"
  by (simp add: better_winner_def)

lemma winner_slot_SomeD:
  "winner_slot e cls fit (rev ws) = Some slot \<Longrightarrow>
     slot < length ws \<and> line_number_class (line (ws ! slot)) e = cls \<and> fitness (ws ! slot) = fit"
proof (induction ws rule: rev_induct)
  case (snoc w ws)
  then show ?case by (auto simp: nth_append split: if_splits)
qed simp

lemma record_best_route_subset: "set (record_best_route ws c e) \<subseteq> insert c (set ws)"
  by (auto simp: record_best_route_def dest: set_update_subset_insert [THEN subsetD] split: option.splits if_splits)

lemma set_update_keeps: "w \<in> set ws \<Longrightarrow> w = ws ! i \<or> w \<in> set (ws[i := c])"
  by (metis in_set_conv_nth length_list_update nth_list_update_neq)

lemma record_best_route_covers:
  assumes "w \<in> insert c (set ws)"
  shows "\<exists>v\<in>set (record_best_route ws c e). better_winner e v w"
proof (cases "winner_slot e (line_number_class (line c) e) (fitness c) (rev ws)")
  case None
  then show ?thesis using assms by (auto simp: record_best_route_def intro: better_winner_refl)
next
  case (Some slot)
  note slot = winner_slot_SomeD [OF Some]
  show ?thesis
  proof (cases "path_demerits c \<le> path_demerits (ws ! slot)")
    case True
    have "c \<in> set (ws[slot := c])" using slot by (simp add: set_update_memI)
    moreover have "better_winner e c (ws ! slot)" using slot True by (simp add: better_winner_def)
    moreover have "w = c \<or> w = ws ! slot \<or> w \<in> set (ws[slot := c])" using assms set_update_keeps [of w ws slot c] by auto
    ultimately show ?thesis using Some True by (auto simp: record_best_route_def intro: better_winner_refl)
  next
    case False
    then have "better_winner e (ws ! slot) c" using slot by (simp add: better_winner_def)
    then show ?thesis using Some False slot assms by (auto simp: record_best_route_def intro: better_winner_refl)
  qed
qed

lemma retain_subset: "set (retain_competitive_routes ws adj e) \<subseteq> set ws"
  by (auto simp: retain_competitive_routes_def)

lemma class_minimum_attained:
  assumes "w \<in> set ws"
  obtains v where "v \<in> set ws" and "line_number_class (line v) e = line_number_class (line w) e"
    and "path_demerits v = class_minimum ws (line_number_class (line w) e) e" and "path_demerits v \<le> path_demerits w"
proof -
  let ?A = "path_demerits ` set (filter (\<lambda>c. line_number_class (line c) e = line_number_class (line w) e) ws)"
  have fin: "finite ?A" and mem: "path_demerits w \<in> ?A" using assms by auto
  then have "Min ?A \<in> ?A" by (intro Min_in) auto
  moreover have "Min ?A \<le> path_demerits w" using fin mem by (rule Min_le)
  ultimately show ?thesis using that by (auto simp: class_minimum_def)
qed

lemma retain_covers:
  assumes "w \<in> set ws" and "path_demerits w < AWFUL_BAD_lb"
  shows "\<exists>v\<in>set (retain_competitive_routes ws adj e). line_number_class (line v) e = line_number_class (line w) e
    \<and> (fitness v = fitness w \<and> path_demerits v \<le> path_demerits w \<or> path_demerits v + \<bar>adj\<bar> \<le> path_demerits w)"
proof (cases "competitive ws \<bar>adj\<bar> e w")
  case True
  then show ?thesis using assms by (auto simp: retain_competitive_routes_def)
next
  case False
  obtain v where v: "v \<in> set ws" "line_number_class (line v) e = line_number_class (line w) e"
      "path_demerits v = class_minimum ws (line_number_class (line w) e) e" "path_demerits v \<le> path_demerits w"
    using class_minimum_attained [OF assms(1)] .
  have "competitive ws \<bar>adj\<bar> e v" using v assms(2) by (simp add: competitive_def)
  moreover have "path_demerits v + \<bar>adj\<bar> \<le> path_demerits w" using False v assms(2) by (simp add: competitive_def)
  ultimately show ?thesis using v by (auto simp: retain_competitive_routes_def)
qed

lemma set_insert_active: "insert_active params e c cs = Ok out \<Longrightarrow> set out = insert c (set cs)"
  by (induction cs arbitrary: out) (auto simp: outcome_simps split: if_splits)

lemma set_sort_active: "sort_active_candidates params e cs = Ok out \<Longrightarrow> set out = set cs"
  by (induction cs arbitrary: out) (auto simp: outcome_simps dest: set_insert_active)

lemma set_merge_backward:
  "merge_backward params e ss ws out = Ok res \<Longrightarrow> set res = set ss \<union> set ws \<union> set out"
proof (induction params e ss ws out rule: merge_backward.induct)
  case (3 params e s ss w ws out)
  from "3.prems" obtain gt where "active_candidate_gt params e s w = Ok gt"
      and "(if gt then merge_backward params e ss (w # ws) (s # out) else merge_backward params e (s # ss) ws (w # out)) = Ok res"
    by (auto simp: obind_eq_Ok)
  then show ?case using "3.IH" by (cases gt) auto
qed auto

lemma set_merge_active:
  assumes "merge_active_candidates params e ss ws = Ok res"
  shows "set res = set ss \<union> set ws"
proof (cases "ws = []")
  case False
  then obtain ordered where "sort_active_candidates params e ws = Ok ordered"
      and "(if ss = [] then Ok ordered else merge_backward params e (rev ss) (rev ordered) []) = Ok res"
    using assms by (auto simp: merge_active_candidates_def obind_eq_Ok)
  then show ?thesis by (auto split: if_splits dest!: set_sort_active set_merge_backward)
qed (use assms in \<open>simp add: merge_active_candidates_def\<close>)

section \<open>Feasible routes\<close>

text \<open>
  A route is the list of the break sites it chooses. Its end is the last of them (\<open>None\<close> at the start of the paragraph), the
  number of its lines, the fitness of its last line and its demerits.
\<close>

record RouteEnd =
  re_site :: "nat option"
  re_line :: nat
  re_fitness :: Fitness
  re_demerits :: int

definition route_start :: RouteEnd where
  "route_start = \<lparr>re_site = None, re_line = 0, re_fitness = Decent, re_demerits = 0\<rparr>"

definition site_start_width :: "PassEnv \<Rightarrow> nat option \<Rightarrow> Widths" where
  "site_start_width env s = (case s of None \<Rightarrow> widths_zero | Some i \<Rightarrow> next_width (env_sites env ! i))"

definition site_start_position :: "PassEnv \<Rightarrow> nat option \<Rightarrow> nat" where
  "site_start_position env s = (case s of None \<Rightarrow> 0 | Some i \<Rightarrow> next_position (env_sites env ! i))"

definition site_hyphenated :: "PassEnv \<Rightarrow> nat option \<Rightarrow> bool" where
  "site_hyphenated env s = (case s of None \<Rightarrow> False | Some i \<Rightarrow> bp_hyphenated (env_sites env ! i))"

definition breakpoint_width :: "PassEnv \<Rightarrow> Breakpoint \<Rightarrow> Widths panicking" where
  "breakpoint_width env bp = obind (widths_add_assign (line_width bp) (env_background env)) (\<lambda>w. widths_add_assign w (add_width bp))"

text \<open>The width a line is set to and its widths, with the protrusion of the line's own edges.\<close>

definition line_target :: "PassEnv \<Rightarrow> nat option \<Rightarrow> Breakpoint \<Rightarrow> Widths \<Rightarrow> scaled \<Rightarrow> (Widths \<times> scaled) panicking" where
  "line_target env s bp w target =
     (if pdf_protrude_chars (env_params env) > 1
      then let n = length (env_nodes env); start = min (site_start_position env s) n; stop = max (min (protrusion_end bp) n) start
           in obind (line_protrusion_cursor (env_state env) (env_nodes env) start stop) (\<lambda>p. protruded_target env p w target)
      else Ok (w, target))"

text \<open>Badness and fitness of the line from a site, as line number \<open>l + 1\<close> of the paragraph, to a breakpoint.\<close>

definition line_score :: "PassEnv \<Rightarrow> nat option \<Rightarrow> nat \<Rightarrow> Breakpoint \<Rightarrow> (int \<times> Fitness) panicking" where
  "line_score env s l bp =
     obind (breakpoint_width env bp) (\<lambda>bw.
     obind (widths_sub bw (site_start_width env s)) (\<lambda>w.
     obind (dimensions (shape (env_params env)) (l + 1)) (\<lambda>dims.
     obind (add_normal_stretch w (if env_emergency env then emergency_stretch (env_params env) else 0)) (\<lambda>w.
     obind (line_target env s bp w (ld_width dims)) (\<lambda>(w, target).
     obind (line_badness w target 0 (env_expansion_steps env)) (\<lambda>b.
       Ok (b, fitness_class (min b INF_BAD) (t_natural (w_base w)) target)))))))"

text \<open>A line that may still be continued past a breakpoint.\<close>

definition line_open :: "PassEnv \<Rightarrow> RouteEnd \<Rightarrow> nat \<Rightarrow> bool" where
  "line_open env r i \<longleftrightarrow> \<not> is_forced (env_sites env ! i)
     \<and> (\<exists>b fit. line_score env (re_site r) (re_line r) (env_sites env ! i) = Ok (b, fit) \<and> b \<le> INF_BAD)"

definition route_demerits :: "PassEnv \<Rightarrow> RouteEnd \<Rightarrow> Breakpoint \<Rightarrow> int \<Rightarrow> Fitness \<Rightarrow> int panicking" where
  "route_demerits env r bp b fit =
     obind (compute_route_demerits (env_params env) (site_hyphenated env (re_site r)) (re_fitness r) (min b INF_BAD)
              (bp_penalty bp) fit bp (is_terminal env bp)) (\<lambda>d.
       Ok (clamp (d + re_demerits r) (- (2 ^ 31)) AWFUL_BAD_lb))"

definition after_end :: "RouteEnd \<Rightarrow> nat \<Rightarrow> bool" where
  "after_end r i \<longleftrightarrow> (case re_site r of None \<Rightarrow> True | Some j \<Rightarrow> j < i)"

definition open_until :: "PassEnv \<Rightarrow> RouteEnd \<Rightarrow> nat \<Rightarrow> bool" where
  "open_until env r k \<longleftrightarrow> (\<forall>i<k. after_end r i \<longrightarrow> line_open env r i)"

text \<open>A feasible line to site \<open>k\<close>: within tolerance, not at a forbidden break, with demerits below the maximum.\<close>

definition feasible_line :: "PassEnv \<Rightarrow> RouteEnd \<Rightarrow> nat \<Rightarrow> RouteEnd \<Rightarrow> bool" where
  "feasible_line env r k r' \<longleftrightarrow> (\<exists>b fit d. line_score env (re_site r) (re_line r) (env_sites env ! k) = Ok (b, fit)
     \<and> bp_penalty (env_sites env ! k) < INF_PENALTY_lb \<and> b \<le> env_tolerance env
     \<and> route_demerits env r (env_sites env ! k) b fit = Ok d \<and> d < AWFUL_BAD_lb
     \<and> r' = \<lparr>re_site = Some k, re_line = re_line r + 1, re_fitness = fit, re_demerits = d\<rparr>)"

inductive feasible_route :: "PassEnv \<Rightarrow> nat list \<Rightarrow> RouteEnd \<Rightarrow> bool" for env where
  start_route: "feasible_route env [] route_start"
| extend_route: "feasible_route env ks r \<Longrightarrow> after_end r k \<Longrightarrow> k < length (env_sites env) \<Longrightarrow> open_until env r k
    \<Longrightarrow> feasible_line env r k r' \<Longrightarrow> feasible_route env (ks @ [k]) r'"

text \<open>A route that is still open when site \<open>k\<close> is reached.\<close>

definition open_at :: "PassEnv \<Rightarrow> nat \<Rightarrow> RouteEnd \<Rightarrow> bool" where
  "open_at env k r \<longleftrightarrow> after_end r k \<and> open_until env r k"

lemma feasible_route_last:
  assumes "feasible_route env ks r" and "re_site r = Some k"
  shows "\<exists>ks0 r0. ks = ks0 @ [k] \<and> feasible_route env ks0 r0 \<and> open_at env k r0 \<and> feasible_line env r0 k r"
  using assms(1)
proof cases
  case start_route
  then show ?thesis using assms(2) by (simp add: route_start_def)
next
  case (extend_route ks0 r0 k')
  then have "k' = k" using assms(2) by (auto simp: feasible_line_def)
  then show ?thesis using extend_route by (auto simp: open_at_def)
qed

section \<open>Lines of one class\<close>

lemma usize_add_Ok: "usize_add a b = Ok c \<longleftrightarrow> c = a + b \<and> int (a + b) < 2 ^ 64"
  by (auto simp: usize_add_def)

lemma line_number_class_cases:
  assumes "line_number_class l1 e = line_number_class l2 e" and "int l1 < 2 ^ 64 - 1" and "int l2 < 2 ^ 64 - 1"
  shows "l1 = l2 \<or> (e < l1 \<and> e < l2)"
  using assms by (auto simp: line_number_class_def min_def split: if_splits)

lemma line_number_class_Suc:
  "line_number_class l1 e = line_number_class l2 e \<Longrightarrow> line_number_class (Suc l1) e = line_number_class (Suc l2) e"
  by (auto simp: line_number_class_def min_def split: if_splits)

lemma dimensions_class:
  assumes "line_number_class l1 (tex_easy_line params) = line_number_class l2 (tex_easy_line params)"
    and "looseness params = 0"
    and "dimensions (shape params) (l1 + 1) = Ok d1" and "dimensions (shape params) (l2 + 1) = Ok d2"
  shows "d1 = d2"
proof -
  let ?e = "tex_easy_line params" and ?o = "line_offset (shape params)"
  have lt: "int (l1 + 1 + ?o) < 2 ^ 64" "int (l2 + 1 + ?o) < 2 ^ 64"
    using assms(3,4) by (auto simp: dimensions_def obind_eq_Ok usize_add_Ok)
  then have l: "int l1 < 2 ^ 64 - 1" "int l2 < 2 ^ 64 - 1" by simp_all
  consider "l1 = l2" | "?e < l1" "?e < l2" using line_number_class_cases [OF assms(1)] l by auto
  then show ?thesis
  proof cases
    case 2
    show ?thesis
    proof (cases "parshape (shape params)")
      case None
      have "hanging_applies (l1 + 1 + ?o) (hang_after (shape params)) = hanging_applies (l2 + 1 + ?o) (hang_after (shape params))"
        if "hang_indent (shape params) \<noteq> 0"
        using 2 None that assms(2) by (auto simp: hanging_applies_def tex_easy_line_def saturating_abs_usize_def split: if_splits)
      then show ?thesis using assms(3,4) None
        by (cases "hang_indent (shape params) = 0") (auto simp: dimensions_def hanging_dimensions_def obind_eq_Ok usize_add_Ok)
    next
      case (Some lines)
      then have "lines \<noteq> []" using 2 assms(2) l by (auto simp: tex_easy_line_def)
      then show ?thesis using 2 Some assms(2-4)
        by (auto simp: dimensions_def tex_easy_line_def obind_eq_Ok usize_add_Ok min_def Let_def split: if_splits)
    qed
  qed (use assms(3,4) in simp)
qed

definition pass_params_ok :: "PassEnv \<Rightarrow> bool" where
  "pass_params_ok env \<longleftrightarrow> looseness (env_params env) = 0 \<and> env_easy_line env = tex_easy_line (env_params env)
     \<and> \<not> env_final env \<and> \<not> llf_enabled (env_last_line_fit env)"

lemma line_score_class:
  assumes "pass_params_ok env" and "line_number_class l1 (env_easy_line env) = line_number_class l2 (env_easy_line env)"
    and "line_score env s l1 bp = Ok x1" and "line_score env s l2 bp = Ok x2"
  shows "x1 = x2"
proof -
  obtain d1 where d1: "dimensions (shape (env_params env)) (l1 + 1) = Ok d1" using assms(3) by (auto simp: line_score_def obind_eq_Ok)
  obtain d2 where d2: "dimensions (shape (env_params env)) (l2 + 1) = Ok d2" using assms(4) by (auto simp: line_score_def obind_eq_Ok)
  have "d1 = d2" using dimensions_class [OF _ _ d1 d2] assms(1,2) by (simp add: pass_params_ok_def)
  then show ?thesis using assms(3,4) d1 d2 by (simp add: line_score_def)
qed

section \<open>Visiting the active candidates\<close>

definition site_code :: "nat option \<Rightarrow> int" where
  "site_code s = (case s of None \<Rightarrow> INITIAL_BREAK_SITE | Some i \<Rightarrow> int i)"

definition site_position :: "PassEnv \<Rightarrow> nat option \<Rightarrow> nat" where
  "site_position env s = (case s of None \<Rightarrow> 0 | Some i \<Rightarrow> bp_position (env_sites env ! i))"

definition sites_ordered :: "Breakpoint list \<Rightarrow> bool" where
  "sites_ordered sites \<longleftrightarrow> sorted_wrt (\<lambda>a b. bp_position a < bp_position b) sites \<and> (\<forall>bp\<in>set sites. 0 < bp_position bp)
     \<and> int (length sites) < 2 ^ 31"

definition cand_at :: "PassEnv \<Rightarrow> nat option \<Rightarrow> Candidate \<Rightarrow> bool" where
  "cand_at env s c \<longleftrightarrow> (\<forall>i. s = Some i \<longrightarrow> i < length (env_sites env)) \<and> break_site c = site_code s
     \<and> position c = site_position env s \<and> hyphenated c = site_hyphenated env s"

lemma cand_at_breakpoint:
  assumes "cand_at env s c" and "sites_ordered (env_sites env)"
  shows "candidate_breakpoint c (env_sites env) = Ok (map_option (\<lambda>i. env_sites env ! i) s)"
  using assms by (auto simp: cand_at_def candidate_breakpoint_def site_code_def INITIAL_BREAK_SITE_def sites_ordered_def split: option.splits)

lemma cand_at_start:
  assumes "cand_at env s c" and "sites_ordered (env_sites env)"
  shows "start_width c (env_sites env) = Ok (site_start_width env s)"
    and "width_position c (env_sites env) = Ok (site_start_position env s)"
  by (auto simp: start_width_def width_position_def cand_at_breakpoint [OF assms] site_start_width_def site_start_position_def
      split: option.splits)

lemma scoring_target_line:
  assumes "cand_at env s c" and "sites_ordered (env_sites env)" and "cache_ok (env_nodes env) cache"
    and "scoring_target env cache bp c w target = Ok (cache', w', target')"
  shows "line_target env s bp w target = Ok (w', target')" and "cache_ok (env_nodes env) cache'"
proof -
  let ?n = "length (env_nodes env)"
  let ?start = "min (site_start_position env s) ?n"
  let ?stop = "max (min (protrusion_end bp) ?n) ?start"
  obtain cache'' p where p: "cached_line_protrusion cache (env_state env) (env_nodes env) ?start ?stop = (cache'', p)" by force
  have "p = line_protrusion_cursor (env_state env) (env_nodes env) ?start ?stop" and "cache_ok (env_nodes env) cache''"
    using cached_line_protrusion_cursor [OF assms(3) _ _ p] by simp_all
  then have "line_target env s bp w target = Ok (w', target') \<and> cache_ok (env_nodes env) cache'"
    using assms(3,4) p
    by (auto simp: scoring_target_def protrusion_range_def cand_at_start [OF assms(1,2)] line_target_def Let_def obind_eq_Ok
        split: if_splits)
  then show "line_target env s bp w target = Ok (w', target')" and "cache_ok (env_nodes env) cache'" by simp_all
qed

lemma score_line_plain:
  "\<not> llf_enabled (env_last_line_fit env) \<Longrightarrow> score_line env c terminal w target =
     obind (line_badness w target 0 (env_expansion_steps env)) (\<lambda>b.
       Ok (b, fitness_class (min b INF_BAD) (t_natural (w_base w)) target, None))"
  by (simp add: score_line_def last_line_badness_def)

text \<open>The candidate that a feasible line from \<open>c\<close> to site \<open>k\<close> gives.\<close>

definition extends_to :: "PassEnv \<Rightarrow> nat \<Rightarrow> Candidate \<Rightarrow> Fitness \<Rightarrow> int \<Rightarrow> Candidate \<Rightarrow> bool" where
  "extends_to env k c fit d n \<longleftrightarrow> cand_at env (Some k) n \<and> line n = line c + 1 \<and> fitness n = fit \<and> path_demerits n = d
     \<and> cand_previous n = cand_passive c \<and> penalty n = bp_penalty (env_sites env ! k)"

lemma new_candidate_extends:
  assumes "new_candidate env (int k) (env_sites env ! k) sn c False w target (b, fit, None) = Ok n" and "k < length (env_sites env)"
  shows "\<exists>d. compute_demerits (env_params env) c (min b INF_BAD) (bp_penalty (env_sites env ! k)) fit (env_sites env ! k)
      (is_terminal env (env_sites env ! k)) = Ok d \<and> extends_to env k c fit d n"
  using assms by (auto simp: new_candidate_def Let_def obind_eq_Ok extends_to_def cand_at_def site_code_def site_position_def
      site_hyphenated_def split: if_splits)

definition candidate_demerits :: "PassEnv \<Rightarrow> nat \<Rightarrow> Candidate \<Rightarrow> int \<Rightarrow> Fitness \<Rightarrow> int panicking" where
  "candidate_demerits env k c b fit = compute_demerits (env_params env) c (min b INF_BAD) (bp_penalty (env_sites env ! k)) fit
     (env_sites env ! k) (is_terminal env (env_sites env ! k))"

text \<open>The state after a candidate with score \<open>(b, fit)\<close> has been settled.\<close>

definition settled :: "PassEnv \<Rightarrow> nat \<Rightarrow> Candidate \<Rightarrow> int \<Rightarrow> Fitness \<Rightarrow> VisitState \<Rightarrow> VisitState \<Rightarrow> bool" where
  "settled env k c b fit vs vs' \<longleftrightarrow>
     vs_survivors vs' = vs_survivors vs @ (if b > INF_BAD \<or> is_forced (env_sites env ! k) then [] else [c])
     \<and> (if bp_penalty (env_sites env ! k) < INF_PENALTY_lb \<and> b \<le> env_tolerance env
        then \<exists>d n. candidate_demerits env k c b fit = Ok d \<and> extends_to env k c fit d n
          \<and> vs_winners vs' = record_best_route (vs_winners vs) n (env_easy_line env)
        else vs_winners vs' = vs_winners vs)"

lemma settled_edges: "settled env k c b fit (vs\<lparr>vs_edges := cache\<rparr>) vs' = settled env k c b fit vs vs'"
  by (simp add: settled_def cong: if_cong)

lemma settle_candidate_settled:
  assumes "settle_candidate env (int k) (env_sites env ! k) last_one c w target (b, fit, None) vs = Ok vs'"
    and "\<not> env_final env" and "k < length (env_sites env)"
  shows "settled env k c b fit vs vs'" and "vs_edges vs' = vs_edges vs"
proof -
  let ?bp = "env_sites env ! k" and ?ok = "bp_penalty (env_sites env ! k) < INF_PENALTY_lb \<and> b \<le> env_tolerance env"
  obtain vs1 where one: "(if ?ok then obind (new_candidate env (int k) ?bp (vs_next_serial vs) c False w target (b, fit, None)) (\<lambda>new.
            Ok (vs\<lparr>vs_next_serial := vs_next_serial vs + 1,
                   vs_winners := record_best_route (vs_winners vs) new (env_easy_line env)\<rparr>)) else Ok vs) = Ok vs1"
      and two: "(if \<not> (b > INF_BAD \<or> is_forced ?bp) then Ok (vs1\<lparr>vs_survivors := vs_survivors vs1 @ [c]\<rparr>)
         else obind (to_u32 (serial c)) (\<lambda>s. Ok (vs1\<lparr>vs_search := vs_search vs1 @ [Free (ActiveNode s)]\<rparr>))) = Ok vs'"
    using assms(1,2) by (auto simp: settle_candidate_def Let_def obind_eq_Ok)
  have "vs_survivors vs1 = vs_survivors vs" and edges: "vs_edges vs1 = vs_edges vs" using one by (auto simp: obind_eq_Ok split: if_splits)
  moreover have "vs_winners vs' = vs_winners vs1" "vs_edges vs' = vs_edges vs1"
      "vs_survivors vs' = vs_survivors vs1 @ (if b > INF_BAD \<or> is_forced ?bp then [] else [c])"
    using two by (auto simp: obind_eq_Ok split: if_splits)
  moreover have "\<exists>d n. candidate_demerits env k c b fit = Ok d \<and> extends_to env k c fit d n
      \<and> vs_winners vs1 = record_best_route (vs_winners vs) n (env_easy_line env)" if ok: ?ok
  proof -
    obtain n where "new_candidate env (int k) ?bp (vs_next_serial vs) c False w target (b, fit, None) = Ok n"
        "vs_winners vs1 = record_best_route (vs_winners vs) n (env_easy_line env)"
      using one ok by (auto simp: obind_eq_Ok)
    then show ?thesis using new_candidate_extends [OF _ assms(3)] by (fastforce simp: candidate_demerits_def)
  qed
  moreover have "vs_winners vs1 = vs_winners vs" if "\<not> ?ok" using one that by (auto split: if_splits)
  ultimately show "settled env k c b fit vs vs'" and "vs_edges vs' = vs_edges vs" by (simp_all add: settled_def)
qed

lemma visit_candidate_step:
  assumes "visit_candidate env (int k) (env_sites env ! k) bw last_one c vs = Ok vs'" and "pass_params_ok env"
    and "cand_at env s c" and "sites_ordered (env_sites env)" and "cache_ok (env_nodes env) (vs_edges vs)"
    and "k < length (env_sites env)" and "breakpoint_width env (env_sites env ! k) = Ok bw"
    and "position c < bp_position (env_sites env ! k)"
  obtains b fit where "line_score env s (line c) (env_sites env ! k) = Ok (b, fit)" and "cache_ok (env_nodes env) (vs_edges vs')"
    and "settled env k c b fit vs vs'"
proof -
  let ?bp = "env_sites env ! k"
  have nf: "\<not> env_final env" and nl: "\<not> llf_enabled (env_last_line_fit env)" using assms(2) by (simp_all add: pass_params_ok_def)
  obtain w0 target0 cache w target b where
      cw: "candidate_widths env bw c = Ok (w0, target0)"
      and st: "scoring_target env (vs_edges vs) ?bp c w0 target0 = Ok (cache, w, target)"
      and sl: "line_badness w target 0 (env_expansion_steps env) = Ok b"
      and sc: "settle_candidate env (int k) ?bp last_one c w target
        (b, fitness_class (min b INF_BAD) (t_natural (w_base w)) target, None) (vs\<lparr>vs_edges := cache\<rparr>) = Ok vs'"
    using assms(1,8) by (auto simp: visit_candidate_def score_line_plain [OF nl] obind_eq_Ok)
  let ?fit = "fitness_class (min b INF_BAD) (t_natural (w_base w)) target"
  note tgt = scoring_target_line [OF assms(3,4,5) st]
  have "line_score env s (line c) ?bp = Ok (b, ?fit)"
    using cw tgt(1) sl assms(7)
    by (auto simp: line_score_def candidate_widths_def cand_at_start [OF assms(3,4)] obind_eq_Ok)
  moreover have "settled env k c b ?fit vs vs'" "cache_ok (env_nodes env) (vs_edges vs')"
    using settle_candidate_settled [OF sc nf assms(6)] tgt(2) by (simp_all add: settled_edges)
  ultimately show ?thesis using that by blast
qed

text \<open>A candidate knows its site.\<close>

definition cand_site :: "Candidate \<Rightarrow> nat option" where
  "cand_site c = (if break_site c = INITIAL_BREAK_SITE then None else Some (nat (break_site c)))"

lemma cand_at_site:
  assumes "cand_at env s c" and "sites_ordered (env_sites env)"
  shows "cand_site c = s"
  using assms by (cases s) (auto simp: cand_at_def cand_site_def site_code_def INITIAL_BREAK_SITE_def sites_ordered_def)

definition cand_score :: "PassEnv \<Rightarrow> nat \<Rightarrow> Candidate \<Rightarrow> (int \<times> Fitness) panicking" where
  "cand_score env k c = line_score env (cand_site c) (line c) (env_sites env ! k)"

definition survives :: "PassEnv \<Rightarrow> nat \<Rightarrow> Candidate \<Rightarrow> bool" where
  "survives env k c \<longleftrightarrow> \<not> is_forced (env_sites env ! k) \<and> (\<exists>b fit. cand_score env k c = Ok (b, fit) \<and> b \<le> INF_BAD)"

definition feasible_at :: "PassEnv \<Rightarrow> nat \<Rightarrow> Candidate \<Rightarrow> bool" where
  "feasible_at env k c \<longleftrightarrow> bp_penalty (env_sites env ! k) < INF_PENALTY_lb
     \<and> (\<exists>b fit. cand_score env k c = Ok (b, fit) \<and> b \<le> env_tolerance env)"

definition new_from :: "PassEnv \<Rightarrow> nat \<Rightarrow> Candidate \<Rightarrow> Candidate \<Rightarrow> bool" where
  "new_from env k c n \<longleftrightarrow> feasible_at env k c
     \<and> (\<exists>b fit d. cand_score env k c = Ok (b, fit) \<and> candidate_demerits env k c b fit = Ok d \<and> extends_to env k c fit d n)"

lemma new_from_better: "new_from env k c n \<Longrightarrow> new_from env k c m \<Longrightarrow> better_winner e n m"
  by (auto simp: new_from_def extends_to_def better_winner_def)

text \<open>What visiting active candidates gives, apart from the order of the winners.\<close>

definition visited :: "PassEnv \<Rightarrow> nat \<Rightarrow> Candidate set \<Rightarrow> VisitState \<Rightarrow> VisitState \<Rightarrow> bool" where
  "visited env k C vs vs' \<longleftrightarrow> cache_ok (env_nodes env) (vs_edges vs')
     \<and> (\<forall>c\<in>C. \<exists>x. cand_score env k c = Ok x)
     \<and> (\<forall>c\<in>C. feasible_at env k c \<longrightarrow> (\<exists>n. new_from env k c n))
     \<and> set (vs_survivors vs') = set (vs_survivors vs) \<union> {c \<in> C. survives env k c}
     \<and> set (vs_winners vs') \<subseteq> set (vs_winners vs) \<union> {n. \<exists>c\<in>C. new_from env k c n}
     \<and> (\<forall>w. w \<in> set (vs_winners vs) \<or> (\<exists>c\<in>C. new_from env k c w) \<longrightarrow>
          (\<exists>v\<in>set (vs_winners vs'). better_winner (env_easy_line env) v w))"

lemma visited_trans:
  assumes "visited env k C vs vs1" and "visited env k D vs1 vs2"
  shows "visited env k (C \<union> D) vs vs2"
proof -
  have "\<exists>v\<in>set (vs_winners vs2). better_winner (env_easy_line env) v w"
    if w: "w \<in> set (vs_winners vs) \<or> (\<exists>c\<in>C \<union> D. new_from env k c w)" for w
  proof (cases "\<exists>c\<in>D. new_from env k c w")
    case True
    then show ?thesis using assms(2) by (simp add: visited_def)
  next
    case False
    then obtain v where v: "v \<in> set (vs_winners vs1)" "better_winner (env_easy_line env) v w"
      using assms(1) w by (auto simp: visited_def)
    then obtain u where "u \<in> set (vs_winners vs2)" "better_winner (env_easy_line env) u v"
      using assms(2) by (auto simp: visited_def)
    then show ?thesis using better_winner_trans v(2) by blast
  qed
  then show ?thesis using assms unfolding visited_def by (intro conjI) (blast+)
qed

lemma settled_visited:
  assumes "settled env k c b fit vs vs'" and "cand_score env k c = Ok (b, fit)" and "cache_ok (env_nodes env) (vs_edges vs')"
  shows "visited env k {c} vs vs'"
proof (cases "feasible_at env k c")
  case True
  then obtain d n where n: "candidate_demerits env k c b fit = Ok d" "extends_to env k c fit d n"
      "vs_winners vs' = record_best_route (vs_winners vs) n (env_easy_line env)"
    using assms(1,2) by (auto simp: settled_def feasible_at_def)
  then have new: "new_from env k c n" using True assms(2) by (auto simp: new_from_def)
  have "\<exists>v\<in>set (vs_winners vs'). better_winner (env_easy_line env) v w"
    if "w \<in> set (vs_winners vs) \<or> new_from env k c w" for w
  proof (cases "w \<in> set (vs_winners vs)")
    case True
    then show ?thesis using record_best_route_covers [of w n] n(3) by simp
  next
    case False
    obtain v where "v \<in> set (vs_winners vs')" "better_winner (env_easy_line env) v n"
      using record_best_route_covers [of n n] n(3) by auto
    then show ?thesis using False that new_from_better [OF new] better_winner_trans by blast
  qed
  then show ?thesis using assms new n(3) record_best_route_subset [of "vs_winners vs" n "env_easy_line env"]
    by (auto simp: visited_def settled_def survives_def)
next
  case False
  then have "vs_winners vs' = vs_winners vs" using assms(1,2) by (auto simp: settled_def feasible_at_def split: if_splits)
  then show ?thesis using assms False by (auto simp: visited_def settled_def survives_def new_from_def intro: better_winner_refl)
qed

definition visitable :: "PassEnv \<Rightarrow> nat \<Rightarrow> Candidate \<Rightarrow> bool" where
  "visitable env k c \<longleftrightarrow> cand_at env (cand_site c) c \<and> position c < bp_position (env_sites env ! k)"

lemma visit_active_visited:
  assumes "pass_params_ok env" and "sites_ordered (env_sites env)" and "k < length (env_sites env)"
    and "breakpoint_width env (env_sites env ! k) = Ok bw"
  shows "visit_active env (int k) (env_sites env ! k) bw cs vs = Ok vs' \<Longrightarrow> cache_ok (env_nodes env) (vs_edges vs)
    \<Longrightarrow> \<forall>c\<in>set cs. visitable env k c \<Longrightarrow> visited env k (set cs) vs vs'"
proof (induction cs arbitrary: vs)
  case Nil
  then show ?case by (auto simp: visited_def intro: better_winner_refl)
next
  case (Cons c cs)
  then obtain vs1 where one: "visit_candidate env (int k) (env_sites env ! k) bw (cs = []) c vs = Ok vs1"
      and two: "visit_active env (int k) (env_sites env ! k) bw cs vs1 = Ok vs'" by (auto simp: obind_eq_Ok)
  have vc: "cand_at env (cand_site c) c" "position c < bp_position (env_sites env ! k)"
    using Cons.prems(3) by (simp_all add: visitable_def)
  obtain b fit where "line_score env (cand_site c) (line c) (env_sites env ! k) = Ok (b, fit)"
      "cache_ok (env_nodes env) (vs_edges vs1)" "settled env k c b fit vs vs1"
    using visit_candidate_step [OF one assms(1) vc(1) assms(2) Cons.prems(2) assms(3,4) vc(2)] .
  then have "visited env k {c} vs vs1" and "cache_ok (env_nodes env) (vs_edges vs1)"
    by (auto intro: settled_visited simp: cand_score_def)
  moreover from this have "visited env k (set cs) vs1 vs'" using Cons.IH [OF two] Cons.prems(3) by simp
  ultimately show ?case using visited_trans by fastforce
qed

section \<open>Passive nodes\<close>

definition site_decision :: "PassEnv \<Rightarrow> nat \<Rightarrow> BreakDecision" where
  "site_decision env k = \<lparr>bd_position = min (bp_position (env_sites env ! k)) (length (env_nodes env)),
     bd_penalty = bp_penalty (env_sites env ! k), bd_hyphenated = bp_hyphenated (env_sites env ! k)\<rparr>"

lemma passive_chain_mono:
  "passive_chain f routes x = Ok ds \<Longrightarrow> f \<le> g \<Longrightarrow> passive_chain g (routes @ tail) x = Ok ds"
proof (induction f routes x arbitrary: g ds rule: passive_chain.induct)
  case (3 f routes i)
  then obtain g' where "g = Suc g'" "f \<le> g'" by (cases g) auto
  then show ?case using 3 by (auto simp: obind_eq_Ok nth_append split: if_splits)
qed auto

definition admitted :: "PassEnv \<Rightarrow> nat \<Rightarrow> PassiveRoute list \<Rightarrow> Candidate \<Rightarrow> Candidate \<Rightarrow> bool" where
  "admitted env m routes' c c' \<longleftrightarrow> (\<exists>i. m \<le> i \<and> i < length routes' \<and> routes' ! i = passive_route env c
     \<and> c' = c\<lparr>cand_passive := Some i\<rparr>)"

lemma admitted_mono: "admitted env m routes' c c' \<Longrightarrow> l \<le> m \<Longrightarrow> admitted env l routes' c c'"
  unfolding admitted_def using order_trans by blast

lemma admit_winners_admitted:
  "admit_winners env cs routes search = Ok (cs', routes', search') \<Longrightarrow>
     (\<exists>tail. routes' = routes @ tail) \<and> list_all2 (admitted env (length routes) routes') cs cs'"
proof (induction cs arbitrary: routes search cs')
  case (Cons c cs)
  obtain rest s where rec: "admit_winners env cs (routes @ [passive_route env c]) s = Ok (rest, routes', search')"
      and cs': "cs' = c\<lparr>cand_passive := Some (length routes)\<rparr> # rest"
    using Cons.prems by (auto simp: obind_eq_Ok)
  obtain tail where tail: "routes' = (routes @ [passive_route env c]) @ tail"
      and all: "list_all2 (admitted env (Suc (length routes)) routes') cs rest"
    using Cons.IH [OF rec] by auto
  have "admitted env (length routes) routes' c (c\<lparr>cand_passive := Some (length routes)\<rparr>)"
    unfolding admitted_def using tail by (intro exI [of _ "length routes"]) (simp add: nth_append)
  moreover have "list_all2 (admitted env (length routes) routes') cs rest"
    using all by (rule list_all2_mono) (erule admitted_mono, simp)
  ultimately show ?case using cs' tail by auto
qed auto

lemma admitted_fields:
  assumes "admitted env m routes' c c'"
  shows "cand_at env s c' = cand_at env s c" and "line c' = line c" and "fitness c' = fitness c"
    and "path_demerits c' = path_demerits c"
  using assms by (auto simp: admitted_def cand_at_def)

section \<open>The invariant of a pass\<close>

definition represents :: "PassEnv \<Rightarrow> PassiveRoute list \<Rightarrow> Candidate \<Rightarrow> nat list \<Rightarrow> RouteEnd \<Rightarrow> bool" where
  "represents env routes c ks r \<longleftrightarrow> feasible_route env ks r \<and> cand_at env (re_site r) c \<and> line c = re_line r
     \<and> fitness c = re_fitness r \<and> path_demerits c = re_demerits r
     \<and> passive_chain (Suc (length routes)) routes (cand_passive c) = Ok (map (site_decision env) ks)"

definition covers :: "PassEnv \<Rightarrow> Candidate \<Rightarrow> RouteEnd \<Rightarrow> bool" where
  "covers env c r \<longleftrightarrow> cand_at env (re_site r) c
     \<and> line_number_class (line c) (env_easy_line env) = line_number_class (re_line r) (env_easy_line env)
     \<and> (fitness c = re_fitness r \<and> path_demerits c \<le> re_demerits r
        \<or> path_demerits c + \<bar>adj_demerits (env_params env)\<bar> \<le> re_demerits r)"

definition pass_inv :: "PassEnv \<Rightarrow> nat \<Rightarrow> PassState \<Rightarrow> bool" where
  "pass_inv env k ps \<longleftrightarrow> cache_ok (env_nodes env) (ps_edges ps)
     \<and> (\<forall>c\<in>set (ps_active ps). \<exists>ks r. represents env (ps_passive ps) c ks r \<and> open_at env k r)
     \<and> (\<forall>ks r. feasible_route env ks r \<longrightarrow> open_at env k r \<longrightarrow> (\<exists>c\<in>set (ps_active ps). covers env c r))"

lemma open_at_Suc:
  "open_at env (Suc k) r \<longleftrightarrow> re_site r = Some k \<or> (open_at env k r \<and> line_open env r k)"
  by (auto simp: open_at_def open_until_def after_end_def less_Suc_eq split: option.splits)

lemma compute_route_demerits_fitness:
  assumes "compute_route_demerits params h f1 b p fit bp t = Ok x" and "compute_route_demerits params h f2 b p fit bp t = Ok y"
  shows "x \<le> y + \<bar>adj_demerits params\<bar>" and "f1 = f2 \<Longrightarrow> x = y"
  using assms by (auto simp: compute_route_demerits_def Let_def checked32_def split: if_splits)

lemma clamp_mono: "lo \<le> hi \<Longrightarrow> a \<le> b \<Longrightarrow> clamp a lo hi \<le> clamp b lo hi"
  by (auto simp: clamp_def)

lemma new_from_covers:
  assumes "covers env c r" and "pass_params_ok env" and "new_from env k c n" and "feasible_line env r k r'"
    and "sites_ordered (env_sites env)"
  shows "line_number_class (line n) (env_easy_line env) = line_number_class (re_line r') (env_easy_line env)"
    and "fitness n = re_fitness r'" and "path_demerits n \<le> re_demerits r'"
proof -
  have site: "cand_site c = re_site r" and hyph: "hyphenated c = site_hyphenated env (re_site r)"
    using assms(1,5) cand_at_site by (auto simp: covers_def cand_at_def)
  have cls: "line_number_class (line c) (env_easy_line env) = line_number_class (re_line r) (env_easy_line env)"
    using assms(1) by (simp add: covers_def)
  obtain b fit d where r': "line_score env (re_site r) (re_line r) (env_sites env ! k) = Ok (b, fit)"
      "route_demerits env r (env_sites env ! k) b fit = Ok d" "r' = \<lparr>re_site = Some k, re_line = re_line r + 1, re_fitness = fit, re_demerits = d\<rparr>"
    using assms(4) by (auto simp: feasible_line_def)
  obtain b' fit' d' where n: "line_score env (re_site r) (line c) (env_sites env ! k) = Ok (b', fit')"
      "candidate_demerits env k c b' fit' = Ok d'" "extends_to env k c fit' d' n"
    using assms(3) site by (auto simp: new_from_def cand_score_def)
  have eq: "b' = b" "fit' = fit" using line_score_class [OF assms(2) cls n(1) r'(1)] by simp_all
  obtain x where x: "compute_route_demerits (env_params env) (site_hyphenated env (re_site r)) (re_fitness r) (min b INF_BAD)
      (bp_penalty (env_sites env ! k)) fit (env_sites env ! k) (is_terminal env (env_sites env ! k)) = Ok x"
      "d = clamp (x + re_demerits r) (- (2 ^ 31)) AWFUL_BAD_lb"
    using r'(2) by (auto simp: route_demerits_def obind_eq_Ok)
  obtain y where y: "compute_route_demerits (env_params env) (site_hyphenated env (re_site r)) (fitness c) (min b INF_BAD)
      (bp_penalty (env_sites env ! k)) fit (env_sites env ! k) (is_terminal env (env_sites env ! k)) = Ok y"
      "d' = clamp (y + path_demerits c) (- (2 ^ 31)) AWFUL_BAD_lb"
    using n(2) eq hyph by (auto simp: candidate_demerits_def compute_demerits_def obind_eq_Ok)
  have "y + path_demerits c \<le> x + re_demerits r"
    using compute_route_demerits_fitness [OF y(1) x(1)] assms(1) by (auto simp: covers_def)
  then have "d' \<le> d" unfolding x(2) y(2) by (intro clamp_mono) (simp_all add: AWFUL_BAD_lb_def)
  then show "line_number_class (line n) (env_easy_line env) = line_number_class (re_line r') (env_easy_line env)"
    and "fitness n = re_fitness r'" and "path_demerits n \<le> re_demerits r'"
    using n(3) r'(3) eq line_number_class_Suc [OF cls] by (simp_all add: extends_to_def)
qed

lemma covers_survives:
  assumes "covers env c r" and "pass_params_ok env" and "line_open env r k" and "cand_score env k c = Ok x"
    and "sites_ordered (env_sites env)"
  shows "survives env k c"
proof -
  have "cand_site c = re_site r" using assms(1,5) cand_at_site by (auto simp: covers_def)
  then have c: "line_score env (re_site r) (line c) (env_sites env ! k) = Ok x" using assms(4) by (simp add: cand_score_def)
  obtain b fit where b: "line_score env (re_site r) (re_line r) (env_sites env ! k) = Ok (b, fit)" "b \<le> INF_BAD"
    using assms(3) by (auto simp: line_open_def)
  have "x = (b, fit)" using line_score_class [OF assms(2) _ c b(1)] assms(1) by (simp add: covers_def)
  then show ?thesis using assms(3,4) b(2) by (auto simp: survives_def line_open_def)
qed

definition visit_start :: "PassState \<Rightarrow> VisitState" where
  "visit_start ps = \<lparr>vs_survivors = [], vs_winners = [], vs_next_serial = ps_next_serial ps, vs_search = ps_search ps,
     vs_edges = ps_edges ps\<rparr>"

lemma visit_start_simps [simp]:
  "vs_survivors (visit_start ps) = []" "vs_winners (visit_start ps) = []" "vs_edges (visit_start ps) = ps_edges ps"
  by (simp_all add: visit_start_def)

lemma sites_ordered_less:
  assumes "sites_ordered (env_sites env)" and "k < length (env_sites env)" and "after_end r k"
  shows "site_position env (re_site r) < bp_position (env_sites env ! k)"
proof (cases "re_site r")
  case None
  then show ?thesis using assms by (simp add: sites_ordered_def site_position_def)
next
  case (Some j)
  then show ?thesis using assms sorted_wrt_nth_less [of "\<lambda>a b. bp_position a < bp_position b" "env_sites env" j k]
    by (simp add: sites_ordered_def site_position_def after_end_def)
qed

lemma pass_inv_visitable:
  assumes "pass_inv env k ps" and "sites_ordered (env_sites env)" and "k < length (env_sites env)" and "c \<in> set (ps_active ps)"
  shows "visitable env k c"
proof -
  obtain ks r where "represents env (ps_passive ps) c ks r" "open_at env k r" using assms(1,4) by (auto simp: pass_inv_def)
  then have at: "cand_at env (re_site r) c" and "after_end r k" by (simp_all add: represents_def open_at_def)
  then have "position c < bp_position (env_sites env ! k)"
    using sites_ordered_less [OF assms(2,3)] by (simp add: cand_at_def)
  then show ?thesis using at cand_at_site [OF at assms(2)] by (simp add: visitable_def)
qed

lemma pass_site_parts:
  assumes "pass_site env k (env_sites env ! k) ps = Ok ps'" and "pass_params_ok env" and "sites_ordered (env_sites env)"
    and "k < length (env_sites env)" and "pass_inv env k ps"
  obtains vs cs where "visited env k (set (ps_active ps)) (visit_start ps) vs"
    and "list_all2 (admitted env (length (ps_passive ps)) (ps_passive ps'))
      (retain_competitive_routes (vs_winners vs) (adj_demerits (env_params env)) (env_easy_line env)) cs"
    and "set (ps_active ps') = set (vs_survivors vs) \<union> set cs" and "\<exists>tail. ps_passive ps' = ps_passive ps @ tail"
    and "cache_ok (env_nodes env) (ps_edges ps')"
proof -
  let ?bp = "env_sites env ! k"
  obtain bw vs cs routes search active where
      bw: "breakpoint_width env ?bp = Ok bw"
      and vs: "visit_active env (int k) ?bp bw (ps_active ps) (visit_start ps) = Ok vs"
      and cs: "admit_winners env (retain_competitive_routes (vs_winners vs) (adj_demerits (env_params env)) (env_easy_line env))
          (ps_passive ps) (vs_search vs) = Ok (cs, routes, search)"
      and active: "merge_active_candidates (env_params env) (env_easy_line env) (vs_survivors vs) cs = Ok active"
      and ps': "ps' = \<lparr>ps_active = active, ps_passive = routes, ps_next_serial = vs_next_serial vs, ps_search = search,
        ps_edges = vs_edges vs\<rparr>"
    using assms(1) by (auto simp: pass_site_def obind_eq_Ok breakpoint_width_def visit_start_def to_u32_def split: if_splits)
  have cache: "cache_ok (env_nodes env) (vs_edges (visit_start ps))" using assms(5) by (simp add: pass_inv_def)
  have "visited env k (set (ps_active ps)) (visit_start ps) vs"
    using visit_active_visited [OF assms(2-4) bw vs cache] pass_inv_visitable [OF assms(5,3,4)] by simp
  moreover have "cache_ok (env_nodes env) (ps_edges ps')" using calculation ps' by (simp add: visited_def)
  ultimately show ?thesis
    by (intro that [of vs cs]) (use admit_winners_admitted [OF cs] set_merge_active [OF active] ps' in simp_all)
qed

lemma represents_routes: "represents env routes c ks r \<Longrightarrow> represents env (routes @ tail) c ks r"
  by (auto simp: represents_def intro: passive_chain_mono simp del: passive_chain.simps)

lemma represents_survivor:
  assumes "represents env routes c ks r" and "open_at env k r" and "survives env k c" and "sites_ordered (env_sites env)"
  shows "open_at env (Suc k) r"
proof -
  have "cand_site c = re_site r" "line c = re_line r" using assms(1,4) cand_at_site by (auto simp: represents_def)
  then show ?thesis using assms(2,3) by (auto simp: open_at_Suc survives_def cand_score_def line_open_def)
qed

text \<open>An admitted winner ends the route of the candidate it came from, extended by the site.\<close>

lemma represents_winner:
  assumes "represents env routes c ks r" and "open_at env k r" and "new_from env k c n" and "path_demerits n < AWFUL_BAD_lb"
    and "admitted env (length routes) (routes @ tail) n n'" and "k < length (env_sites env)" and "sites_ordered (env_sites env)"
  shows "\<exists>r'. represents env (routes @ tail) n' (ks @ [k]) r' \<and> open_at env (Suc k) r'"
proof -
  have c: "cand_at env (re_site r) c" "line c = re_line r" "fitness c = re_fitness r" "path_demerits c = re_demerits r"
      and chain: "passive_chain (Suc (length routes)) routes (cand_passive c) = Ok (map (site_decision env) ks)"
      and route: "feasible_route env ks r" using assms(1) by (simp_all add: represents_def)
  have site: "cand_site c = re_site r" using cand_at_site [OF c(1) assms(7)] .
  obtain b fit d where n: "cand_score env k c = Ok (b, fit)" "candidate_demerits env k c b fit = Ok d" "extends_to env k c fit d n"
      "bp_penalty (env_sites env ! k) < INF_PENALTY_lb" "b \<le> env_tolerance env"
    using assms(3) by (auto simp: new_from_def feasible_at_def)
  let ?r = "\<lparr>re_site = Some k, re_line = re_line r + 1, re_fitness = fit, re_demerits = d\<rparr>"
  have "route_demerits env r (env_sites env ! k) b fit = Ok d"
    using n(2) c by (simp add: route_demerits_def candidate_demerits_def compute_demerits_def cand_at_def)
  then have "feasible_line env r k ?r" using n assms(4) site c(2)
    by (simp add: feasible_line_def cand_score_def extends_to_def)
  then have "feasible_route env (ks @ [k]) ?r"
    using extend_route [OF route _ assms(6)] assms(2) by (simp add: open_at_def)
  moreover obtain i where i: "length routes \<le> i" "i < length (routes @ tail)" "(routes @ tail) ! i = passive_route env n"
      "n' = n\<lparr>cand_passive := Some i\<rparr>" using assms(5) by (auto simp: admitted_def)
  moreover have "passive_chain (length (routes @ tail)) (routes @ tail) (cand_passive c) = Ok (map (site_decision env) ks)"
    using passive_chain_mono [OF chain] i(1,2) by simp
  ultimately have "represents env (routes @ tail) n' (ks @ [k]) ?r" using n(3) c(2)
    by (simp add: represents_def extends_to_def passive_route_def site_decision_def cand_at_def site_position_def site_hyphenated_def)
  then show ?thesis by (auto simp: open_at_Suc)
qed

lemma pass_inv_represents:
  "pass_inv env k ps \<Longrightarrow> c \<in> set (ps_active ps) \<Longrightarrow> \<exists>ks r. represents env (ps_passive ps) c ks r \<and> open_at env k r"
  unfolding pass_inv_def by blast

lemma pass_inv_covers:
  "pass_inv env k ps \<Longrightarrow> feasible_route env ks r \<Longrightarrow> open_at env k r \<Longrightarrow> \<exists>c\<in>set (ps_active ps). covers env c r"
  unfolding pass_inv_def by blast

lemma visited_from_start:
  assumes "visited env k C (visit_start ps) vs"
  shows "set (vs_survivors vs) = {c \<in> C. survives env k c}"
    and "w \<in> set (vs_winners vs) \<Longrightarrow> \<exists>c\<in>C. new_from env k c w"
    and "c \<in> C \<Longrightarrow> \<exists>x. cand_score env k c = Ok x"
    and "c \<in> C \<Longrightarrow> feasible_at env k c \<Longrightarrow> \<exists>n. new_from env k c n"
    and "c \<in> C \<Longrightarrow> new_from env k c n \<Longrightarrow> \<exists>v\<in>set (vs_winners vs). better_winner (env_easy_line env) v n"
  using assms unfolding visited_def visit_start_simps by auto

lemma list_all2_memD1: "list_all2 P xs ys \<Longrightarrow> x \<in> set xs \<Longrightarrow> \<exists>y\<in>set ys. P x y"
  by (induction rule: list_all2_induct) auto

lemma list_all2_memD2: "list_all2 P xs ys \<Longrightarrow> y \<in> set ys \<Longrightarrow> \<exists>x\<in>set xs. P x y"
  by (induction rule: list_all2_induct) auto

lemma retain_below_awful: "c \<in> set (retain_competitive_routes ws adj e) \<Longrightarrow> path_demerits c < AWFUL_BAD_lb"
  by (auto simp: retain_competitive_routes_def competitive_def)

lemma pass_site_sound:
  assumes "pass_site env k (env_sites env ! k) ps = Ok ps'" and "pass_params_ok env" and "sites_ordered (env_sites env)"
    and "k < length (env_sites env)" and "pass_inv env k ps" and "c \<in> set (ps_active ps')"
  shows "\<exists>ks r. represents env (ps_passive ps') c ks r \<and> open_at env (Suc k) r"
proof -
  obtain vs cs tail where v: "visited env k (set (ps_active ps)) (visit_start ps) vs"
      and adm: "list_all2 (admitted env (length (ps_passive ps)) (ps_passive ps'))
        (retain_competitive_routes (vs_winners vs) (adj_demerits (env_params env)) (env_easy_line env)) cs"
      and act: "set (ps_active ps') = set (vs_survivors vs) \<union> set cs" and tail: "ps_passive ps' = ps_passive ps @ tail"
    using pass_site_parts [OF assms(1-5)] by metis
  from assms(6) act consider "c \<in> set (vs_survivors vs)" | "c \<in> set cs" by auto
  then show ?thesis
  proof cases
    case 1
    then have "c \<in> set (ps_active ps)" and sv: "survives env k c" using visited_from_start(1) [OF v] by auto
    then obtain ks r where r: "represents env (ps_passive ps) c ks r" "open_at env k r" using pass_inv_represents [OF assms(5)] by blast
    then have "open_at env (Suc k) r" using represents_survivor [OF r sv assms(3)] by simp
    then show ?thesis using represents_routes [OF r(1)] tail by auto
  next
    case 2
    then obtain n where n: "n \<in> set (retain_competitive_routes (vs_winners vs) (adj_demerits (env_params env)) (env_easy_line env))"
        and a: "admitted env (length (ps_passive ps)) (ps_passive ps') n c" using list_all2_memD2 [OF adm] by blast
    then obtain p where p: "p \<in> set (ps_active ps)" "new_from env k p n"
      using visited_from_start(2) [OF v] retain_subset by blast
    then obtain ks r where r: "represents env (ps_passive ps) p ks r" "open_at env k r" using pass_inv_represents [OF assms(5)] by blast
    show ?thesis
      using represents_winner [OF r p(2) retain_below_awful [OF n] a [unfolded tail] assms(4,3)] tail by auto
  qed
qed

lemma feasible_line_feasible_at:
  assumes "feasible_line env r k r'" and "covers env c r" and "pass_params_ok env" and "cand_score env k c = Ok x"
    and "sites_ordered (env_sites env)"
  shows "feasible_at env k c"
proof -
  have "cand_site c = re_site r" using assms(2,5) cand_at_site by (auto simp: covers_def)
  then have c: "line_score env (re_site r) (line c) (env_sites env ! k) = Ok x" using assms(4) by (simp add: cand_score_def)
  obtain b fit where b: "line_score env (re_site r) (re_line r) (env_sites env ! k) = Ok (b, fit)" "b \<le> env_tolerance env"
    using assms(1) by (auto simp: feasible_line_def)
  have "x = (b, fit)" using line_score_class [OF assms(3) _ c b(1)] assms(2) by (simp add: covers_def)
  then show ?thesis using assms(1,4) b(2) by (auto simp: feasible_at_def feasible_line_def)
qed

lemma pass_site_complete:
  assumes "pass_site env k (env_sites env ! k) ps = Ok ps'" and "pass_params_ok env" and "sites_ordered (env_sites env)"
    and "k < length (env_sites env)" and "pass_inv env k ps" and "feasible_route env ks r" and "open_at env (Suc k) r"
  shows "\<exists>c\<in>set (ps_active ps'). covers env c r"
proof -
  obtain vs cs where v: "visited env k (set (ps_active ps)) (visit_start ps) vs"
      and adm: "list_all2 (admitted env (length (ps_passive ps)) (ps_passive ps'))
        (retain_competitive_routes (vs_winners vs) (adj_demerits (env_params env)) (env_easy_line env)) cs"
      and act: "set (ps_active ps') = set (vs_survivors vs) \<union> set cs"
    using pass_site_parts [OF assms(1-5)] by metis
  from assms(7) consider "open_at env k r" "line_open env r k" | "re_site r = Some k" by (auto simp: open_at_Suc)
  then show ?thesis
  proof cases
    case 1
    then obtain c where c: "c \<in> set (ps_active ps)" "covers env c r" using pass_inv_covers [OF assms(5,6)] by blast
    then obtain x where "cand_score env k c = Ok x" using visited_from_start(3) [OF v] by blast
    then have "survives env k c" using covers_survives [OF c(2) assms(2) 1(2) _ assms(3)] by simp
    then show ?thesis using c visited_from_start(1) [OF v] act by auto
  next
    case 2
    obtain ks0 r0 where r0: "feasible_route env ks0 r0" "open_at env k r0" "feasible_line env r0 k r"
      using feasible_route_last [OF assms(6) 2] by blast
    then obtain c where c: "c \<in> set (ps_active ps)" "covers env c r0" using pass_inv_covers [OF assms(5)] by blast
    then obtain x where "cand_score env k c = Ok x" using visited_from_start(3) [OF v] by blast
    then have "feasible_at env k c" using feasible_line_feasible_at [OF r0(3) c(2) assms(2) _ assms(3)] by simp
    then obtain n where n: "new_from env k c n" using visited_from_start(4) [OF v c(1)] by blast
    note nr = new_from_covers [OF c(2) assms(2) n r0(3) assms(3)]
    obtain w where w: "w \<in> set (vs_winners vs)" "better_winner (env_easy_line env) w n"
      using visited_from_start(5) [OF v c(1) n] by blast
    have "re_demerits r < AWFUL_BAD_lb" using r0(3) by (auto simp: feasible_line_def)
    then have "path_demerits w < AWFUL_BAD_lb" using w(2) nr(3) by (simp add: better_winner_def)
    then obtain u where u: "u \<in> set (retain_competitive_routes (vs_winners vs) (adj_demerits (env_params env)) (env_easy_line env))"
        "line_number_class (line u) (env_easy_line env) = line_number_class (line w) (env_easy_line env)"
        "fitness u = fitness w \<and> path_demerits u \<le> path_demerits w \<or> path_demerits u + \<bar>adj_demerits (env_params env)\<bar> \<le> path_demerits w"
      using retain_covers [OF w(1)] by blast
    obtain u' where u': "u' \<in> set cs" "admitted env (length (ps_passive ps)) (ps_passive ps') u u'"
      using list_all2_memD1 [OF adm u(1)] by blast
    obtain p where "new_from env k p u" using u(1) visited_from_start(2) [OF v] retain_subset by blast
    then have "cand_at env (Some k) u" by (auto simp: new_from_def extends_to_def)
    then have "covers env u' r" using u(2,3) w(2) nr 2
      by (auto simp: covers_def admitted_fields [OF u'(2)] better_winner_def)
    then show ?thesis using act u'(1) by auto
  qed
qed

lemma pass_site_inv:
  assumes "pass_site env k (env_sites env ! k) ps = Ok ps'" and "pass_params_ok env" and "sites_ordered (env_sites env)"
    and "k < length (env_sites env)" and "pass_inv env k ps"
  shows "pass_inv env (Suc k) ps'"
proof -
  have "cache_ok (env_nodes env) (ps_edges ps')" using pass_site_parts [OF assms] by metis
  then show ?thesis unfolding pass_inv_def
    using pass_site_sound [OF assms] pass_site_complete [OF assms] by blast
qed

lemma pass_sites_inv:
  "pass_sites env k bps ps = Ok ps' \<Longrightarrow> env_sites env = pre @ bps \<Longrightarrow> length pre = k \<Longrightarrow> pass_params_ok env
    \<Longrightarrow> sites_ordered (env_sites env) \<Longrightarrow> pass_inv env k ps \<Longrightarrow> pass_inv env (length (env_sites env)) ps'"
proof (induction bps arbitrary: k pre ps)
  case (Cons bp bps)
  from Cons.prems(1) obtain ps1 where ps1: "pass_site env k bp ps = Ok ps1" "pass_sites env (Suc k) bps ps1 = Ok ps'"
    by (auto simp: obind_eq_Ok)
  have bp: "env_sites env ! k = bp" "k < length (env_sites env)" using Cons.prems(2,3) by auto
  then have "pass_inv env (Suc k) ps1" using pass_site_inv ps1(1) Cons.prems(4-6) by simp
  then show ?case using Cons.IH [OF ps1(2), of "pre @ [bp]"] Cons.prems by simp
qed simp

lemma initial_pass_inv:
  assumes "sites_ordered (env_sites env)"
  shows "pass_inv env 0 initial_pass_state"
proof -
  have at: "cand_at env None initial_candidate"
    by (simp add: cand_at_def initial_candidate_def site_code_def site_position_def site_hyphenated_def)
  have "represents env [] initial_candidate [] route_start"
    unfolding represents_def using at by (simp add: start_route) (simp add: route_start_def initial_candidate_def)
  moreover have "open_at env 0 route_start" by (simp add: open_at_def open_until_def after_end_def route_start_def)
  moreover have "covers env initial_candidate r" if "feasible_route env ks r" "open_at env 0 r" for ks r
  proof -
    have "re_site r = None" using that(2) by (auto simp: open_at_def after_end_def split: option.splits)
    from that(1) this have "r = route_start" by (cases rule: feasible_route.cases) (auto simp: feasible_line_def)
    then show ?thesis using at by (simp add: covers_def route_start_def initial_candidate_def)
  qed
  ultimately show ?thesis by (auto simp: pass_inv_def initial_pass_state_def)
qed

section \<open>The choice at the end\<close>

lemma first_min_None [simp]: "first_min key xs = None \<longleftrightarrow> xs = []"
  by (cases xs) (auto split: option.splits)

lemma first_min_least: "first_min key xs = Some y \<Longrightarrow> y \<in> set xs \<and> (\<forall>x\<in>set xs. key y \<le> key x)"
proof (induction xs arbitrary: y)
  case (Cons a xs)
  then show ?case by (cases "first_min key xs") (auto split: if_splits intro: order_trans less_imp_le simp: not_less)
qed simp

lemma first_min2_None [simp]: "first_min2 k1 k2 xs = None \<longleftrightarrow> xs = []"
  by (cases xs) (auto split: option.splits)

lemma first_min2_least:
  "first_min2 k1 k2 xs = Some y \<Longrightarrow> y \<in> set xs \<and> (\<forall>x\<in>set xs. k1 y < k1 x \<or> (k1 y = k1 x \<and> k2 y \<le> k2 x))"
proof (induction xs arbitrary: y)
  case (Cons a xs)
  show ?case
  proof (cases "first_min2 k1 k2 xs")
    case None
    then show ?thesis using Cons.prems by simp
  next
    case (Some z)
    then have z: "z \<in> set xs" "\<forall>x\<in>set xs. k1 z < k1 x \<or> k1 z = k1 x \<and> k2 z \<le> k2 x" using Cons.IH by auto
    show ?thesis
    proof (cases "k1 z < k1 a \<or> (k1 z = k1 a \<and> k2 z < k2 a)")
      case True
      then show ?thesis using Cons.prems Some z by auto
    next
      case False
      then have "y = a" using Cons.prems Some by (simp split: if_splits)
      moreover have "\<forall>x\<in>set xs. k1 a < k1 x \<or> k1 a = k1 x \<and> k2 a \<le> k2 x" using False z(2) by force
      ultimately show ?thesis by simp
    qed
  qed
qed simp

lemma feasible_route_lines:
  "feasible_route env ks r \<Longrightarrow> re_line r = length ks
    \<and> (case re_site r of None \<Rightarrow> re_line r = 0 | Some k \<Rightarrow> re_line r \<le> Suc k \<and> k < length (env_sites env))"
  by (induction rule: feasible_route.induct)
     (auto simp: route_start_def feasible_line_def after_end_def split: option.splits)

definition complete_route :: "PassEnv \<Rightarrow> nat list \<Rightarrow> RouteEnd \<Rightarrow> bool" where
  "complete_route env ks r \<longleftrightarrow> feasible_route env ks r \<and> re_site r = Some (length (env_sites env) - 1)"

lemma open_at_end:
  assumes "env_sites env \<noteq> []" and "is_forced (last (env_sites env))"
  shows "open_at env (length (env_sites env)) r \<longleftrightarrow> re_site r = Some (length (env_sites env) - 1)"
proof -
  obtain n where n: "length (env_sites env) = Suc n" using assms(1) by (cases "env_sites env") auto
  then have "\<not> line_open env r n" using assms by (simp add: line_open_def last_conv_nth)
  then show ?thesis using n by (simp add: open_at_Suc)
qed

lemma choose_final_least:
  assumes "choose_final cs 0 = Some c" and "\<forall>c\<in>set cs. int (line c) < 2 ^ 31" and "first_min path_demerits cs = Some best"
  shows "c \<in> set cs" and "\<forall>d\<in>set cs. path_demerits c \<le> path_demerits d" and "line c = line best"
proof -
  have id: "line_i32 d = int (line d)" if "d \<in> set cs" for d
    using assms(2) that by (simp add: line_i32_def wrap32_def)
  note b = first_min_least [OF assms(3)]
  let ?key = "\<lambda>c. wrap32 \<bar>wrap32 (line_i32 c - wrap32 (line_i32 best))\<bar>"
  have key: "?key d = \<bar>int (line d) - int (line best)\<bar>" if d: "d \<in> set cs" for d
  proof -
    have "in_i32 (int (line best))" "in_i32 (int (line d) - int (line best))" "in_i32 \<bar>int (line d) - int (line best)\<bar>"
      using bspec [OF assms(2) d] bspec [OF assms(2), of best] b by (auto simp: int_range_defs)
    then show ?thesis using id [OF d] id [of best] b by (simp add: wrap32_id)
  qed
  have "first_min2 ?key path_demerits cs = Some c" using assms(1,3) by (simp add: choose_final_def Let_def)
  note c = first_min2_least [OF this]
  show mem: "c \<in> set cs" using c by simp
  have "?key c < ?key best \<or> (?key c = ?key best \<and> path_demerits c \<le> path_demerits best)" using c b by simp
  then have "line c = line best \<and> path_demerits c \<le> path_demerits best" using key [OF mem] key [of best] b by auto
  then show "line c = line best" and "\<forall>d\<in>set cs. path_demerits c \<le> path_demerits d" using b by force+
qed

lemma represents_line_bound:
  assumes "represents env routes c ks r" and "sites_ordered (env_sites env)"
  shows "int (line c) < 2 ^ 31"
  using assms feasible_route_lines [of env ks r] by (auto simp: represents_def sites_ordered_def split: option.splits)

lemma finish_pass_optimal:
  assumes "finish_pass env ps = Ok res" and "pass_inv env (length (env_sites env)) ps" and "pass_params_ok env"
    and "sites_ordered (env_sites env)" and "env_sites env \<noteq> []" and "is_forced (last (env_sites env))"
  shows "case res of
      None \<Rightarrow> \<nexists>ks r. complete_route env ks r
    | Some plan \<Rightarrow> \<exists>ks r. complete_route env ks r \<and> breaks plan = map (site_decision env) ks \<and> plan_demerits plan = re_demerits r
        \<and> (\<forall>ks' r'. complete_route env ks' r' \<longrightarrow> re_demerits r \<le> re_demerits r')"
proof (cases "ps_active ps = []")
  case True
  then have "\<nexists>ks r. complete_route env ks r"
    using pass_inv_covers [OF assms(2)] open_at_end [OF assms(5,6)] by (auto simp: complete_route_def)
  moreover have "res = None" using assms(1) True by (simp add: finish_pass_def choose_final_def)
  ultimately show ?thesis by simp
next
  case False
  then obtain best where best: "first_min path_demerits (ps_active ps) = Some best" by (cases "first_min path_demerits (ps_active ps)") auto
  obtain c where ch: "choose_final (ps_active ps) 0 = Some c"
    using False best by (cases "choose_final (ps_active ps) 0") (auto simp: choose_final_def Let_def)
  have loose: "looseness (env_params env) = 0" and nl: "\<not> llf_enabled (env_last_line_fit env)" using assms(3) by (simp_all add: pass_params_ok_def)
  have bound: "\<forall>c\<in>set (ps_active ps). int (line c) < 2 ^ 31"
    using pass_inv_represents [OF assms(2)] represents_line_bound assms(4) by blast
  note c = choose_final_least [OF ch bound best]
  obtain ks r where r: "represents env (ps_passive ps) c ks r" "re_site r = Some (length (env_sites env) - 1)"
    using pass_inv_represents [OF assms(2) c(1)] open_at_end [OF assms(5,6)] by blast
  have "wrap32 (line_i32 c - line_i32 best) = 0" using c(3) by (simp add: line_i32_def wrap32_def)
  then obtain plan where plan: "res = Some plan" "breaks plan = map (site_decision env) ks"
      "plan_demerits plan = min (path_demerits c) AWFUL_BAD_lb"
    using assms(1) ch best loose r(1) nl
    by (auto simp: finish_pass_def obind_eq_Ok reconstruct_def adjusted_fill_def represents_def Let_def simp del: passive_chain.simps split: if_splits)
  have complete: "complete_route env ks r" using r by (simp add: complete_route_def represents_def)
  have "re_demerits r \<le> re_demerits r'" if r': "complete_route env ks' r'" for ks' r'
  proof -
    obtain d where "d \<in> set (ps_active ps)" "covers env d r'"
      using pass_inv_covers [OF assms(2), of ks' r'] open_at_end [OF assms(5,6)] r' by (auto simp: complete_route_def)
    then have "path_demerits c \<le> re_demerits r'" using c(2) by (fastforce simp: covers_def)
    then show ?thesis using r(1) by (simp add: represents_def)
  qed
  moreover have "path_demerits c < AWFUL_BAD_lb"
    using r feasible_route_last [of env ks r] by (auto simp: represents_def feasible_line_def)
  ultimately show ?thesis using plan complete r(1) by (auto simp: represents_def)
qed

lemma break_sites_ok_ordered:
  "break_sites_ok n sites \<Longrightarrow> int n < 2 ^ 31 \<Longrightarrow> sites_ordered sites"
  using break_sites_ok_length [of n sites] by (auto simp: sites_ordered_def break_sites_ok_def sites_sorted_def site_within_def)

lemma pass_env_ok:
  assumes "pass_env st tape params tol em False = Ok env" and "looseness params = 0" and "last_line_fit params \<le> 0"
  shows "pass_params_ok env" and "env_sites env = break_sites tape"
  using assms by (auto simp: pass_env_def obind_eq_Ok pass_params_ok_def last_line_fit_new_def Let_def)

lemma run_pass_optimal:
  assumes "analyze_borrowed st nodes params = Ok tape" and "nodes \<noteq> []" and "int (length nodes) < 2 ^ 31"
    and "is_forced (last (break_sites tape))" and "looseness params = 0" and "last_line_fit params \<le> 0"
    and "pass_env st tape params tol em False = Ok env" and "run_pass st tape params tol em False = Ok res"
  shows "case res of
      None \<Rightarrow> \<nexists>ks r. complete_route env ks r
    | Some plan \<Rightarrow> \<exists>ks r. complete_route env ks r \<and> breaks plan = map (site_decision env) ks \<and> plan_demerits plan = re_demerits r
        \<and> (\<forall>ks' r'. complete_route env ks' r' \<longrightarrow> re_demerits r \<le> re_demerits r')"
proof -
  note env = pass_env_ok [OF assms(7,5,6)]
  have sites: "break_sites_ok (length nodes) (break_sites tape)" using analyze_borrowed_sites [OF assms(1,2)] by simp
  then have ord: "sites_ordered (env_sites env)" using break_sites_ok_ordered assms(3) env(2) by simp
  obtain ps where ps: "pass_sites env 0 (break_sites tape) initial_pass_state = Ok ps" "finish_pass env ps = Ok res"
    using assms(7,8) by (auto simp: run_pass_def obind_eq_Ok)
  have "pass_inv env (length (env_sites env)) ps"
    using pass_sites_inv [OF ps(1), of "[]"] env ord initial_pass_inv [OF ord] by simp
  then show ?thesis using finish_pass_optimal [OF ps(2) _ env(1) ord] sites assms(4) env(2) by (simp add: break_sites_ok_def)
qed

section \<open>Properties\<close>

text \<open>C2. A pass that is not the final one is optimal. For a paragraph with no looseness and no last-line fitting that ends in a
  forced break, whatever its shape, protrusion and font expansion: when the pass returns a plan, its breaks are a feasible
  route through the break sites of the paragraph, from its start to its end, and no such route has fewer demerits; when it
  returns none, there is no such route. Keeping one candidate for each line class and fitness, and of these only the ones
  within the adjacency demerits of the best, loses nothing.
\<close>

theorem line_break_pass_optimal:
  assumes "analyze_borrowed st nodes params = Ok tape" and "nodes \<noteq> []" and "int (length nodes) < 2 ^ 31"
    and "is_forced (last (break_sites tape))" and "looseness params = 0" and "last_line_fit params \<le> 0"
    and "pass_env st tape params tol em False = Ok env" and "run_pass st tape params tol em False = Ok res"
  shows "case res of
      None \<Rightarrow> \<nexists>ks r. complete_route env ks r
    | Some plan \<Rightarrow> \<exists>ks r. complete_route env ks r \<and> breaks plan = map (site_decision env) ks \<and> plan_demerits plan = re_demerits r
        \<and> (\<forall>ks' r'. complete_route env ks' r' \<longrightarrow> re_demerits r \<le> re_demerits r')"
  using run_pass_optimal [OF assms] .

definition word_glue :: "page_list Node" where
  "word_glue = Glue \<lparr>g_width = 50, g_stretch = 30, g_stretch_order = ONormal, g_shrink = 20, g_shrink_order = ONormal\<rparr> GNormal Owned None"

definition word_paragraph :: "page_list Node list" where
  "word_paragraph = [CharNode 1 65 0, word_glue, CharNode 1 66 0, word_glue, CharNode 1 67 0, word_glue, CharNode 1 68 0,
     Penalty 10000, par_fill_node]"

theorem line_break_pass_optimal_witness:
  "\<exists>tape env plan. analyze_borrowed demo_state word_paragraph demo_params = Ok tape
     \<and> pass_env demo_state tape demo_params 100 False False = Ok env
     \<and> run_pass demo_state tape demo_params 100 False False = Ok (Some plan)
     \<and> map bd_position (breaks plan) = [4, 9] \<and> plan_demerits plan = 200
     \<and> \<not> (\<exists>ks r. complete_route env ks r \<and> re_demerits r < 200)"
proof -
  have "(case analyze_borrowed demo_state word_paragraph demo_params of
       Ok tape \<Rightarrow> is_forced (last (break_sites tape)) \<and> (case run_pass demo_state tape demo_params 100 False False of
          Ok (Some plan) \<Rightarrow> map bd_position (breaks plan) = [4, 9] \<and> plan_demerits plan = 200 | _ \<Rightarrow> False)
     | _ \<Rightarrow> False)" by code_simp
  then obtain tape plan where tape: "analyze_borrowed demo_state word_paragraph demo_params = Ok tape" "is_forced (last (break_sites tape))"
      and plan: "run_pass demo_state tape demo_params 100 False False = Ok (Some plan)" "map bd_position (breaks plan) = [4, 9]"
        "plan_demerits plan = 200"
    by (auto split: outcome.splits option.splits)
  obtain env where env: "pass_env demo_state tape demo_params 100 False False = Ok env" using plan(1) by (auto simp: run_pass_def obind_eq_Ok)
  have "\<not> (\<exists>ks r. complete_route env ks r \<and> re_demerits r < 200)"
    using line_break_pass_optimal [OF tape(1) _ _ tape(2) _ _ env plan(1)] plan(3)
    by (fastforce simp: word_paragraph_def demo_params_def)
  then show ?thesis using tape plan env
    by (intro exI [of _ tape] exI [of _ env] exI [of _ plan]) simp
qed

end
