(* ===== verification/Line_Final.thy ===== *)
theory Line_Final
  imports Line_Optimal
begin

text \<open>
  The final pass of a paragraph: it always has a route when no break site is forbidden and demerits stay below the maximum,
  so that the plan the source expects is there; and a paragraph in which a forbidden site leaves it without one.
\<close>

section \<open>Demerits of a route\<close>

text \<open>The demerits of one line of badness at most \<open>tol\<close> with a penalty of at most \<open>p\<close>.\<close>

definition line_demerits_bound :: "LineBreakParams \<Rightarrow> int \<Rightarrow> int \<Rightarrow> int" where
  "line_demerits_bound params tol p = (\<bar>line_penalty params\<bar> + tol)\<^sup>2 + p\<^sup>2 + \<bar>final_hyphen_demerits params\<bar>
     + \<bar>double_hyphen_demerits params\<bar> + \<bar>adj_demerits params\<bar>"

lemma tex_badness_wide_nonneg:
  assumes "tex_badness_wide t s = Ok b" and "0 \<le> t"
  shows "0 \<le> b"
proof (cases "t = 0 \<or> s \<le> 0")
  case False
  define r where "r = (if t \<le> 7230584 then (t * 297) sdiv s else if s \<ge> 1663497 then t sdiv (s sdiv 297) else t)"
  have "0 \<le> r" using assms(2) False by (auto simp: r_def sdiv_nonneg pos_imp_zdiv_nonneg_iff)
  moreover have "b = INF_BAD \<or> (\<exists>v. v = (r * r * r + 131072) sdiv 262144 \<and> b = min v INF_BAD)"
    using assms(1) False by (auto simp: tex_badness_wide_def Let_def r_def [symmetric] obind_eq_Ok checked32_def split: if_splits)
  moreover have "0 \<le> (r * r * r + 131072) sdiv 262144" using \<open>0 \<le> r\<close> by (simp add: sdiv_nonneg pos_imp_zdiv_nonneg_iff)
  ultimately show ?thesis by (auto simp: INF_BAD_def)
qed (use assms in \<open>auto simp: tex_badness_wide_def INF_BAD_def split: if_splits\<close>)

lemma line_badness_nonneg: "line_badness w target e steps = Ok b \<Longrightarrow> 0 \<le> b"
  by (auto simp: line_badness_def obind_eq_Ok Let_def INF_BAD_def dest!: tex_badness_wide_nonneg split: if_splits)

lemma compute_route_demerits_bound:
  assumes "compute_route_demerits params h f b p fit bp t = Ok d" and "0 \<le> b" and "b \<le> tol" and "p \<le> q" and "0 \<le> q"
  shows "d \<le> line_demerits_bound params tol q"
proof -
  let ?lb = "line_penalty params + b"
  have "\<bar>?lb\<bar> \<le> \<bar>line_penalty params\<bar> + tol" using assms(2,3) by simp
  then have "\<bar>?lb\<bar> * \<bar>?lb\<bar> \<le> (\<bar>line_penalty params\<bar> + tol) * (\<bar>line_penalty params\<bar> + tol)" by (intro mult_mono) simp_all
  then have sq: "?lb * ?lb \<le> (\<bar>line_penalty params\<bar> + tol)\<^sup>2" by (simp add: power2_eq_square)
  have big: "100000000 \<le> (\<bar>line_penalty params\<bar> + tol)\<^sup>2" if "INF_BAD \<le> \<bar>?lb\<bar>"
  proof -
    have "10000 * 10000 \<le> \<bar>?lb\<bar> * \<bar>?lb\<bar>" using that by (intro mult_mono) (simp_all add: INF_BAD_def)
    then show ?thesis using sq by simp
  qed
  let ?base = "if \<bar>?lb\<bar> \<ge> INF_BAD then 100000000 else ?lb * ?lb"
  let ?pen = "if p > 0 then p * p else if p > EJECT_PENALTY_lb then - (p * p) else 0"
  let ?hyph = "if h then (if t then final_hyphen_demerits params else if bp_hyphenated bp then double_hyphen_demerits params else 0) else 0"
  let ?adj = "if incompatible f fit then adj_demerits params else 0"
  have "d = ?base + ?pen + ?hyph + ?adj" using assms(1) by (simp add: compute_route_demerits_def Let_def checked32_def split: if_splits)
  moreover have "?base \<le> (\<bar>line_penalty params\<bar> + tol)\<^sup>2" using sq big by simp
  moreover have "?pen \<le> q\<^sup>2"
  proof (cases "p > 0")
    case True
    then show ?thesis using assms(4) by (simp add: power2_eq_square mult_mono)
  next
    case False
    have "- (p * p) \<le> q\<^sup>2" by (rule order_trans [of _ 0]) simp_all
    then show ?thesis using False by simp
  qed
  moreover have "?hyph \<le> \<bar>final_hyphen_demerits params\<bar> + \<bar>double_hyphen_demerits params\<bar>" by auto
  moreover have "?adj \<le> \<bar>adj_demerits params\<bar>" by auto
  ultimately show ?thesis unfolding line_demerits_bound_def by linarith
qed

section \<open>The final pass keeps a candidate\<close>

lemma record_best_route_nonempty: "record_best_route ws c e \<noteq> []"
  by (auto simp: record_best_route_def split: option.splits)

text \<open>Nothing that is kept is lost while the active candidates are visited.\<close>

definition has_candidate :: "VisitState \<Rightarrow> bool" where
  "has_candidate vs \<longleftrightarrow> vs_survivors vs \<noteq> [] \<or> vs_winners vs \<noteq> []"

lemma settle_candidate_keeps:
  assumes "settle_candidate env site bp last_one c w target score vs = Ok vs'" and "env_final env" and "bp_penalty bp < INF_PENALTY_lb"
    and "has_candidate vs \<or> last_one"
  shows "has_candidate vs'"
proof -
  let ?dead = "fst score > INF_BAD \<or> is_forced bp"
  let ?art = "vs_survivors vs = [] \<and> vs_winners vs = [] \<and> last_one \<and> ?dead"
  obtain vs1 where one: "(if ?art \<or> fst score \<le> env_tolerance env
        then obind (new_candidate env site bp (vs_next_serial vs) c ?art w target score) (\<lambda>new.
             Ok (vs\<lparr>vs_next_serial := vs_next_serial vs + 1,
                    vs_winners := record_best_route (vs_winners vs) new (env_easy_line env)\<rparr>))
        else Ok vs) = Ok vs1"
      and two: "(if \<not> ?dead then Ok (vs1\<lparr>vs_survivors := vs_survivors vs1 @ [c]\<rparr>)
        else obind (to_u32 (serial c)) (\<lambda>s. Ok (vs1\<lparr>vs_search := vs_search vs1 @ [Free (ActiveNode s)]\<rparr>))) = Ok vs'"
    using assms(1-3) by (auto simp: settle_candidate_def Let_def obind_eq_Ok)
  have "has_candidate vs1 \<or> \<not> ?dead"
    using one assms(4) record_best_route_nonempty by (auto simp: has_candidate_def obind_eq_Ok split: if_splits)
  then show ?thesis using two by (auto simp: has_candidate_def obind_eq_Ok split: if_splits)
qed

section \<open>Its demerits\<close>

text \<open>All candidates of a visit have demerits of at most \<open>m\<close>, the winners of at most \<open>m + d\<close>.\<close>

definition demerits_within :: "int \<Rightarrow> int \<Rightarrow> VisitState \<Rightarrow> bool" where
  "demerits_within m d vs \<longleftrightarrow> (\<forall>c\<in>set (vs_survivors vs). path_demerits c \<le> m) \<and> (\<forall>c\<in>set (vs_winners vs). path_demerits c \<le> m + d)"

lemma new_candidate_bound:
  assumes "new_candidate env site bp n c art w target (b, fit, fitted) = Ok new" and "\<not> art \<Longrightarrow> b \<le> tol" and "0 \<le> b"
    and "bp_penalty bp \<le> q" and "0 \<le> q" and "path_demerits c \<le> m" and "0 \<le> m"
  shows "path_demerits new \<le> m + line_demerits_bound (env_params env) tol q"
proof (cases art)
  case True
  have "0 \<le> line_demerits_bound (env_params env) tol q" by (simp add: line_demerits_bound_def)
  then show ?thesis using assms(1,6) True by (auto simp: new_candidate_def Let_def obind_eq_Ok)
next
  case False
  then obtain d where d: "compute_route_demerits (env_params env) (hyphenated c) (fitness c) (min b INF_BAD) (bp_penalty bp) fit bp
        (is_terminal env bp) = Ok d"
      and new: "path_demerits new = clamp (d + path_demerits c) (- (2 ^ 31)) AWFUL_BAD_lb"
    using assms(1) by (auto simp: new_candidate_def compute_demerits_def Let_def obind_eq_Ok)
  have "d \<le> line_demerits_bound (env_params env) tol q"
    using compute_route_demerits_bound [OF d _ _ assms(4,5)] assms(2,3) False by (simp add: INF_BAD_def)
  moreover have "0 \<le> line_demerits_bound (env_params env) tol q" by (simp add: line_demerits_bound_def)
  ultimately show ?thesis using new assms(6,7) by (auto simp: clamp_def)
qed

lemma settle_candidate_within:
  assumes "settle_candidate env site bp last_one c w target (b, fit, fitted) vs = Ok vs'" and "0 \<le> b"
    and "bp_penalty bp \<le> q" and "0 \<le> q" and "path_demerits c \<le> m" and "0 \<le> m"
    and "demerits_within m (line_demerits_bound (env_params env) (env_tolerance env) q) vs"
  shows "demerits_within m (line_demerits_bound (env_params env) (env_tolerance env) q) vs'"
proof -
  let ?d = "line_demerits_bound (env_params env) (env_tolerance env) q"
  let ?dead = "b > INF_BAD \<or> is_forced bp"
  let ?art = "env_final env \<and> vs_survivors vs = [] \<and> vs_winners vs = [] \<and> last_one \<and> ?dead"
  obtain vs1 where one: "(if bp_penalty bp < INF_PENALTY_lb \<and> (?art \<or> b \<le> env_tolerance env)
        then obind (new_candidate env site bp (vs_next_serial vs) c ?art w target (b, fit, fitted)) (\<lambda>new.
             Ok (vs\<lparr>vs_next_serial := vs_next_serial vs + 1,
                    vs_winners := record_best_route (vs_winners vs) new (env_easy_line env)\<rparr>))
        else Ok vs) = Ok vs1"
      and two: "(if \<not> ?dead then Ok (vs1\<lparr>vs_survivors := vs_survivors vs1 @ [c]\<rparr>)
        else obind (to_u32 (serial c)) (\<lambda>s. Ok (vs1\<lparr>vs_search := vs_search vs1 @ [Free (ActiveNode s)]\<rparr>))) = Ok vs'"
    using assms(1) by (auto simp: settle_candidate_def Let_def obind_eq_Ok)
  have "demerits_within m ?d vs1"
  proof (cases "bp_penalty bp < INF_PENALTY_lb \<and> (?art \<or> b \<le> env_tolerance env)")
    case True
    then obtain new where new: "new_candidate env site bp (vs_next_serial vs) c ?art w target (b, fit, fitted) = Ok new"
        and vs1: "vs1 = vs\<lparr>vs_next_serial := vs_next_serial vs + 1,
            vs_winners := record_best_route (vs_winners vs) new (env_easy_line env)\<rparr>"
      using one by (auto simp: obind_eq_Ok)
    have "path_demerits new \<le> m + ?d" by (rule new_candidate_bound [OF new _ assms(2-6)]) (use True in blast)
    then show ?thesis using vs1 assms(7) record_best_route_subset [of "vs_winners vs" new "env_easy_line env"]
      by (auto simp: demerits_within_def)
  next
    case False
    then show ?thesis using one assms(7) by auto
  qed
  then show ?thesis using two assms(5) by (auto simp: demerits_within_def obind_eq_Ok split: if_splits)
qed

text \<open>The final pass without last-line fitting, with every penalty between the bounds.\<close>

definition final_env_ok :: "PassEnv \<Rightarrow> int \<Rightarrow> bool" where
  "final_env_ok env q \<longleftrightarrow> env_final env \<and> \<not> llf_enabled (env_last_line_fit env) \<and> 0 \<le> q \<and> q < INF_PENALTY_lb
     \<and> (\<forall>bp\<in>set (env_sites env). bp_penalty bp \<le> q)"

lemma visit_candidate_cases:
  assumes "visit_candidate env site bp bw last_one c vs = Ok vs'" and "final_env_ok env q"
  obtains "vs' = vs\<lparr>vs_survivors := vs_survivors vs @ [c]\<rparr>"
  | w target cache b fit where "0 \<le> b"
      and "settle_candidate env site bp last_one c w target (b, fit, None) (vs\<lparr>vs_edges := cache\<rparr>) = Ok vs'"
proof (cases "position c \<ge> bp_position bp")
  case True
  then show ?thesis using assms(1) that(1) by (simp add: visit_candidate_def)
next
  case False
  have nl: "\<not> llf_enabled (env_last_line_fit env)" using assms(2) by (simp add: final_env_ok_def)
  obtain w target cache b where b: "line_badness w target 0 (env_expansion_steps env) = Ok b"
      and "settle_candidate env site bp last_one c w target
        (b, fitness_class (min b INF_BAD) (t_natural (w_base w)) target, None) (vs\<lparr>vs_edges := cache\<rparr>) = Ok vs'"
    using assms(1) False by (auto simp: visit_candidate_def score_line_plain [OF nl] obind_eq_Ok)
  then show ?thesis using that(2) line_badness_nonneg [OF b] by blast
qed

lemma visit_candidate_within:
  assumes "visit_candidate env site bp bw last_one c vs = Ok vs'" and "final_env_ok env q" and "bp \<in> set (env_sites env)"
    and "path_demerits c \<le> m" and "0 \<le> m" and "demerits_within m (line_demerits_bound (env_params env) (env_tolerance env) q) vs"
  shows "demerits_within m (line_demerits_bound (env_params env) (env_tolerance env) q) vs'"
  using assms(1,2)
proof (cases rule: visit_candidate_cases)
  case 1
  then show ?thesis using assms(4,6) by (auto simp: demerits_within_def)
next
  case (2 w target cache b fit)
  have "bp_penalty bp \<le> q" "0 \<le> q" using assms(2,3) by (auto simp: final_env_ok_def)
  moreover have "demerits_within m (line_demerits_bound (env_params env) (env_tolerance env) q) (vs\<lparr>vs_edges := cache\<rparr>)"
    using assms(6) by (simp add: demerits_within_def)
  ultimately show ?thesis using settle_candidate_within [OF 2(2,1)] assms(4,5) by blast
qed

lemma visit_candidate_keeps:
  assumes "visit_candidate env site bp bw last_one c vs = Ok vs'" and "final_env_ok env q" and "bp \<in> set (env_sites env)"
    and "has_candidate vs \<or> last_one"
  shows "has_candidate vs'"
  using assms(1,2)
proof (cases rule: visit_candidate_cases)
  case 1
  then show ?thesis by (simp add: has_candidate_def)
next
  case (2 w target cache b fit)
  have "bp_penalty bp < INF_PENALTY_lb" "env_final env" using assms(2,3) by (auto simp: final_env_ok_def)
  moreover have "has_candidate (vs\<lparr>vs_edges := cache\<rparr>) \<or> last_one" using assms(4) by (simp add: has_candidate_def)
  ultimately show ?thesis using settle_candidate_keeps [OF 2(2)] by blast
qed

lemma visit_active_final:
  assumes "final_env_ok env q" and "bp \<in> set (env_sites env)" and "0 \<le> m"
  shows "visit_active env site bp bw cs vs = Ok vs' \<Longrightarrow> \<forall>c\<in>set cs. path_demerits c \<le> m
    \<Longrightarrow> demerits_within m (line_demerits_bound (env_params env) (env_tolerance env) q) vs
    \<Longrightarrow> has_candidate vs \<or> cs \<noteq> []
    \<Longrightarrow> demerits_within m (line_demerits_bound (env_params env) (env_tolerance env) q) vs' \<and> has_candidate vs'"
proof (induction cs arbitrary: vs)
  case (Cons c cs)
  then obtain vs1 where one: "visit_candidate env site bp bw (cs = []) c vs = Ok vs1"
      and two: "visit_active env site bp bw cs vs1 = Ok vs'" by (auto simp: obind_eq_Ok)
  have within: "demerits_within m (line_demerits_bound (env_params env) (env_tolerance env) q) vs1"
      and keeps: "has_candidate vs1 \<or> cs \<noteq> []"
    using visit_candidate_within [OF one assms(1,2) _ assms(3) Cons.prems(3)] visit_candidate_keeps [OF one assms(1,2)] Cons.prems(2)
    by auto
  then show ?case using Cons.IH [OF two] Cons.prems(2) by simp
qed simp

text \<open>Between sites: there is a candidate, and every one has demerits of at most \<open>m\<close>.\<close>

definition final_inv :: "int \<Rightarrow> PassState \<Rightarrow> bool" where
  "final_inv m ps \<longleftrightarrow> ps_active ps \<noteq> [] \<and> (\<forall>c\<in>set (ps_active ps). path_demerits c \<le> m)"

lemma retain_nonempty:
  assumes "ws \<noteq> []" and "\<forall>c\<in>set ws. path_demerits c < AWFUL_BAD_lb"
  shows "retain_competitive_routes ws adj e \<noteq> []"
  using retain_covers [of "hd ws" ws adj e] assms by auto

lemma pass_site_final:
  assumes "pass_site env k bp ps = Ok ps'" and "final_env_ok env q" and "bp \<in> set (env_sites env)" and "0 \<le> m"
    and "final_inv m ps" and "m + line_demerits_bound (env_params env) (env_tolerance env) q < AWFUL_BAD_lb"
  shows "final_inv (m + line_demerits_bound (env_params env) (env_tolerance env) q) ps'"
proof -
  let ?d = "line_demerits_bound (env_params env) (env_tolerance env) q"
  let ?retained = "\<lambda>vs. retain_competitive_routes (vs_winners vs) (adj_demerits (env_params env)) (env_easy_line env)"
  obtain bw vs cs routes search active where
      vs: "visit_active env (int k) bp bw (ps_active ps) (visit_start ps) = Ok vs"
      and cs: "admit_winners env (?retained vs) (ps_passive ps) (vs_search vs) = Ok (cs, routes, search)"
      and active: "merge_active_candidates (env_params env) (env_easy_line env) (vs_survivors vs) cs = Ok active"
      and ps': "ps_active ps' = active"
    using assms(1) by (auto simp: pass_site_def obind_eq_Ok visit_start_def to_u32_def split: if_splits)
  have start: "demerits_within m ?d (visit_start ps)" by (simp add: demerits_within_def)
  have v: "demerits_within m ?d vs" "has_candidate vs"
    using visit_active_final [OF assms(2-4) vs _ start] assms(5) by (auto simp: final_inv_def)
  have adm: "list_all2 (admitted env (length (ps_passive ps)) routes) (?retained vs) cs" using admit_winners_admitted [OF cs] by simp
  have set: "set active = set (vs_survivors vs) \<union> set cs" using set_merge_active [OF active] .
  have "?retained vs \<noteq> []" if "vs_winners vs \<noteq> []"
    using retain_nonempty that v(1) assms(6) by (fastforce simp: demerits_within_def)
  then have "vs_survivors vs \<noteq> [] \<or> cs \<noteq> []" using v(2) adm by (auto simp: has_candidate_def)
  then have "active \<noteq> []" using set by auto
  moreover have "path_demerits c \<le> m + ?d" if c: "c \<in> set active" for c
  proof -
    have "0 \<le> ?d" by (simp add: line_demerits_bound_def)
    from c set consider "c \<in> set (vs_survivors vs)" | "c \<in> set cs" by auto
    then show ?thesis
    proof cases
      case 1
      then show ?thesis using v(1) \<open>0 \<le> ?d\<close> by (fastforce simp: demerits_within_def)
    next
      case 2
      then obtain n where n: "n \<in> set (?retained vs)" "admitted env (length (ps_passive ps)) routes n c"
        using list_all2_memD2 [OF adm] by blast
      then show ?thesis using v(1) retain_subset admitted_fields(4) by (fastforce simp: demerits_within_def)
    qed
  qed
  ultimately show ?thesis using ps' by (simp add: final_inv_def)
qed

lemma pass_sites_final:
  "pass_sites env k bps ps = Ok ps' \<Longrightarrow> final_env_ok env q \<Longrightarrow> set bps \<subseteq> set (env_sites env) \<Longrightarrow> 0 \<le> m \<Longrightarrow> final_inv m ps
    \<Longrightarrow> m + int (length bps) * line_demerits_bound (env_params env) (env_tolerance env) q < AWFUL_BAD_lb \<Longrightarrow> ps_active ps' \<noteq> []"
proof (induction bps arbitrary: k ps m)
  case (Cons bp bps)
  let ?d = "line_demerits_bound (env_params env) (env_tolerance env) q"
  from Cons.prems(1) obtain ps1 where ps1: "pass_site env k bp ps = Ok ps1" "pass_sites env (Suc k) bps ps1 = Ok ps'"
    by (auto simp: obind_eq_Ok)
  have "0 \<le> ?d" by (simp add: line_demerits_bound_def)
  moreover have "m + ?d + int (length bps) * ?d < AWFUL_BAD_lb" using Cons.prems(6) by (simp add: algebra_simps)
  moreover have "0 \<le> int (length bps) * ?d" using \<open>0 \<le> ?d\<close> by simp
  moreover have "final_inv (m + ?d) ps1" using pass_site_final [OF ps1(1) Cons.prems(2) _ Cons.prems(4,5)] Cons.prems(3) calculation by simp
  ultimately show ?case using Cons.IH [OF ps1(2) Cons.prems(2), of "m + ?d"] Cons.prems(3,4) by simp
qed (simp add: final_inv_def)

lemma finish_pass_final: "finish_pass env ps = Ok res \<Longrightarrow> env_final env \<Longrightarrow> ps_active ps \<noteq> [] \<Longrightarrow> res \<noteq> None"
  by (auto simp: finish_pass_def choose_final_def Let_def obind_eq_Ok split: option.splits)

section \<open>Properties\<close>

text \<open>C6. The final pass always finds a route, so the plan that the source expects of it is there: when no break site of the
  paragraph is forbidden, there is no last-line fitting, and the demerits of as many lines as there are break sites stay
  below the maximum, a final pass that does not panic returns a plan, however narrow the lines.
\<close>

theorem final_pass_returns:
  assumes "run_pass st tape params tol em True = Ok res" and "last_line_fit params \<le> 0"
    and "\<forall>bp\<in>set (break_sites tape). bp_penalty bp \<le> q" and "0 \<le> q" and "q < INF_PENALTY_lb"
    and "int (length (break_sites tape)) * line_demerits_bound params tol q < AWFUL_BAD_lb"
  shows "\<exists>plan. res = Some plan"
proof -
  obtain env ps where env: "pass_env st tape params tol em True = Ok env"
      and ps: "pass_sites env 0 (break_sites tape) initial_pass_state = Ok ps" "finish_pass env ps = Ok res"
    using assms(1) by (auto simp: run_pass_def obind_eq_Ok)
  have ok: "final_env_ok env q" and par: "env_sites env = break_sites tape" "env_params env = params" "env_tolerance env = tol"
    using env assms(2-5) by (auto simp: pass_env_def obind_eq_Ok final_env_ok_def last_line_fit_new_def Let_def)
  have "final_inv 0 initial_pass_state" by (simp add: final_inv_def initial_pass_state_def initial_candidate_def)
  then have "ps_active ps \<noteq> []" using pass_sites_final [OF ps(1) ok, of 0] par assms(6) by simp
  then show ?thesis using finish_pass_final [OF ps(2)] ok by (auto simp: final_env_ok_def)
qed

definition overfull_paragraph :: "page_list Node list" where
  "overfull_paragraph = replicate 3 (CharNode 1 65 0) @ [word_glue, CharNode 1 65 0, Penalty 10000, par_fill_node]"

theorem final_pass_returns_witness:
  "\<exists>tape plan. analyze_borrowed demo_state overfull_paragraph demo_params = Ok tape
     \<and> run_pass demo_state tape demo_params 200 True True = Ok (Some plan)"
proof -
  have "(case analyze_borrowed demo_state overfull_paragraph demo_params of
       Ok tape \<Rightarrow> list_all (\<lambda>bp. bp_penalty bp \<le> 50) (break_sites tape) \<and> length (break_sites tape) = 2
         \<and> (case run_pass demo_state tape demo_params 200 True True of Ok res \<Rightarrow> True | _ \<Rightarrow> False)
     | _ \<Rightarrow> False)" by code_simp
  then obtain tape res where tape: "analyze_borrowed demo_state overfull_paragraph demo_params = Ok tape"
      "\<forall>bp\<in>set (break_sites tape). bp_penalty bp \<le> 50" "length (break_sites tape) = 2"
      and res: "run_pass demo_state tape demo_params 200 True True = Ok res"
    by (auto simp: list_all_iff split: outcome.splits)
  obtain plan where "res = Some plan" using final_pass_returns [OF res _ tape(2)] tape(3)
    by (auto simp: demo_params_def line_demerits_bound_def INF_PENALTY_lb_def AWFUL_BAD_lb_def)
  then show ?thesis using tape res by auto
qed




end
