(* ===== verification/Line_Post.thy ===== *)
theory Line_Post
  imports Line_Optimal
begin

text \<open>
  The lines of a broken paragraph: \<^verbatim>\<open>crates/tex-typeset/src/linebreak/post.rs\<close>. A channel of the source is a cursor over the
  paragraph's nodes with what the last break left over; the semantic and the physical channel are materialized side by
  side. The high-cell lineages that travel with the nodes are evidence for diagnostics and are left out, as is the channel
  over arena coordinates that exists in tests only.
\<close>

section \<open>Penalties between lines\<close>

record PenaltySequence =
  ps_fallback :: int
  ps_values :: "int list"

datatype WidowPenaltySelector = OrdinaryWidow | DisplayInterrupted

record WidowPenalties =
  wp_selector :: WidowPenaltySelector
  wp_ordinary :: PenaltySequence
  wp_display :: PenaltySequence

record PostLineBreakParams =
  post_empty_list :: page_list
  post_left_skip :: GlueSpec
  post_right_skip :: GlueSpec
  interline_penalty :: int
  club_penalty :: int
  widow_penalties :: WidowPenalties
  broken_penalty :: int
  prev_graf :: int
  interline_penalties :: "int list"
  club_penalties :: "int list"
  post_shape :: LineShape

definition penalty_array_value :: "int list \<Rightarrow> nat \<Rightarrow> int option" where
  "penalty_array_value vs one_based_index = (if vs \<noteq> [] then Some (vs ! (min one_based_index (length vs) - 1)) else None)"

definition or_else :: "'a option \<Rightarrow> 'a \<Rightarrow> 'a" where
  "or_else v d = (case v of Some a \<Rightarrow> a | None \<Rightarrow> d)"

definition line_penalty_after :: "nat \<Rightarrow> BreakDecision list \<Rightarrow> bool \<Rightarrow> PostLineBreakParams \<Rightarrow> int option panicking" where
  "line_penalty_after line_no ds hyph params =
     (if line_no + 1 \<ge> length ds then Ok None
      else
       let current_line = nat (max (prev_graf params) 0) + line_no + 1;
           inter = or_else (penalty_array_value (interline_penalties params) current_line) (interline_penalty params);
           club = or_else (penalty_array_value (club_penalties params) (line_no + 1)) (if line_no = 0 then club_penalty params else 0);
           widows = (case wp_selector (widow_penalties params) of
                       OrdinaryWidow \<Rightarrow> wp_ordinary (widow_penalties params)
                     | DisplayInterrupted \<Rightarrow> wp_display (widow_penalties params));
           widow = or_else (penalty_array_value (ps_values widows) (length ds - line_no - 1))
                     (if line_no + 2 = length ds then ps_fallback widows else 0)
       in obind (expect_some (checked32 (inter + club))) (\<lambda>p.
          obind (expect_some (checked32 (p + widow))) (\<lambda>p.
          obind (if hyph then expect_some (checked32 (p + broken_penalty params)) else Ok p) (\<lambda>p.
            Ok (if p \<noteq> 0 then Some p else None)))))"

section \<open>Directions\<close>

fun update_active_directions :: "'l Node list \<Rightarrow> MathBoundary list \<Rightarrow> MathBoundary list" where
  "update_active_directions [] stack = stack"
| "update_active_directions (node # nodes) stack =
     update_active_directions nodes
       (case node of
          Direction d \<Rightarrow>
            (if d = BeginL \<or> d = BeginR then stack @ [d]
             else if d = EndL \<and> stack \<noteq> [] \<and> last stack = BeginL then butlast stack
             else if d = EndR \<and> stack \<noteq> [] \<and> last stack = BeginR then butlast stack
             else stack)
        | _ \<Rightarrow> stack)"

fun matching_end :: "MathBoundary \<Rightarrow> MathBoundary" where
  "matching_end BeginM = EndM"
| "matching_end BeginL = EndL"
| "matching_end BeginR = EndR"
| "matching_end d = d"

section \<open>A channel\<close>

record ChannelCursor =
  ch_nodes :: "page_list Node list"
  ch_position :: nat
  ch_count :: nat
  pending_post :: "page_list Node list"
  active_directions :: "MathBoundary list"

definition channel_new :: "page_list Node list \<Rightarrow> ChannelCursor" where
  "channel_new nodes = \<lparr>ch_nodes = nodes, ch_position = 0, ch_count = length nodes, pending_post = [], active_directions = []\<rparr>"

fun is_discardable_post :: "'l Node \<Rightarrow> bool" where
  "is_discardable_post (Glue spec kind origin leader) \<longleftrightarrow> True"
| "is_discardable_post (Kern amount kind) \<longleftrightarrow> kind = KExplicit \<or> kind = KMu"
| "is_discardable_post (Penalty p) \<longleftrightarrow> True"
| "is_discardable_post (MathOn w) \<longleftrightarrow> True"
| "is_discardable_post (MathOff w) \<longleftrightarrow> True"
| "is_discardable_post _ \<longleftrightarrow> False"

text \<open>The glue that replaces \<open>\parfillskip\<close> after the last line has been fitted.\<close>

definition override_par_fill :: "GlueSpec option \<Rightarrow> page_list Node \<Rightarrow> page_list Node" where
  "override_par_fill fill node =
     (case (fill, node) of
        (Some spec, Glue old kind origin leader) \<Rightarrow> if kind = ParFillSkip then Glue spec kind origin leader else node
      | _ \<Rightarrow> node)"

text \<open>What the node at position \<open>absolute\<close> of a line that ends at \<open>stop\<close> gives to the line and to the next one.\<close>

definition segment_node :: "page_list \<Rightarrow> BreakDecision \<Rightarrow> nat \<Rightarrow> nat \<Rightarrow> nat \<Rightarrow> MaterializationAction option \<Rightarrow> page_list Node
    \<Rightarrow> page_list Node list \<times> page_list Node list" where
  "segment_node blank d stop count absolute action node =
     (let at_break = (absolute + 1 = stop \<and> stop < count);
          discards = (action = None \<or> action = Some BreakDiscardable)
      in case node of
        Disc kind pre post replace n \<Rightarrow>
          if bd_hyphenated d \<and> absolute + 1 = stop
          then (Disc kind blank blank blank 0 # page_nodes pre, page_nodes post)
          else (node # page_nodes replace, [])
      | Glue spec kind origin leader \<Rightarrow> if at_break \<and> discards then ([], []) else ([node], [])
      | Kern amount kind \<Rightarrow> if kind = KExplicit \<and> at_break \<and> discards then ([], []) else ([node], [])
      | MathOff w \<Rightarrow>
          if at_break \<and> (action = None \<or> action = Some BreakMath) then ([MathOff 0], []) else ([node], [])
      | _ \<Rightarrow> ([node], []))"

definition action_at :: "MaterializationAction list option \<Rightarrow> nat \<Rightarrow> MaterializationAction option" where
  "action_at actions i = (case actions of None \<Rightarrow> None | Some as \<Rightarrow> if i < length as then Some (as ! i) else None)"

fun push_owned_line_segment :: "page_list \<Rightarrow> BreakDecision \<Rightarrow> nat \<Rightarrow> nat \<Rightarrow> MaterializationAction list option \<Rightarrow> GlueSpec option
    \<Rightarrow> page_list Node list \<Rightarrow> nat \<Rightarrow> page_list Node list \<Rightarrow> page_list Node list
    \<Rightarrow> (page_list Node list \<times> nat \<times> page_list Node list \<times> page_list Node list) panicking" where
  "push_owned_line_segment blank d stop count actions fill [] pos out post =
     (if pos < stop then Panic else Ok ([], pos, out, post))"
| "push_owned_line_segment blank d stop count actions fill (node # nodes) pos out post =
     (if pos < stop
      then let (o1, p1) = segment_node blank d stop count pos (action_at actions pos) (override_par_fill fill node)
           in push_owned_line_segment blank d stop count actions fill nodes (pos + 1) (out @ o1) (post @ p1)
      else Ok (node # nodes, pos, out, post))"

definition left_skip_nodes :: "GlueSpec \<Rightarrow> page_list Node list" where
  "left_skip_nodes spec = (if spec \<noteq> glue_ZERO then [Glue spec LeftSkip Owned None] else [])"

definition right_skip_node :: "GlueSpec \<Rightarrow> page_list Node" where
  "right_skip_node spec = Glue spec RightSkip (if spec = glue_ZERO then SharedZero else Owned) None"

definition skip_discardable :: "page_list Node list \<Rightarrow> nat \<Rightarrow> page_list Node list \<times> nat" where
  "skip_discardable nodes pos =
     (dropWhile is_discardable_post nodes, pos + length (takeWhile is_discardable_post nodes))"

definition materialize_channel :: "ChannelCursor \<Rightarrow> BreakDecision \<Rightarrow> PostLineBreakParams \<Rightarrow> MaterializationAction list option
    \<Rightarrow> GlueSpec option \<Rightarrow> (ChannelCursor \<times> page_list Node list) panicking" where
  "materialize_channel cursor d params actions fill =
     (let stop = min (bd_position d) (ch_count cursor);
          start_nodes = left_skip_nodes (post_left_skip params) @ map Direction (active_directions cursor)
      in obind (push_owned_line_segment (post_empty_list params) d stop (ch_count cursor) actions fill
                  (ch_nodes cursor) (ch_position cursor) (pending_post cursor) []) (\<lambda>(nodes, pos, content, post).
         let directions = update_active_directions content (active_directions cursor);
             this_line = start_nodes @ content @ map (\<lambda>d. Direction (matching_end d)) (rev directions)
               @ [right_skip_node (post_right_skip params)];
             (nodes, pos) = skip_discardable nodes pos
         in Ok (cursor\<lparr>ch_nodes := nodes, ch_position := pos, pending_post := post, active_directions := directions\<rparr>, this_line)))"

section \<open>The materializer\<close>

record BrokenLine =
  bl_nodes :: "page_list Node list"
  physical_nodes :: "page_list Node list"
  penalty_after :: "int option"
  bl_hyphenated :: bool
  bl_dimensions :: LineDimensions

record LineMaterializer =
  lm_semantic :: ChannelCursor
  lm_physical :: ChannelCursor
  lm_actions :: "MaterializationAction list"
  lm_breaks :: "BreakDecision list"
  lm_line_no :: nat
  lm_params :: PostLineBreakParams
  lm_par_fill :: "GlueSpec option"


fun initial_action :: "'l Node \<Rightarrow> MaterializationAction" where
  "initial_action (Disc kind pre post replace n) = DiscretionaryAction"
| "initial_action _ = CopyNode"

definition break_action :: "page_list Node list \<Rightarrow> MaterializationAction list \<Rightarrow> BreakDecision \<Rightarrow> MaterializationAction list" where
  "break_action nodes actions d =
     (if bd_position d \<ge> length nodes \<or> bd_position d = 0 then actions
      else let i = bd_position d - 1
           in case nodes ! i of
                Glue spec kind origin leader \<Rightarrow> actions[i := BreakDiscardable]
              | Kern amount kind \<Rightarrow> if kind = KExplicit then actions[i := BreakDiscardable] else actions
              | MathOff w \<Rightarrow> actions[i := BreakMath]
              | _ \<Rightarrow> actions)"

definition from_borrowed_nodes :: "page_list Node list \<Rightarrow> BreakDecision list \<Rightarrow> PostLineBreakParams \<Rightarrow> LineMaterializer" where
  "from_borrowed_nodes nodes ds params =
     \<lparr>lm_semantic = channel_new nodes, lm_physical = channel_new nodes,
      lm_actions = foldl (break_action nodes) (map initial_action nodes) ds,
      lm_breaks = ds, lm_line_no = 0, lm_params = params, lm_par_fill = None\<rparr>"

definition materialize_next :: "LineMaterializer \<Rightarrow> (LineMaterializer \<times> BrokenLine) option panicking" where
  "materialize_next m =
     (if lm_line_no m < length (lm_breaks m)
      then let d = lm_breaks m ! lm_line_no m
           in obind (dimensions (post_shape (lm_params m)) (lm_line_no m + 1)) (\<lambda>dims.
              obind (materialize_channel (lm_semantic m) d (lm_params m) (Some (lm_actions m)) (lm_par_fill m)) (\<lambda>(semantic, this_line).
              obind (materialize_channel (lm_physical m) d (lm_params m) None (lm_par_fill m)) (\<lambda>(physical, physical_line).
              obind (line_penalty_after (lm_line_no m) (lm_breaks m) (bd_hyphenated d) (lm_params m)) (\<lambda>p.
                Ok (Some (m\<lparr>lm_semantic := semantic, lm_physical := physical, lm_line_no := lm_line_no m + 1\<rparr>,
                    \<lparr>bl_nodes = this_line, physical_nodes = physical_line, penalty_after = p, bl_hyphenated = bd_hyphenated d,
                     bl_dimensions = dims\<rparr>))))))
      else Ok None)"

text \<open>The loop that takes all lines; there are as many as breaks.\<close>

fun materialize_lines :: "nat \<Rightarrow> LineMaterializer \<Rightarrow> BrokenLine list panicking" where
  "materialize_lines 0 m = Panic"
| "materialize_lines (Suc fuel) m =
     obind (materialize_next m) (\<lambda>r.
       case r of None \<Rightarrow> Ok [] | Some (m, this_line) \<Rightarrow> obind (materialize_lines fuel m) (\<lambda>lines. Ok (this_line # lines)))"

definition post_line_break :: "page_list Node list \<Rightarrow> BreakDecision list \<Rightarrow> PostLineBreakParams \<Rightarrow> BrokenLine list panicking" where
  "post_line_break nodes ds params = materialize_lines (Suc (length ds)) (from_borrowed_nodes nodes ds params)"

section \<open>No node is lost\<close>

text \<open>
  The paragraph with its discretionaries resolved: at a chosen one the emptied node, the pre-break and the post-break text,
  at any other one the node and its replacement text.
\<close>

definition resolve_disc :: "page_list \<Rightarrow> bool \<Rightarrow> page_list Node \<Rightarrow> page_list Node list" where
  "resolve_disc blank chosen node =
     (case node of
        Disc kind pre post replace n \<Rightarrow>
          if chosen then Disc kind blank blank blank 0 # page_nodes pre @ page_nodes post else node # page_nodes replace
      | _ \<Rightarrow> [node])"

fun resolve_discs :: "page_list \<Rightarrow> nat set \<Rightarrow> nat \<Rightarrow> page_list Node list \<Rightarrow> page_list Node list" where
  "resolve_discs blank chosen pos [] = []"
| "resolve_discs blank chosen pos (node # nodes) =
     resolve_disc blank (Suc pos \<in> chosen) node @ resolve_discs blank chosen (Suc pos) nodes"

definition chosen_discs :: "BreakDecision list \<Rightarrow> nat set" where
  "chosen_discs ds = set (map bd_position (filter bd_hyphenated ds))"

definition durable :: "page_list Node list \<Rightarrow> page_list Node list" where
  "durable nodes = filter (\<lambda>n. \<not> is_discardable_post n) nodes"

lemma durable_simps [simp]:
  "durable [] = []"
  "durable (n # ns) = (if is_discardable_post n then durable ns else n # durable ns)"
  "durable (xs @ ys) = durable xs @ durable ys"
  by (auto simp: durable_def)

lemma resolve_discs_append:
  "resolve_discs blank chosen pos (xs @ ys)
     = resolve_discs blank chosen pos xs @ resolve_discs blank chosen (pos + length xs) ys"
  by (induction xs arbitrary: pos) auto

lemma resolve_discs_cong:
  assumes "\<And>i. pos < i \<Longrightarrow> i \<le> pos + length nodes \<Longrightarrow> i \<in> A \<longleftrightarrow> i \<in> B"
  shows "resolve_discs blank A pos nodes = resolve_discs blank B pos nodes"
  using assms
proof (induction nodes arbitrary: pos)
  case (Cons node nodes)
  have "resolve_discs blank A (Suc pos) nodes = resolve_discs blank B (Suc pos) nodes"
    using Cons.prems by (intro Cons.IH) auto
  then show ?case
    using Cons.prems by simp
qed simp

lemma resolve_discardable:
  "is_discardable_post node \<Longrightarrow> resolve_disc blank chosen node = [node]"
  by (cases node) (auto simp: resolve_disc_def)

lemma durable_resolve_dropWhile:
  "durable (resolve_discs blank chosen (pos + length (takeWhile is_discardable_post nodes)) (dropWhile is_discardable_post nodes))
     = durable (resolve_discs blank chosen pos nodes)"
proof (induction nodes arbitrary: pos)
  case (Cons node nodes)
  then show ?case
    using Cons.IH [of "Suc pos"] by (auto simp: resolve_discardable)
qed simp

lemma segment_node_durable:
  assumes "segment_node blank d stop count pos action (override_par_fill fill node) = (o1, p1)"
  shows "durable o1 @ durable p1 = durable (resolve_disc blank (bd_hyphenated d \<and> Suc pos = stop) node)"
    and "\<not> (bd_hyphenated d \<and> Suc pos = stop) \<Longrightarrow> p1 = []"
  using assms
  by (cases node; auto simp: segment_node_def override_par_fill_def resolve_disc_def Let_def split: if_splits option.splits)+

lemma push_owned_line_segment_done:
  "stop \<le> pos \<Longrightarrow> push_owned_line_segment blank d stop count actions fill nodes pos out post = Ok (nodes, pos, out, post)"
  by (cases nodes) auto

lemma push_owned_line_segment_durable:
  assumes "push_owned_line_segment blank d stop count actions fill nodes pos out [] = Ok (nodes', pos', out', post')"
  shows "durable out' @ durable post'
      = durable out @ durable (resolve_discs blank (if bd_hyphenated d then {stop} else {}) pos (take (stop - pos) nodes))
    \<and> nodes' = drop (stop - pos) nodes \<and> pos' = max stop pos \<and> (\<not> bd_hyphenated d \<longrightarrow> post' = [])"
  using assms
proof (induction nodes arbitrary: pos out)
  case Nil
  then show ?case
    by (auto split: if_splits)
next
  case (Cons node nodes)
  show ?case
  proof (cases "pos < stop")
    case False
    then show ?thesis
      using Cons.prems by auto
  next
    case True
    obtain o1 p1 where seg:
        "segment_node blank d stop count pos (action_at actions pos) (override_par_fill fill node) = (o1, p1)"
      by (cases "segment_node blank d stop count pos (action_at actions pos) (override_par_fill fill node)")
    note seg_facts = segment_node_durable [OF seg]
    have take: "stop - pos = Suc (stop - Suc pos)"
      using True by simp
    show ?thesis
    proof (cases "Suc pos = stop")
      case True
      then show ?thesis
        using Cons.prems seg seg_facts by (auto simp: push_owned_line_segment_done)
    next
      case False
      then have "p1 = []" "pos < stop"
        using seg_facts(2) \<open>pos < stop\<close> by auto
      then have "push_owned_line_segment blank d stop count actions fill nodes (Suc pos) (out @ o1) [] = Ok (nodes', pos', out', post')"
        using Cons.prems seg by simp
      from Cons.IH [OF this] show ?thesis
        using False seg_facts(1) \<open>p1 = []\<close> \<open>pos < stop\<close> by (auto simp: take)
    qed
  qed
qed

lemma push_owned_line_segment_total:
  "stop \<le> pos + length nodes \<Longrightarrow> \<exists>r. push_owned_line_segment blank d stop count actions fill nodes pos out post = Ok r"
  by (induction nodes arbitrary: pos out post) (auto split: prod.splits)

text \<open>What a channel still has to deliver before the breaks \<open>ds\<close>.\<close>

definition remaining :: "page_list \<Rightarrow> BreakDecision list \<Rightarrow> ChannelCursor \<Rightarrow> page_list Node list" where
  "remaining blank ds cursor =
     durable (pending_post cursor) @ durable (resolve_discs blank (chosen_discs ds) (ch_position cursor) (ch_nodes cursor))"

definition channel_ok :: "ChannelCursor \<Rightarrow> bool" where
  "channel_ok cursor \<longleftrightarrow> ch_position cursor + length (ch_nodes cursor) = ch_count cursor"

definition line_of :: "PostLineBreakParams \<Rightarrow> MathBoundary list \<Rightarrow> page_list Node list \<Rightarrow> page_list Node list" where
  "line_of params stack content =
     left_skip_nodes (post_left_skip params) @ map Direction stack @ content
       @ map (\<lambda>d. Direction (matching_end d)) (rev (update_active_directions content stack))
       @ [right_skip_node (post_right_skip params)]"

text \<open>
  One line of a channel: it always exists, its content is the next part of what remained, and the rest remains. A break that
  is not hyphenated leaves no text over, and the last one no node.
\<close>

lemma materialize_channel_step:
  assumes ok: "channel_ok cursor"
    and sorted: "sorted_wrt (<) (map bd_position (d # ds))"
    and bound: "bd_position d \<le> ch_count cursor"
  shows "\<exists>cursor' content.
      materialize_channel cursor d params actions fill = Ok (cursor', line_of params (active_directions cursor) content)
    \<and> channel_ok cursor' \<and> ch_count cursor' = ch_count cursor
    \<and> active_directions cursor' = update_active_directions content (active_directions cursor)
    \<and> remaining (post_empty_list params) (d # ds) cursor = durable content @ remaining (post_empty_list params) ds cursor'
    \<and> (\<not> bd_hyphenated d \<longrightarrow> pending_post cursor' = [])
    \<and> (bd_position d = ch_count cursor \<longrightarrow> ch_nodes cursor' = [])"
proof -
  let ?blank = "post_empty_list params" and ?nodes = "ch_nodes cursor" and ?pos = "ch_position cursor"
  let ?stop = "bd_position d"
  have stop: "min (bd_position d) (ch_count cursor) = ?stop"
    using bound by simp
  obtain nodes' pos' content post' where push:
      "push_owned_line_segment ?blank d ?stop (ch_count cursor) actions fill ?nodes ?pos (pending_post cursor) []
         = Ok (nodes', pos', content, post')"
    using push_owned_line_segment_total [of ?stop ?pos ?nodes] ok bound by (fastforce simp: channel_ok_def)
  note facts = push_owned_line_segment_durable [OF push]
  define cursor' where "cursor' = cursor\<lparr>ch_nodes := dropWhile is_discardable_post nodes',
     ch_position := pos' + length (takeWhile is_discardable_post nodes'),
     pending_post := post', active_directions := update_active_directions content (active_directions cursor)\<rparr>"
  have mat: "materialize_channel cursor d params actions fill = Ok (cursor', line_of params (active_directions cursor) content)"
    by (simp add: materialize_channel_def stop push cursor'_def skip_discardable_def line_of_def Let_def)
  have later: "bd_position e > ?stop" if "e \<in> set ds" for e
    using sorted that by auto
  have nodes': "nodes' = drop (?stop - ?pos) ?nodes" and pos': "pos' = max ?stop ?pos"
    using facts by auto
  have split_nodes: "?nodes = take (?stop - ?pos) ?nodes @ nodes'"
    by (simp add: nodes')
  have len: "?pos + length (take (?stop - ?pos) ?nodes) = pos'"
    using ok bound by (auto simp: channel_ok_def pos')
  have seg: "resolve_discs ?blank (chosen_discs (d # ds)) ?pos (take (?stop - ?pos) ?nodes)
      = resolve_discs ?blank (if bd_hyphenated d then {?stop} else {}) ?pos (take (?stop - ?pos) ?nodes)"
  proof (rule resolve_discs_cong)
    fix i
    assume "?pos < i" "i \<le> ?pos + length (take (?stop - ?pos) ?nodes)"
    then have "i \<le> ?stop"
      by auto
    then have "bd_position e \<noteq> i" if "e \<in> set ds" for e
      using later [OF that] by simp
    then show "i \<in> chosen_discs (d # ds) \<longleftrightarrow> i \<in> (if bd_hyphenated d then {?stop} else {})"
      by (auto simp: chosen_discs_def)
  qed
  have rest: "resolve_discs ?blank (chosen_discs (d # ds)) pos' nodes' = resolve_discs ?blank (chosen_discs ds) pos' nodes'"
    using pos' by (intro resolve_discs_cong) (auto simp: chosen_discs_def)
  have "durable (resolve_discs ?blank (chosen_discs (d # ds)) ?pos ?nodes)
      = durable (resolve_discs ?blank (if bd_hyphenated d then {?stop} else {}) ?pos (take (?stop - ?pos) ?nodes))
        @ durable (resolve_discs ?blank (chosen_discs ds) pos' nodes')"
    using split_nodes len seg rest resolve_discs_append [of ?blank _ ?pos "take (?stop - ?pos) ?nodes" nodes'] by simp
  then have rem: "remaining ?blank (d # ds) cursor = durable content @ remaining ?blank ds cursor'"
    using facts by (simp add: remaining_def cursor'_def durable_resolve_dropWhile)
  have drop_empty: "?stop = ch_count cursor \<Longrightarrow> nodes' = []" and "pos' + length nodes' = ch_count cursor"
    using ok bound by (auto simp: channel_ok_def nodes' pos')
  moreover have "length (takeWhile is_discardable_post nodes') + length (dropWhile is_discardable_post nodes') = length nodes'"
    by (metis length_append takeWhile_dropWhile_id)
  ultimately have "channel_ok cursor'"
    by (simp add: channel_ok_def cursor'_def)
  moreover have "?stop = ch_count cursor \<Longrightarrow> ch_nodes cursor' = []" "\<not> bd_hyphenated d \<Longrightarrow> pending_post cursor' = []"
      "ch_count cursor' = ch_count cursor"
      "active_directions cursor' = update_active_directions content (active_directions cursor)"
    using drop_empty facts by (auto simp: cursor'_def)
  ultimately show ?thesis
    using mat rem by blast
qed

text \<open>The lines of a channel, each a part of what remained, with nothing remaining after the last.\<close>

inductive channel_lines :: "PostLineBreakParams \<Rightarrow> ChannelCursor \<Rightarrow> BreakDecision list \<Rightarrow> page_list Node list list \<Rightarrow> bool"
  for params where
  no_break: "remaining (post_empty_list params) [] cursor = [] \<Longrightarrow> channel_lines params cursor [] []"
| next_break: "\<lbrakk>remaining (post_empty_list params) (d # ds) cursor = durable content @ remaining (post_empty_list params) ds cursor';
     active_directions cursor' = update_active_directions content (active_directions cursor);
     channel_lines params cursor' ds parts\<rbrakk>
     \<Longrightarrow> channel_lines params cursor (d # ds) (line_of params (active_directions cursor) content # parts)"

definition channel_ready :: "ChannelCursor \<Rightarrow> PostLineBreakParams \<Rightarrow> BreakDecision list \<Rightarrow> bool" where
  "channel_ready cursor params ds \<longleftrightarrow> channel_ok cursor \<and> (\<forall>d \<in> set ds. bd_position d \<le> ch_count cursor)
     \<and> (if ds = [] then remaining (post_empty_list params) [] cursor = []
        else bd_position (last ds) = ch_count cursor \<and> \<not> bd_hyphenated (last ds))"

lemma channel_ready_step:
  assumes ready: "channel_ready cursor params (d # ds)" and sorted: "sorted_wrt (<) (map bd_position (d # ds))"
  obtains cursor' content where
    "materialize_channel cursor d params actions fill = Ok (cursor', line_of params (active_directions cursor) content)"
    "channel_ready cursor' params ds"
    "\<And>parts. channel_lines params cursor' ds parts
       \<Longrightarrow> channel_lines params cursor (d # ds) (line_of params (active_directions cursor) content # parts)"
proof -
  have "channel_ok cursor" "bd_position d \<le> ch_count cursor"
    using ready by (auto simp: channel_ready_def)
  from materialize_channel_step [OF this(1) sorted this(2)]
  obtain cursor' content where step:
      "materialize_channel cursor d params actions fill = Ok (cursor', line_of params (active_directions cursor) content)"
      "channel_ok cursor'" "ch_count cursor' = ch_count cursor"
      "active_directions cursor' = update_active_directions content (active_directions cursor)"
      "remaining (post_empty_list params) (d # ds) cursor = durable content @ remaining (post_empty_list params) ds cursor'"
      "\<not> bd_hyphenated d \<longrightarrow> pending_post cursor' = []" "bd_position d = ch_count cursor \<longrightarrow> ch_nodes cursor' = []"
    by blast
  have "channel_ready cursor' params ds"
    using ready step by (auto simp: channel_ready_def remaining_def split: if_splits)
  then show ?thesis
    using that step by (blast intro: channel_lines.next_break)
qed

fun is_ok :: "('e, 'a) outcome \<Rightarrow> bool" where
  "is_ok (Ok a) \<longleftrightarrow> True"
| "is_ok _ \<longleftrightarrow> False"

definition line_scalars_ok :: "PostLineBreakParams \<Rightarrow> BreakDecision list \<Rightarrow> nat \<Rightarrow> bool" where
  "line_scalars_ok params ds k \<longleftrightarrow>
     is_ok (dimensions (post_shape params) (Suc k)) \<and> is_ok (line_penalty_after k ds (bd_hyphenated (ds ! k)) params)"

lemma drop_eq_ConsD:
  assumes "drop k xs = y # ys"
  shows "k < length xs \<and> xs ! k = y \<and> drop (Suc k) xs = ys"
proof -
  have "k < length xs"
    using assms by (metis drop_all linorder_not_less list.distinct(1))
  then show ?thesis
    using assms Cons_nth_drop_Suc [of k xs] by auto
qed

lemma materialize_lines_channels:
  assumes "drop (lm_line_no m) (lm_breaks m) = ds" "length ds < fuel" "sorted_wrt (<) (map bd_position ds)"
    and "channel_ready (lm_semantic m) (lm_params m) ds" "channel_ready (lm_physical m) (lm_params m) ds"
    and "\<And>k. k < length (lm_breaks m) \<Longrightarrow> line_scalars_ok (lm_params m) (lm_breaks m) k"
  shows "\<exists>lines. materialize_lines fuel m = Ok lines
    \<and> channel_lines (lm_params m) (lm_semantic m) ds (map bl_nodes lines)
    \<and> channel_lines (lm_params m) (lm_physical m) ds (map physical_nodes lines)"
  using assms
proof (induction ds arbitrary: m fuel)
  case Nil
  then obtain fuel' where "fuel = Suc fuel'"
    by (cases fuel) auto
  then show ?case
    using Nil by (auto simp: materialize_next_def channel_ready_def intro: channel_lines.no_break)
next
  case (Cons d ds)
  let ?k = "lm_line_no m"
  obtain fuel' where fuel: "fuel = Suc fuel'" "length ds < fuel'"
    using Cons.prems(2) by (cases fuel) auto
  have k: "?k < length (lm_breaks m)" "lm_breaks m ! ?k = d" "drop (Suc ?k) (lm_breaks m) = ds"
    using drop_eq_ConsD [OF Cons.prems(1)] by auto
  obtain semantic content where sem:
      "materialize_channel (lm_semantic m) d (lm_params m) (Some (lm_actions m)) (lm_par_fill m)
         = Ok (semantic, line_of (lm_params m) (active_directions (lm_semantic m)) content)"
      "channel_ready semantic (lm_params m) ds"
      "\<And>parts. channel_lines (lm_params m) semantic ds parts \<Longrightarrow> channel_lines (lm_params m) (lm_semantic m) (d # ds)
         (line_of (lm_params m) (active_directions (lm_semantic m)) content # parts)"
    using channel_ready_step [OF Cons.prems(4,3)] by blast
  obtain physical content' where phys:
      "materialize_channel (lm_physical m) d (lm_params m) None (lm_par_fill m)
         = Ok (physical, line_of (lm_params m) (active_directions (lm_physical m)) content')"
      "channel_ready physical (lm_params m) ds"
      "\<And>parts. channel_lines (lm_params m) physical ds parts \<Longrightarrow> channel_lines (lm_params m) (lm_physical m) (d # ds)
         (line_of (lm_params m) (active_directions (lm_physical m)) content' # parts)"
    using channel_ready_step [OF Cons.prems(5,3)] by blast
  let ?m = "m\<lparr>lm_semantic := semantic, lm_physical := physical, lm_line_no := ?k + 1\<rparr>"
  obtain dims p where scalars: "dimensions (post_shape (lm_params m)) (Suc ?k) = Ok dims"
      "line_penalty_after ?k (lm_breaks m) (bd_hyphenated d) (lm_params m) = Ok p"
    using Cons.prems(6) [OF k(1)] k(2) by (auto simp: line_scalars_ok_def elim!: is_ok.elims)
  have "\<exists>lines. materialize_lines fuel' ?m = Ok lines \<and> channel_lines (lm_params ?m) (lm_semantic ?m) ds (map bl_nodes lines)
      \<and> channel_lines (lm_params ?m) (lm_physical ?m) ds (map physical_nodes lines)"
    using Cons.prems k fuel sem(2) phys(2) by (intro Cons.IH) auto
  then obtain lines where lines: "materialize_lines fuel' ?m = Ok lines"
      "channel_lines (lm_params m) semantic ds (map bl_nodes lines)"
      "channel_lines (lm_params m) physical ds (map physical_nodes lines)"
    by auto
  then show ?case
    using k scalars sem phys by (auto simp: fuel materialize_next_def)
qed

definition essential :: "page_list Node list \<Rightarrow> page_list Node list" where
  "essential nodes = filter (\<lambda>n. \<not> is_discardable_post n \<and> (\<forall>d. n \<noteq> Direction d)) nodes"

lemma essential_simps [simp]:
  "essential [] = []"
  "essential (xs @ ys) = essential xs @ essential ys"
  "essential (durable xs) = essential xs"
  by (auto simp: essential_def durable_def intro: filter_cong)

lemma essential_line_of: "essential (line_of params stack content) = essential content"
proof -
  have "essential (map (\<lambda>d. Direction (f d)) ds) = []" for f and ds :: "MathBoundary list"
    by (auto simp: essential_def)
  from this [of "\<lambda>d. d"] this show ?thesis
    by (auto simp: line_of_def left_skip_nodes_def right_skip_node_def) (auto simp: essential_def)
qed

lemma channel_lines_conserve:
  "channel_lines params cursor ds parts \<Longrightarrow>
     length parts = length ds \<and> essential (concat parts) = essential (remaining (post_empty_list params) ds cursor)"
  by (induction rule: channel_lines.induct) (auto simp: essential_line_of)

lemma remaining_new:
  "essential (remaining blank ds (channel_new nodes)) = essential (resolve_discs blank (chosen_discs ds) 0 nodes)"
  by (simp add: remaining_def channel_new_def)

section \<open>Directions are balanced on every line\<close>

text \<open>The nesting of text directions: an end must close the direction that is open.\<close>

fun nest :: "MathBoundary list \<Rightarrow> page_list Node list \<Rightarrow> MathBoundary list option" where
  "nest stack [] = Some stack"
| "nest stack (node # nodes) =
     (case node of
        Direction d \<Rightarrow>
          if d = BeginL \<or> d = BeginR then nest (stack @ [d]) nodes
          else if d = EndL \<or> d = EndR
          then (if stack \<noteq> [] \<and> matching_end (last stack) = d then nest (butlast stack) nodes else None)
          else nest stack nodes
      | _ \<Rightarrow> nest stack nodes)"

lemma nest_append: "nest stack (xs @ ys) = Option.bind (nest stack xs) (\<lambda>st. nest st ys)"
  by (induction xs arbitrary: stack) (auto split: NodeOf.splits)

lemma nest_durable: "nest stack (durable nodes) = nest stack nodes"
proof (induction nodes arbitrary: stack)
  case (Cons node nodes)
  then show ?case
    by (cases node) auto
qed simp

lemma nest_update:
  assumes "nest stack nodes = Some stack'" and "set stack \<subseteq> {BeginL, BeginR}"
  shows "update_active_directions nodes stack = stack' \<and> set stack' \<subseteq> {BeginL, BeginR}"
  using assms
proof (induction nodes arbitrary: stack)
  case (Cons node nodes)
  show ?case
  proof (cases "\<exists>d. node = Direction d")
    case True
    then obtain d where d: "node = Direction d"
      by blast
    have top: "last stack \<in> {BeginL, BeginR}" "set (butlast stack) \<subseteq> {BeginL, BeginR}" if "stack \<noteq> []"
      using Cons.prems(2) subsetD [OF Cons.prems(2) last_in_set [OF that]] by (auto dest: in_set_butlastD)
    show ?thesis
      using Cons.prems top d by (cases d) (auto dest!: Cons.IH split: if_splits)
  next
    case False
    then show ?thesis
      using Cons by (cases node) auto
  qed
qed simp

lemma nest_begin: "set ds \<subseteq> {BeginL, BeginR} \<Longrightarrow> nest stack (map Direction ds) = Some (stack @ ds)"
  by (induction ds arbitrary: stack) auto

lemma nest_end:
  "set stack \<subseteq> {BeginL, BeginR} \<Longrightarrow> nest stack (map (\<lambda>d. Direction (matching_end d)) (rev stack)) = Some []"
  by (induction stack rule: rev_induct) auto

lemma nest_line_of:
  assumes "nest stack content = Some stack'" and "set stack \<subseteq> {BeginL, BeginR}"
  shows "nest [] (line_of params stack content) = Some []"
proof -
  have skips: "nest st (left_skip_nodes g) = Some st" "nest st [right_skip_node g] = Some st" for st g
    by (auto simp: left_skip_nodes_def right_skip_node_def)
  show ?thesis
    using assms nest_update [OF assms] nest_begin [OF assms(2), of "[]"] nest_end [of stack']
    by (simp add: line_of_def nest_append skips) (simp add: right_skip_node_def)
qed

lemma channel_lines_nest:
  assumes "channel_lines params cursor ds parts" and "set (active_directions cursor) \<subseteq> {BeginL, BeginR}"
    and "nest (active_directions cursor) (remaining (post_empty_list params) ds cursor) \<noteq> None"
  shows "\<forall>this_line \<in> set parts. nest [] this_line = Some []"
  using assms
proof (induction rule: channel_lines.induct)
  case (next_break d ds cursor content cursor' parts)
  then obtain stack' where stack': "nest (active_directions cursor) content = Some stack'"
      "nest stack' (remaining (post_empty_list params) ds cursor') \<noteq> None"
    by (auto simp: nest_append nest_durable bind_eq_Some_conv)
  note after = nest_update [OF stack'(1) next_break.prems(1)]
  then show ?case
    using next_break stack' nest_line_of [OF stack'(1) next_break.prems(1)] by auto
qed simp

section \<open>Properties\<close>

definition breaks_cover :: "nat \<Rightarrow> BreakDecision list \<Rightarrow> bool" where
  "breaks_cover n ds \<longleftrightarrow> ds \<noteq> [] \<and> sorted_wrt (<) (map bd_position ds) \<and> bd_position (last ds) = n \<and> \<not> bd_hyphenated (last ds)"

lemma breaks_cover_bound:
  assumes "breaks_cover n ds" and "d \<in> set ds"
  shows "bd_position d \<le> n"
proof -
  obtain es e where "ds = es @ [e]"
    using assms(1) by (metis breaks_cover_def rev_exhaust)
  then show ?thesis
    using assms by (auto simp: breaks_cover_def sorted_wrt_append)
qed

lemma channel_ready_new: "breaks_cover (length nodes) ds \<Longrightarrow> channel_ready (channel_new nodes) params ds"
  by (auto simp: channel_ready_def channel_ok_def channel_new_def dest: breaks_cover_bound) (auto simp: breaks_cover_def)

lemma materialize_new_lines:
  assumes "breaks_cover (length nodes) ds" and "\<forall>k < length ds. line_scalars_ok params ds k"
    and "lm_semantic m = channel_new nodes" "lm_physical m = channel_new nodes" "lm_breaks m = ds" "lm_line_no m = 0"
      "lm_params m = params"
  shows "\<exists>lines. materialize_lines (Suc (length ds)) m = Ok lines
    \<and> channel_lines params (channel_new nodes) ds (map bl_nodes lines)
    \<and> channel_lines params (channel_new nodes) ds (map physical_nodes lines)"
  using materialize_lines_channels [of m ds "Suc (length ds)"] assms channel_ready_new [OF assms(1)]
  by (simp add: breaks_cover_def)

lemma post_line_break_lines:
  assumes "breaks_cover (length nodes) ds" and "\<forall>k < length ds. line_scalars_ok params ds k"
  shows "\<exists>lines. post_line_break nodes ds params = Ok lines
    \<and> channel_lines params (channel_new nodes) ds (map bl_nodes lines)
    \<and> channel_lines params (channel_new nodes) ds (map physical_nodes lines)"
  using materialize_new_lines [OF assms] by (simp add: post_line_break_def from_borrowed_nodes_def)

text \<open>C4. Breaking a paragraph into lines loses and invents nothing. For any breaks at increasing positions of which the last
  is at the paragraph's end and not at a hyphen, and line dimensions and penalties in range, the materializer returns one
  line per break, and the essential nodes of the lines (all but directions and the glue, kerns, penalties and math nodes
  that a break may discard) are in order those of the paragraph in which each chosen discretionary is replaced by its
  emptied node, its pre-break and its post-break text, and each other one is followed by its replacement text; both in the
  semantic and in the physical channel.
\<close>

theorem post_line_break_conserves:
  assumes "breaks_cover (length nodes) ds" and "\<forall>k < length ds. line_scalars_ok params ds k"
  shows "\<exists>lines. post_line_break nodes ds params = Ok lines \<and> length lines = length ds
    \<and> essential (concat (map bl_nodes lines)) = essential (resolve_discs (post_empty_list params) (chosen_discs ds) 0 nodes)
    \<and> essential (concat (map physical_nodes lines)) = essential (resolve_discs (post_empty_list params) (chosen_discs ds) 0 nodes)"
  using post_line_break_lines [OF assms] by (auto dest!: channel_lines_conserve simp: remaining_new)

text \<open>C5. Every line of a paragraph is balanced: when no direction of the paragraph is closed that is not open, then on each
  line every direction that is opened is closed and every end closes the direction that is open, because a line reopens the
  directions that the lines before it left open and closes its own at its end.
\<close>

theorem lines_balanced:
  assumes "breaks_cover (length nodes) ds" and "\<forall>k < length ds. line_scalars_ok params ds k"
    and "nest [] (resolve_discs (post_empty_list params) (chosen_discs ds) 0 nodes) \<noteq> None"
    and "post_line_break nodes ds params = Ok lines" and "ln \<in> set lines"
  shows "nest [] (bl_nodes ln) = Some [] \<and> nest [] (physical_nodes ln) = Some []"
proof -
  let ?c = "channel_new nodes"
  have channels: "channel_lines params ?c ds (map bl_nodes lines)" "channel_lines params ?c ds (map physical_nodes lines)"
    using post_line_break_lines [OF assms(1,2)] assms(4) by auto
  moreover have "set (active_directions ?c) \<subseteq> {BeginL, BeginR}"
      "nest (active_directions ?c) (remaining (post_empty_list params) ds ?c) \<noteq> None"
    using assms(3) by (auto simp: channel_new_def remaining_def nest_durable)
  ultimately show ?thesis
    using channel_lines_nest assms(5) by fastforce
qed

subsection \<open>A paragraph from its nodes to its lines\<close>




subsection \<open>Witnesses\<close>

definition demo_post :: PostLineBreakParams where
  "demo_post = \<lparr>post_empty_list = PageList [], post_left_skip = glue_ZERO, post_right_skip = glue_ZERO, interline_penalty = 5,
     club_penalty = 150, widow_penalties = \<lparr>wp_selector = OrdinaryWidow, wp_ordinary = \<lparr>ps_fallback = 150, ps_values = []\<rparr>,
       wp_display = \<lparr>ps_fallback = 50, ps_values = []\<rparr>\<rparr>,
     broken_penalty = 100, prev_graf = 0, interline_penalties = [], club_penalties = [], post_shape = natural_shape 250\<rparr>"

text \<open>A right-to-left phrase with a hyphen at which the paragraph is broken and glue that the break discards.\<close>

definition bidi_paragraph :: "page_list Node list" where
  "bidi_paragraph = [CharNode 1 65 0, Direction BeginR, CharNode 1 66 0,
     Disc Discretionary (PageList [CharNode 1 45 0]) (PageList []) (PageList []) 0, word_glue, CharNode 1 67 0, Direction EndR,
     Penalty 10000, par_fill_node]"

definition bidi_breaks :: "BreakDecision list" where
  "bidi_breaks = [\<lparr>bd_position = 4, bd_penalty = 50, bd_hyphenated = True\<rparr>, \<lparr>bd_position = 9, bd_penalty = - 10000, bd_hyphenated = False\<rparr>]"

lemma bidi_scalars: "\<forall>k < length bidi_breaks. line_scalars_ok demo_post bidi_breaks k"
proof -
  have "line_scalars_ok demo_post bidi_breaks 0" "line_scalars_ok demo_post bidi_breaks 1"
    by code_simp+
  then show ?thesis
    by (auto simp: bidi_breaks_def less_Suc_eq)
qed

lemma bidi_cover: "breaks_cover (length bidi_paragraph) bidi_breaks"
  by (simp add: breaks_cover_def bidi_breaks_def bidi_paragraph_def)

theorem post_line_break_conserves_witness:
  "\<exists>lines. post_line_break bidi_paragraph bidi_breaks demo_post = Ok lines \<and> length lines = 2
     \<and> essential (concat (map bl_nodes lines)) = [CharNode 1 65 0, CharNode 1 66 0,
         Disc Discretionary (PageList []) (PageList []) (PageList []) 0, CharNode 1 45 0, CharNode 1 67 0]"
  using post_line_break_conserves [OF bidi_cover bidi_scalars]
  by (auto simp: bidi_breaks_def bidi_paragraph_def demo_post_def chosen_discs_def resolve_disc_def essential_def word_glue_def par_fill_node_def)

theorem lines_balanced_witness:
  "\<exists>lines. post_line_break bidi_paragraph bidi_breaks demo_post = Ok lines \<and> length lines = 2
     \<and> nest [] (bl_nodes (lines ! 0)) = Some [] \<and> nest [] (bl_nodes (lines ! 1)) = Some []"
proof -
  obtain lines where lines: "post_line_break bidi_paragraph bidi_breaks demo_post = Ok lines" "length lines = 2"
    using post_line_break_lines [OF bidi_cover bidi_scalars] by (auto dest!: channel_lines_conserve simp: bidi_breaks_def)
  have "nest [] (resolve_discs (post_empty_list demo_post) (chosen_discs bidi_breaks) 0 bidi_paragraph) \<noteq> None"
    by (simp add: bidi_breaks_def bidi_paragraph_def demo_post_def chosen_discs_def resolve_disc_def word_glue_def par_fill_node_def)
  from lines_balanced [OF bidi_cover bidi_scalars this lines(1)] show ?thesis
    using lines by simp
qed


end
