(* ===== verification/Ordered_Map.thy ===== *)
theory Ordered_Map
  imports Umber_Prelude "HOL-Library.List_Lexorder"
begin

text \<open>
  The ordered maps of the source (\<^verbatim>\<open>BTreeMap\<close>) as lists of entries in increasing order of keys, which is how the source
  iterates over them; a map is determined by its lookups. The locale \<open>keyed_store\<close> is what a client relies on: exchanging
  the entry of a key twice restores the map. The locale \<open>reversible\<close> is the contract of a journal whose entries exchange
  state with the value they carry: undoing a suffix and redoing it is the identity.
\<close>

section \<open>Sorted association lists\<close>

fun bt_insert :: "'k::linorder \<Rightarrow> 'v \<Rightarrow> ('k \<times> 'v) list \<Rightarrow> ('k \<times> 'v) list" where
  "bt_insert k v [] = [(k, v)]"
| "bt_insert k v ((k', v') # m) =
     (if k < k' then (k, v) # (k', v') # m else if k = k' then (k, v) # m else (k', v') # bt_insert k v m)"

definition bt_remove :: "'k \<Rightarrow> ('k \<times> 'v) list \<Rightarrow> ('k \<times> 'v) list" where
  "bt_remove k m = filter (\<lambda>e. fst e \<noteq> k) m"

definition bt_ok :: "('k::linorder \<times> 'v) list \<Rightarrow> bool" where
  "bt_ok m \<longleftrightarrow> sorted_wrt (<) (map fst m)"

lemma map_of_bt_insert [simp]: "map_of (bt_insert k v m) = (map_of m)(k \<mapsto> v)"
  by (induction m) auto

lemma map_of_bt_remove [simp]: "map_of (bt_remove k m) = (map_of m)(k := None)"
  by (induction m) (auto simp: bt_remove_def)

lemma set_bt_insert: "e \<in> set (bt_insert k v m) \<Longrightarrow> e = (k, v) \<or> e \<in> set m"
  by (induction k v m rule: bt_insert.induct) (auto split: if_splits)

lemma bt_ok_Cons: "bt_ok (e # m) \<longleftrightarrow> (\<forall>e' \<in> set m. fst e < fst e') \<and> bt_ok m"
  by (auto simp: bt_ok_def)

lemma bt_ok_insert [simp]: "bt_ok m \<Longrightarrow> bt_ok (bt_insert k v m)"
  by (induction k v m rule: bt_insert.induct) (auto simp: bt_ok_Cons dest!: set_bt_insert simp: bt_ok_def)

lemma bt_ok_remove [simp]: "bt_ok m \<Longrightarrow> bt_ok (bt_remove k m)"
  by (induction m) (auto simp: bt_ok_def bt_remove_def)

lemma bt_ok_empty [simp]: "bt_ok []"
  by (simp add: bt_ok_def)

lemma bt_ok_distinct: "bt_ok m \<Longrightarrow> distinct (map fst m)"
  by (simp add: bt_ok_def strict_sorted_iff)

lemma bt_ok_map_of: "bt_ok m \<Longrightarrow> (k, v) \<in> set m \<Longrightarrow> map_of m k = Some v"
  using bt_ok_distinct by (rule map_of_is_SomeI)

lemma bt_ext:
  assumes "bt_ok m" and "bt_ok m'" and "map_of m = map_of m'"
  shows "m = m'"
proof (rule map_sorted_distinct_set_unique [of fst])
  have distinct: "distinct (map fst m)" "distinct (map fst m')"
    using assms strict_sorted_iff by (auto simp: bt_ok_def)
  then show "set m = set m'"
    using assms(3) map_of_inject_set by blast
  then show "inj_on fst (set m \<union> set m')"
    using distinct(1) by (simp add: distinct_map)
qed (use assms strict_sorted_iff in \<open>auto simp: bt_ok_def\<close>)

section \<open>Exchanging entries\<close>

locale keyed_store =
  fixes ok :: "'m \<Rightarrow> bool" and get :: "'m \<Rightarrow> 'k \<Rightarrow> 'v option" and put :: "'k \<Rightarrow> 'v \<Rightarrow> 'm \<Rightarrow> 'm" and drop_key :: "'k \<Rightarrow> 'm \<Rightarrow> 'm"
  assumes ext: "ok m \<Longrightarrow> ok m' \<Longrightarrow> get m = get m' \<Longrightarrow> m = m'"
    and get_put: "get (put k v m) = (get m)(k \<mapsto> v)"
    and get_drop: "get (drop_key k m) = (get m)(k := None)"
    and ok_put: "ok m \<Longrightarrow> ok (put k v m)"
    and ok_drop: "ok m \<Longrightarrow> ok (drop_key k m)"
begin

definition set_entry :: "'k \<Rightarrow> 'v option \<Rightarrow> 'm \<Rightarrow> 'm" where
  "set_entry k v m = (case v of Some a \<Rightarrow> put k a m | None \<Rightarrow> drop_key k m)"

lemma get_set_entry: "get (set_entry k v m) = (get m)(k := v)"
  by (auto simp: set_entry_def get_put get_drop split: option.split)

lemma ok_set_entry: "ok m \<Longrightarrow> ok (set_entry k v m)"
  by (auto simp: set_entry_def ok_put ok_drop split: option.split)

text \<open>Setting an entry back to what it was restores the map, whatever was set in between.\<close>

lemma exchange_back:
  assumes "ok m"
  shows "set_entry k (get m k) (set_entry k v m) = m"
  using assms by (intro ext) (auto simp: ok_set_entry get_set_entry)

lemma set_entry_same: "ok m \<Longrightarrow> set_entry k (get m k) m = m"
  by (intro ext) (auto simp: ok_set_entry get_set_entry)

end

interpretation bt: keyed_store bt_ok map_of bt_insert bt_remove
  by unfold_locales (auto intro: bt_ext)

section \<open>Journals of exchanges\<close>

locale reversible =
  fixes swap :: "'x \<Rightarrow> 's \<Rightarrow> 'x \<times> 's" and ok :: "'s \<Rightarrow> bool"
  assumes ok_swap: "ok s \<Longrightarrow> ok (snd (swap x s))"
    and swap_swap: "ok s \<Longrightarrow> case_prod swap (swap x s) = (x, s)"
begin

text \<open>Entries exchanged in order, each with the state the one before it left.\<close>

primrec swap_all :: "'x list \<Rightarrow> 's \<Rightarrow> 'x list \<times> 's" where
  "swap_all [] s = ([], s)"
| "swap_all (x # xs) s = (let (y, s1) = swap x s; (ys, s2) = swap_all xs s1 in (y # ys, s2))"

lemma swap_all_append:
  "swap_all (xs @ ys) s = (let (us, s1) = swap_all xs s; (vs, s2) = swap_all ys s1 in (us @ vs, s2))"
  by (induction xs arbitrary: s) (auto simp: Let_def split: prod.splits)

lemma ok_swap_all: "ok s \<Longrightarrow> ok (snd (swap_all xs s))"
  by (induction xs arbitrary: s) (auto simp: Let_def split: prod.splits dest: ok_swap, metis ok_swap snd_conv)

text \<open>The exchanged entries in reverse order exchange everything back.\<close>

lemma swap_all_back:
  assumes "ok s" and "swap_all xs s = (ys, s')"
  shows "swap_all (rev ys) s' = (rev xs, s)"
  using assms
proof (induction xs arbitrary: s ys)
  case (Cons x xs)
  obtain y s1 where y: "swap x s = (y, s1)"
    by (cases "swap x s")
  obtain zs where zs: "swap_all xs s1 = (zs, s')" "ys = y # zs"
    using Cons.prems(2) y by (auto simp: Let_def split: prod.splits)
  have "swap_all (rev zs) s' = (rev xs, s1)"
    using Cons.IH [OF _ zs(1)] ok_swap [OF Cons.prems(1), of x] y by simp
  moreover have "swap y s1 = (x, s)"
    using swap_swap [OF Cons.prems(1), of x] y by simp
  ultimately show ?case
    using zs by (simp add: swap_all_append)
qed simp

end

end
