(* ===== verification/Hyphenation.thy ===== *)
theory Hyphenation
  imports Ordered_Map
begin

text \<open>
  The hyphenation table: \<^verbatim>\<open>crates/tex-state/src/hyphenation.rs\<close> and \<^verbatim>\<open>hyphenation/storage.rs\<close>. A table has a pattern trie for
  each language, which is closed once and for all, the exceptions and saved codes of each language with their capacity, and
  a journal of inverses for rolling back to a checkpoint. Characters are their code points, a language and a pattern value
  is a byte. The estimate of retained bytes, the fingerprint cache of the tests and the incremental hash of the state are
  evidence beside the table and are left out, as are the scratch buffers of a query.
\<close>

section \<open>Patterns\<close>

definition DOT :: nat where "DOT = 46"

definition usize_saturating_add :: "nat \<Rightarrow> nat \<Rightarrow> nat" where
  "usize_saturating_add a b = nat (min (int a + int b) (2 ^ 64 - 1))"

record TrieNode =
  tn_edges :: "(nat \<times> nat) list"
  tn_values :: "nat list"

definition trie_node_default :: TrieNode where
  "trie_node_default = \<lparr>tn_edges = [], tn_values = []\<rparr>"

record PatternSpec =
  pt_letters :: "nat list"
  pt_values :: "nat list"

record ExceptionSpec =
  ex_word :: "nat list"
  ex_positions :: "nat list"

datatype ExceptionInsertion = IgnoredException | ReplacedException | AllocatedException

datatype HyphenationCapacityError = HyphenationCapacityError nat

definition starts_with_dot :: "nat list \<Rightarrow> bool" where
  "starts_with_dot letters \<longleftrightarrow> letters \<noteq> [] \<and> hd letters = DOT"

definition ends_with_dot :: "nat list \<Rightarrow> bool" where
  "ends_with_dot letters \<longleftrightarrow> letters \<noteq> [] \<and> last letters = DOT"

definition has_trie_operation :: "PatternSpec \<Rightarrow> bool" where
  "has_trie_operation p \<longleftrightarrow>
     list_ex (\<lambda>(index, v). v \<noteq> 0 \<and> \<not> (index = 0 \<and> starts_with_dot (pt_letters p))
       \<and> \<not> (index = length (pt_letters p) \<and> ends_with_dot (pt_letters p))) (enumerate 0 (pt_values p))"

definition canonicalize_trie_operation :: "PatternSpec \<Rightarrow> PatternSpec" where
  "canonicalize_trie_operation p =
     (let vs = (if starts_with_dot (pt_letters p) then (pt_values p)[0 := 0] else pt_values p);
          vs = (if ends_with_dot (pt_letters p) then vs[length (pt_letters p) := 0] else vs);
          p = p\<lparr>pt_values := vs\<rparr>
      in if has_trie_operation p then p else p\<lparr>pt_values := []\<rparr>)"

definition node_at :: "TrieNode list \<Rightarrow> nat \<Rightarrow> TrieNode panicking" where
  "node_at nodes i = (if i < length nodes then Ok (nodes ! i) else Panic)"

text \<open>
  The library's binary search over entries in strictly increasing order of keys: the index of the entry, or where an entry
  of that key would be inserted.
\<close>

definition binary_search_by_key :: "nat \<Rightarrow> (nat \<times> nat) list \<Rightarrow> nat + nat" where
  "binary_search_by_key k es =
     (case List.find (\<lambda>i. fst (es ! i) = k) [0..<length es] of
        Some i \<Rightarrow> Inr i
      | None \<Rightarrow> Inl (length (filter (\<lambda>e. fst e < k) es)))"

definition edge :: "TrieNode list \<Rightarrow> nat \<Rightarrow> nat \<Rightarrow> nat option panicking" where
  "edge nodes node ch =
     obind (node_at nodes node) (\<lambda>n.
       Ok (case binary_search_by_key ch (tn_edges n) of Inr i \<Rightarrow> Some (snd (tn_edges n ! i)) | Inl i \<Rightarrow> None))"

definition edge_or_insert :: "TrieNode list \<Rightarrow> nat \<Rightarrow> nat \<Rightarrow> (TrieNode list \<times> nat) panicking" where
  "edge_or_insert nodes node ch =
     obind (node_at nodes node) (\<lambda>n.
       case binary_search_by_key ch (tn_edges n) of
         Inr i \<Rightarrow> Ok (nodes, snd (tn_edges n ! i))
       | Inl i \<Rightarrow>
           Ok ((nodes @ [trie_node_default])
                 [node := n\<lparr>tn_edges := take i (tn_edges n) @ (ch, length nodes) # drop i (tn_edges n)\<rparr>], length nodes))"

fun missing_from :: "TrieNode list \<Rightarrow> nat \<Rightarrow> nat list \<Rightarrow> nat panicking" where
  "missing_from nodes node [] = Ok 0"
| "missing_from nodes node (ch # chs) =
     obind (node_at nodes node) (\<lambda>n.
       case map_of (tn_edges n) ch of None \<Rightarrow> Ok (Suc (length chs)) | Some next_node \<Rightarrow> missing_from nodes next_node chs)"

definition missing_nodes :: "TrieNode list \<Rightarrow> nat list \<Rightarrow> nat panicking" where
  "missing_nodes nodes letters = missing_from nodes 0 letters"

fun insert_path :: "TrieNode list \<Rightarrow> nat \<Rightarrow> nat list \<Rightarrow> (TrieNode list \<times> nat) panicking" where
  "insert_path nodes node [] = Ok (nodes, node)"
| "insert_path nodes node (ch # chs) =
     obind (edge_or_insert nodes node ch) (\<lambda>(nodes, next_node). insert_path nodes next_node chs)"

section \<open>The table\<close>

type_synonym languages = "(nat \<times> TrieNode list) list"

datatype PatternOwner = BuildingPatterns languages | InitializedPatterns languages

fun owner_languages :: "PatternOwner \<Rightarrow> languages" where
  "owner_languages (BuildingPatterns ls) = ls"
| "owner_languages (InitializedPatterns ls) = ls"

fun building_languages :: "PatternOwner \<Rightarrow> languages panicking" where
  "building_languages (BuildingPatterns ls) = Ok ls"
| "building_languages (InitializedPatterns ls) = Panic"

fun is_building :: "PatternOwner \<Rightarrow> bool" where
  "is_building (BuildingPatterns ls) \<longleftrightarrow> True"
| "is_building (InitializedPatterns ls) \<longleftrightarrow> False"

fun initialize_patterns :: "PatternOwner \<Rightarrow> PatternOwner" where
  "initialize_patterns (BuildingPatterns ls) = InitializedPatterns ls"
| "initialize_patterns (InitializedPatterns ls) = InitializedPatterns ls"

fun reopen_empty :: "PatternOwner \<Rightarrow> PatternOwner \<times> bool" where
  "reopen_empty (BuildingPatterns ls) = (BuildingPatterns ls, ls = [])"
| "reopen_empty (InitializedPatterns ls) = (if ls = [] then (BuildingPatterns [], True) else (InitializedPatterns ls, False))"

record HyphenationRuntime =
  rt_exceptions :: "(nat \<times> (nat list \<times> nat list) list) list"
  rt_hyphen_codes :: "(nat \<times> (nat \<times> nat) list) list"
  exception_occupied :: nat
  exception_capacity :: nat
  exception_capacity_fixed :: bool

datatype HyphenationInverse =
  InvException nat "nat list" "nat list option" nat
| InvCodes nat "(nat \<times> nat) list option"
| InvExceptionCapacity nat bool
| InvTrieCapacity nat

record HyphenationTable =
  ht_patterns :: PatternOwner
  ht_runtime :: HyphenationRuntime
  ht_journal :: "HyphenationInverse list"
  ht_trie_capacity :: nat

definition TEX82_TRIE_SIZE :: nat where "TEX82_TRIE_SIZE = 8000"

definition default_exception_capacity :: nat where "default_exception_capacity = 307"

definition runtime_default :: HyphenationRuntime where
  "runtime_default = \<lparr>rt_exceptions = [], rt_hyphen_codes = [], exception_occupied = 0,
     exception_capacity = default_exception_capacity, exception_capacity_fixed = False\<rparr>"

definition hyphenation_new :: HyphenationTable where
  "hyphenation_new = \<lparr>ht_patterns = BuildingPatterns [], ht_runtime = runtime_default, ht_journal = [],
     ht_trie_capacity = TEX82_TRIE_SIZE\<rparr>"

definition set_trie_capacity :: "HyphenationTable \<Rightarrow> nat \<Rightarrow> HyphenationTable" where
  "set_trie_capacity t capacity =
     t\<lparr>ht_journal := ht_journal t @ [InvTrieCapacity (ht_trie_capacity t)], ht_trie_capacity := capacity\<rparr>"

definition set_exception_capacity_with_selection :: "HyphenationTable \<Rightarrow> nat \<Rightarrow> bool \<Rightarrow> HyphenationTable" where
  "set_exception_capacity_with_selection t capacity fixed =
     (let r = ht_runtime t
      in if exception_capacity r = capacity \<and> exception_capacity_fixed r = fixed then t
         else t\<lparr>ht_journal := ht_journal t @ [InvExceptionCapacity (exception_capacity r) (exception_capacity_fixed r)],
                ht_runtime := r\<lparr>exception_capacity := capacity, exception_capacity_fixed := fixed\<rparr>\<rparr>)"

definition set_exception_capacity :: "HyphenationTable \<Rightarrow> nat \<Rightarrow> HyphenationTable" where
  "set_exception_capacity t capacity = set_exception_capacity_with_selection t capacity True"

definition select_process_exception_capacity :: "HyphenationTable \<Rightarrow> nat \<Rightarrow> HyphenationTable" where
  "select_process_exception_capacity t capacity =
     (if exception_capacity_fixed (ht_runtime t) then t else set_exception_capacity_with_selection t capacity False)"

definition patterns_open :: "HyphenationTable \<Rightarrow> bool" where
  "patterns_open t \<longleftrightarrow> is_building (ht_patterns t)"

definition close_patterns :: "HyphenationTable \<Rightarrow> HyphenationTable" where
  "close_patterns t = t\<lparr>ht_patterns := initialize_patterns (ht_patterns t)\<rparr>"

definition reopen_empty_patterns :: "HyphenationTable \<Rightarrow> HyphenationTable \<times> bool" where
  "reopen_empty_patterns t =
     (if exception_occupied (ht_runtime t) \<noteq> 0 \<or> rt_exceptions (ht_runtime t) \<noteq> [] \<or> rt_hyphen_codes (ht_runtime t) \<noteq> []
      then (t, False)
      else let (patterns, reopened) = reopen_empty (ht_patterns t) in (t\<lparr>ht_patterns := patterns\<rparr>, reopened))"

definition trie_size :: "languages \<Rightarrow> nat" where
  "trie_size ls = sum_list (map (\<lambda>e. length (snd e)) ls)"

definition store_pattern :: "TrieNode list \<Rightarrow> PatternSpec \<Rightarrow> (TrieNode list \<times> bool) panicking" where
  "store_pattern nodes p =
     obind (insert_path nodes 0 (pt_letters p)) (\<lambda>(nodes, node).
     obind (node_at nodes node) (\<lambda>n.
       Ok (nodes[node := n\<lparr>tn_values := pt_values p\<rparr>], tn_values n \<noteq> [])))"

definition lift_panic :: "'a panicking \<Rightarrow> ('e, 'a) outcome" where
  "lift_panic r = (case r of Ok a \<Rightarrow> Ok a | _ \<Rightarrow> Panic)"

definition add_pattern_for_language :: "HyphenationTable \<Rightarrow> nat \<Rightarrow> PatternSpec
    \<Rightarrow> (HyphenationCapacityError, HyphenationTable \<times> bool) outcome" where
  "add_pattern_for_language t language p =
     (let ls = owner_languages (ht_patterns t)
      in if pt_letters p = [] then Ok (t, False)
         else obind (lift_panic (case map_of ls language of
                       Some nodes \<Rightarrow> missing_nodes nodes (pt_letters p)
                     | None \<Rightarrow> Ok (length (pt_letters p) + 1))) (\<lambda>missing.
           if usize_saturating_add (trie_size ls) missing > ht_trie_capacity t
           then Err (HyphenationCapacityError (ht_trie_capacity t))
           else obind (lift_panic (building_languages (ht_patterns t))) (\<lambda>ls.
                let nodes = (case map_of ls language of Some nodes \<Rightarrow> nodes | None \<Rightarrow> [trie_node_default])
                in obind (lift_panic (store_pattern nodes (canonicalize_trie_operation p))) (\<lambda>(nodes, duplicate).
                     Ok (t\<lparr>ht_patterns := BuildingPatterns (bt_insert language nodes ls)\<rparr>, duplicate)))))"

definition add_pattern :: "HyphenationTable \<Rightarrow> PatternSpec \<Rightarrow> (HyphenationCapacityError, HyphenationTable) outcome" where
  "add_pattern t p = obind (add_pattern_for_language t 0 p) (\<lambda>(t, duplicate). Ok t)"

fun find_path :: "TrieNode list \<Rightarrow> nat \<Rightarrow> nat list \<Rightarrow> nat option panicking" where
  "find_path nodes node [] = Ok (Some node)"
| "find_path nodes node (ch # chs) =
     obind (node_at nodes node) (\<lambda>n.
       case map_of (tn_edges n) ch of None \<Rightarrow> Ok None | Some next_node \<Rightarrow> find_path nodes next_node chs)"

definition contains_pattern_for_language :: "HyphenationTable \<Rightarrow> nat \<Rightarrow> nat list \<Rightarrow> bool panicking" where
  "contains_pattern_for_language t language letters =
     (case map_of (owner_languages (ht_patterns t)) language of
        None \<Rightarrow> Ok False
      | Some nodes \<Rightarrow>
          obind (find_path nodes 0 letters) (\<lambda>r.
            case r of
              None \<Rightarrow> Ok False
            | Some node \<Rightarrow>
                if letters = [] then Ok False else obind (node_at nodes node) (\<lambda>n. Ok (tn_values n \<noteq> []))))"

definition language_exceptions :: "HyphenationRuntime \<Rightarrow> nat \<Rightarrow> (nat list \<times> nat list) list" where
  "language_exceptions r language = (case map_of (rt_exceptions r) language of None \<Rightarrow> [] | Some m \<Rightarrow> m)"

definition add_exception_for_language :: "HyphenationTable \<Rightarrow> nat \<Rightarrow> ExceptionSpec \<Rightarrow> HyphenationTable \<times> ExceptionInsertion" where
  "add_exception_for_language t language e =
     (if length (ex_word e) < 2 then (t, IgnoredException)
      else let r = ht_runtime t;
               m = language_exceptions r language;
               old = map_of m (ex_word e);
               r' = r\<lparr>rt_exceptions := bt_insert language (bt_insert (ex_word e) (ex_positions e) m) (rt_exceptions r)\<rparr>;
               t = t\<lparr>ht_journal := ht_journal t @ [InvException language (ex_word e) old (exception_occupied r)]\<rparr>
           in if old \<noteq> None then (t\<lparr>ht_runtime := r'\<rparr>, ReplacedException)
              else (t\<lparr>ht_runtime := r'\<lparr>exception_occupied := usize_saturating_add (exception_occupied r) 1\<rparr>\<rparr>, AllocatedException))"

definition add_exception :: "HyphenationTable \<Rightarrow> ExceptionSpec \<Rightarrow> HyphenationTable \<times> ExceptionInsertion" where
  "add_exception t e = add_exception_for_language t 0 e"

definition save_hyphen_codes :: "HyphenationTable \<Rightarrow> nat \<Rightarrow> (nat \<times> nat) list \<Rightarrow> HyphenationTable" where
  "save_hyphen_codes t language codes =
     (let r = ht_runtime t;
          m = fold (\<lambda>(k, v). bt_insert k v) codes []
      in t\<lparr>ht_runtime := r\<lparr>rt_hyphen_codes := bt_insert language m (rt_hyphen_codes r)\<rparr>,
           ht_journal := ht_journal t @ [InvCodes language (map_of (rt_hyphen_codes r) language)]\<rparr>)"

definition saved_hyphen_code :: "HyphenationTable \<Rightarrow> nat \<Rightarrow> nat \<Rightarrow> nat option option" where
  "saved_hyphen_code t language ch = map_option (\<lambda>codes. map_of codes ch) (map_of (rt_hyphen_codes (ht_runtime t)) language)"

definition exception_for_language :: "HyphenationTable \<Rightarrow> nat \<Rightarrow> nat list \<Rightarrow> nat list option" where
  "exception_for_language t language word = Option.bind (map_of (rt_exceptions (ht_runtime t)) language) (\<lambda>m. map_of m word)"

section \<open>Hyphenation of a word\<close>

fun raise_values :: "nat \<Rightarrow> nat list \<Rightarrow> nat list \<Rightarrow> nat list" where
  "raise_values p [] levels = levels"
| "raise_values p (v # vs) levels =
     raise_values (Suc p) vs (if p < length levels \<and> v > levels ! p then levels[p := v] else levels)"

fun scan_from :: "TrieNode list \<Rightarrow> nat \<Rightarrow> nat \<Rightarrow> nat list \<Rightarrow> nat list \<Rightarrow> nat list panicking" where
  "scan_from nodes node start [] levels = Ok levels"
| "scan_from nodes node start (ch # chs) levels =
     obind (edge nodes node ch) (\<lambda>r.
       case r of
         None \<Rightarrow> Ok levels
       | Some next_node \<Rightarrow>
           obind (node_at nodes next_node) (\<lambda>n.
             scan_from nodes next_node start chs (raise_values start (tn_values n) levels)))"

fun scan_starts :: "TrieNode list \<Rightarrow> nat \<Rightarrow> nat list \<Rightarrow> nat list \<Rightarrow> nat list panicking" where
  "scan_starts nodes start [] levels = Ok levels"
| "scan_starts nodes start (ch # chs) levels =
     obind (scan_from nodes 0 start (ch # chs) levels) (scan_starts nodes (Suc start) chs)"

definition filter_bounds :: "nat list \<Rightarrow> nat \<Rightarrow> nat \<Rightarrow> nat \<Rightarrow> nat list" where
  "filter_bounds positions len left_min right_min = filter (\<lambda>p. p \<ge> left_min \<and> len - p \<ge> right_min) positions"

definition odd_positions :: "nat list \<Rightarrow> nat list" where
  "odd_positions levels = map (\<lambda>(i, v). i - 1) (filter (\<lambda>(i, v). v mod 2 = 1 \<and> i > 0) (enumerate 0 levels))"

definition hyphen_positions_for_language :: "HyphenationTable \<Rightarrow> nat \<Rightarrow> nat list \<Rightarrow> nat \<Rightarrow> nat \<Rightarrow> nat list panicking" where
  "hyphen_positions_for_language t language word left_min right_min =
     (if length word < usize_saturating_add left_min right_min then Ok []
      else case exception_for_language t language word of
        Some positions \<Rightarrow> Ok (filter_bounds positions (length word) left_min right_min)
      | None \<Rightarrow>
          (case map_of (owner_languages (ht_patterns t)) language of
             None \<Rightarrow> Ok []
           | Some nodes \<Rightarrow>
               let decorated = DOT # word @ [DOT]
               in obind (scan_starts nodes 0 decorated (replicate (length decorated + 1) 0)) (\<lambda>levels.
                    Ok (filter_bounds (odd_positions levels) (length word) left_min right_min))))"

definition hyphen_positions :: "HyphenationTable \<Rightarrow> nat list \<Rightarrow> nat \<Rightarrow> nat \<Rightarrow> nat list panicking" where
  "hyphen_positions t word left_min right_min = hyphen_positions_for_language t 0 word left_min right_min"

section \<open>Validation of a frozen table\<close>

datatype FrozenError =
  ExceptionOccupancy | TrieOccupancy | NoRoot | NonCanonicalEdges | EdgeTargetDead | EdgeCountOverflow | NotRootedTree
| InvalidException

fun count_edges :: "(nat \<times> nat) list \<Rightarrow> nat option \<Rightarrow> int list \<Rightarrow> (FrozenError, int list) outcome" where
  "count_edges [] prior incoming = Ok incoming"
| "count_edges ((ch, target) # es) prior incoming =
     (if (case prior of None \<Rightarrow> False | Some p \<Rightarrow> p \<ge> ch) then Err NonCanonicalEdges
      else if target \<ge> length incoming then Err EdgeTargetDead
      else if incoming ! target + 1 \<ge> 2 ^ 32 then Err EdgeCountOverflow
      else count_edges es (Some ch) (incoming[target := incoming ! target + 1]))"

fun count_nodes :: "TrieNode list \<Rightarrow> int list \<Rightarrow> (FrozenError, int list) outcome" where
  "count_nodes [] incoming = Ok incoming"
| "count_nodes (n # ns) incoming = obind (count_edges (tn_edges n) None incoming) (count_nodes ns)"

definition validate_trie :: "TrieNode list \<Rightarrow> (FrozenError, unit) outcome" where
  "validate_trie nodes =
     (if nodes = [] then Err NoRoot
      else obind (count_nodes nodes (replicate (length nodes) 0)) (\<lambda>incoming.
        if incoming ! 0 \<noteq> 0 \<or> list_ex (\<lambda>c. c \<noteq> 1) (drop 1 incoming) then Err NotRootedTree else Ok ()))"

fun validate_tries :: "languages \<Rightarrow> (FrozenError, unit) outcome" where
  "validate_tries [] = Ok ()"
| "validate_tries ((l, nodes) # ls) = obind (validate_trie nodes) (\<lambda>u. validate_tries ls)"

definition exception_invalid :: "nat list \<times> nat list \<Rightarrow> bool" where
  "exception_invalid e \<longleftrightarrow> fst e = [] \<or> list_ex (\<lambda>p. p > length (fst e)) (snd e)"

definition validate_frozen :: "HyphenationTable \<Rightarrow> (FrozenError, unit) outcome" where
  "validate_frozen t =
     (let r = ht_runtime t;
          occupied = sum_list (map (\<lambda>e. length (snd e)) (rt_exceptions r))
      in if occupied \<noteq> exception_occupied r \<or> occupied > exception_capacity r then Err ExceptionOccupancy
         else if trie_size (owner_languages (ht_patterns t)) > ht_trie_capacity t then Err TrieOccupancy
         else obind (validate_tries (owner_languages (ht_patterns t))) (\<lambda>u.
           if list_ex (\<lambda>(l, m). list_ex exception_invalid m) (rt_exceptions r) then Err InvalidException else Ok ()))"

section \<open>Checkpoints\<close>

record HyphenationCheckpoint =
  cp_patterns :: PatternOwner
  cp_journal :: nat
  cp_exception_capacity :: nat
  cp_exception_capacity_fixed :: bool
  cp_trie_capacity :: nat

record HyphenationCandidate =
  candidate_mark :: nat
  accepted_journal :: "HyphenationInverse list"
  accepted_patterns :: PatternOwner
  accepted_trie_capacity :: nat

type_synonym undo_state = "HyphenationRuntime \<times> nat"

definition set_exception_entry :: "nat \<Rightarrow> nat list \<Rightarrow> nat list option \<Rightarrow> HyphenationRuntime \<Rightarrow> HyphenationRuntime" where
  "set_exception_entry language word v r =
     (let m = language_exceptions r language;
          m' = (case v of Some prior \<Rightarrow> bt_insert word prior m | None \<Rightarrow> bt_remove word m)
      in r\<lparr>rt_exceptions := if m' = [] then bt_remove language (rt_exceptions r) else bt_insert language m' (rt_exceptions r)\<rparr>)"

fun inverse_swap :: "HyphenationInverse \<Rightarrow> undo_state \<Rightarrow> HyphenationInverse \<times> undo_state" where
  "inverse_swap (InvException language word v occupied) (r, cap) =
     (InvException language word (map_of (language_exceptions r language) word) (exception_occupied r),
      (set_exception_entry language word v r)\<lparr>exception_occupied := occupied\<rparr>, cap)"
| "inverse_swap (InvCodes language v) (r, cap) =
     (InvCodes language (map_of (rt_hyphen_codes r) language),
      r\<lparr>rt_hyphen_codes := (case v of Some prior \<Rightarrow> bt_insert language prior (rt_hyphen_codes r)
                                   | None \<Rightarrow> bt_remove language (rt_hyphen_codes r))\<rparr>, cap)"
| "inverse_swap (InvExceptionCapacity capacity fixed) (r, cap) =
     (InvExceptionCapacity (exception_capacity r) (exception_capacity_fixed r),
      r\<lparr>exception_capacity := capacity, exception_capacity_fixed := fixed\<rparr>, cap)"
| "inverse_swap (InvTrieCapacity v) (r, cap) = (InvTrieCapacity cap, r, v)"

definition hyphenation_checkpoint :: "HyphenationTable \<Rightarrow> HyphenationCheckpoint" where
  "hyphenation_checkpoint t =
     \<lparr>cp_patterns = ht_patterns t, cp_journal = length (ht_journal t), cp_exception_capacity = exception_capacity (ht_runtime t),
      cp_exception_capacity_fixed = exception_capacity_fixed (ht_runtime t), cp_trie_capacity = ht_trie_capacity t\<rparr>"

definition validates_checkpoint :: "HyphenationTable \<Rightarrow> HyphenationCheckpoint \<Rightarrow> bool" where
  "validates_checkpoint t c \<longleftrightarrow> cp_journal c \<le> length (ht_journal t)"

text \<open>The loop that pops the journal down to a mark; the journal is given with its end first.\<close>

fun pop_journal :: "nat \<Rightarrow> HyphenationInverse list \<Rightarrow> undo_state \<Rightarrow> HyphenationInverse list \<times> undo_state" where
  "pop_journal mark [] s = ([], s)"
| "pop_journal mark (x # xs) s =
     (if length (x # xs) > mark then pop_journal mark xs (snd (inverse_swap x s)) else (x # xs, s))"

definition restore_checkpoint :: "HyphenationTable \<Rightarrow> HyphenationCheckpoint \<Rightarrow> HyphenationTable panicking" where
  "restore_checkpoint t c =
     (if \<not> validates_checkpoint t c then Panic
      else let (xs, r, cap) = pop_journal (cp_journal c) (rev (ht_journal t)) (ht_runtime t, ht_trie_capacity t)
           in Ok \<lparr>ht_patterns = cp_patterns c,
                  ht_runtime = r\<lparr>exception_capacity := cp_exception_capacity c,
                                 exception_capacity_fixed := cp_exception_capacity_fixed c\<rparr>,
                  ht_journal = rev xs, ht_trie_capacity = cp_trie_capacity c\<rparr>)"

fun swap_journal :: "HyphenationInverse list \<Rightarrow> undo_state \<Rightarrow> HyphenationInverse list \<times> undo_state" where
  "swap_journal [] s = ([], s)"
| "swap_journal (x # xs) s = (let (y, s) = inverse_swap x s; (ys, s) = swap_journal xs s in (y # ys, s))"

definition begin_checkpoint_candidate :: "HyphenationTable \<Rightarrow> HyphenationCheckpoint \<Rightarrow> (HyphenationTable \<times> HyphenationCandidate) panicking" where
  "begin_checkpoint_candidate t c =
     (if \<not> validates_checkpoint t c then Panic
      else let (ys, r, cap) = swap_journal (rev (drop (cp_journal c) (ht_journal t))) (ht_runtime t, ht_trie_capacity t)
           in Ok (\<lparr>ht_patterns = cp_patterns c,
                   ht_runtime = r\<lparr>exception_capacity := cp_exception_capacity c,
                                  exception_capacity_fixed := cp_exception_capacity_fixed c\<rparr>,
                   ht_journal = take (cp_journal c) (ht_journal t), ht_trie_capacity = cp_trie_capacity c\<rparr>,
                  \<lparr>candidate_mark = cp_journal c, accepted_journal = rev ys, accepted_patterns = ht_patterns t,
                   accepted_trie_capacity = cap\<rparr>))"

definition reject_checkpoint_candidate :: "HyphenationTable \<Rightarrow> HyphenationCandidate \<Rightarrow> HyphenationTable" where
  "reject_checkpoint_candidate t c =
     (let (xs, s) = pop_journal (candidate_mark c) (rev (ht_journal t)) (ht_runtime t, ht_trie_capacity t);
          (ys, r, cap) = swap_journal (accepted_journal c) s
      in \<lparr>ht_patterns = accepted_patterns c, ht_runtime = r, ht_journal = rev xs @ ys,
          ht_trie_capacity = accepted_trie_capacity c\<rparr>)"

definition accept_checkpoint_candidate :: "HyphenationTable \<Rightarrow> HyphenationCandidate \<Rightarrow> HyphenationTable" where
  "accept_checkpoint_candidate t c = t"

section \<open>Format rows\<close>

record LanguageHyphenation =
  lh_nodes :: "TrieNode list"
  lh_exceptions :: "(nat list \<times> nat list) list"

record HyphenationFormatRows =
  fr_languages :: "(nat \<times> LanguageHyphenation) list"
  fr_hyphen_codes :: "(nat \<times> (nat \<times> nat) list) list"
  fr_exception_occupied :: nat
  fr_exception_capacity :: nat

definition add_exception_row :: "nat \<times> (nat list \<times> nat list) list \<Rightarrow> (nat \<times> LanguageHyphenation) list \<Rightarrow> (nat \<times> LanguageHyphenation) list" where
  "add_exception_row e rows =
     bt_insert (fst e) \<lparr>lh_nodes = (case map_of rows (fst e) of Some row \<Rightarrow> lh_nodes row | None \<Rightarrow> [trie_node_default]),
                        lh_exceptions = snd e\<rparr> rows"

definition serialize_rows :: "HyphenationTable \<Rightarrow> HyphenationFormatRows" where
  "serialize_rows t =
     (let r = ht_runtime t;
          rows = map (\<lambda>(l, nodes). (l, \<lparr>lh_nodes = nodes, lh_exceptions = []\<rparr>)) (owner_languages (ht_patterns t))
      in \<lparr>fr_languages = fold add_exception_row (rt_exceptions r) rows, fr_hyphen_codes = rt_hyphen_codes r,
          fr_exception_occupied = exception_occupied r, fr_exception_capacity = exception_capacity r\<rparr>)"

definition deserialize_rows :: "HyphenationFormatRows \<Rightarrow> HyphenationTable" where
  "deserialize_rows rows =
     (let patterns = fold (\<lambda>(l, row). bt_insert l (lh_nodes row)) (fr_languages rows) [];
          exceptions = fold (\<lambda>(l, row) m. if lh_exceptions row \<noteq> [] then bt_insert l (lh_exceptions row) m else m) (fr_languages rows) []
      in \<lparr>ht_patterns = InitializedPatterns patterns,
          ht_runtime = \<lparr>rt_exceptions = exceptions, rt_hyphen_codes = fr_hyphen_codes rows,
                        exception_occupied = fr_exception_occupied rows, exception_capacity = fr_exception_capacity rows,
                        exception_capacity_fixed = True\<rparr>,
          ht_journal = [], ht_trie_capacity = TEX82_TRIE_SIZE\<rparr>)"

section \<open>Sequences of operations\<close>

text \<open>The public operations that change a table; a sequence stops at the first error or panic.\<close>

datatype HyphenationOp =
  OpPattern nat PatternSpec
| OpException nat ExceptionSpec
| OpCodes nat "(nat \<times> nat) list"
| OpTrieCapacity nat
| OpExceptionCapacity nat
| OpProcessCapacity nat
| OpClose
| OpReopen

fun run_op :: "HyphenationOp \<Rightarrow> HyphenationTable \<Rightarrow> (HyphenationCapacityError, HyphenationTable) outcome" where
  "run_op (OpPattern l p) t = obind (add_pattern_for_language t l p) (\<lambda>(t, duplicate). Ok t)"
| "run_op (OpException l e) t = Ok (fst (add_exception_for_language t l e))"
| "run_op (OpCodes l codes) t = Ok (save_hyphen_codes t l codes)"
| "run_op (OpTrieCapacity n) t = Ok (set_trie_capacity t n)"
| "run_op (OpExceptionCapacity n) t = Ok (set_exception_capacity t n)"
| "run_op (OpProcessCapacity n) t = Ok (select_process_exception_capacity t n)"
| "run_op OpClose t = Ok (close_patterns t)"
| "run_op OpReopen t = Ok (fst (reopen_empty_patterns t))"

fun run_ops :: "HyphenationOp list \<Rightarrow> HyphenationTable \<Rightarrow> (HyphenationCapacityError, HyphenationTable) outcome" where
  "run_ops [] t = Ok t"
| "run_ops (op # ops) t = obind (run_op op t) (run_ops ops)"

lemma add_pattern_for_language_frame:
  assumes "add_pattern_for_language t l p = Ok (t', duplicate)"
  shows "\<exists>ps. t' = t\<lparr>ht_patterns := ps\<rparr>"
proof (cases "pt_letters p = []")
  case True
  then have "t' = t\<lparr>ht_patterns := ht_patterns t\<rparr>"
    using assms by (simp add: add_pattern_for_language_def)
  then show ?thesis ..
next
  case False
  then show ?thesis
    using assms by (auto simp: add_pattern_for_language_def obind_eq_Ok Let_def split: if_splits)
qed

end
