(* ===== verification/Hyphenation_Journal.thy ===== *)
theory Hyphenation_Journal
  imports Hyphenation
begin

text \<open>
  Rolling a hyphenation table back. The inverses of the journal exchange state with the table, so the journal is an
  instance of the contract \<open>reversible\<close>; every public operation appends inverses that undo it.
\<close>

section \<open>The journal is reversible\<close>

definition runtime_ok :: "HyphenationRuntime \<Rightarrow> bool" where
  "runtime_ok r \<longleftrightarrow> bt_ok (rt_exceptions r) \<and> (\<forall>(l, m) \<in> set (rt_exceptions r). m \<noteq> [] \<and> bt_ok m) \<and> bt_ok (rt_hyphen_codes r)"

definition undo_ok :: "undo_state \<Rightarrow> bool" where
  "undo_ok s \<longleftrightarrow> runtime_ok (fst s)"

lemma language_exceptions_ok: "runtime_ok r \<Longrightarrow> bt_ok (language_exceptions r l)"
  by (auto simp: runtime_ok_def language_exceptions_def dest!: map_of_SomeD split: option.split)

lemma language_exceptions_entry:
  assumes "runtime_ok r"
  shows "map_of (rt_exceptions r) l = (if language_exceptions r l = [] then None else Some (language_exceptions r l))"
  using assms by (auto simp: runtime_ok_def language_exceptions_def dest!: map_of_SomeD split: option.split)

lemma set_exception_entry_eq:
  "set_exception_entry l w v r = r\<lparr>rt_exceptions := (let m = bt.set_entry w v (language_exceptions r l)
     in bt.set_entry l (if m = [] then None else Some m) (rt_exceptions r))\<rparr>"
  by (auto simp: set_exception_entry_def bt.set_entry_def Let_def split: option.split)

lemma map_of_set_bt_remove: "(l', m) \<in> set (bt_remove l xs) \<Longrightarrow> (l', m) \<in> set xs"
  by (auto simp: bt_remove_def)

lemma runtime_ok_set_exception_entry:
  assumes "runtime_ok r"
  shows "runtime_ok (set_exception_entry l w v r)"
proof -
  let ?m = "bt.set_entry w v (language_exceptions r l)"
  have m: "bt_ok ?m"
    using language_exceptions_ok [OF assms] by (rule bt.ok_set_entry)
  have "(l', m') \<in> set (rt_exceptions r) \<or> m' = ?m \<and> ?m \<noteq> []"
    if "(l', m') \<in> set (bt.set_entry l (if ?m = [] then None else Some ?m) (rt_exceptions r))" for l' m'
  proof -
    let ?x = "bt.set_entry l (if ?m = [] then None else Some ?m) (rt_exceptions r)"
    have "bt_ok ?x"
      using assms by (auto simp: runtime_ok_def intro: bt.ok_set_entry)
    then have "map_of ?x l' = Some m'"
      using that by (rule bt_ok_map_of)
    then show ?thesis
      using map_of_SomeD by (fastforce simp: bt.get_set_entry split: if_splits)
  qed
  then show ?thesis
    using assms m by (fastforce simp: runtime_ok_def set_exception_entry_eq Let_def intro: bt.ok_set_entry)
qed

lemma language_exceptions_set_entry:
  assumes "runtime_ok r"
  shows "language_exceptions (set_exception_entry l w v r) l = bt.set_entry w v (language_exceptions r l)"
  by (auto simp: language_exceptions_def set_exception_entry_eq bt.get_set_entry Let_def)

text \<open>Exchanging an exception twice restores the exceptions, although a language without exceptions has no map.\<close>

lemma set_exception_entry_back:
  assumes "runtime_ok r"
  shows "set_exception_entry l w (map_of (language_exceptions r l) w) (set_exception_entry l w v r) = r"
proof -
  let ?m = "language_exceptions r l"
  have m: "bt.set_entry w (map_of ?m w) (bt.set_entry w v ?m) = ?m"
    using language_exceptions_ok [OF assms] by (rule bt.exchange_back)
  have "bt.set_entry l (if ?m = [] then None else Some ?m) (bt.set_entry l v' (rt_exceptions r)) = rt_exceptions r" for v'
    using bt.exchange_back [of "rt_exceptions r" l v'] assms by (simp add: runtime_ok_def language_exceptions_entry [OF assms])
  then show ?thesis
    using m language_exceptions_set_entry [OF assms] by (subst set_exception_entry_eq) (simp add: set_exception_entry_eq Let_def)
qed

lemma occupied_frame:
  "language_exceptions (r\<lparr>exception_occupied := n\<rparr>) l = language_exceptions r l"
  "set_exception_entry l w v (r\<lparr>exception_occupied := n\<rparr>) = (set_exception_entry l w v r)\<lparr>exception_occupied := n\<rparr>"
  by (simp_all add: language_exceptions_def set_exception_entry_def Let_def)

interpretation hyph: reversible inverse_swap undo_ok
proof
  fix x and s :: undo_state
  obtain r cap where s: "s = (r, cap)"
    by (cases s)
  assume ok: "undo_ok s"
  then have r: "runtime_ok r"
    by (simp add: undo_ok_def s)
  have codes: "(case v of Some prior \<Rightarrow> bt_insert l prior m | None \<Rightarrow> bt_remove l m) = bt.set_entry l v m"
    for l v and m :: "(nat \<times> (nat \<times> nat) list) list"
    by (simp add: bt.set_entry_def)
  show "undo_ok (snd (inverse_swap x s))"
    using r runtime_ok_set_exception_entry [OF r] by (cases x) (auto simp: undo_ok_def s runtime_ok_def codes intro: bt.ok_set_entry)
  show "case_prod inverse_swap (inverse_swap x s) = (x, s)"
  proof (cases x)
    case (InvException l w v occupied)
    have "exception_occupied (set_exception_entry l w v r) = exception_occupied r"
      by (simp add: set_exception_entry_def Let_def)
    then show ?thesis
      using InvException set_exception_entry_back [OF r, of l w v] language_exceptions_set_entry [OF r, of l w v]
      by (simp add: s occupied_frame bt.get_set_entry)
  next
    case (InvCodes l v)
    then show ?thesis
      using r bt.exchange_back [of "rt_hyphen_codes r" l v] by (simp add: s codes runtime_ok_def bt.get_set_entry)
  qed (simp_all add: s)
qed

lemma swap_journal_swap_all: "swap_journal xs s = hyph.swap_all xs s"
  by (induction xs arbitrary: s) (auto simp: Let_def split: prod.splits)

lemma pop_journal_swap_all: "pop_journal (length ys) (xs @ ys) s = (ys, snd (hyph.swap_all xs s))"
proof (induction xs arbitrary: s)
  case Nil
  then show ?case
    by (cases ys) auto
next
  case (Cons x xs)
  then show ?case
    by (auto simp: Let_def split: prod.splits)
qed

section \<open>Every operation can be undone\<close>

definition undo_state_of :: "HyphenationTable \<Rightarrow> undo_state" where
  "undo_state_of t = (ht_runtime t, ht_trie_capacity t)"

definition undone_by :: "HyphenationTable \<Rightarrow> HyphenationInverse list \<Rightarrow> HyphenationTable \<Rightarrow> bool" where
  "undone_by t xs t' \<longleftrightarrow> ht_journal t' = ht_journal t @ xs \<and> undo_ok (undo_state_of t')
     \<and> snd (hyph.swap_all (rev xs) (undo_state_of t')) = undo_state_of t"

lemma undone_by_refl: "undo_ok (undo_state_of t) \<Longrightarrow> undone_by t [] t"
  by (simp add: undone_by_def)

lemma undone_by_trans: "undone_by t xs t1 \<Longrightarrow> undone_by t1 ys t2 \<Longrightarrow> undone_by t (xs @ ys) t2"
  by (auto simp: undone_by_def hyph.swap_all_append Let_def split: prod.splits)

lemma undone_by_single:
  "undo_ok (undo_state_of t') \<Longrightarrow> ht_journal t' = ht_journal t @ [x] \<Longrightarrow> snd (inverse_swap x (undo_state_of t')) = undo_state_of t
     \<Longrightarrow> undone_by t [x] t'"
  by (auto simp: undone_by_def Let_def split: prod.splits)

lemma add_exception_undone:
  assumes ok: "undo_ok (undo_state_of t)"
  shows "\<exists>xs. undone_by t xs (fst (add_exception_for_language t l e))"
proof (cases "length (ex_word e) < 2")
  case True
  then show ?thesis
    using undone_by_refl [OF ok] by (auto simp: add_exception_for_language_def)
next
  case False
  let ?r = "ht_runtime t" and ?t = "fst (add_exception_for_language t l e)"
  let ?old = "map_of (language_exceptions ?r l) (ex_word e)"
  have r: "runtime_ok ?r"
    using ok by (simp add: undo_ok_def undo_state_of_def)
  have nonempty: "bt_insert w ps m \<noteq> []" for w :: "nat list" and ps :: "nat list" and m
    by (cases m) (auto split: if_splits)
  have entry: "?r\<lparr>rt_exceptions := bt_insert l (bt_insert (ex_word e) (ex_positions e) (language_exceptions ?r l)) (rt_exceptions ?r)\<rparr>
      = set_exception_entry l (ex_word e) (Some (ex_positions e)) ?r"
    by (simp add: set_exception_entry_def nonempty Let_def)
  obtain n where t: "ht_runtime ?t = (set_exception_entry l (ex_word e) (Some (ex_positions e)) ?r)\<lparr>exception_occupied := n\<rparr>"
      "ht_journal ?t = ht_journal t @ [InvException l (ex_word e) ?old (exception_occupied ?r)]" "ht_trie_capacity ?t = ht_trie_capacity t"
  proof (cases "?old = None")
    case True
    then show ?thesis
      using False that by (simp add: add_exception_for_language_def Let_def flip: entry)
  next
    case occupied: False
    then show ?thesis
      using False that [of "exception_occupied ?r"] by (simp add: add_exception_for_language_def Let_def flip: entry)
  qed
  have undo: "snd (inverse_swap (InvException l (ex_word e) ?old (exception_occupied ?r)) (undo_state_of ?t)) = undo_state_of t"
    using set_exception_entry_back [OF r, of l "ex_word e" "Some (ex_positions e)"] t
    by (simp add: undo_state_of_def occupied_frame)
  have "undo_ok (undo_state_of ?t)"
    using runtime_ok_set_exception_entry [OF r, of l "ex_word e" "Some (ex_positions e)"] t by (simp add: undo_ok_def undo_state_of_def runtime_ok_def)
  then show ?thesis
    using undone_by_single [OF _ t(2) undo] by blast
qed

lemma save_hyphen_codes_undone:
  assumes "undo_ok (undo_state_of t)"
  shows "\<exists>xs. undone_by t xs (save_hyphen_codes t l codes)"
proof -
  let ?m = "fold (\<lambda>(k, v). bt_insert k v) codes []" and ?r = "ht_runtime t"
  have ok: "bt_ok (rt_hyphen_codes ?r)"
    using assms by (simp add: undo_ok_def undo_state_of_def runtime_ok_def)
  have "bt.set_entry l (map_of (rt_hyphen_codes ?r) l) (bt_insert l ?m (rt_hyphen_codes ?r)) = rt_hyphen_codes ?r"
    using bt.exchange_back [OF ok, of l "Some ?m"] by (simp add: bt.set_entry_def)
  then have "undone_by t [InvCodes l (map_of (rt_hyphen_codes ?r) l)] (save_hyphen_codes t l codes)"
    using assms by (intro undone_by_single)
      (auto simp: save_hyphen_codes_def undo_ok_def undo_state_of_def runtime_ok_def Let_def bt.set_entry_def cong: option.case_cong)
  then show ?thesis ..
qed

lemma set_exception_capacity_undone:
  assumes "undo_ok (undo_state_of t)"
  shows "\<exists>xs. undone_by t xs (set_exception_capacity_with_selection t n fixed)"
proof (cases "exception_capacity (ht_runtime t) = n \<and> exception_capacity_fixed (ht_runtime t) = fixed")
  case True
  then show ?thesis
    using undone_by_refl [OF assms] by (auto simp: set_exception_capacity_with_selection_def Let_def)
next
  case False
  then show ?thesis
    using assms by (intro exI [of _ "[InvExceptionCapacity (exception_capacity (ht_runtime t)) (exception_capacity_fixed (ht_runtime t))]"]
      undone_by_single) (auto simp: set_exception_capacity_with_selection_def undo_ok_def undo_state_of_def runtime_ok_def Let_def)
qed

lemma run_op_undone:
  assumes "run_op op t = Ok t'" and ok: "undo_ok (undo_state_of t)"
  shows "\<exists>xs. undone_by t xs t'"
proof (cases op)
  case (OpPattern l p)
  then obtain ps where "t' = t\<lparr>ht_patterns := ps\<rparr>"
    using assms(1) add_pattern_for_language_frame by (fastforce simp: obind_eq_Ok)
  then have "undone_by t [] t'"
    using ok by (simp add: undone_by_def undo_state_of_def)
  then show ?thesis ..
next
  case OpClose
  then have "undone_by t [] t'"
    using assms by (auto simp: close_patterns_def undone_by_def undo_state_of_def)
  then show ?thesis ..
next
  case OpReopen
  then have "undone_by t [] t'"
    using assms by (auto simp: reopen_empty_patterns_def undone_by_def undo_state_of_def split: prod.splits)
  then show ?thesis ..
next
  case (OpTrieCapacity n)
  then have "undone_by t [InvTrieCapacity (ht_trie_capacity t)] t'"
    using assms by (intro undone_by_single) (auto simp: set_trie_capacity_def undo_state_of_def undo_ok_def)
  then show ?thesis ..
next
  case (OpProcessCapacity n)
  then show ?thesis
    using assms undone_by_refl [OF ok] set_exception_capacity_undone [OF ok] by (auto simp: select_process_exception_capacity_def)
qed (use assms add_exception_undone [OF ok] save_hyphen_codes_undone [OF ok] set_exception_capacity_undone [OF ok] in
      \<open>auto simp: set_exception_capacity_def\<close>)

lemma run_ops_undone:
  assumes "run_ops ops t = Ok t'" and "undo_ok (undo_state_of t)"
  shows "\<exists>xs. undone_by t xs t'"
  using assms
proof (induction ops arbitrary: t)
  case Nil
  then show ?case
    using undone_by_refl by auto
next
  case (Cons op ops)
  then obtain t1 where t1: "run_op op t = Ok t1" "run_ops ops t1 = Ok t'"
    by (auto simp: obind_eq_Ok)
  obtain xs where xs: "undone_by t xs t1"
    using run_op_undone [OF t1(1) Cons.prems(2)] by blast
  then obtain ys where "undone_by t1 ys t'"
    using Cons.IH [OF t1(2)] by (auto simp: undone_by_def)
  then show ?case
    using undone_by_trans [OF xs] by blast
qed

lemma reachable_undo_ok:
  assumes "run_ops ops hyphenation_new = Ok t"
  shows "undo_ok (undo_state_of t)"
proof -
  have "undo_ok (undo_state_of hyphenation_new)"
    by (simp add: undo_ok_def undo_state_of_def hyphenation_new_def runtime_default_def runtime_ok_def)
  then show ?thesis
    using run_ops_undone [OF assms] by (auto simp: undone_by_def)
qed

lemma pop_journal_undone:
  assumes "undone_by t xs t'"
  shows "pop_journal (length (ht_journal t)) (rev (ht_journal t')) (ht_runtime t', ht_trie_capacity t')
    = (rev (ht_journal t), undo_state_of t)"
  using assms pop_journal_swap_all [of "rev (ht_journal t)" "rev xs"] by (simp add: undone_by_def undo_state_of_def)

section \<open>Properties\<close>

text \<open>C8. A checkpoint of the hyphenation table restores it exactly: after any sequence of operations, of which the closing of
  the patterns may be one, going back to a checkpoint gives the patterns, exceptions, saved codes, capacities and the
  journal of the moment the checkpoint was taken.\<close>

theorem checkpoint_restores:
  assumes "run_ops history hyphenation_new = Ok t" and "run_ops ops t = Ok t'"
  shows "restore_checkpoint t' (hyphenation_checkpoint t) = Ok t"
proof -
  obtain xs where xs: "undone_by t xs t'"
    using run_ops_undone [OF assms(2) reachable_undo_ok [OF assms(1)]] by blast
  then show ?thesis
    using pop_journal_undone [OF xs]
    by (simp add: restore_checkpoint_def validates_checkpoint_def hyphenation_checkpoint_def undone_by_def undo_state_of_def)
qed

text \<open>C9. Trying out an alternative continuation from a checkpoint and rejecting it gives back the accepted table, with its
  exceptions, codes, capacities and journal, whatever the alternative did; the capacity of the trie alone is that of the
  checkpoint and not that of the accepted table.\<close>

theorem rejected_candidate_restores:
  assumes "run_ops history hyphenation_new = Ok t" and "run_ops accepted t = Ok t1"
  shows "\<exists>candidate. begin_checkpoint_candidate t1 (hyphenation_checkpoint t) = Ok (t, candidate)
    \<and> (\<forall>tried t2. run_ops tried t = Ok t2
         \<longrightarrow> reject_checkpoint_candidate t2 candidate = t1\<lparr>ht_trie_capacity := ht_trie_capacity t\<rparr>)"
proof -
  note ok = reachable_undo_ok [OF assms(1)]
  obtain xs where xs: "undone_by t xs t1"
    using run_ops_undone [OF assms(2) ok] by blast
  obtain ys where ys: "hyph.swap_all (rev xs) (undo_state_of t1) = (ys, undo_state_of t)"
    using xs by (cases "hyph.swap_all (rev xs) (undo_state_of t1)") (auto simp: undone_by_def)
  then have forward: "hyph.swap_all (rev ys) (undo_state_of t) = (xs, undo_state_of t1)"
    using hyph.swap_all_back [OF _ ys] xs by (simp add: undone_by_def)
  define candidate where "candidate = \<lparr>candidate_mark = length (ht_journal t), accepted_journal = rev ys,
    accepted_patterns = ht_patterns t1, accepted_trie_capacity = ht_trie_capacity t\<rparr>"
  have "begin_checkpoint_candidate t1 (hyphenation_checkpoint t) = Ok (t, candidate)"
    using xs ys by (simp add: begin_checkpoint_candidate_def validates_checkpoint_def hyphenation_checkpoint_def undone_by_def
      undo_state_of_def swap_journal_swap_all candidate_def)
  moreover have "reject_checkpoint_candidate t2 candidate = t1\<lparr>ht_trie_capacity := ht_trie_capacity t\<rparr>"
    if tried: "run_ops tried t = Ok t2" for tried t2
  proof -
    obtain zs where "undone_by t zs t2"
      using run_ops_undone [OF tried ok] by blast
    then show ?thesis
      using pop_journal_undone [of t zs t2] forward xs
      by (simp add: reject_checkpoint_candidate_def candidate_def swap_journal_swap_all undone_by_def undo_state_of_def)
  qed
  ultimately show ?thesis
    by blast
qed

text \<open>Rejecting a candidate loses a trie capacity that was set after the checkpoint: the table had a capacity of 40, an
  alternative that does nothing is tried from a checkpoint before that and rejected, and the table is left with the
  capacity of the checkpoint.\<close>

lemma rejected_candidate_loses_trie_capacity:
  "case begin_checkpoint_candidate (set_trie_capacity hyphenation_new 40) (hyphenation_checkpoint hyphenation_new) of
     Ok (t, candidate) \<Rightarrow> ht_trie_capacity (reject_checkpoint_candidate t candidate) = TEX82_TRIE_SIZE
   | _ \<Rightarrow> False"
  by (simp add: begin_checkpoint_candidate_def validates_checkpoint_def hyphenation_checkpoint_def hyphenation_new_def
    set_trie_capacity_def reject_checkpoint_candidate_def Let_def)

subsection \<open>Witnesses\<close>

definition demo_history :: "HyphenationOp list" where
  "demo_history = [OpPattern 0 \<lparr>pt_letters = [97, 98], pt_values = [0, 1, 0]\<rparr>, OpException 0 \<lparr>ex_word = [98, 97], ex_positions = [1]\<rparr>]"

definition demo_ops :: "HyphenationOp list" where
  "demo_ops = [OpException 0 \<lparr>ex_word = [98, 97], ex_positions = []\<rparr>, OpException 3 \<lparr>ex_word = [99, 99, 99], ex_positions = [2]\<rparr>,
     OpCodes 0 [(65, 97)], OpExceptionCapacity 10, OpClose]"

theorem checkpoint_restores_witness:
  "\<exists>t t'. run_ops demo_history hyphenation_new = Ok t \<and> run_ops demo_ops t = Ok t' \<and> t' \<noteq> t
     \<and> restore_checkpoint t' (hyphenation_checkpoint t) = Ok t"
proof -
  have "(case run_ops demo_history hyphenation_new of
      Ok t \<Rightarrow> (case run_ops demo_ops t of Ok t' \<Rightarrow> length (ht_journal t) < length (ht_journal t') | _ \<Rightarrow> False) | _ \<Rightarrow> False)"
    by code_simp
  then obtain t t' where "run_ops demo_history hyphenation_new = Ok t" "run_ops demo_ops t = Ok t'"
      "length (ht_journal t) < length (ht_journal t')"
    by (auto split: outcome.splits)
  moreover from this have "t' \<noteq> t"
    by auto
  ultimately show ?thesis
    using checkpoint_restores by blast
qed

theorem rejected_candidate_restores_witness:
  "\<exists>t t1 candidate. run_ops demo_history hyphenation_new = Ok t \<and> run_ops demo_ops t = Ok t1
     \<and> begin_checkpoint_candidate t1 (hyphenation_checkpoint t) = Ok (t, candidate)
     \<and> reject_checkpoint_candidate t candidate = t1"
proof -
  have "(case run_ops demo_history hyphenation_new of
      Ok t \<Rightarrow> (case run_ops demo_ops t of Ok t1 \<Rightarrow> ht_trie_capacity t1 = ht_trie_capacity t | _ \<Rightarrow> False) | _ \<Rightarrow> False)"
    by code_simp
  then obtain t t1 where t: "run_ops demo_history hyphenation_new = Ok t" "run_ops demo_ops t = Ok t1"
      "ht_trie_capacity t1 = ht_trie_capacity t"
    by (auto split: outcome.splits)
  moreover have "run_ops [] t = Ok t"
    by simp
  ultimately show ?thesis
    using rejected_candidate_restores [OF t(1,2)] by fastforce
qed

end
