(* ===== verification/Hyphenation_Trie.thy ===== *)
theory Hyphenation_Trie
  imports Hyphenation_Journal "HOL-Library.Sublist" "HOL-Library.Multiset"
begin

text \<open>
  The pattern trie refines a function from letters to pattern values, and a query refines Liang's rule over that function:
  the level between two letters is the greatest value that any pattern occurring in the word gives it, and a word is
  hyphenated at odd levels.
\<close>

section \<open>Well-formed tries\<close>

definition edge_targets :: "TrieNode list \<Rightarrow> nat list" where
  "edge_targets nodes = concat (map (\<lambda>n. map snd (tn_edges n)) nodes)"

text \<open>Edges are sorted, and every node but the root is the target of exactly one edge.\<close>

definition trie_ok :: "TrieNode list \<Rightarrow> bool" where
  "trie_ok nodes \<longleftrightarrow> nodes \<noteq> [] \<and> (\<forall>n \<in> set nodes. bt_ok (tn_edges n)) \<and> mset (edge_targets nodes) = mset [1..<length nodes]"

fun walk :: "TrieNode list \<Rightarrow> nat \<Rightarrow> nat list \<Rightarrow> nat option" where
  "walk nodes n [] = Some n"
| "walk nodes n (ch # chs) = Option.bind (map_of (tn_edges (nodes ! n)) ch) (\<lambda>m. walk nodes m chs)"

definition trie_values :: "TrieNode list \<Rightarrow> nat \<Rightarrow> nat list \<Rightarrow> nat list" where
  "trie_values nodes n letters = (case walk nodes n letters of None \<Rightarrow> [] | Some m \<Rightarrow> tn_values (nodes ! m))"

lemma walk_append: "walk nodes n (xs @ ys) = Option.bind (walk nodes n xs) (\<lambda>m. walk nodes m ys)"
  by (induction xs arbitrary: n) auto

lemma trie_values_Cons:
  "trie_values nodes n (ch # chs) = (case map_of (tn_edges (nodes ! n)) ch of None \<Rightarrow> [] | Some m \<Rightarrow> trie_values nodes m chs)"
  by (auto simp: trie_values_def split: option.split)

lemma edge_target_in:
  assumes "p < length nodes" and "map_of (tn_edges (nodes ! p)) ch = Some m"
  shows "m \<in> set (edge_targets nodes)"
proof -
  have "m \<in> snd ` set (tn_edges (nodes ! p))"
    using map_of_SomeD [OF assms(2)] by (auto simp: rev_image_eqI)
  then show ?thesis
    using nth_mem [OF assms(1)] by (auto simp: edge_targets_def)
qed

lemma edge_target_bound:
  assumes "trie_ok nodes" and "p < length nodes" and "map_of (tn_edges (nodes ! p)) ch = Some m"
  shows "0 < m" and "m < length nodes"
proof -
  have "set (edge_targets nodes) = {1..<length nodes}"
    using assms(1) by (metis atLeastLessThan_upt set_mset_mset trie_ok_def)
  then show "0 < m" "m < length nodes"
    using edge_target_in [OF assms(2,3)] by auto
qed

lemma walk_bound:
  assumes "trie_ok nodes" and "walk nodes n letters = Some m" and "n < length nodes"
  shows "m < length nodes"
  using assms(2,3)
proof (induction letters arbitrary: n)
  case (Cons ch chs)
  then obtain k where "map_of (tn_edges (nodes ! n)) ch = Some k" "walk nodes k chs = Some m"
    by (auto simp: bind_eq_Some_conv)
  then show ?case
    using Cons.IH edge_target_bound [OF assms(1) Cons.prems(2)] by blast
qed simp

lemma distinct_concat_unique:
  "distinct (concat xss) \<Longrightarrow> i < length xss \<Longrightarrow> j < length xss \<Longrightarrow> x \<in> set (xss ! i) \<Longrightarrow> x \<in> set (xss ! j) \<Longrightarrow> i = j"
proof (induction xss arbitrary: i j)
  case (Cons xs xss)
  then show ?case
    by (cases i; cases j) (auto simp: disjoint_iff)
qed simp

text \<open>The path to a node is unique.\<close>

lemma edge_unique:
  assumes "trie_ok nodes" and "p < length nodes" and "q < length nodes"
    and "map_of (tn_edges (nodes ! p)) a = Some m" and "map_of (tn_edges (nodes ! q)) b = Some m"
  shows "p = q \<and> a = b"
proof -
  let ?ts = "map (\<lambda>n. map snd (tn_edges n)) nodes"
  have distinct: "distinct (concat ?ts)"
    using assms(1) by (metis distinct_upt edge_targets_def mset_eq_imp_distinct_iff trie_ok_def)
  have "m \<in> set (?ts ! p)" "m \<in> set (?ts ! q)"
    using assms(2,3) map_of_SomeD [OF assms(4)] map_of_SomeD [OF assms(5)] by (auto simp: rev_image_eqI)
  then have "p = q"
    using distinct_concat_unique [OF distinct, of p q m] assms(2,3) by simp
  have "distinct (map snd (tn_edges (nodes ! p)))"
    using distinct nth_mem [OF assms(2)] by (auto simp: distinct_concat_iff)
  then have "inj_on snd (set (tn_edges (nodes ! p)))"
    by (simp add: distinct_map)
  then have "(a, m) = (b, m)"
    using map_of_SomeD [OF assms(4)] map_of_SomeD [OF assms(5)] \<open>p = q\<close> by (metis inj_onD snd_conv)
  then show ?thesis
    using \<open>p = q\<close> by simp
qed

lemma walk_unique:
  "trie_ok nodes \<Longrightarrow> walk nodes 0 xs = Some m \<Longrightarrow> walk nodes 0 ys = Some m \<Longrightarrow> xs = ys"
proof (induction xs arbitrary: ys m rule: rev_induct)
  case Nil
  have "ys = []"
  proof (rule ccontr)
    assume "ys \<noteq> []"
    then obtain zs ch p where "ys = zs @ [ch]" "walk nodes 0 zs = Some p" "map_of (tn_edges (nodes ! p)) ch = Some m"
      using Nil.prems by (cases ys rule: rev_cases) (auto simp: walk_append bind_eq_Some_conv)
    then show False
      using Nil.prems edge_target_bound(1) [OF Nil.prems(1)] walk_bound [OF Nil.prems(1)] by (fastforce simp: trie_ok_def)
  qed
  then show ?case ..
next
  case (snoc a xs)
  obtain p where p: "walk nodes 0 xs = Some p" "map_of (tn_edges (nodes ! p)) a = Some m"
    using snoc.prems by (auto simp: walk_append bind_eq_Some_conv)
  have root: "0 < length nodes"
    using snoc.prems(1) by (auto simp: trie_ok_def)
  have pb: "p < length nodes"
    using walk_bound [OF snoc.prems(1) p(1) root] .
  then have "m \<noteq> 0"
    using edge_target_bound(1) [OF snoc.prems(1) _ p(2)] by simp
  then obtain zs b q where q: "ys = zs @ [b]" "walk nodes 0 zs = Some q" "map_of (tn_edges (nodes ! q)) b = Some m"
    using snoc.prems(3) by (cases ys rule: rev_cases) (auto simp: walk_append bind_eq_Some_conv)
  have "q < length nodes"
    using walk_bound [OF snoc.prems(1) q(2) root] .
  then have "p = q" "a = b"
    using edge_unique [OF snoc.prems(1) pb _ p(2) q(3)] by auto
  then show ?case
    using snoc.IH [OF snoc.prems(1) p(1)] q by simp
qed

section \<open>Insertion\<close>

lemma binary_search_found:
  assumes "bt_ok es" and "map_of es k = Some v"
  shows "\<exists>i. binary_search_by_key k es = Inr i \<and> snd (es ! i) = v"
proof -
  have "(k, v) \<in> set es"
    using assms(2) by (rule map_of_SomeD)
  then obtain j where "j < length es" "es ! j = (k, v)"
    by (auto simp: in_set_conv_nth)
  then have "List.find (\<lambda>i. fst (es ! i) = k) [0..<length es] \<noteq> None"
    by (auto simp: find_None_iff)
  then obtain i where i: "List.find (\<lambda>i. fst (es ! i) = k) [0..<length es] = Some i"
    by blast
  then have "i < length es" "fst (es ! i) = k"
    by (auto simp: find_Some_iff)
  then have "(k, snd (es ! i)) \<in> set es"
    by (metis nth_mem prod.collapse)
  then show ?thesis
    using bt_ok_map_of [OF assms(1)] assms(2) i by (auto simp: binary_search_by_key_def)
qed

lemma binary_search_absent:
  assumes "bt_ok es" and "map_of es k = None"
  shows "\<exists>i. binary_search_by_key k es = Inl i \<and> (\<forall>v. take i es @ (k, v) # drop i es = bt_insert k v es)"
proof -
  have "k \<notin> fst ` set es"
    using assms(2) by (simp add: map_of_eq_None_iff)
  then have "List.find (\<lambda>i. fst (es ! i) = k) [0..<length es] = None"
    by (auto simp: find_None_iff)
  moreover have "take (length (filter (\<lambda>e. fst e < k) es)) es @ (k, v) # drop (length (filter (\<lambda>e. fst e < k) es)) es = bt_insert k v es" for v
    using assms
  proof (induction es)
    case (Cons e es)
    obtain k' v' where e: "e = (k', v')"
      by (cases e)
    show ?case
    proof (cases "k < k'")
      case True
      then have "filter (\<lambda>e. fst e < k) es = []"
        using Cons.prems(1) by (auto simp: bt_ok_Cons e filter_empty_conv)
      then show ?thesis
        using True by (simp add: e)
    next
      case False
      then show ?thesis
        using Cons by (auto simp: e bt_ok_Cons split: if_splits)
    qed
  qed simp
  ultimately show ?thesis
    by (simp add: binary_search_by_key_def)
qed

lemma edge_map_of:
  assumes "trie_ok nodes" and "n < length nodes"
  shows "edge nodes n ch = Ok (map_of (tn_edges (nodes ! n)) ch)"
proof -
  have "bt_ok (tn_edges (nodes ! n))"
    using assms by (simp add: trie_ok_def)
  then show ?thesis
    using binary_search_found [of "tn_edges (nodes ! n)" ch] binary_search_absent [of "tn_edges (nodes ! n)" ch] assms(2)
    by (cases "map_of (tn_edges (nodes ! n)) ch") (auto simp: edge_def node_at_def)
qed

lemma mset_concat_update:
  "i < length xs \<Longrightarrow> mset (concat (map f (xs[i := y]))) + mset (f (xs ! i)) = mset (concat (map f xs)) + mset (f y)"
  by (induction xs arbitrary: i) (auto split: nat.split)

lemma mset_bt_insert_absent: "map_of es k = None \<Longrightarrow> mset (map snd (bt_insert k v es)) = add_mset v (mset (map snd es))"
  by (induction k v es rule: bt_insert.induct) (auto split: if_splits)

definition grow :: "TrieNode list \<Rightarrow> nat \<Rightarrow> nat \<Rightarrow> TrieNode list" where
  "grow nodes n ch =
     (nodes @ [trie_node_default])[n := (nodes ! n)\<lparr>tn_edges := bt_insert ch (length nodes) (tn_edges (nodes ! n))\<rparr>]"

lemma length_grow [simp]: "length (grow nodes n ch) = Suc (length nodes)"
  by (simp add: grow_def)

lemma edge_or_insert_cases:
  assumes "trie_ok nodes" and "n < length nodes"
  shows "edge_or_insert nodes n ch =
    (case map_of (tn_edges (nodes ! n)) ch of Some m \<Rightarrow> Ok (nodes, m) | None \<Rightarrow> Ok (grow nodes n ch, length nodes))"
proof -
  have "bt_ok (tn_edges (nodes ! n))"
    using assms by (simp add: trie_ok_def)
  then show ?thesis
    using binary_search_found [of "tn_edges (nodes ! n)" ch] binary_search_absent [of "tn_edges (nodes ! n)" ch] assms(2)
    by (cases "map_of (tn_edges (nodes ! n)) ch") (auto simp: edge_or_insert_def node_at_def grow_def)
qed

lemma trie_ok_grow:
  assumes ok: "trie_ok nodes" and n: "n < length nodes" and absent: "map_of (tn_edges (nodes ! n)) ch = None"
  shows "trie_ok (grow nodes n ch)"
proof -
  let ?es = "tn_edges (nodes ! n)" and ?f = "\<lambda>n. map snd (tn_edges n)"
  let ?node = "(nodes ! n)\<lparr>tn_edges := bt_insert ch (length nodes) ?es\<rparr>"
  have "mset (edge_targets (grow nodes n ch)) + mset (?f (nodes ! n)) = mset (edge_targets nodes) + mset (?f ?node)"
    using mset_concat_update [of n "nodes @ [trie_node_default]" ?f ?node] n
    by (simp add: edge_targets_def grow_def nth_append trie_node_default_def)
  then have "mset (edge_targets (grow nodes n ch)) = add_mset (length nodes) (mset [1..<length nodes])"
    using ok mset_bt_insert_absent [OF absent, of "length nodes"] by (simp add: trie_ok_def)
  moreover have "mset [1..<length (grow nodes n ch)] = add_mset (length nodes) (mset [1..<length nodes])"
    using ok by (cases nodes) (simp_all add: trie_ok_def)
  moreover have "bt_ok (tn_edges m)" if "m \<in> set (grow nodes n ch)" for m
    using that ok n set_update_subset_insert [of "nodes @ [trie_node_default]" n ?node]
    by (auto simp: grow_def trie_ok_def trie_node_default_def)
  ultimately show ?thesis
    by (auto simp: trie_ok_def simp flip: length_greater_0_conv)
qed

lemma grow_nth:
  assumes "n < length nodes" and "p < length nodes"
  shows "tn_values (grow nodes n ch ! p) = tn_values (nodes ! p)"
    and "map_of (tn_edges (grow nodes n ch ! p)) = (if p = n then (map_of (tn_edges (nodes ! n)))(ch \<mapsto> length nodes) else map_of (tn_edges (nodes ! p)))"
  using assms by (auto simp: grow_def nth_append nth_list_update)

lemma grow_new_nth: "n < length nodes \<Longrightarrow> grow nodes n ch ! length nodes = trie_node_default"
  by (simp add: grow_def nth_append)

lemma trie_values_new: "n < length nodes \<Longrightarrow> trie_values (grow nodes n ch) (length nodes) chs = []"
  by (cases chs) (simp_all add: trie_values_def grow_new_nth trie_node_default_def)

lemma trie_values_grow:
  assumes ok: "trie_ok nodes" and n: "n < length nodes" and absent: "map_of (tn_edges (nodes ! n)) ch = None"
  shows "p < length nodes \<Longrightarrow> trie_values (grow nodes n ch) p letters = trie_values nodes p letters"
proof (induction letters arbitrary: p)
  case Nil
  then show ?case
    by (simp add: trie_values_def grow_nth(1) [OF n])
next
  case (Cons c cs)
  show ?case
  proof (cases "p = n \<and> c = ch")
    case True
    then show ?thesis
      using absent trie_values_new [OF n] by (simp add: trie_values_Cons grow_nth(2) [OF n n])
  next
    case False
    then have "map_of (tn_edges (grow nodes n ch ! p)) c = map_of (tn_edges (nodes ! p)) c"
      by (auto simp: grow_nth(2) [OF n Cons.prems])
    then show ?thesis
      using Cons.IH edge_target_bound(2) [OF ok Cons.prems] by (auto simp: trie_values_Cons split: option.split)
  qed
qed

lemma walk_grow:
  assumes ok: "trie_ok nodes" and n: "n < length nodes" and absent: "map_of (tn_edges (nodes ! n)) ch = None"
  shows "p < length nodes \<Longrightarrow> walk nodes p letters = Some m \<Longrightarrow> walk (grow nodes n ch) p letters = Some m"
proof (induction letters arbitrary: p)
  case (Cons c cs)
  then obtain k where k: "map_of (tn_edges (nodes ! p)) c = Some k" "walk nodes k cs = Some m"
    by (auto simp: bind_eq_Some_conv)
  then have "map_of (tn_edges (grow nodes n ch ! p)) c = Some k"
    using absent by (auto simp: grow_nth(2) [OF n Cons.prems(1)])
  then show ?case
    using Cons.IH [OF _ k(2)] edge_target_bound(2) [OF ok Cons.prems(1) k(1)] by simp
qed simp

text \<open>Inserting a path keeps what every other path means.\<close>

lemma insert_path_spec:
  assumes "trie_ok nodes" and "n < length nodes"
  shows "\<exists>nodes' m. insert_path nodes n letters = Ok (nodes', m) \<and> trie_ok nodes' \<and> length nodes \<le> length nodes'
    \<and> m < length nodes' \<and> walk nodes' n letters = Some m
    \<and> (\<forall>p < length nodes. \<forall>ls. trie_values nodes' p ls = trie_values nodes p ls)
    \<and> (\<forall>p < length nodes. \<forall>ls k. walk nodes p ls = Some k \<longrightarrow> walk nodes' p ls = Some k)"
  using assms
proof (induction letters arbitrary: nodes n)
  case (Cons ch chs)
  show ?case
  proof (cases "map_of (tn_edges (nodes ! n)) ch")
    case (Some k)
    have k: "k < length nodes"
      using edge_target_bound(2) [OF Cons.prems Some] .
    obtain nodes' m where ih: "insert_path nodes k chs = Ok (nodes', m)" "trie_ok nodes'" "length nodes \<le> length nodes'"
        "m < length nodes'" "walk nodes' k chs = Some m"
        "\<forall>p < length nodes. \<forall>ls. trie_values nodes' p ls = trie_values nodes p ls"
        "\<forall>p < length nodes. \<forall>ls k. walk nodes p ls = Some k \<longrightarrow> walk nodes' p ls = Some k"
      using Cons.IH [OF Cons.prems(1) k] by blast
    have "walk nodes' n [ch] = Some k"
      using ih(7) Cons.prems(2) Some by (metis bind.bind_lunit walk.simps)
    then have "walk nodes' n (ch # chs) = Some m"
      using ih(5) by (metis append_Cons append_Nil bind.bind_lunit walk_append)
    then show ?thesis
      using ih Some edge_or_insert_cases [OF Cons.prems, of ch] by (intro exI [of _ nodes'] exI [of _ m]) simp
  next
    case None
    let ?g = "grow nodes n ch"
    have g: "trie_ok ?g" "length nodes < length ?g"
      using trie_ok_grow [OF Cons.prems None] by simp_all
    obtain nodes' m where ih: "insert_path ?g (length nodes) chs = Ok (nodes', m)" "trie_ok nodes'" "length ?g \<le> length nodes'"
        "m < length nodes'" "walk nodes' (length nodes) chs = Some m"
        "\<forall>p < length ?g. \<forall>ls. trie_values nodes' p ls = trie_values ?g p ls"
        "\<forall>p < length ?g. \<forall>ls k. walk ?g p ls = Some k \<longrightarrow> walk nodes' p ls = Some k"
      using Cons.IH [OF g] by blast
    have "walk ?g n [ch] = Some (length nodes)"
      by (simp add: grow_nth(2) [OF Cons.prems(2) Cons.prems(2)])
    then have "walk nodes' n [ch] = Some (length nodes)"
      using ih(7) [rule_format, of n "[ch]" "length nodes"] Cons.prems(2) by simp
    then have "walk nodes' n (ch # chs) = Some m"
      using ih(5) by (metis append_Cons append_Nil bind.bind_lunit walk_append)
    moreover have "trie_values nodes' p ls = trie_values nodes p ls" if "p < length nodes" for p ls
      using ih(6) that trie_values_grow [OF Cons.prems None that] by simp
    moreover have "walk nodes' p ls = Some k" if "p < length nodes" "walk nodes p ls = Some k" for p ls k
      using ih(7) that walk_grow [OF Cons.prems None that] by simp
    ultimately show ?thesis
      using ih None edge_or_insert_cases [OF Cons.prems, of ch] by (intro exI [of _ nodes'] exI [of _ m]) simp
  qed
qed simp

lemma walk_set_values:
  "m < length nodes \<Longrightarrow> walk (nodes[m := (nodes ! m)\<lparr>tn_values := vs\<rparr>]) n letters = walk nodes n letters"
proof (induction letters arbitrary: n)
  case (Cons c cs)
  have "tn_edges (nodes[m := (nodes ! m)\<lparr>tn_values := vs\<rparr>] ! n) = tn_edges (nodes ! n)"
    using Cons.prems by (cases "n = m") auto
  then show ?case
    using Cons by simp
qed simp

lemma trie_ok_set_values:
  assumes "trie_ok nodes" and "m < length nodes"
  shows "trie_ok (nodes[m := (nodes ! m)\<lparr>tn_values := vs\<rparr>])"
proof -
  have edges: "map tn_edges (nodes[m := (nodes ! m)\<lparr>tn_values := vs\<rparr>]) = map tn_edges nodes"
    using assms(2) by (intro nth_equalityI) (auto simp: nth_list_update)
  have targets: "edge_targets ns = concat (map (map snd) (map tn_edges ns))" and sorted: "(\<forall>n \<in> set ns. bt_ok (tn_edges n)) = (\<forall>es \<in> set (map tn_edges ns). bt_ok es)"
    for ns
    by (simp_all add: edge_targets_def comp_def)
  show ?thesis
    using assms(1) unfolding trie_ok_def targets sorted edges by simp
qed

text \<open>Storing a pattern changes the values of its own letters only.\<close>

lemma store_pattern_spec:
  assumes "trie_ok nodes"
  shows "\<exists>nodes'. store_pattern nodes p = Ok (nodes', trie_values nodes 0 (pt_letters p) \<noteq> []) \<and> trie_ok nodes'
    \<and> trie_values nodes' 0 = (trie_values nodes 0)(pt_letters p := pt_values p)"
proof -
  have root: "0 < length nodes"
    using assms by (auto simp: trie_ok_def)
  obtain ns m where ins: "insert_path nodes 0 (pt_letters p) = Ok (ns, m)" "trie_ok ns" "m < length ns"
      "walk ns 0 (pt_letters p) = Some m" "\<forall>ls. trie_values ns 0 ls = trie_values nodes 0 ls"
    using insert_path_spec [OF assms root, of "pt_letters p"] root by blast
  let ?ns = "ns[m := (ns ! m)\<lparr>tn_values := pt_values p\<rparr>]"
  have "trie_values ?ns 0 ls = (if ls = pt_letters p then pt_values p else trie_values nodes 0 ls)" for ls
  proof (cases "walk ns 0 ls = Some m")
    case True
    then have "ls = pt_letters p"
      using walk_unique [OF ins(2) _ ins(4)] by blast
    then show ?thesis
      using True ins(3) by (simp add: trie_values_def walk_set_values)
  next
    case False
    then have "trie_values ?ns 0 ls = trie_values ns 0 ls"
      using ins(3) by (auto simp: trie_values_def walk_set_values split: option.split)
    then show ?thesis
      using False ins(4,5) by auto
  qed
  then have "trie_values ?ns 0 = (trie_values nodes 0)(pt_letters p := pt_values p)"
    by (simp add: fun_eq_iff)
  moreover have "trie_values ns 0 (pt_letters p) = tn_values (ns ! m)"
    using ins(4) by (simp add: trie_values_def)
  then have "store_pattern nodes p = Ok (?ns, trie_values nodes 0 (pt_letters p) \<noteq> [])"
    using ins(1,3,5) by (simp add: store_pattern_def node_at_def)
  ultimately show ?thesis
    using trie_ok_set_values [OF ins(2,3), of "pt_values p"] by (intro exI [of _ ?ns]) simp
qed

section \<open>Liang's rule\<close>

text \<open>
  The values that patterns at the start of \<open>suffix\<close>, which begins at \<open>s\<close> in the word, give to the gap \<open>p\<close>, and the level of
  the gap in the whole word.
\<close>

definition pattern_levels :: "(nat list \<Rightarrow> nat list) \<Rightarrow> nat \<Rightarrow> nat list list \<Rightarrow> nat \<Rightarrow> nat list" where
  "pattern_levels pat s us p = concat (map (\<lambda>u. if s \<le> p \<and> p - s < length (pat u) then [pat u ! (p - s)] else []) us)"

definition liang_level :: "(nat list \<Rightarrow> nat list) \<Rightarrow> nat list \<Rightarrow> nat \<Rightarrow> nat" where
  "liang_level pat w p = fold max (concat (map (\<lambda>s. pattern_levels pat s (tl (prefixes (drop s w))) p) [0..<length w])) 0"

definition liang_positions :: "(nat list \<Rightarrow> nat list) \<Rightarrow> nat list \<Rightarrow> nat list" where
  "liang_positions pat word =
     (let w = DOT # word @ [DOT]
      in map (\<lambda>p. p - 1) (filter (\<lambda>p. odd (liang_level pat w p)) [1..<Suc (length w)]))"

lemma raise_values_spec:
  "length (raise_values q vs levels) = length levels
   \<and> (\<forall>p < length levels. raise_values q vs levels ! p
        = (if q \<le> p \<and> p - q < length vs then max (levels ! p) (vs ! (p - q)) else levels ! p))"
proof (induction vs arbitrary: q levels)
  case (Cons v vs)
  let ?l = "if q < length levels \<and> v > levels ! q then levels[q := v] else levels"
  have len: "length ?l = length levels"
    by simp
  have "raise_values q (v # vs) levels ! p
      = (if q \<le> p \<and> p - q < length (v # vs) then max (levels ! p) ((v # vs) ! (p - q)) else levels ! p)" if "p < length levels" for p
  proof -
    have "?l ! p = (if p = q then max (levels ! p) v else levels ! p)"
      using that by (auto simp: nth_list_update max_def)
    moreover have "raise_values (Suc q) vs ?l ! p
        = (if Suc q \<le> p \<and> p - Suc q < length vs then max (?l ! p) (vs ! (p - Suc q)) else ?l ! p)"
      using Cons.IH [of "Suc q" ?l] that len by simp
    ultimately show ?thesis
      by (auto simp: nth_Cons' Suc_le_eq)
  qed
  then show ?case
    using Cons.IH [of "Suc q" ?l] len by simp
qed simp

lemma fold_max_raise:
  "fold max (pattern_levels pat s [u] p) (a :: nat) = (if s \<le> p \<and> p - s < length (pat u) then max a (pat u ! (p - s)) else a)"
  by (simp add: pattern_levels_def max.commute)

lemma pattern_levels_Cons: "pattern_levels pat s (u # us) p = pattern_levels pat s [u] p @ pattern_levels pat s us p"
  by (simp add: pattern_levels_def)

lemma prefixes_head: "prefixes xs = [] # tl (prefixes xs)"
  by (cases xs) auto

lemma trie_values_beyond: "walk nodes 0 u = None \<Longrightarrow> trie_values nodes 0 (u @ v) = []"
  by (simp add: trie_values_def walk_append)

lemma scan_from_spec:
  assumes ok: "trie_ok nodes"
  shows "walk nodes 0 u = Some n \<Longrightarrow>
    \<exists>levels'. scan_from nodes n s chs levels = Ok levels' \<and> length levels' = length levels
      \<and> (\<forall>p < length levels. levels' ! p = fold max (pattern_levels (trie_values nodes 0) s (map ((@) u) (tl (prefixes chs))) p) (levels ! p))"
proof (induction chs arbitrary: n u levels)
  case Nil
  then show ?case
    by (simp add: pattern_levels_def)
next
  case (Cons ch chs)
  let ?pat = "trie_values nodes 0"
  have n: "n < length nodes"
    using walk_bound [OF ok Cons.prems] ok by (auto simp: trie_ok_def)
  have us: "map ((@) u) (tl (prefixes (ch # chs))) = (u @ [ch]) # map ((@) (u @ [ch])) (tl (prefixes chs))"
    by (subst prefixes.simps(2), subst prefixes_head [of chs]) (simp add: comp_def)
  show ?case
  proof (cases "map_of (tn_edges (nodes ! n)) ch")
    case None
    then have "walk nodes 0 (u @ [ch]) = None"
      using Cons.prems by (simp add: walk_append)
    then have none: "?pat ((u @ [ch]) @ v) = []" for v
      by (rule trie_values_beyond)
    have "pattern_levels ?pat s (map ((@) u) (tl (prefixes (ch # chs)))) p = []" for p
      unfolding us pattern_levels_def using none none [of "[]"] by (auto simp: concat_eq_Nil_conv)
    then show ?thesis
      using None by (simp add: edge_map_of [OF ok n])
  next
    case (Some m)
    then have m: "walk nodes 0 (u @ [ch]) = Some m" "m < length nodes"
      using Cons.prems edge_target_bound(2) [OF ok n Some] by (simp_all add: walk_append)
    have vals: "tn_values (nodes ! m) = ?pat (u @ [ch])"
      using m(1) by (simp add: trie_values_def)
    let ?l = "raise_values s (?pat (u @ [ch])) levels"
    have len: "length ?l = length levels"
      using raise_values_spec by blast
    obtain levels' where ih: "scan_from nodes m s chs ?l = Ok levels'" "length levels' = length levels"
        "\<forall>p < length levels. levels' ! p = fold max (pattern_levels ?pat s (map ((@) (u @ [ch])) (tl (prefixes chs))) p) (?l ! p)"
      using Cons.IH [OF m(1), of ?l] unfolding len by blast
    have "levels' ! p = fold max (pattern_levels ?pat s (map ((@) u) (tl (prefixes (ch # chs)))) p) (levels ! p)" if "p < length levels" for p
      unfolding us using ih(3) that raise_values_spec [of s "?pat (u @ [ch])" levels]
      by (subst pattern_levels_Cons) (simp add: fold_max_raise)
    then show ?thesis
      using ih(1,2) Some m(2) vals by (simp add: edge_map_of [OF ok n] node_at_def)
  qed
qed

lemma scan_starts_spec:
  assumes ok: "trie_ok nodes"
  shows "\<exists>levels'. scan_starts nodes s (drop s w) levels = Ok levels' \<and> length levels' = length levels
    \<and> (\<forall>p < length levels. levels' ! p
        = fold max (concat (map (\<lambda>s. pattern_levels (trie_values nodes 0) s (tl (prefixes (drop s w))) p) [s..<length w])) (levels ! p))"
proof (induction "length w - s" arbitrary: s levels)
  case 0
  then show ?case
    by simp
next
  case (Suc k)
  then have s: "s < length w" and k: "k = length w - Suc s"
    by simp_all
  then have w: "drop s w = w ! s # drop (Suc s) w"
    by (simp add: Cons_nth_drop_Suc)
  let ?pat = "trie_values nodes 0"
  obtain l1 where l1: "scan_from nodes 0 s (drop s w) levels = Ok l1" "length l1 = length levels"
      "\<forall>p < length levels. l1 ! p = fold max (pattern_levels ?pat s (tl (prefixes (drop s w))) p) (levels ! p)"
    using scan_from_spec [OF ok, of "[]" 0 s "drop s w" levels] by (auto simp: map_idI)
  obtain l2 where "scan_starts nodes (Suc s) (drop (Suc s) w) l1 = Ok l2" "length l2 = length levels"
      "\<forall>p < length levels. l2 ! p = fold max (concat (map (\<lambda>s. pattern_levels ?pat s (tl (prefixes (drop s w))) p) [Suc s..<length w])) (l1 ! p)"
    using Suc.hyps(1) [OF k, of l1] l1(2) by auto
  then show ?case
    using l1 s w by (simp add: upt_conv_Cons)
qed

section \<open>Tables built by operations\<close>

text \<open>What a sequence of operations asks for: the last pattern for some letters and the last exception for a word count.\<close>

fun asked_patterns :: "nat \<Rightarrow> HyphenationOp list \<Rightarrow> (nat list \<Rightarrow> nat list) \<Rightarrow> nat list \<Rightarrow> nat list" where
  "asked_patterns l [] pat = pat"
| "asked_patterns l (op # ops) pat = asked_patterns l ops
     (case op of
        OpPattern l' p \<Rightarrow> if l' = l \<and> pt_letters p \<noteq> [] then pat(pt_letters p := pt_values (canonicalize_trie_operation p)) else pat
      | _ \<Rightarrow> pat)"

fun asked_exceptions :: "nat \<Rightarrow> HyphenationOp list \<Rightarrow> (nat list \<rightharpoonup> nat list) \<Rightarrow> (nat list \<rightharpoonup> nat list)" where
  "asked_exceptions l [] exc = exc"
| "asked_exceptions l (op # ops) exc = asked_exceptions l ops
     (case op of
        OpException l' e \<Rightarrow> if l' = l \<and> length (ex_word e) \<ge> 2 then exc(ex_word e \<mapsto> ex_positions e) else exc
      | _ \<Rightarrow> exc)"

definition table_patterns :: "HyphenationTable \<Rightarrow> nat \<Rightarrow> nat list \<Rightarrow> nat list" where
  "table_patterns t l = (case map_of (owner_languages (ht_patterns t)) l of None \<Rightarrow> (\<lambda>u. []) | Some nodes \<Rightarrow> trie_values nodes 0)"

definition patterns_ok :: "HyphenationTable \<Rightarrow> bool" where
  "patterns_ok t \<longleftrightarrow> bt_ok (owner_languages (ht_patterns t)) \<and> (\<forall>(l, nodes) \<in> set (owner_languages (ht_patterns t)). trie_ok nodes)"

lemma trie_ok_default: "trie_ok [trie_node_default]"
  by (simp add: trie_ok_def trie_node_default_def edge_targets_def)

lemma canonicalize_letters [simp]: "pt_letters (canonicalize_trie_operation p) = pt_letters p"
  by (simp add: canonicalize_trie_operation_def Let_def)

lemma trie_values_default: "trie_values [trie_node_default] 0 = (\<lambda>u. [])"
proof
  fix u
  show "trie_values [trie_node_default] 0 u = []"
    by (cases u) (simp_all add: trie_values_def trie_node_default_def)
qed

lemma lift_panic_Ok [simp]: "lift_panic r = Ok a \<longleftrightarrow> r = Ok a"
  by (cases r) (auto simp: lift_panic_def)

lemma add_pattern_refines:
  assumes "add_pattern_for_language t l p = Ok (t', duplicate)" and ok: "patterns_ok t" and "pt_letters p \<noteq> []"
  shows "patterns_ok t'" and "duplicate \<longleftrightarrow> table_patterns t l (pt_letters p) \<noteq> []"
    and "table_patterns t' l' = (if l' = l then (table_patterns t l)(pt_letters p := pt_values (canonicalize_trie_operation p)) else table_patterns t l')"
proof -
  obtain ls where ls: "ht_patterns t = BuildingPatterns ls"
    using assms(1,3) by (cases "ht_patterns t") (auto simp: add_pattern_for_language_def obind_eq_Ok Let_def lift_panic_def split: if_splits)
  let ?nodes = "case map_of ls l of Some nodes \<Rightarrow> nodes | None \<Rightarrow> [trie_node_default]"
  have trie: "trie_ok ?nodes"
    using ok trie_ok_default by (auto simp: patterns_ok_def ls dest!: map_of_SomeD split: option.split)
  have pat: "table_patterns t l = trie_values ?nodes 0"
    by (auto simp: table_patterns_def ls trie_values_default split: option.split)
  obtain nodes' where nodes': "store_pattern ?nodes (canonicalize_trie_operation p) = Ok (nodes', table_patterns t l (pt_letters p) \<noteq> [])"
      "trie_ok nodes'" "trie_values nodes' 0 = (table_patterns t l)(pt_letters p := pt_values (canonicalize_trie_operation p))"
    using store_pattern_spec [OF trie, of "canonicalize_trie_operation p"] unfolding pat canonicalize_letters by blast
  have t': "t' = t\<lparr>ht_patterns := BuildingPatterns (bt_insert l nodes' ls)\<rparr>" and dup: "duplicate \<longleftrightarrow> table_patterns t l (pt_letters p) \<noteq> []"
    using assms(1,3) nodes'(1) by (auto simp: add_pattern_for_language_def obind_eq_Ok Let_def ls split: if_splits)
  show "duplicate \<longleftrightarrow> table_patterns t l (pt_letters p) \<noteq> []"
    by (rule dup)
  show "patterns_ok t'"
    using ok nodes'(2) by (auto simp: patterns_ok_def t' ls dest!: set_bt_insert)
  show "table_patterns t' l' = (if l' = l then (table_patterns t l)(pt_letters p := pt_values (canonicalize_trie_operation p)) else table_patterns t l')"
    using nodes'(3) by (simp add: table_patterns_def t' ls)
qed

lemma add_exception_refines:
  "exception_for_language (fst (add_exception_for_language t l e)) l'
     = (if l' = l \<and> length (ex_word e) \<ge> 2 then (exception_for_language t l)(ex_word e \<mapsto> ex_positions e) else exception_for_language t l')"
  by (auto simp: add_exception_for_language_def exception_for_language_def language_exceptions_def Let_def fun_eq_iff split: option.split)

lemma same_languages:
  "owner_languages (initialize_patterns ps) = owner_languages ps"
  "owner_languages (fst (reopen_empty ps)) = owner_languages ps"
  by (cases ps; simp)+

lemma reopen_frame:
  "\<exists>ps. fst (reopen_empty_patterns t) = t\<lparr>ht_patterns := ps\<rparr> \<and> owner_languages ps = owner_languages (ht_patterns t)"
proof (cases "fst (reopen_empty_patterns t) = t")
  case True
  then show ?thesis
    by (intro exI [of _ "ht_patterns t"]) simp
next
  case False
  then have "fst (reopen_empty_patterns t) = t\<lparr>ht_patterns := fst (reopen_empty (ht_patterns t))\<rparr>"
    by (auto simp: reopen_empty_patterns_def split: prod.splits if_splits)
  then show ?thesis
    using same_languages(2) by blast
qed

lemma view_unchanged:
  assumes "owner_languages (ht_patterns t') = owner_languages (ht_patterns t)"
    and "rt_exceptions (ht_runtime t') = rt_exceptions (ht_runtime t)"
  shows "patterns_ok t' = patterns_ok t \<and> table_patterns t' l = table_patterns t l
    \<and> exception_for_language t' l = exception_for_language t l"
  using assms by (simp add: patterns_ok_def table_patterns_def exception_for_language_def fun_eq_iff)

lemma run_op_refines:
  assumes "run_op op t = Ok t'" and ok: "patterns_ok t"
  shows "patterns_ok t' \<and> table_patterns t' l = asked_patterns l [op] (table_patterns t l)
    \<and> exception_for_language t' l = asked_exceptions l [op] (exception_for_language t l)"
proof (cases op)
  case (OpPattern l' p)
  then obtain duplicate where add: "add_pattern_for_language t l' p = Ok (t', duplicate)"
    using assms(1) by (auto simp: obind_eq_Ok)
  then obtain ps where ps: "t' = t\<lparr>ht_patterns := ps\<rparr>"
    using add_pattern_for_language_frame by blast
  show ?thesis
  proof (cases "pt_letters p = []")
    case True
    then have "t' = t"
      using add by (simp add: add_pattern_for_language_def)
    then show ?thesis
      using ok OpPattern True by simp
  next
    case False
    then show ?thesis
      using add_pattern_refines [OF add ok False] OpPattern ps by (auto simp: exception_for_language_def)
  qed
next
  case (OpException l' e)
  then have "ht_patterns t' = ht_patterns t"
    using assms(1) by (auto simp: add_exception_for_language_def Let_def)
  then show ?thesis
    using assms(1) ok OpException add_exception_refines by (auto simp: patterns_ok_def table_patterns_def)
next
  case OpReopen
  then obtain ps where "t' = t\<lparr>ht_patterns := ps\<rparr>" "owner_languages ps = owner_languages (ht_patterns t)"
    using assms(1) reopen_frame [of t] by auto
  then show ?thesis
    using ok OpReopen view_unchanged [of t' t l] by simp
next
  case (OpProcessCapacity n)
  then show ?thesis
    using assms view_unchanged [of t' t l]
    by (auto simp: select_process_exception_capacity_def set_exception_capacity_with_selection_def Let_def split: if_splits)
next
  case (OpExceptionCapacity n)
  then show ?thesis
    using assms view_unchanged [of t' t l]
    by (auto simp: set_exception_capacity_def set_exception_capacity_with_selection_def Let_def split: if_splits)
qed (use assms view_unchanged [of t' t l] same_languages(1) [of "ht_patterns t"] in
      \<open>auto simp: close_patterns_def save_hyphen_codes_def set_trie_capacity_def Let_def\<close>)

lemma run_ops_refines:
  assumes "run_ops ops t = Ok t'" and "patterns_ok t"
  shows "patterns_ok t' \<and> table_patterns t' l = asked_patterns l ops (table_patterns t l)
    \<and> exception_for_language t' l = asked_exceptions l ops (exception_for_language t l)"
  using assms
proof (induction ops arbitrary: t)
  case (Cons op ops)
  then obtain t1 where t1: "run_op op t = Ok t1" "run_ops ops t1 = Ok t'"
    by (auto simp: obind_eq_Ok)
  note step = run_op_refines [OF t1(1) Cons.prems(2), of l]
  have "patterns_ok t' \<and> table_patterns t' l = asked_patterns l ops (table_patterns t1 l)
      \<and> exception_for_language t' l = asked_exceptions l ops (exception_for_language t1 l)"
    using Cons.IH [OF t1(2)] step by blast
  then show ?case
    using step by simp
qed simp

lemma built_table:
  assumes "run_ops ops hyphenation_new = Ok t"
  shows "patterns_ok t" and "table_patterns t l = asked_patterns l ops (\<lambda>u. [])"
    and "exception_for_language t l = asked_exceptions l ops Map.empty"
proof -
  have "patterns_ok hyphenation_new" and "table_patterns hyphenation_new l = (\<lambda>u. [])"
      and "exception_for_language hyphenation_new l = Map.empty" for l
    by (auto simp: patterns_ok_def table_patterns_def exception_for_language_def hyphenation_new_def runtime_default_def)
  then show "patterns_ok t" "table_patterns t l = asked_patterns l ops (\<lambda>u. [])"
      "exception_for_language t l = asked_exceptions l ops Map.empty"
    using run_ops_refines [OF assms, of l] by simp_all
qed

section \<open>A query follows Liang's rule\<close>

lemma odd_positions_conv:
  "odd_positions levels = map (\<lambda>p. p - 1) (filter (\<lambda>p. odd (levels ! p)) [1..<length levels])"
proof -
  have "enumerate 0 levels = map (\<lambda>i. (i, levels ! i)) [0..<length levels]"
    by (intro nth_equalityI) (auto simp: nth_enumerate_eq)
  then have "odd_positions levels = map (\<lambda>p. p - 1) (filter (\<lambda>p. odd (levels ! p) \<and> p > 0) [0..<length levels])"
    by (simp add: odd_positions_def filter_map comp_def odd_iff_mod_2_eq_one)
  also have "filter (\<lambda>p. odd (levels ! p) \<and> p > 0) [0..<length levels] = filter (\<lambda>p. odd (levels ! p)) [1..<length levels]"
    by (cases "length levels") (auto simp: upt_conv_Cons simp del: upt_Suc intro: filter_cong)
  finally show ?thesis .
qed

lemma liang_positions_empty: "liang_positions (\<lambda>u. []) word = []"
proof -
  have none: "pattern_levels (\<lambda>u. []) s us p = []" "concat (map (\<lambda>s. [] :: nat list) xs) = []" for s us p and xs :: "nat list"
    by (induction us) (auto simp: pattern_levels_def)
  have "liang_level (\<lambda>u. []) w p = 0" for w p
    by (simp add: liang_level_def none)
  then show ?thesis
    by (simp add: liang_positions_def)
qed

lemma scan_levels:
  assumes "trie_ok nodes"
  shows "\<exists>levels. scan_starts nodes 0 w (replicate n 0) = Ok levels \<and> length levels = n
    \<and> (\<forall>p < n. levels ! p = liang_level (trie_values nodes 0) w p)"
  using scan_starts_spec [OF assms, of 0 w "replicate n 0"] by (auto simp: liang_level_def)

lemma query_liang:
  assumes "trie_ok nodes"
  shows "\<exists>levels. scan_starts nodes 0 (DOT # word @ [DOT]) (replicate (length word + 3) 0) = Ok levels
    \<and> odd_positions levels = liang_positions (trie_values nodes 0) word"
proof -
  let ?w = "DOT # word @ [DOT]"
  obtain levels where levels: "scan_starts nodes 0 ?w (replicate (length word + 3) 0) = Ok levels"
      "length levels = length word + 3" "\<forall>p < length word + 3. levels ! p = liang_level (trie_values nodes 0) ?w p"
    using scan_levels [OF assms, of ?w "length word + 3"] by blast
  then have "filter (\<lambda>p. odd (levels ! p)) [1..<length levels] = filter (\<lambda>p. odd (liang_level (trie_values nodes 0) ?w p)) [1..<Suc (length ?w)]"
    by (intro filter_cong) (simp_all add: numeral_3_eq_3 del: upt_Suc)
  then have "odd_positions levels = liang_positions (trie_values nodes 0) word"
    by (simp add: odd_positions_conv liang_positions_def Let_def del: upt_Suc)
  then show ?thesis
    using levels(1) by blast
qed

text \<open>A query depends on the meaning of the table only.\<close>

lemma hyphen_positions_view:
  assumes "patterns_ok t"
  shows "hyphen_positions_for_language t l word left_min right_min = Ok
    (if length word < usize_saturating_add left_min right_min then []
     else filter_bounds
       (case exception_for_language t l word of Some positions \<Rightarrow> positions | None \<Rightarrow> liang_positions (table_patterns t l) word)
       (length word) left_min right_min)"
proof -
  have "liang_positions (table_patterns t l) word = []" if "map_of (owner_languages (ht_patterns t)) l = None"
    using that by (simp add: table_patterns_def liang_positions_empty)
  moreover have "\<exists>levels. scan_starts nodes 0 (DOT # word @ [DOT]) (replicate (length word + 3) 0) = Ok levels
      \<and> odd_positions levels = liang_positions (table_patterns t l) word"
    if "map_of (owner_languages (ht_patterns t)) l = Some nodes" for nodes
    using that query_liang [of nodes word] assms map_of_SomeD [OF that] by (auto simp: table_patterns_def patterns_ok_def)
  ultimately show ?thesis
    by (fastforce simp: hyphen_positions_for_language_def filter_bounds_def Let_def numeral_3_eq_3 split: option.split)
qed

section \<open>Properties\<close>

text \<open>C7. Hyphenation follows Liang's rule. For a table built by any sequence of operations, the positions at which a word is
  hyphenated are the exception last entered for it, or else the gaps at which the greatest value given by any pattern that
  occurs in the word between dots is odd, where for each letter sequence the pattern entered last counts; both limited
  to the required distances from the ends of the word. The query never panics, whatever the patterns.\<close>

theorem hyphenation_follows_liang:
  assumes "run_ops ops hyphenation_new = Ok t"
  shows "hyphen_positions_for_language t l word left_min right_min = Ok
    (if length word < usize_saturating_add left_min right_min then []
     else filter_bounds
       (case asked_exceptions l ops Map.empty word of
          Some positions \<Rightarrow> positions
        | None \<Rightarrow> liang_positions (asked_patterns l ops (\<lambda>u. [])) word)
       (length word) left_min right_min)"
  using hyphen_positions_view [OF built_table(1) [OF assms]] unfolding built_table(2,3) [OF assms] .

text \<open>The word \<open>abab\<close> with the patterns \<open>a1b\<close> and \<open>.a2b\<close>: the second overrides the first at the start of the word.\<close>

definition liang_ops :: "HyphenationOp list" where
  "liang_ops = [OpPattern 0 \<lparr>pt_letters = [97, 98], pt_values = [0, 1, 0]\<rparr>, OpPattern 0 \<lparr>pt_letters = [46, 97, 98], pt_values = [0, 0, 2, 0]\<rparr>]"

theorem hyphenation_follows_liang_witness:
  "\<exists>t. run_ops liang_ops hyphenation_new = Ok t \<and> hyphen_positions_for_language t 0 [97, 98, 97, 98] 1 1 = Ok [3]"
proof -
  have "(case run_ops liang_ops hyphenation_new of Ok t \<Rightarrow> True | _ \<Rightarrow> False)"
    by code_simp
  then obtain t where t: "run_ops liang_ops hyphenation_new = Ok t"
    by (auto split: outcome.splits)
  have parts: "asked_exceptions 0 liang_ops Map.empty [97, 98, 97, 98] = None" "usize_saturating_add 1 1 = 2"
      "liang_positions (asked_patterns 0 liang_ops (\<lambda>u. [])) [97, 98, 97, 98] = [3]"
    by (simp add: liang_ops_def, code_simp, code_simp)
  have "hyphen_positions_for_language t 0 [97, 98, 97, 98] 1 1 = Ok [3]"
    using hyphenation_follows_liang [OF t, of 0 "[97, 98, 97, 98]" 1 1] unfolding parts by (simp add: filter_bounds_def)
  then show ?thesis
    using t by blast
qed

end
