(* ===== verification/Hyphenation_Format.thy ===== *)
theory Hyphenation_Format
  imports Hyphenation_Trie
begin

text \<open>
  Tables in a format: a table built by operations passes the structural part of the validation of frozen tables, and writing
  a table into the rows of a format and reading it back keeps what it means.
\<close>

section \<open>Validation\<close>

lemma count_edges_spec:
  assumes "bt_ok es" and "\<And>p ch. prior = Some p \<Longrightarrow> ch \<in> fst ` set es \<Longrightarrow> p < ch"
    and "\<And>m. m \<in> snd ` set es \<Longrightarrow> m < length incoming"
    and "\<And>i. i < length incoming \<Longrightarrow> incoming ! i + int (count_list (map snd es) i) < 2 ^ 32"
  shows "count_edges es prior incoming = Ok (map (\<lambda>i. incoming ! i + int (count_list (map snd es) i)) [0..<length incoming])"
  using assms
proof (induction es arbitrary: prior incoming)
  case Nil
  then show ?case
    by (simp add: map_nth)
next
  case (Cons e es)
  obtain ch m where e: "e = (ch, m)"
    by (cases e)
  let ?inc = "incoming[m := incoming ! m + 1]"
  have m: "m < length incoming"
    using Cons.prems(3) by (simp add: e)
  have small: "incoming ! m + 1 < 2 ^ 32"
    using Cons.prems(4) [OF m] by (simp add: e)
  have inc: "?inc ! i + int (count_list (map snd es) i) = incoming ! i + int (count_list (map snd (e # es)) i)" if "i < length incoming" for i
    using that m by (auto simp: e nth_list_update)
  have "count_edges es (Some ch) ?inc = Ok (map (\<lambda>i. ?inc ! i + int (count_list (map snd es) i)) [0..<length ?inc])"
  proof (rule Cons.IH)
    show "p < c" if "Some ch = Some p" "c \<in> fst ` set es" for p c
      using Cons.prems(1) that by (auto simp: bt_ok_Cons e)
    show "?inc ! i + int (count_list (map snd es) i) < 2 ^ 32" if "i < length ?inc" for i
      using inc Cons.prems(4) that by simp
  qed (use Cons.prems(1,3) in \<open>auto simp: bt_ok_Cons e\<close>)
  moreover have "\<not> (case prior of None \<Rightarrow> False | Some p \<Rightarrow> p \<ge> ch)"
    using Cons.prems(2) by (auto simp: e not_le split: option.split)
  ultimately show ?case
    using m small inc by (auto simp: e)
qed

lemma count_nodes_spec:
  assumes "\<forall>n \<in> set ns. bt_ok (tn_edges n)" and "\<And>m. m \<in> set (edge_targets ns) \<Longrightarrow> m < length incoming"
    and "\<And>i. i < length incoming \<Longrightarrow> incoming ! i + int (count_list (edge_targets ns) i) < 2 ^ 32"
  shows "count_nodes ns incoming = Ok (map (\<lambda>i. incoming ! i + int (count_list (edge_targets ns) i)) [0..<length incoming])"
  using assms
proof (induction ns arbitrary: incoming)
  case Nil
  then show ?case
    by (simp add: edge_targets_def map_nth)
next
  case (Cons n ns)
  have targets: "edge_targets (n # ns) = map snd (tn_edges n) @ edge_targets ns"
    by (simp add: edge_targets_def)
  let ?inc = "map (\<lambda>i. incoming ! i + int (count_list (map snd (tn_edges n)) i)) [0..<length incoming]"
  have step: "count_edges (tn_edges n) None incoming = Ok ?inc"
  proof (rule count_edges_spec)
    show "incoming ! i + int (count_list (map snd (tn_edges n)) i) < 2 ^ 32" if "i < length incoming" for i
      using Cons.prems(3) [OF that] by (simp add: targets)
  qed (use Cons.prems(1,2) in \<open>auto simp: targets\<close>)
  have "count_nodes ns ?inc = Ok (map (\<lambda>i. ?inc ! i + int (count_list (edge_targets ns) i)) [0..<length ?inc])"
    using Cons.prems by (intro Cons.IH) (auto simp: targets add.assoc)
  then show ?case
    using step by (auto simp: targets)
qed

lemma trie_ok_counts:
  assumes "trie_ok nodes"
  shows "count_list (edge_targets nodes) i = (if 1 \<le> i \<and> i < length nodes then 1 else 0)"
proof -
  have "count_list (edge_targets nodes) i = count (mset [1..<length nodes]) i"
    using assms by (simp add: trie_ok_def count_mset flip: count_mset)
  then show ?thesis
    by (simp add: count_mset_set)
qed

lemma validate_trie_ok:
  assumes "trie_ok nodes"
  shows "validate_trie nodes = Ok ()"
proof -
  note counts = trie_ok_counts [OF assms]
  have n: "nodes \<noteq> []" "\<forall>n \<in> set nodes. bt_ok (tn_edges n)"
    using assms by (auto simp: trie_ok_def)
  have "set (edge_targets nodes) = {1..<length nodes}"
    using assms by (metis atLeastLessThan_upt set_mset_mset trie_ok_def)
  then have "count_nodes nodes (replicate (length nodes) 0) = Ok (map (\<lambda>i. if 1 \<le> i \<and> i < length nodes then 1 else 0) [0..<length nodes])"
    using count_nodes_spec [OF n(2), of "replicate (length nodes) 0"] counts by (simp add: if_distrib cong: map_cong)
  then show ?thesis
    using n(1) by (cases nodes) (auto simp: validate_trie_def list_ex_iff in_set_conv_nth simp del: upt_Suc)
qed

lemma validate_tries_ok: "\<forall>(l, nodes) \<in> set ls. trie_ok nodes \<Longrightarrow> validate_tries ls = Ok ()"
  by (induction ls) (auto simp: validate_trie_ok)

text \<open>The number of exceptions is the recorded one, up to saturation.\<close>

definition exception_count :: "HyphenationRuntime \<Rightarrow> nat" where
  "exception_count r = sum_list (map (\<lambda>e. length (snd e)) (rt_exceptions r))"

definition occupancy_ok :: "HyphenationTable \<Rightarrow> bool" where
  "occupancy_ok t \<longleftrightarrow> bt_ok (rt_exceptions (ht_runtime t))
     \<and> exception_occupied (ht_runtime t) = nat (min (int (exception_count (ht_runtime t))) (2 ^ 64 - 1))"

lemma length_bt_insert: "bt_ok m \<Longrightarrow> length (bt_insert k v m) = length m + (if map_of m k = None then 1 else 0)"
  by (induction k v m rule: bt_insert.induct) (auto simp: bt_ok_Cons dest!: map_of_SomeD)

lemma sum_bt_insert:
  "bt_ok m \<Longrightarrow> sum_list (map (\<lambda>e. length (snd e)) (bt_insert k v m)) + (case map_of m k of None \<Rightarrow> 0 | Some u \<Rightarrow> length u)
     = sum_list (map (\<lambda>e. length (snd e)) m) + length v"
  by (induction k v m rule: bt_insert.induct) (auto simp: bt_ok_Cons dest!: map_of_SomeD split: option.splits)

lemma add_exception_occupancy:
  assumes "occupancy_ok t" and "runtime_ok (ht_runtime t)"
  shows "occupancy_ok (fst (add_exception_for_language t l e))"
proof (cases "length (ex_word e) < 2")
  case True
  then show ?thesis
    using assms by (simp add: add_exception_for_language_def)
next
  case False
  let ?r = "ht_runtime t" and ?m = "language_exceptions (ht_runtime t) l"
  let ?exc = "bt_insert l (bt_insert (ex_word e) (ex_positions e) ?m) (rt_exceptions ?r)"
  have "sum_list (map (\<lambda>e. length (snd e)) ?exc) + length ?m
      = exception_count ?r + length (bt_insert (ex_word e) (ex_positions e) ?m)"
    using sum_bt_insert [of "rt_exceptions ?r" l "bt_insert (ex_word e) (ex_positions e) ?m"] assms(1)
    by (auto simp: occupancy_ok_def exception_count_def language_exceptions_def split: option.splits)
  then have "sum_list (map (\<lambda>e. length (snd e)) ?exc) = exception_count ?r + (if map_of ?m (ex_word e) = None then 1 else 0)"
    using length_bt_insert [OF language_exceptions_ok [OF assms(2), of l], of "ex_word e" "ex_positions e"] by simp
  then show ?thesis
    using False assms(1)
    by (auto simp: add_exception_for_language_def occupancy_ok_def exception_count_def usize_saturating_add_def Let_def)
qed

lemma run_op_occupancy:
  assumes "run_op op t = Ok t'" and "occupancy_ok t" and "runtime_ok (ht_runtime t)"
  shows "occupancy_ok t'"
proof (cases op)
  case (OpPattern l p)
  then obtain ps where "t' = t\<lparr>ht_patterns := ps\<rparr>"
    using assms(1) add_pattern_for_language_frame by (fastforce simp: obind_eq_Ok)
  then show ?thesis
    using assms(2) by (simp add: occupancy_ok_def)
next
  case (OpException l e)
  then show ?thesis
    using assms(1) add_exception_occupancy [OF assms(2,3)] by auto
next
  case OpReopen
  then show ?thesis
    using assms(1,2) reopen_frame [of t] by (auto simp: occupancy_ok_def)
qed (use assms(1,2) in \<open>auto simp: occupancy_ok_def exception_count_def close_patterns_def save_hyphen_codes_def set_trie_capacity_def
      set_exception_capacity_def set_exception_capacity_with_selection_def select_process_exception_capacity_def Let_def split: if_splits\<close>)

lemma run_ops_occupancy:
  assumes "run_ops ops t = Ok t'" and "occupancy_ok t" and "undo_ok (undo_state_of t)"
  shows "occupancy_ok t'"
  using assms
proof (induction ops arbitrary: t)
  case (Cons op ops)
  then obtain t1 where t1: "run_op op t = Ok t1" "run_ops ops t1 = Ok t'"
    by (auto simp: obind_eq_Ok)
  moreover have "undo_ok (undo_state_of t1)"
    using run_op_undone [OF t1(1) Cons.prems(3)] by (auto simp: undone_by_def)
  moreover have "occupancy_ok t1"
    using run_op_occupancy [OF t1(1)] Cons.prems by (simp add: undo_ok_def undo_state_of_def)
  ultimately show ?case
    using Cons.IH by blast
qed simp

section \<open>Format rows\<close>

lemma map_of_add_exception_row:
  "map_of (add_exception_row e rows) l =
     (if l = fst e
      then Some \<lparr>lh_nodes = (case map_of rows l of Some row \<Rightarrow> lh_nodes row | None \<Rightarrow> [trie_node_default]), lh_exceptions = snd e\<rparr>
      else map_of rows l)"
  by (simp add: add_exception_row_def)

lemma fold_add_exception_row:
  "distinct (map fst es) \<Longrightarrow> map_of (fold add_exception_row es rows) l =
     (case map_of es l of
        Some m \<Rightarrow> Some \<lparr>lh_nodes = (case map_of rows l of Some row \<Rightarrow> lh_nodes row | None \<Rightarrow> [trie_node_default]), lh_exceptions = m\<rparr>
      | None \<Rightarrow> map_of rows l)"
proof (induction es arbitrary: rows)
  case (Cons e es)
  show ?case
  proof (cases "l = fst e")
    case True
    then have "map_of es l = None"
      using Cons.prems by (auto simp: map_of_eq_None_iff)
    then show ?thesis
      using Cons True by (cases e) (simp add: map_of_add_exception_row)
  next
    case False
    then show ?thesis
      using Cons by (cases e) (auto simp: map_of_add_exception_row split: option.split)
  qed
qed simp

lemma bt_ok_fold_add_exception_row: "bt_ok rows \<Longrightarrow> bt_ok (fold add_exception_row es rows)"
  by (induction es arbitrary: rows) (auto simp: add_exception_row_def)

lemma fold_bt_insert:
  "distinct (map fst rows) \<Longrightarrow> map_of (fold (\<lambda>(l, row). bt_insert l (f row)) rows m) l
     = (case map_of rows l of Some row \<Rightarrow> Some (f row) | None \<Rightarrow> map_of m l)"
  by (induction rows arbitrary: m) (auto simp: map_of_eq_None_iff rev_image_eqI split: option.split dest!: map_of_SomeD)

lemma bt_ok_fold_bt_insert: "bt_ok m \<Longrightarrow> bt_ok (fold (\<lambda>(l, row). bt_insert l (f row)) rows m)"
  by (induction rows arbitrary: m) auto

lemma fold_bt_insert_if:
  "distinct (map fst rows) \<Longrightarrow> map_of (fold (\<lambda>(l, row) m. if P row then bt_insert l (f row) m else m) rows m) l
     = (case map_of rows l of Some row \<Rightarrow> if P row then Some (f row) else map_of m l | None \<Rightarrow> map_of m l)"
  by (induction rows arbitrary: m) (auto simp: map_of_eq_None_iff rev_image_eqI split: option.split dest!: map_of_SomeD)

lemma bt_ok_fold_bt_insert_if: "bt_ok m \<Longrightarrow> bt_ok (fold (\<lambda>(l, row) m. if P row then bt_insert l (f row) m else m) rows m)"
  by (induction rows arbitrary: m) auto

lemma format_roundtrip_view:
  assumes "patterns_ok t" and "runtime_ok (ht_runtime t)"
  defines "t' \<equiv> deserialize_rows (serialize_rows t)"
  shows "patterns_ok t' \<and> table_patterns t' l = table_patterns t l \<and> rt_exceptions (ht_runtime t') = rt_exceptions (ht_runtime t)"
proof -
  let ?ls = "owner_languages (ht_patterns t)" and ?es = "rt_exceptions (ht_runtime t)"
  let ?rows = "map (\<lambda>(l, nodes). (l, \<lparr>lh_nodes = nodes, lh_exceptions = []\<rparr>)) ?ls"
  let ?all = "fold add_exception_row ?es ?rows"
  have ok: "bt_ok ?ls" "bt_ok ?es" "\<forall>(l, m) \<in> set ?es. m \<noteq> []" "\<forall>(l, nodes) \<in> set ?ls. trie_ok nodes"
    using assms(1,2) by (auto simp: patterns_ok_def runtime_ok_def)
  have keys: "map fst ?rows = map fst ?ls"
    by (simp add: comp_def split_def)
  have rows: "bt_ok ?rows"
    using ok(1) unfolding bt_ok_def keys .
  have all: "bt_ok ?all"
    using rows by (rule bt_ok_fold_add_exception_row)
  have map_rows: "map_of ?rows l = map_option (\<lambda>nodes. \<lparr>lh_nodes = nodes, lh_exceptions = []\<rparr>) (map_of ?ls l)" for l
    by (simp add: map_of_map)
  note map_all = fold_add_exception_row [OF bt_ok_distinct [OF ok(2)], of ?rows]
  let ?ps = "fold (\<lambda>(l, row). bt_insert l (lh_nodes row)) ?all []"
  let ?xs = "fold (\<lambda>(l, row) m. if lh_exceptions row \<noteq> [] then bt_insert l (lh_exceptions row) m else m) ?all []"
  have t': "owner_languages (ht_patterns t') = ?ps" "rt_exceptions (ht_runtime t') = ?xs"
    by (simp_all add: t'_def deserialize_rows_def serialize_rows_def Let_def)
  have ps: "map_of ?ps l = (case map_of ?ls l of Some nodes \<Rightarrow> Some nodes
      | None \<Rightarrow> if map_of ?es l = None then None else Some [trie_node_default])" for l
    using fold_bt_insert [OF bt_ok_distinct [OF all], of lh_nodes "[]" l] map_all [of l] map_rows [of l]
    by (auto split: option.splits)
  have "map_of ?xs l = map_of ?es l" for l
    using fold_bt_insert_if [OF bt_ok_distinct [OF all], of "\<lambda>row. lh_exceptions row \<noteq> []" lh_exceptions "[]" l] map_all [of l] map_rows [of l] ok(3)
    by (auto split: option.splits dest!: map_of_SomeD)
  then have xs: "?xs = ?es"
    using bt_ok_fold_bt_insert_if [of "[]"] ok(2) by (intro bt_ext) (auto simp: fun_eq_iff)
  have psok: "bt_ok ?ps"
    by (rule bt_ok_fold_bt_insert) simp
  have "trie_ok nodes" if "(l, nodes) \<in> set ?ps" for l nodes
    using bt_ok_map_of [OF psok that] ok(4) trie_ok_default by (auto simp: ps split: option.splits if_splits dest!: map_of_SomeD)
  then show ?thesis
    using psok xs t' ps [of l] by (auto simp: patterns_ok_def table_patterns_def trie_values_default split: option.split)
qed

section \<open>Properties\<close>

text \<open>C16. The validation of frozen tables never fails on the structure of a table built by operations: it accepts such a table
  exactly when its exceptions and its trie nodes are within their capacities and no exception has a position beyond its
  word. In particular the recorded number of exceptions is the number of entries, edges are in order, and every trie is
  a tree with the root at its first node.\<close>

theorem frozen_tables_validate:
  assumes "run_ops ops hyphenation_new = Ok t" and "int (exception_capacity (ht_runtime t)) < 2 ^ 64"
  shows "validate_frozen t = Ok () \<longleftrightarrow>
    exception_count (ht_runtime t) \<le> exception_capacity (ht_runtime t)
    \<and> trie_size (owner_languages (ht_patterns t)) \<le> ht_trie_capacity t
    \<and> \<not> list_ex (\<lambda>(l, m). list_ex exception_invalid m) (rt_exceptions (ht_runtime t))"
proof -
  have "occupancy_ok hyphenation_new" "undo_ok (undo_state_of hyphenation_new)"
    by (simp_all add: occupancy_ok_def exception_count_def hyphenation_new_def runtime_default_def undo_ok_def undo_state_of_def runtime_ok_def)
  then have "occupancy_ok t"
    using run_ops_occupancy [OF assms(1)] by blast
  then have occupied: "exception_occupied (ht_runtime t) = exception_count (ht_runtime t)"
    if "exception_count (ht_runtime t) \<le> exception_capacity (ht_runtime t)"
    using assms(2) that by (simp add: occupancy_ok_def)
  have tries: "validate_tries (owner_languages (ht_patterns t)) = Ok ()"
    using built_table(1) [OF assms(1)] by (intro validate_tries_ok) (simp add: patterns_ok_def)
  show ?thesis
    using occupied by (cases "exception_count (ht_runtime t) \<le> exception_capacity (ht_runtime t)")
      (simp_all add: validate_frozen_def tries flip: exception_count_def)
qed

text \<open>C17. A table survives a format: for a table built by operations, the table read back from its format rows hyphenates every
  word of every language at the same positions and has the same exceptions, saved codes and exception count.\<close>

theorem format_keeps_hyphenation:
  assumes "run_ops ops hyphenation_new = Ok t"
  shows "hyphen_positions_for_language (deserialize_rows (serialize_rows t)) l word left_min right_min
      = hyphen_positions_for_language t l word left_min right_min
    \<and> exception_for_language (deserialize_rows (serialize_rows t)) l = exception_for_language t l
    \<and> saved_hyphen_code (deserialize_rows (serialize_rows t)) l = saved_hyphen_code t l
    \<and> exception_occupied (ht_runtime (deserialize_rows (serialize_rows t))) = exception_occupied (ht_runtime t)"
proof -
  let ?t = "deserialize_rows (serialize_rows t)"
  have ok: "patterns_ok t" "runtime_ok (ht_runtime t)"
    using built_table(1) [OF assms] reachable_undo_ok [OF assms] by (simp_all add: undo_ok_def undo_state_of_def)
  note view = format_roundtrip_view [OF ok, of l]
  have exc: "exception_for_language ?t l = exception_for_language t l"
    using view by (simp add: exception_for_language_def fun_eq_iff)
  have ok': "patterns_ok ?t" and pat: "table_patterns ?t l = table_patterns t l"
    using view by blast+
  have "hyphen_positions_for_language ?t l word left_min right_min = hyphen_positions_for_language t l word left_min right_min"
    by (simp only: hyphen_positions_view [OF ok(1)] hyphen_positions_view [OF ok'] exc pat)
  then show ?thesis
    using exc by (simp add: saved_hyphen_code_def fun_eq_iff deserialize_rows_def serialize_rows_def Let_def)
qed

subsection \<open>Witnesses\<close>

definition format_ops :: "HyphenationOp list" where
  "format_ops = [OpPattern 0 \<lparr>pt_letters = [97, 98], pt_values = [0, 1, 0]\<rparr>, OpPattern 0 \<lparr>pt_letters = [97, 99], pt_values = [0, 1, 0]\<rparr>,
     OpException 1 \<lparr>ex_word = [98, 97], ex_positions = [1]\<rparr>]"

lemma format_table:
  "\<exists>t. run_ops format_ops hyphenation_new = Ok t \<and> exception_capacity (ht_runtime t) = 307 \<and> exception_count (ht_runtime t) = 1
     \<and> trie_size (owner_languages (ht_patterns t)) = 4 \<and> ht_trie_capacity t = 8000
     \<and> \<not> list_ex (\<lambda>(l, m). list_ex exception_invalid m) (rt_exceptions (ht_runtime t))"
proof -
  have "(case run_ops format_ops hyphenation_new of
      Ok t \<Rightarrow> exception_capacity (ht_runtime t) = 307 \<and> exception_count (ht_runtime t) = 1 \<and> trie_size (owner_languages (ht_patterns t)) = 4
        \<and> ht_trie_capacity t = 8000 \<and> \<not> list_ex (\<lambda>(l, m). list_ex exception_invalid m) (rt_exceptions (ht_runtime t))
    | _ \<Rightarrow> False)"
    by code_simp
  then show ?thesis
    by (auto split: outcome.splits)
qed

theorem frozen_tables_validate_witness:
  "\<exists>t. run_ops format_ops hyphenation_new = Ok t \<and> validate_frozen t = Ok ()"
proof -
  obtain t where t: "run_ops format_ops hyphenation_new = Ok t" "exception_capacity (ht_runtime t) = 307" "exception_count (ht_runtime t) = 1"
      "trie_size (owner_languages (ht_patterns t)) = 4" "ht_trie_capacity t = 8000"
      "\<not> list_ex (\<lambda>(l, m). list_ex exception_invalid m) (rt_exceptions (ht_runtime t))"
    using format_table by blast
  then show ?thesis
    using frozen_tables_validate [OF t(1)] by auto
qed

theorem format_keeps_hyphenation_witness:
  "\<exists>t. run_ops format_ops hyphenation_new = Ok t
     \<and> hyphen_positions_for_language (deserialize_rows (serialize_rows t)) 0 [98, 97, 98] 1 1 = hyphen_positions_for_language t 0 [98, 97, 98] 1 1
     \<and> exception_for_language (deserialize_rows (serialize_rows t)) 1 = exception_for_language t 1"
proof -
  obtain t where t: "run_ops format_ops hyphenation_new = Ok t"
    using format_table by blast
  then show ?thesis
    using format_keeps_hyphenation [OF t, of 0] format_keeps_hyphenation [OF t, of 1] by blast
qed

end
