(* ===== verification/Spec2Isabelle.thy ===== *)
theory Spec2Isabelle
  imports Decimal_Scaled Glue_Ratio Tfm_Scale Pdf_Number Token_Words Vertical_Break Alignment_Plan Node_Ops
    Math_Boundary Dvi_Traversal Page_Geometry_Facts Line_Final Line_Post
    Hyphenation_Format
begin

text \<open>
  \<^bold>\<open>Umber: a verification library for the core of the typesetter.\<close>

  Umber is a TeX engine in Rust. Tokens are packed words (\<^verbatim>\<open>crates/tex-state/src/token.rs\<close>); material is a tree of
  nodes (\<^verbatim>\<open>tex-state/src/node.rs\<close>) whose dimensions are scaled points (\<^verbatim>\<open>tex-arith\<close>); the kernels of
  \<^verbatim>\<open>tex-typeset\<close> measure, pack, break and align lists of nodes; shipout turns a packed page into an artifact that
  \<^verbatim>\<open>tex-out\<close> writes as DVI, PDF or HTML. The library follows that order, one theory per component, and each
  theory has its definitions first and its theorems after them.

  \<^bold>\<open>Conventions.\<close> Rust integers are \<open>int\<close> with a range predicate, or words where their bits matter (tokens, bytes).
  A call that can fail has type \<open>outcome\<close>: \<open>Ok\<close>, \<open>Err\<close>, or \<open>Panic\<close> for a failed assertion, \<open>expect\<close> or index.
  Structs are records, enums are datatypes with the constructors of the source, mutation is state passing, loops
  are structural recursion or recursion with a termination proof. Names are the source's, prefixed where HOL or
  another component has the name.

  \<^bold>\<open>Arithmetic\<close> (\<^verbatim>\<open>crates/tex-arith/src/lib.rs\<close>).
  \<^item> \<open>Umber_Prelude\<close>: machine integers, truncating division, \<open>outcome\<close>, shared lemmas.
  \<^item> \<open>Scaled_Arith\<close>: scaled points, TeX's division routines and rounding; each routine equals the exact
    integer operation, with its exact failure conditions. The locale \<open>nearest_division\<close> is the contract of a
    rounding division; both roundings of the source are interpretations of it.
  \<^item> \<open>Decimal_Scaled\<close>: decimal input and output of dimensions; printing reads back.
  \<^item> \<open>Glue_Ratio\<close>: glue-set ratios, kept in lowest terms.
  \<^item> \<open>Tfm_Scale\<close>: font sizes and fix-word scaling. \<open>Pdf_Number\<close>: the PDF number parser; floating point is a
    parameter.

  \<^bold>\<open>Tokens\<close> (\<^verbatim>\<open>tex-state/src/token.rs\<close>).
  \<^item> \<open>Token_Words\<close>: packed tokens, origins and traced words; the locale \<open>packed_code\<close> states what an
    encoding promises and is interpreted for category codes, primitives, tokens, origins and traced words.

  \<^bold>\<open>Hyphenation\<close> (\<^verbatim>\<open>tex-state/src/hyphenation.rs\<close>, \<^verbatim>\<open>hyphenation/storage.rs\<close>).
  \<^item> \<open>Ordered_Map\<close>: the ordered maps of the source, with the locales \<open>keyed_store\<close> (exchanging an entry twice restores the
    map) and \<open>reversible\<close> (a journal of exchanges can be undone and redone). \<open>Hyphenation\<close>: the table with all its
    operations. \<open>Hyphenation_Journal\<close> interprets \<open>reversible\<close> for the table's journal: checkpoints restore exactly, and a
    rejected candidate gives back the accepted table apart from its trie capacity. \<open>Hyphenation_Trie\<close>: the trie refines a
    map from letters to values and a query is Liang's rule over that map. \<open>Hyphenation_Format\<close>: validation accepts the
    structure of every table that operations build, and a format keeps the meaning of a table.

  \<^bold>\<open>Nodes\<close> (\<^verbatim>\<open>tex-state/src/node.rs\<close>, \<^verbatim>\<open>math.rs\<close>, \<^verbatim>\<open>glue.rs\<close>, \<^verbatim>\<open>node_view/view.rs\<close>).
  \<^item> \<open>Node_Model\<close>: nodes with all their payloads and the borrowed views. \<open>Node_Ops\<close>: mapping and visiting of
    child lists and payloads agree with each other, resolution fails exactly on an unresolved coordinate, equality
    is equality after erasing diagnostics, views lose nothing. \<open>Math_Boundary\<close>: the nesting counters of math
    boundaries are zero exactly on well nested sequences.

  \<^bold>\<open>Typesetting kernels\<close> (\<^verbatim>\<open>crates/tex-typeset/src\<close>).
  \<^item> \<open>List_Metrics\<close>: the accumulators of list dimensions. \<open>Packing\<close>: \<open>hpack\<close>, \<open>vpack\<close>, \<open>vtop\<close> and glue setting;
    glue setting fills the box or reports exactly the overfull excess. The locale \<open>exact_accumulator\<close> is the
    contract between a measuring step and the sum it computes. \<open>Vertical_Break\<close>: \<open>vert_break\<close> returns the
    cheapest legal breakpoint. \<open>Alignment_Plan\<close>: planned column widths fit every requirement and are tight; the
    planner terminates without panic.
  \<^item> \<open>Font_Expansion\<close> (\<^verbatim>\<open>expansion.rs\<close>): the discrete ratio of a font is the legal one nearest to the request.
    \<open>Protrusion\<close> (\<^verbatim>\<open>protrusion.rs\<close>): edge characters and margin kerns; the cache of a pass and the coordinate plan
    agree with the direct computations.

  \<^bold>\<open>Line breaking\<close> (\<^verbatim>\<open>crates/tex-typeset/src/linebreak\<close>).
  \<^item> \<open>Line_Widths\<close> (\<^verbatim>\<open>widths.rs\<close>): width totals and the badness of a line. \<open>Break_Sites\<close> (\<^verbatim>\<open>mod.rs\<close>): parameters, line
    shapes and the legal breakpoints of a paragraph, in increasing order. \<open>Line_Break\<close> (\<^verbatim>\<open>mod.rs\<close>): candidates, demerits,
    the passes and the chosen route.
  \<^item> \<open>Line_Optimal\<close>: a pass refines an abstract search over all feasible routes. The candidates kept at each site cover
    every open route, so a returned plan has least demerits, and no plan means no feasible route. \<open>Line_Final\<close>: when the
    final pass returns, and two kinds of paragraph on which it panics instead.
  \<^item> \<open>Line_Post\<close> (\<^verbatim>\<open>post.rs\<close>): the lines made from the breaks; no essential node is lost or invented, directions are
    balanced on every line, and the plan of a pass always gives such lines.

  \<^bold>\<open>Output\<close> (\<^verbatim>\<open>crates/tex-out/src\<close>).
  \<^item> \<open>Page_Model\<close>: the shipped page (\<^verbatim>\<open>model.rs\<close>). \<open>Page_Geometry\<close>: glue in the reference's double precision,
    leaders, snapping (\<^verbatim>\<open>dvi/glue.rs\<close>, \<^verbatim>\<open>geometry.rs\<close>, \<^verbatim>\<open>snapping.rs\<close>); \<open>Page_Geometry_Facts\<close> bounds the rounding
    error, shows that it never drifts, and characterises leader and snapping positions.
  \<^item> \<open>Dvi_Movement\<close>: the movement stacks and the state of the page compiler (\<^verbatim>\<open>dvi/movement.rs\<close>, \<^verbatim>\<open>dvi.rs\<close>).
    \<open>Dvi_Replay\<close> refines them to a reader with DVI registers: although earlier opcodes are rewritten, every
    command is read at the position it was written for, and no rewrite leaves the page.
  \<^item> \<open>Dvi_Page\<close>: the page compiler (\<^verbatim>\<open>dvi/traversal.rs\<close>, \<^verbatim>\<open>leaders.rs\<close>, \<^verbatim>\<open>fonts.rs\<close>, \<^verbatim>\<open>framing.rs\<close>, \<^verbatim>\<open>plan.rs\<close>), a loop over a
    stack of pending actions. \<open>Page_Draw\<close> is its specification, a recursion over boxes that draws items at
    positions. \<open>Dvi_Traversal\<close> is the refinement: the loop ends for every page, does not panic, and its bytes are
    read as exactly the drawing of the page.
  \<^bold>\<open>Bounds and fuel.\<close> The loop of the page compiler is a partial function whose value is \<open>None\<close> when it does not
  end, and it is shown never to be. Two loops of line breaking have fuel: the chain of passive nodes, with one unit more than
  there are nodes, and the loop over lines, with one unit more than there are breaks; the theorems of \<open>Line_Optimal\<close> and
  \<open>Line_Post\<close> state that a result is returned. Machine widths are kept where the source can reach them: checked
  operations return their failure, unchecked \<open>i32\<close> operations wrap (\<open>wrap32\<close>), and the 128-bit intermediates of
  \<open>Page_Geometry\<close> stay below \<open>2 ^ 128\<close> because their operands have 32 bits and their shifts at most 84.

  \<^bold>\<open>Not modelled.\<close> The durable and fork arenas, the universe with its generations, formats, the world and its
  effect journal are memory management and I/O below and around the logical values modelled here. Command
  processing and main control run over that live universe. Of line breaking, traced runs (a second run that adds
  diagnostics), tapes over arena ranges and the lineages carried for diagnostics are left out; the rewriting of a paragraph
  with discretionaries at the positions of the hyphenation table is a parameter of it. Appendix G
  conversion, the save stack and the page builder read and write through handles of that universe and have no self-contained core that the definitions here could follow line by line. The PDF and HTML writers, fonts, the
  bibliography programs, the virtual file system and the front ends are separate programs or host glue.
\<close>

end
